(* ===== verification/Prelude.thy ===== *)
theory Prelude
  imports Main "HOL-Library.Char_ord" "HOL-Library.List_Lexorder"
begin

text \<open>
  Shared vocabulary of the development: the Go types every component uses (strings as
  byte lists, UUIDs, instants and durations), the parts of the Go standard library the
  sources call on strings and instants, association lists for Go maps and SQL tables, and
  the generic lemmas on lists and filters that the component proofs rest on.
\<close>

section \<open>Collections of facts\<close>

named_theorems auth_simps "equations that unfold authentication and authorization"
named_theorems table_simps "laws of the table operations"

section \<open>Types\<close>

text \<open>
  A Go string is a byte sequence, and so is \<^typ>\<open>string\<close>. A UUID is a 128-bit value that
  the code only compares; the zero UUID is 0. An instant (\<^verbatim>\<open>time.Time\<close>) is counted in
  nanoseconds, and so is a \<^verbatim>\<open>time.Duration\<close>, which Go stores in 64 signed bits.
\<close>

type_synonym uuid = nat
type_synonym instant = int
type_synonym duration = int

definition max_duration :: duration where
  "max_duration = 2 ^ 63 - 1"

definition min_duration :: duration where
  "min_duration = - (2 ^ 63)"

text \<open>\<^verbatim>\<open>time.Time.Sub\<close> saturates: a difference that does not fit a duration becomes the
  largest or smallest one.\<close>

definition time_sub :: "instant \<Rightarrow> instant \<Rightarrow> duration" where
  "time_sub t u = max min_duration (min max_duration (t - u))"

definition second :: duration where
  "second = 1000000000"

definition is_duration :: "duration \<Rightarrow> bool" where
  "is_duration d \<longleftrightarrow> min_duration \<le> d \<and> d \<le> max_duration"

lemma time_sub_is_duration: "is_duration (time_sub t u)"
  by (simp add: is_duration_def time_sub_def min_duration_def max_duration_def)

text \<open>Comparing a saturated difference against a duration is comparing the true
  difference: saturation cannot change the outcome of such a test.\<close>

lemma time_sub_ge:
  "is_duration d \<Longrightarrow> d \<le> time_sub t u \<longleftrightarrow> d \<le> t - u \<or> d = min_duration"
  by (auto simp: is_duration_def time_sub_def min_duration_def max_duration_def)

lemma time_sub_less:
  "is_duration d \<Longrightarrow> time_sub t u < d \<longleftrightarrow> t - u < d \<and> d \<noteq> min_duration"
  by (auto simp: is_duration_def time_sub_def min_duration_def max_duration_def)

section \<open>Strings\<close>

definition has_prefix :: "string \<Rightarrow> string \<Rightarrow> bool" where
  "has_prefix s p \<longleftrightarrow> take (length p) s = p"

definition has_suffix :: "string \<Rightarrow> string \<Rightarrow> bool" where
  "has_suffix s p \<longleftrightarrow> has_prefix (rev s) (rev p)"

definition ascii_lower :: "char \<Rightarrow> char" where
  "ascii_lower c =
     (if 65 \<le> (of_char c :: nat) \<and> (of_char c :: nat) \<le> 90
      then char_of ((of_char c :: nat) + 32) else c)"

text \<open>
  \<^verbatim>\<open>strings.EqualFold\<close>, used by the sources only against the literal prefix
  ``Bearer '' and only on a slice of the same number of bytes. No character outside ASCII
  folds to one of its letters, so folding ASCII letters is exact there.
\<close>

definition equal_fold :: "string \<Rightarrow> string \<Rightarrow> bool" where
  "equal_fold s t \<longleftrightarrow> map ascii_lower s = map ascii_lower t"

text \<open>
  \<^verbatim>\<open>strings.TrimSpace\<close> removes the characters of Unicode's White\_Space property from
  both ends. Each is listed by its UTF-8 encoding; a leading byte of an encoding is never a
  continuation byte, so matching an encoding at the end of the byte string is what decoding
  the last rune does.
\<close>

definition bytes :: "nat list \<Rightarrow> string" where
  "bytes ns = map char_of ns"

definition white_space :: "string list" where
  "white_space = map bytes
     ([[9], [10], [11], [12], [13], [32], [194, 133], [194, 160], [225, 154, 128],
       [226, 128, 168], [226, 128, 169], [226, 128, 175], [226, 129, 159], [227, 128, 128]]
      @ map (\<lambda>n. [226, 128, n]) [128..<139])"

fun strip_one :: "string list \<Rightarrow> string \<Rightarrow> string option" where
  "strip_one [] s = None"
| "strip_one (w # ws) s =
     (if w \<noteq> [] \<and> has_prefix s w then Some (drop (length w) s) else strip_one ws s)"

lemma strip_one_shorter: "strip_one ws s = Some t \<Longrightarrow> length t < length s"
proof (induction ws)
  case Nil
  then show ?case by simp
next
  case (Cons w ws)
  have "length w \<le> length s" if "has_prefix s w"
    using that by (metis has_prefix_def length_take min.cobounded1)
  with Cons show ?case by (cases w) (auto split: if_splits)
qed

function trim_left :: "string list \<Rightarrow> string \<Rightarrow> string" where
  "trim_left ws s = (case strip_one ws s of None \<Rightarrow> s | Some t \<Rightarrow> trim_left ws t)"
  by pat_completeness auto
termination
  by (relation "measure (length \<circ> snd)") (auto dest: strip_one_shorter)

declare trim_left.simps [simp del]

definition trim_space :: "string \<Rightarrow> string" where
  "trim_space s =
     rev (trim_left (map rev white_space) (rev (trim_left white_space s)))"

lemma trim_left_Nil [simp]: "trim_left ws [] = []"
proof -
  have "strip_one ws [] = None"
    by (induction ws) (auto simp: has_prefix_def)
  then show ?thesis by (subst trim_left.simps) simp
qed

lemma trim_space_Nil [simp]: "trim_space [] = []"
  by (simp add: trim_space_def)

text \<open>A text that begins and ends in a printing ASCII character has nothing to trim, which
  evaluation tries first.\<close>

definition printing :: "char \<Rightarrow> bool" where
  "printing c \<longleftrightarrow> 32 < (of_char c :: nat) \<and> (of_char c :: nat) < 128"

lemma strip_one_printing:
  "s \<noteq> [] \<Longrightarrow> printing (hd s) \<Longrightarrow> \<forall>w \<in> set ws. w \<noteq> [] \<longrightarrow> \<not> printing (hd w) \<Longrightarrow> strip_one ws s = None"
proof (induction ws)
  case (Cons w ws)
  have "\<not> has_prefix s w" if "w \<noteq> []"
    using Cons.prems that by (cases s; cases w) (auto simp: has_prefix_def)
  with Cons show ?case by (cases "w = []") simp_all
qed simp

lemma trim_left_printing:
  "s \<noteq> [] \<Longrightarrow> printing (hd s) \<Longrightarrow> \<forall>w \<in> set ws. w \<noteq> [] \<longrightarrow> \<not> printing (hd w) \<Longrightarrow> trim_left ws s = s"
  by (subst trim_left.simps) (simp add: strip_one_printing)

lemma white_space_not_printing:
  "\<forall>w \<in> set white_space. w \<noteq> [] \<longrightarrow> \<not> printing (hd w) \<and> \<not> printing (last w)"
  by (auto simp: white_space_def bytes_def printing_def)

lemma trim_space_code [code]:
  "trim_space s =
     (if s \<noteq> [] \<and> printing (hd s) \<and> printing (last s) then s
      else rev (trim_left (map rev white_space) (rev (trim_left white_space s))))"
proof (cases "s \<noteq> [] \<and> printing (hd s) \<and> printing (last s)")
  case True
  have "trim_left white_space s = s"
    using True white_space_not_printing by (intro trim_left_printing) auto
  moreover have "trim_left (map rev white_space) (rev s) = rev s"
    using True white_space_not_printing by (intro trim_left_printing) (auto simp: hd_rev)
  ultimately show ?thesis using True by (simp add: trim_space_def)
qed (auto simp: trim_space_def)

lemma has_prefix_append [simp]: "has_prefix (p @ s) p"
  by (simp add: has_prefix_def)

lemma has_prefix_length: "has_prefix s p \<Longrightarrow> length p \<le> length s"
  by (metis has_prefix_def length_take min.cobounded1)

text \<open>Decimal rendering of a non-negative integer, as \<^verbatim>\<open>%d\<close> and \<^verbatim>\<open>strconv.Itoa\<close>.\<close>

fun show_nat :: "nat \<Rightarrow> string" where
  "show_nat n =
     (if n < 10 then [char_of (48 + n)] else show_nat (n div 10) @ [char_of (48 + n mod 10)])"

declare show_nat.simps [simp del]

text \<open>\<^verbatim>\<open>base64.RawURLEncoding.EncodeToString\<close>: three bytes become four characters of the
  URL-safe alphabet, a shorter last group becomes two or three, without padding.\<close>

definition base64_char :: "nat \<Rightarrow> char" where
  "base64_char n = char_of
     (if n < 26 then 65 + n else if n < 52 then 71 + n else if n < 62 then n - 4
      else if n = 62 then 45 else (95 :: nat))"

fun base64_digits :: "nat list \<Rightarrow> nat list" where
  "base64_digits [] = []"
| "base64_digits [a] = [a div 4, (a mod 4) * 16]"
| "base64_digits [a, b] = [a div 4, (a mod 4) * 16 + b div 16, (b mod 16) * 4]"
| "base64_digits (a # b # c # r) =
     [a div 4, (a mod 4) * 16 + b div 16, (b mod 16) * 4 + c div 64, c mod 64]
     @ base64_digits r"

definition base64_raw_url :: "nat list \<Rightarrow> string" where
  "base64_raw_url bs = map base64_char (base64_digits bs)"

section \<open>Maps\<close>

text \<open>
  A Go map whose contents the model inspects or iterates is an association list. The zero
  value is read where a key is missing, as indexing a Go map does.
\<close>

type_synonym ('k, 'v) alist = "('k \<times> 'v) list"

definition put :: "'k \<Rightarrow> 'v \<Rightarrow> ('k, 'v) alist \<Rightarrow> ('k, 'v) alist" where
  "put k v m = (k, v) # filter (\<lambda>(k', _). k' \<noteq> k) m"

definition del :: "'k \<Rightarrow> ('k, 'v) alist \<Rightarrow> ('k, 'v) alist" where
  "del k m = filter (\<lambda>(k', _). k' \<noteq> k) m"

lemma map_of_filter_key:
  "map_of (filter (\<lambda>(k, _). P k) m) k = (if P k then map_of m k else None)"
  by (induction m) auto

lemma map_of_put [simp, table_simps]: "map_of (put k v m) = (map_of m)(k \<mapsto> v)"
  by (auto simp: put_def map_of_filter_key fun_eq_iff)

lemma map_of_del [simp, table_simps]: "map_of (del k m) = (map_of m)(k := None)"
  by (auto simp: del_def map_of_filter_key fun_eq_iff)

lemma distinct_keys_filter:
  "distinct (map fst m) \<Longrightarrow> distinct (map fst (filter P m))"
  by (induction m) auto

lemma distinct_put: "distinct (map fst m) \<Longrightarrow> distinct (map fst (put k v m))"
  by (auto simp: put_def distinct_keys_filter)

lemma distinct_del: "distinct (map fst m) \<Longrightarrow> distinct (map fst (del k m))"
  by (simp add: del_def distinct_keys_filter)

lemma length_put: "length (put k v m) \<le> Suc (length m)"
  by (simp add: put_def)

section \<open>Lists\<close>

lemma find_None_iff_list: "find P xs = None \<longleftrightarrow> (\<forall>x \<in> set xs. \<not> P x)"
  by (auto simp: find_None_iff)

lemma find_SomeD: "find P xs = Some x \<Longrightarrow> x \<in> set xs \<and> P x"
  by (auto simp: find_Some_iff)

lemma find_append:
  "find P (xs @ ys) = (case find P xs of None \<Rightarrow> find P ys | Some x \<Rightarrow> Some x)"
  by (induction xs) auto

text \<open>Searching from the back finds the last match.\<close>

lemma find_rev_iff:
  "find P (rev xs) = Some x \<longleftrightarrow>
     (\<exists>i < length xs. x = xs ! i \<and> P (xs ! i) \<and> (\<forall>j. i < j \<and> j < length xs \<longrightarrow> \<not> P (xs ! j)))"
proof (induction xs rule: rev_induct)
  case Nil
  then show ?case by simp
next
  case (snoc y ys)
  then show ?case by (auto simp: nth_append less_Suc_eq)
qed

lemma map_find_rev_iff:
  "map_option f (find P (rev xs)) = Some y \<longleftrightarrow>
     (\<exists>i < length xs. y = f (xs ! i) \<and> P (xs ! i)
        \<and> (\<forall>j. i < j \<and> j < length xs \<longrightarrow> \<not> P (xs ! j)))"
  by (auto simp: find_rev_iff)

text \<open>The first match of a priority list sorted in descending order has the highest
  priority of all matches.\<close>

lemma find_sorted_best:
  fixes f :: "'a \<Rightarrow> 'b::linorder"
  assumes "sorted_wrt (\<lambda>x y. f y \<le> f x) xs" and "find P xs = Some x"
    and "y \<in> set xs" and "P y"
  shows "f y \<le> f x"
  using assms
proof (induction xs)
  case Nil
  then show ?case by simp
next
  case (Cons z zs)
  then show ?case by (cases "P z") auto
qed

text \<open>\<^verbatim>\<open>strconv.Atoi\<close> on a 64-bit platform: an optional sign, at least one digit, nothing else, and
  a value that fits.\<close>

definition digit_value :: "char \<Rightarrow> nat option" where
  "digit_value c = (let n = of_char c in if 48 \<le> n \<and> n \<le> 57 then Some (n - 48) else None)"

fun digits_value :: "nat \<Rightarrow> string \<Rightarrow> nat option" where
  "digits_value acc [] = Some acc"
| "digits_value acc (c # cs) =
     (case digit_value c of None \<Rightarrow> None | Some n \<Rightarrow> digits_value (acc * 10 + n) cs)"

definition atoi :: "string \<Rightarrow> int option" where
  "atoi s =
     (let (neg, ds) = (case s of [] \<Rightarrow> (False, [])
                       | c # cs \<Rightarrow> if c = CHR ''-'' then (True, cs) else if c = CHR ''+'' then (False, cs) else (False, s))
      in if ds = [] then None
         else case digits_value 0 ds of
             None \<Rightarrow> None
           | Some n \<Rightarrow> let i = (if neg then - int n else int n)
                      in if - (2 ^ 63) \<le> i \<and> i < 2 ^ 63 then Some i else None)"


section \<open>Errors and transactions\<close>

text \<open>
  A call that returns an error or a value is a sum; a sequence of such calls stops at the first
  error. Inside a transaction each call also takes the tables and, unless it fails, returns them.
  The collection \<open>returns_iff\<close> turns the success of a sequence into the success of its parts.
\<close>

named_theorems returns_iff "when a sequence of fallible calls returns"

definition sbind :: "'e + 'a \<Rightarrow> ('a \<Rightarrow> 'e + 'b) \<Rightarrow> 'e + 'b" where
  "sbind m k = (case m of Inl e \<Rightarrow> Inl e | Inr x \<Rightarrow> k x)"

definition ensure :: "bool \<Rightarrow> 'e \<Rightarrow> 'e + unit" where
  "ensure c e = (if c then Inr () else Inl e)"

definition or_error :: "'a option \<Rightarrow> 'e \<Rightarrow> 'e + 'a" where
  "or_error x e = (case x of None \<Rightarrow> Inl e | Some v \<Rightarrow> Inr v)"

lemma sbind_simps [simp]: "sbind (Inl e) k = Inl e" "sbind (Inr x) k = k x"
  by (simp_all add: sbind_def)

lemma ensure_simps [simp]: "ensure True e = Inr ()" "ensure False e = Inl e"
  by (simp_all add: ensure_def)

lemma or_error_simps [simp]: "or_error None e = Inl e" "or_error (Some v) e = Inr v"
  by (simp_all add: or_error_def)

lemma sbind_returns [returns_iff]: "sbind m k = Inr y \<longleftrightarrow> (\<exists>x. m = Inr x \<and> k x = Inr y)"
  by (cases m) auto

lemma ensure_returns [returns_iff]: "ensure c e = Inr u \<longleftrightarrow> c"
  by (cases c) auto

lemma or_error_returns [returns_iff]: "or_error x e = Inr v \<longleftrightarrow> x = Some v"
  by (cases x) auto

type_synonym ('s, 'e, 'a) action = "'s \<Rightarrow> 'e + 'a \<times> 's"

definition returnM :: "'a \<Rightarrow> ('s, 'e, 'a) action" where
  "returnM x s = Inr (x, s)"

definition failM :: "'e \<Rightarrow> ('s, 'e, 'a) action" where
  "failM e s = Inl e"

definition bindM :: "('s, 'e, 'a) action \<Rightarrow> ('a \<Rightarrow> ('s, 'e, 'b) action) \<Rightarrow> ('s, 'e, 'b) action" where
  "bindM m k s = (case m s of Inl e \<Rightarrow> Inl e | Inr (x, s') \<Rightarrow> k x s')"

definition liftM :: "'e + 'a \<Rightarrow> ('s, 'e, 'a) action" where
  "liftM r s = (case r of Inl e \<Rightarrow> Inl e | Inr x \<Rightarrow> Inr (x, s))"

definition checkM :: "bool \<Rightarrow> 'e \<Rightarrow> ('s, 'e, unit) action" where
  "checkM c e s = (if c then Inr ((), s) else Inl e)"

lemma returnM_returns [returns_iff]: "returnM x s = Inr (y, s') \<longleftrightarrow> y = x \<and> s' = s"
  by (auto simp: returnM_def)

lemma failM_returns [returns_iff]: "failM e s = Inr r \<longleftrightarrow> False"
  by (simp add: failM_def)

lemma bindM_returns [returns_iff]:
  "bindM m k s = Inr r \<longleftrightarrow> (\<exists>x s'. m s = Inr (x, s') \<and> k x s' = Inr r)"
  by (auto simp: bindM_def split: sum.splits)

lemma liftM_returns [returns_iff]: "liftM r s = Inr (y, s') \<longleftrightarrow> r = Inr y \<and> s' = s"
  by (auto simp: liftM_def split: sum.splits)

lemma checkM_returns [returns_iff]: "checkM c e s = Inr (u, s') \<longleftrightarrow> c \<and> s' = s"
  by (auto simp: checkM_def)

lemma if_returns [returns_iff]:
  "(if c then m else n) s = Inr r \<longleftrightarrow> (c \<and> m s = Inr r) \<or> (\<not> c \<and> n s = Inr r)"
  by simp

end
