(* ===== verification/Model.thy ===== *)
theory Model
  imports Prelude Complex_Main
begin

text \<open>
  The data of \<^verbatim>\<open>internal/model\<close>: evidence records, inheritance declarations, stored
  principals and sessions, with the validity checks that are methods of those types.
  Metadata is kept as JSON text by the code (\<^verbatim>\<open>json.RawMessage\<close>); here it is the
  document that text denotes, with separate constructors for absent and for malformed text.
\<close>

section \<open>JSON documents\<close>

datatype json =
    JNull
  | JBool bool
  | JNum rat
  | JStr string
  | JArr "json list"
  | JObj "(string \<times> json) list"

datatype raw_message = RawNil | RawMalformed | RawDoc json

text \<open>Decoding into a Go map keeps the last of several equal keys.\<close>

definition json_field :: "(string \<times> json) list \<Rightarrow> string \<Rightarrow> json option" where
  "json_field kvs k = map_of (rev kvs) k"

text \<open>\<^verbatim>\<open>json.Unmarshal\<close> into a \<^verbatim>\<open>map[string]json.RawMessage\<close>: \<^verbatim>\<open>null\<close> leaves the
  map nil without an error, an object fills it, anything else is an error.\<close>

definition unmarshal_map :: "raw_message \<Rightarrow> (string \<times> json) list option" where
  "unmarshal_map r = (case r of
      RawDoc JNull \<Rightarrow> Some []
    | RawDoc (JObj kvs) \<Rightarrow> Some kvs
    | _ \<Rightarrow> None)"

text \<open>\<^verbatim>\<open>json.Unmarshal\<close> into a \<^verbatim>\<open>bool\<close> that starts out false.\<close>

definition unmarshal_bool :: "json \<Rightarrow> bool option" where
  "unmarshal_bool j = (case j of JNull \<Rightarrow> Some False | JBool b \<Rightarrow> Some b | _ \<Rightarrow> None)"

section \<open>Evidence\<close>

definition ResultPass :: string where "ResultPass = ''PASS''"

definition ResultFail :: string where "ResultFail = ''FAIL''"

definition ResultError :: string where "ResultError = ''ERROR''"

definition ResultSkipped :: string where "ResultSkipped = ''SKIPPED''"

lemmas result_defs = ResultPass_def ResultFail_def ResultError_def ResultSkipped_def

definition EvidenceResult_Valid :: "string \<Rightarrow> bool" where
  "EvidenceResult_Valid r \<longleftrightarrow>
     r = ResultPass \<or> r = ResultFail \<or> r = ResultError \<or> r = ResultSkipped"

definition ParseEvidenceResult :: "string \<Rightarrow> string option" where
  "ParseEvidenceResult s = (if EvidenceResult_Valid s then Some s else None)"

definition TypeCI :: string where "TypeCI = ''ci''"

definition TypeManualTest :: string where "TypeManualTest = ''manual_test''"

definition TypeDemonstration :: string where "TypeDemonstration = ''demonstration''"

definition EvidenceTypes :: "string list" where
  "EvidenceTypes = [TypeCI, TypeManualTest, TypeDemonstration]"

definition ValidEvidenceType :: "string \<Rightarrow> bool" where
  "ValidEvidenceType s = List.member EvidenceTypes s"

record evidence =
  ev_ID :: uuid
  ev_ClientRecordID :: "uuid option"
  ev_Repo :: string
  ev_Branch :: string
  ev_RCSRef :: string
  ev_ProcedureRef :: string
  ev_EvidenceType :: string
  ev_Source :: string
  ev_Result :: string
  ev_FinishedAt :: instant
  ev_IngestedAt :: instant
  ev_Metadata :: raw_message

record inheritance_declaration =
  ih_ID :: uuid
  ih_CreatedAt :: instant
  ih_Repo :: string
  ih_SourceRCSRef :: string
  ih_TargetRCSRef :: string
  ih_Scope :: raw_message
  ih_Justification :: string
  ih_CreatedBy :: string

section \<open>Principals and sessions\<close>

text \<open>A stored identity. Roles are plain strings: a binding may name a role this binary
  does not define.\<close>

record stored_principal =
  sp_ID :: uuid
  sp_Subject :: string
  sp_Kind :: string
  sp_DisplayName :: string
  sp_Roles :: "string list"
  sp_DisabledAt :: "instant option"
  sp_CreatedAt :: instant
  sp_LastSeenAt :: "instant option"
  sp_ExternalID :: string

definition Disabled :: "stored_principal option \<Rightarrow> bool" where
  "Disabled p = (case p of None \<Rightarrow> False | Some s \<Rightarrow> sp_DisabledAt s \<noteq> None)"

record principal_create =
  pc_Subject :: string
  pc_Kind :: string
  pc_DisplayName :: string
  pc_KeyHash :: string
  pc_Roles :: "string list"
  pc_GrantedBy :: "uuid option"

definition PrincipalKindAPIKey :: string where
  "PrincipalKindAPIKey = ''api_key''"

definition PrincipalKindUser :: string where
  "PrincipalKindUser = ''user''"

definition ScopeStoreWide :: string where "ScopeStoreWide = ''*''"

definition GrantSourceLocal :: string where "GrantSourceLocal = ''local''"

definition GrantSourceIdP :: string where "GrantSourceIdP = ''idp''"

definition GrantSourceSCIM :: string where "GrantSourceSCIM = ''scim''"

lemmas grant_source_defs = GrantSourceLocal_def GrantSourceIdP_def GrantSourceSCIM_def

record session =
  se_ID :: uuid
  se_PrincipalID :: uuid
  se_CreatedAt :: instant
  se_ExpiresAt :: instant
  se_LastSeenAt :: "instant option"
  se_UserAgent :: string

end
