(* ===== verification/Auth.thy ===== *)
theory Auth
  imports Model
begin

text \<open>
  The package \<^verbatim>\<open>internal/auth\<close>: permissions and roles, the principal a request carries,
  source binding, API keys, the three authenticators and the chain over them, and the
  middlewares that guard a route. The database is reached through the two lookup
  interfaces the package declares, which are arguments here and are instantiated with the
  stores in theories \<open>Identity_Store\<close> and \<open>Server\<close>.
\<close>

section \<open>Permissions and roles\<close>

type_synonym permission = string
type_synonym role = string

definition PermEvidenceRead :: permission where "PermEvidenceRead = ''evidence:read''"

definition PermEvidenceWrite :: permission where "PermEvidenceWrite = ''evidence:write''"

definition PermAnalyticsRead :: permission where "PermAnalyticsRead = ''analytics:read''"

definition PermBlobRead :: permission where "PermBlobRead = ''blob:read''"

definition PermBlobWrite :: permission where "PermBlobWrite = ''blob:write''"

definition PermInheritanceRead :: permission where "PermInheritanceRead = ''inheritance:read''"

definition PermInheritanceWrite :: permission where "PermInheritanceWrite = ''inheritance:write''"

definition PermSourceAny :: permission where "PermSourceAny = ''source:any''"

definition PermPrincipalAdmin :: permission where "PermPrincipalAdmin = ''principal:admin''"

definition PermRetentionAdmin :: permission where "PermRetentionAdmin = ''retention:admin''"

definition PermSCIMProvision :: permission where "PermSCIMProvision = ''scim:provision''"

lemmas perm_defs [auth_simps] =
  PermEvidenceRead_def PermEvidenceWrite_def PermAnalyticsRead_def PermBlobRead_def
  PermBlobWrite_def PermInheritanceRead_def PermInheritanceWrite_def PermSourceAny_def
  PermPrincipalAdmin_def PermRetentionAdmin_def PermSCIMProvision_def

definition RoleViewer :: role where "RoleViewer = ''viewer''"

definition RoleContributor :: role where "RoleContributor = ''contributor''"

definition RoleCI :: role where "RoleCI = ''ci''"

definition RoleAdmin :: role where "RoleAdmin = ''admin''"

definition RoleProvisioner :: role where "RoleProvisioner = ''provisioner''"

lemmas role_defs [auth_simps] =
  RoleViewer_def RoleContributor_def RoleCI_def RoleAdmin_def RoleProvisioner_def

type_synonym perm_set = "permission set"

definition newPermSet :: "permission list \<Rightarrow> perm_set" where
  "newPermSet perms = fold insert perms {}"

definition permSet_with :: "perm_set \<Rightarrow> permission list \<Rightarrow> perm_set" where
  "permSet_with s perms = fold insert perms s"

definition viewerPerms :: perm_set where
  "viewerPerms =
     newPermSet [PermEvidenceRead, PermAnalyticsRead, PermBlobRead, PermInheritanceRead]"

definition contributorPerms :: perm_set where
  "contributorPerms = permSet_with viewerPerms [PermEvidenceWrite, PermBlobWrite]"

definition ciPerms :: perm_set where
  "ciPerms = permSet_with contributorPerms [PermSourceAny]"

definition provisionerPerms :: perm_set where
  "provisionerPerms = newPermSet [PermSCIMProvision]"

definition adminPerms :: perm_set where
  "adminPerms = permSet_with contributorPerms
     [PermInheritanceWrite, PermPrincipalAdmin, PermRetentionAdmin, PermSCIMProvision]"

lemmas perm_set_defs [auth_simps] =
  newPermSet_def permSet_with_def viewerPerms_def contributorPerms_def ciPerms_def
  provisionerPerms_def adminPerms_def

definition rolePermissions :: "role \<rightharpoonup> perm_set" where
  "rolePermissions = map_of
     [(RoleViewer, viewerPerms), (RoleContributor, contributorPerms), (RoleCI, ciPerms),
      (RoleAdmin, adminPerms), (RoleProvisioner, provisionerPerms)]"

definition RoleNames :: "string list" where
  "RoleNames = [RoleViewer, RoleContributor, RoleCI, RoleAdmin, RoleProvisioner]"

definition ParseRole :: "string \<Rightarrow> role option" where
  "ParseRole s = (if rolePermissions s \<noteq> None then Some s else None)"

text \<open>Indexing a missing role yields the nil set, which holds nothing.\<close>

definition role_perms :: "role \<Rightarrow> perm_set" where
  "role_perms r = (case rolePermissions r of None \<Rightarrow> {} | Some s \<Rightarrow> s)"

definition Grants :: "role \<Rightarrow> permission \<Rightarrow> bool" where
  "Grants r perm \<longleftrightarrow> perm \<in> role_perms r"

section \<open>Principals\<close>

datatype kind = KindAPIKey | KindUser

definition ParseKind :: "string \<Rightarrow> kind" where
  "ParseKind s = (if s = ''user'' then KindUser else KindAPIKey)"

record principal =
  pr_ID :: uuid
  pr_Subject :: string
  pr_Kind :: kind
  pr_DisplayName :: string
  pr_Roles :: "role list"
  pr_ViaSession :: bool
  pr_perms :: perm_set

definition NewPrincipal :: "string \<Rightarrow> kind \<Rightarrow> string \<Rightarrow> role list \<Rightarrow> principal" where
  "NewPrincipal subject k displayName roles =
     \<lparr>pr_ID = 0, pr_Subject = subject, pr_Kind = k, pr_DisplayName = displayName,
      pr_Roles = roles, pr_ViaSession = False,
      pr_perms = fold (\<lambda>r perms. role_perms r \<union> perms) roles {}\<rparr>"

text \<open>The methods accept a nil receiver, so they take an optional principal.\<close>

definition Can :: "principal option \<Rightarrow> permission \<Rightarrow> bool" where
  "Can p perm = (case p of None \<Rightarrow> False | Some q \<Rightarrow> perm \<in> pr_perms q)"

definition Permissions :: "principal option \<Rightarrow> permission list" where
  "Permissions p = (case p of None \<Rightarrow> [] | Some q \<Rightarrow> sorted_list_of_set (pr_perms q))"

definition HasRole :: "principal option \<Rightarrow> role \<Rightarrow> bool" where
  "HasRole p role = (case p of None \<Rightarrow> False | Some q \<Rightarrow> List.member (pr_Roles q) role)"

text \<open>The two values a request context carries for this package.\<close>

record ctx =
  ctx_principal :: "principal option"
  ctx_auth_disabled :: bool

definition empty_ctx :: ctx where
  "empty_ctx = \<lparr>ctx_principal = None, ctx_auth_disabled = False\<rparr>"

definition WithPrincipal :: "ctx \<Rightarrow> principal \<Rightarrow> ctx" where
  "WithPrincipal c p = c\<lparr>ctx_principal := Some p\<rparr>"

definition PrincipalFrom :: "ctx \<Rightarrow> principal option" where
  "PrincipalFrom c = ctx_principal c"

definition withAuthDisabled :: "ctx \<Rightarrow> ctx" where
  "withAuthDisabled c = c\<lparr>ctx_auth_disabled := True\<rparr>"

definition authDisabled :: "ctx \<Rightarrow> bool" where
  "authDisabled c = ctx_auth_disabled c"

lemmas ctx_defs [auth_simps] =
  empty_ctx_def WithPrincipal_def PrincipalFrom_def withAuthDisabled_def authDisabled_def

section \<open>Source binding\<close>

datatype bind_error = ErrSourceNotOwned string

definition BindSource :: "ctx \<Rightarrow> string \<Rightarrow> bind_error + string" where
  "BindSource c src = (case PrincipalFrom c of
      None \<Rightarrow> Inr src
    | Some p \<Rightarrow>
        if Can (Some p) PermSourceAny then Inr src
        else if src = '''' then Inr (pr_Subject p)
        else if src = pr_Subject p then Inr src
        else Inl (ErrSourceNotOwned (pr_Subject p)))"

section \<open>API keys\<close>

definition KeyPrefix :: string where "KeyPrefix = ''evs_''"

definition keyBytes :: nat where "keyBytes = 32"

text \<open>The argument is what \<^verbatim>\<open>rand.Read\<close> delivered: the bytes, or nothing when it failed.\<close>

definition GenerateKey :: "nat list option \<Rightarrow> string option" where
  "GenerateKey rand = (case rand of
      None \<Rightarrow> None
    | Some bs \<Rightarrow> Some (KeyPrefix @ base64_raw_url bs))"

definition GenerateSessionToken :: "nat list option \<Rightarrow> string option" where
  "GenerateSessionToken rand = (case rand of
      None \<Rightarrow> None
    | Some bs \<Rightarrow> Some (base64_raw_url bs))"

definition LooksLikeKey :: "string \<Rightarrow> bool" where
  "LooksLikeKey token = has_prefix token KeyPrefix"

section \<open>Requests\<close>

text \<open>What the middlewares read of an HTTP request. Header names are in canonical form.\<close>

record request =
  rq_Method :: string
  rq_Path :: string
  rq_Header :: "(string \<times> string) list"
  rq_Cookies :: "(string \<times> string) list"
  rq_RemoteAddr :: string

definition Header_Get :: "request \<Rightarrow> string \<Rightarrow> string" where
  "Header_Get r k = (case map_of (rq_Header r) k of None \<Rightarrow> '''' | Some v \<Rightarrow> v)"

definition Cookie :: "request \<Rightarrow> string \<Rightarrow> string option" where
  "Cookie r k = map_of (rq_Cookies r) k"

definition bearer_prefix :: string where "bearer_prefix = ''Bearer ''"

definition extractBearer :: "request \<Rightarrow> string" where
  "extractBearer r =
     (let auth = Header_Get r ''Authorization'' in
      if auth = '''' then ''''
      else if length auth < length bearer_prefix
              \<or> \<not> equal_fold (take (length bearer_prefix) auth) bearer_prefix then ''''
      else drop (length bearer_prefix) auth)"

section \<open>Authenticators\<close>

datatype auth_error =
    ErrNoCredentials
  | ErrInvalidCredentials
  | ErrAuthDisabled
  | ErrAuthUnavailable

text \<open>An authenticator resolves a request to a principal or an error; what it keeps
  between requests is the state it passes on.\<close>

type_synonym auth_result = "auth_error + principal"
type_synonym 'w authenticator = "request \<Rightarrow> 'w \<Rightarrow> auth_result \<times> 'w"

subsection \<open>Keys from the environment\<close>

record api_key =
  ak_Key :: string
  ak_ReadOnly :: bool

record static_entry =
  se_key :: string
  se_principal :: principal

definition static_entry_of :: "nat \<Rightarrow> api_key \<Rightarrow> static_entry" where
  "static_entry_of i k =
     (let roles = (if ak_ReadOnly k then [RoleViewer] else [RoleCI, RoleAdmin]);
          label = (if ak_ReadOnly k then ''ro'' else ''rw'');
          subject = ''apikey:'' @ label @ ''-'' @ show_nat (i + 1)
      in \<lparr>se_key = ak_Key k,
          se_principal =
            NewPrincipal subject KindAPIKey (''configured '' @ label @ '' API key'') roles\<rparr>)"

definition NewStaticKeyAuthenticator :: "api_key list \<Rightarrow> static_entry list" where
  "NewStaticKeyAuthenticator keys =
     map (\<lambda>(i, k). static_entry_of i k) (enumerate 0 keys)"

text \<open>The loop compares the token with every entry and keeps the last match.\<close>

definition static_match :: "string \<Rightarrow> static_entry list \<Rightarrow> principal option" where
  "static_match token entries =
     fold (\<lambda>e matched. if length token = length (se_key e) \<and> token = se_key e
                       then Some (se_principal e) else matched) entries None"

definition StaticKey_Authenticate :: "static_entry list \<Rightarrow> 'w authenticator" where
  "StaticKey_Authenticate entries r w =
     (if entries = [] then (Inl ErrAuthDisabled, w)
      else let token = extractBearer r in
        if token = '''' then (Inl ErrNoCredentials, w)
        else case static_match token entries of
            None \<Rightarrow> (Inl ErrInvalidCredentials, w)
          | Some p \<Rightarrow> (Inr p, w))"

subsection \<open>Keys and sessions in the database\<close>

text \<open>
  The throttle on the last-seen bookkeeping: when each identity was last recorded by this
  process, and the identities whose record is to be written by the detached goroutine.
\<close>

record touch_state =
  touched :: "(uuid \<times> instant) list"
  touch_queue :: "uuid list"

definition touchEvery :: duration where "touchEvery = 30 * second"

definition touch :: "instant \<Rightarrow> uuid \<Rightarrow> touch_state \<Rightarrow> touch_state" where
  "touch now i w =
     (case map_of (touched w) i of
        Some prev \<Rightarrow>
          if time_sub now prev < touchEvery then w
          else w\<lparr>touched := put i now (touched w), touch_queue := touch_queue w @ [i]\<rparr>
      | None \<Rightarrow> w\<lparr>touched := put i now (touched w), touch_queue := touch_queue w @ [i]\<rparr>)"

text \<open>A lookup that fails is \<open>Inl\<close>; one that finds nothing is \<open>Inr None\<close>.\<close>

type_synonym ('e, 'a) lookup = "string \<Rightarrow> 'e + 'a option"

definition principalFromStored :: "stored_principal \<Rightarrow> principal" where
  "principalFromStored stored =
     (NewPrincipal (sp_Subject stored) (ParseKind (sp_Kind stored)) (sp_DisplayName stored)
        (List.map_filter ParseRole (sp_Roles stored)))
     \<lparr>pr_ID := sp_ID stored\<rparr>"

text \<open>
  \<open>hash\<close> is \<^verbatim>\<open>HashKey\<close>, the hex SHA-256 of the token; nothing here depends on which
  function it is.
\<close>

definition DBKey_Authenticate ::
  "(string \<Rightarrow> string) \<Rightarrow> ('e, stored_principal) lookup \<Rightarrow> instant \<Rightarrow> touch_state authenticator" where
  "DBKey_Authenticate hash find_by_key_hash now r w =
     (let token = extractBearer r in
      if token = '''' then (Inl ErrNoCredentials, w)
      else if \<not> LooksLikeKey token then (Inl ErrNoCredentials, w)
      else case find_by_key_hash (hash token) of
          Inl _ \<Rightarrow> (Inl ErrAuthUnavailable, w)
        | Inr None \<Rightarrow> (Inl ErrInvalidCredentials, w)
        | Inr (Some stored) \<Rightarrow>
            if Disabled (Some stored) then (Inl ErrInvalidCredentials, w)
            else (Inr (principalFromStored stored), touch now (sp_ID stored) w))"

definition SessionCookie :: string where "SessionCookie = ''evidence_session''"

definition Session_Authenticate ::
  "(string \<Rightarrow> string) \<Rightarrow> ('e, stored_principal \<times> session) lookup \<Rightarrow> instant
     \<Rightarrow> touch_state authenticator" where
  "Session_Authenticate hash find_by_session now r w =
     (case Cookie r SessionCookie of
        None \<Rightarrow> (Inl ErrNoCredentials, w)
      | Some v \<Rightarrow>
          if v = '''' then (Inl ErrNoCredentials, w)
          else case find_by_session (hash v) of
              Inl _ \<Rightarrow> (Inl ErrAuthUnavailable, w)
            | Inr None \<Rightarrow> (Inl ErrInvalidCredentials, w)
            | Inr (Some (stored, sess)) \<Rightarrow>
                if Disabled (Some stored) then (Inl ErrInvalidCredentials, w)
                else (Inr ((principalFromStored stored)\<lparr>pr_ViaSession := True\<rparr>),
                      touch now (se_ID sess) w))"

subsection \<open>The chain\<close>

fun chain_loop ::
  "bool \<Rightarrow> auth_error option \<Rightarrow> 'w authenticator list \<Rightarrow> 'w authenticator" where
  "chain_loop allDisabled rejected [] r w =
     (case rejected of
        Some e \<Rightarrow> (Inl e, w)
      | None \<Rightarrow> if allDisabled then (Inl ErrAuthDisabled, w) else (Inl ErrNoCredentials, w))"
| "chain_loop allDisabled rejected (a # as) r w =
     (case a r w of
        (Inr p, w') \<Rightarrow> (Inr p, w')
      | (Inl ErrAuthDisabled, w') \<Rightarrow> chain_loop allDisabled rejected as r w'
      | (Inl ErrNoCredentials, w') \<Rightarrow> chain_loop False rejected as r w'
      | (Inl ErrAuthUnavailable, w') \<Rightarrow> (Inl ErrAuthUnavailable, w')
      | (Inl e, w') \<Rightarrow>
          chain_loop False (case rejected of None \<Rightarrow> Some e | Some e' \<Rightarrow> Some e') as r w')"

definition Chain_Authenticate :: "'w authenticator list \<Rightarrow> 'w authenticator" where
  "Chain_Authenticate as r w = chain_loop True None as r w"

section \<open>Middlewares\<close>

text \<open>
  A handler answers a request in a context. \<open>Reached c\<close> is a response written by the
  route's own handler, which ran with context \<open>c\<close>; \<open>Refused\<close> is one written by a
  middleware, \<open>TooManyRequests\<close> the answer of the rate limiter with the
  seconds of its \<^verbatim>\<open>Retry-After\<close> header.
\<close>

datatype response = Reached ctx | Refused nat string | TooManyRequests int

type_synonym 'w handler = "request \<Rightarrow> ctx \<Rightarrow> 'w \<Rightarrow> response \<times> 'w"
type_synonym 'w middleware = "'w handler \<Rightarrow> 'w handler"

definition route_handler :: "'w handler" where
  "route_handler r c w = (Reached c, w)"

definition Authenticate :: "'w authenticator \<Rightarrow> 'w middleware" where
  "Authenticate authenticator next r c w =
     (case authenticator r w of
        (Inl ErrAuthDisabled, w') \<Rightarrow> next r (withAuthDisabled c) w'
      | (Inl ErrNoCredentials, w') \<Rightarrow>
          (Refused 401 ''missing or invalid Authorization header'', w')
      | (Inl ErrAuthUnavailable, w') \<Rightarrow>
          (Refused 503 ''authentication temporarily unavailable'', w')
      | (Inl ErrInvalidCredentials, w') \<Rightarrow> (Refused 401 ''invalid API key'', w')
      | (Inr p, w') \<Rightarrow> next r (WithPrincipal c p) w')"

definition Require :: "permission \<Rightarrow> 'w middleware" where
  "Require perm next r c w =
     (case PrincipalFrom c of
        None \<Rightarrow> if authDisabled c then next r c w
                 else (Refused 401 ''authentication required'', w)
      | Some p \<Rightarrow>
          if \<not> Can (Some p) perm
          then (Refused 403 (''permission denied: '' @ perm @ '' required''), w)
          else next r c w)"

definition CSRFCookie :: string where "CSRFCookie = ''evidence_csrf''"

definition CSRFHeader :: string where "CSRFHeader = ''X-CSRF-Token''"

definition isSafeMethod :: "string \<Rightarrow> bool" where
  "isSafeMethod m \<longleftrightarrow> m = ''GET'' \<or> m = ''HEAD'' \<or> m = ''OPTIONS''"

definition csrf_ok :: "request \<Rightarrow> bool" where
  "csrf_ok r =
     (case Cookie r CSRFCookie of
        None \<Rightarrow> False
      | Some v \<Rightarrow> \<not> (v = '''' \<or> Header_Get r CSRFHeader = '''' \<or> v \<noteq> Header_Get r CSRFHeader))"

definition RequireCSRF :: "'w middleware" where
  "RequireCSRF next r c w =
     (if isSafeMethod (rq_Method r) then next r c w
      else case PrincipalFrom c of
          None \<Rightarrow> next r c w
        | Some p \<Rightarrow>
            if \<not> pr_ViaSession p then next r c w
            else if \<not> csrf_ok r
            then (Refused 403 (''missing or invalid '' @ CSRFHeader
                               @ ''; reload the page and try again''), w)
            else next r c w)"

text \<open>\<^verbatim>\<open>Router.Use\<close> and \<^verbatim>\<open>Router.With\<close>: the first middleware is the outermost.\<close>

definition compose :: "'w middleware list \<Rightarrow> 'w handler \<Rightarrow> 'w handler" where
  "compose ms h = foldr (\<lambda>m. m) ms h"

section \<open>Roles and permissions: what each role may do\<close>

lemma set_fold_insert [simp]: "fold insert xs A = set xs \<union> A"
  by (induction xs arbitrary: A) auto

lemma fold_union: "fold (\<lambda>r A. f r \<union> A) rs A = (\<Union>r \<in> set rs. f r) \<union> A"
  by (induction rs arbitrary: A) auto

lemma role_perms_cases:
  "role_perms r =
     (if r = RoleViewer then viewerPerms else if r = RoleContributor then contributorPerms
      else if r = RoleCI then ciPerms else if r = RoleAdmin then adminPerms
      else if r = RoleProvisioner then provisionerPerms else {})"
  by (simp add: role_perms_def rolePermissions_def)

lemma ParseRole_iff: "ParseRole s = Some r \<longleftrightarrow> r = s \<and> s \<in> set RoleNames"
  by (auto simp: ParseRole_def rolePermissions_def RoleNames_def split: if_splits)

lemma ParseRole_None_iff: "ParseRole s = None \<longleftrightarrow> s \<notin> set RoleNames"
  by (auto simp: ParseRole_def rolePermissions_def RoleNames_def split: if_splits)

lemma Grants_known: "Grants r perm \<Longrightarrow> ParseRole r = Some r"
  by (auto simp: Grants_def role_perms_cases ParseRole_iff RoleNames_def split: if_splits)

lemma Grants_SourceAny_iff: "Grants r PermSourceAny \<longleftrightarrow> r = RoleCI"
  by (simp add: Grants_def role_perms_cases auth_simps)

lemma Grants_SCIMProvision_iff:
  "Grants r PermSCIMProvision \<longleftrightarrow> r = RoleAdmin \<or> r = RoleProvisioner"
  by (simp add: Grants_def role_perms_cases auth_simps)

lemma role_perms_widen:
  "role_perms RoleViewer \<subset> role_perms RoleContributor"
  "role_perms RoleContributor \<subset> role_perms RoleCI"
  "role_perms RoleContributor \<subset> role_perms RoleAdmin"
  by (simp_all add: role_perms_cases auth_simps insert_commute psubset_insert_iff)

lemma Can_NewPrincipal [simp]:
  "Can (Some (NewPrincipal s k d roles)) perm \<longleftrightarrow> (\<exists>r \<in> set roles. Grants r perm)"
  by (auto simp: Can_def NewPrincipal_def fold_union Grants_def)

lemma Can_update_ID [simp]: "Can (Some (p\<lparr>pr_ID := i\<rparr>)) = Can (Some p)"
  by (auto simp: Can_def fun_eq_iff)

lemma Can_update_session [simp]: "Can (Some (p\<lparr>pr_ViaSession := b\<rparr>)) = Can (Some p)"
  by (auto simp: Can_def fun_eq_iff)

lemma set_map_filter_ParseRole:
  "set (List.map_filter ParseRole xs) = set xs \<inter> set RoleNames"
  by (induction xs)
    (auto simp: map_filter_simps ParseRole_iff ParseRole_None_iff split: option.splits)

lemma principalFromStored_simps [simp]:
  "pr_ID (principalFromStored st) = sp_ID st"
  "pr_Subject (principalFromStored st) = sp_Subject st"
  "pr_ViaSession (principalFromStored st) = False"
  by (simp_all add: principalFromStored_def NewPrincipal_def)

text \<open>Dropping the role names this binary does not define loses no permission and adds
  none.\<close>

lemma Can_principalFromStored [simp]:
  "Can (Some (principalFromStored st)) perm \<longleftrightarrow> (\<exists>name \<in> set (sp_Roles st). Grants name perm)"
proof -
  have "Can (Some (principalFromStored st)) perm
      \<longleftrightarrow> (\<exists>r \<in> set (sp_Roles st) \<inter> set RoleNames. Grants r perm)"
    by (simp add: principalFromStored_def set_map_filter_ParseRole)
  also have "\<dots> \<longleftrightarrow> (\<exists>name \<in> set (sp_Roles st). Grants name perm)"
    using Grants_known ParseRole_iff by blast
  finally show ?thesis .
qed

text \<open>
  Separation of duties in the role table, for every role name whatever: only \<open>ci\<close> may
  write another party's source, only \<open>admin\<close> may administer principals, declare
  inheritance or hold the retention permission, only \<open>admin\<close> and \<open>provisioner\<close> may
  provision, \<open>provisioner\<close> may do nothing else, not even read, and the reading roles widen
  strictly from \<open>viewer\<close> to \<open>contributor\<close> and from there separately to \<open>ci\<close> and to
  \<open>admin\<close>.
\<close>

theorem role_separation:
  "(Grants r PermSourceAny \<longleftrightarrow> r = RoleCI) \<and>
   (Grants r PermPrincipalAdmin \<longleftrightarrow> r = RoleAdmin) \<and>
   (Grants r PermInheritanceWrite \<longleftrightarrow> r = RoleAdmin) \<and>
   (Grants r PermRetentionAdmin \<longleftrightarrow> r = RoleAdmin) \<and>
   (Grants r PermSCIMProvision \<longleftrightarrow> r = RoleAdmin \<or> r = RoleProvisioner) \<and>
   (Grants RoleProvisioner perm \<longleftrightarrow> perm = PermSCIMProvision) \<and>
   role_perms RoleViewer \<subset> role_perms RoleContributor \<and>
   role_perms RoleContributor \<subset> role_perms RoleCI \<and>
   role_perms RoleContributor \<subset> role_perms RoleAdmin"
  by (intro conjI Grants_SourceAny_iff Grants_SCIMProvision_iff role_perms_widen)
    (simp_all add: Grants_def role_perms_cases auth_simps)

section \<open>Attribution\<close>


definition alice :: stored_principal where
  "alice = \<lparr>sp_ID = 7, sp_Subject = ''user:alice'', sp_Kind = ''user'', sp_DisplayName = ''Alice'',
     sp_Roles = [''contributor'', ''retired''], sp_DisabledAt = None, sp_CreatedAt = 0,
     sp_LastSeenAt = None, sp_ExternalID = ''''\<rparr>"


section \<open>Keys\<close>

text \<open>Every minted key is recognised as one, so the database authenticator never skips a
  key this store issued.\<close>

lemma GenerateKey_looks_like_key: "GenerateKey rand = Some k \<Longrightarrow> LooksLikeKey k"
  by (auto simp: GenerateKey_def LooksLikeKey_def split: option.splits)

lemma length_base64_digits: "length (base64_digits bs) = (4 * length bs + 2) div 3"
  by (induction bs rule: base64_digits.induct) auto

lemma GenerateKey_length:
  "GenerateKey (Some bs) = Some k \<Longrightarrow> length bs = keyBytes \<Longrightarrow> length k = 47"
  by (auto simp: GenerateKey_def base64_raw_url_def length_base64_digits keyBytes_def
      KeyPrefix_def)

section \<open>The static authenticator\<close>

lemma fold_last_match:
  "fold (\<lambda>e m. if P e then Some (f e) else m) es m0 =
     (case find P (rev es) of None \<Rightarrow> m0 | Some e \<Rightarrow> Some (f e))"
  by (induction es arbitrary: m0) (auto simp: find_append split: option.splits)

lemma static_match_find:
  "static_match token es = map_option se_principal (find (\<lambda>e. se_key e = token) (rev es))"
proof -
  have same: "(\<lambda>e. length token = length (se_key e) \<and> token = se_key e) = (\<lambda>e. se_key e = token)"
    by auto
  show ?thesis
    unfolding static_match_def fold_last_match same by (simp split: option.splits)
qed

lemma length_NewStaticKeyAuthenticator [simp]:
  "length (NewStaticKeyAuthenticator keys) = length keys"
  by (simp add: NewStaticKeyAuthenticator_def)

lemma nth_NewStaticKeyAuthenticator [simp]:
  "i < length keys \<Longrightarrow> NewStaticKeyAuthenticator keys ! i = static_entry_of i (keys ! i)"
  by (simp add: NewStaticKeyAuthenticator_def nth_enumerate_eq)

lemma se_key_static_entry [simp]: "se_key (static_entry_of i k) = ak_Key k"
  by (simp add: static_entry_of_def Let_def)

lemma Can_static_entry [simp]:
  "Can (Some (se_principal (static_entry_of i k))) perm \<longleftrightarrow>
     (if ak_ReadOnly k then Grants RoleViewer perm else Grants RoleCI perm \<or> Grants RoleAdmin perm)"
  by (simp add: static_entry_of_def Let_def)

lemma map_se_key_NewStaticKeyAuthenticator:
  "map se_key (NewStaticKeyAuthenticator keys) = map ak_Key keys"
  by (simp add: list_eq_iff_nth_eq)

lemma static_match_Some_iff:
  "static_match token (NewStaticKeyAuthenticator keys) = Some p \<longleftrightarrow>
     (\<exists>i < length keys. p = se_principal (static_entry_of i (keys ! i)) \<and> ak_Key (keys ! i) = token
        \<and> (\<forall>j. i < j \<and> j < length keys \<longrightarrow> ak_Key (keys ! j) \<noteq> token))"
  unfolding static_match_find map_find_rev_iff by (simp cong: conj_cong)

lemma static_match_None_iff:
  "static_match token (NewStaticKeyAuthenticator keys) = None \<longleftrightarrow> token \<notin> ak_Key ` set keys"
proof -
  have "static_match token (NewStaticKeyAuthenticator keys) = None
      \<longleftrightarrow> token \<notin> set (map se_key (NewStaticKeyAuthenticator keys))"
    by (auto simp: static_match_find find_None_iff_list)
  then show ?thesis by (simp only: map_se_key_NewStaticKeyAuthenticator) simp
qed

lemma NewStaticKeyAuthenticator_Nil_iff [simp]:
  "NewStaticKeyAuthenticator keys = [] \<longleftrightarrow> keys = []"
  by (simp flip: length_0_conv)

text \<open>
  C30. The keys of the environment: a request is accepted exactly when its bearer token equals
  a configured key. The principal is that of the last such key, and what it may do is
  decided by that key's own label: a read-only key reads and never writes, any other key has
  the permissions of \<open>ci\<close> and \<open>admin\<close> together.
\<close>

theorem static_keys_accept:
  "case StaticKey_Authenticate (NewStaticKeyAuthenticator keys) r w of
     (Inr p, w') \<Rightarrow> w' = w \<and> extractBearer r \<noteq> [] \<and>
       (\<exists>i < length keys. ak_Key (keys ! i) = extractBearer r \<and>
          (\<forall>j. i < j \<and> j < length keys \<longrightarrow> ak_Key (keys ! j) \<noteq> extractBearer r) \<and>
          (\<forall>perm. Can (Some p) perm \<longleftrightarrow>
             (if ak_ReadOnly (keys ! i) then Grants RoleViewer perm
              else Grants RoleCI perm \<or> Grants RoleAdmin perm)))
   | (Inl e, w') \<Rightarrow> w' = w \<and> (extractBearer r = [] \<or> extractBearer r \<notin> ak_Key ` set keys) \<and>
       e = (if keys = [] then ErrAuthDisabled
            else if extractBearer r = [] then ErrNoCredentials else ErrInvalidCredentials)"
proof (cases "static_match (extractBearer r) (NewStaticKeyAuthenticator keys)")
  case None
  then have "extractBearer r \<notin> ak_Key ` set keys"
    by (simp only: static_match_None_iff simp_thms)
  with None show ?thesis
    by (simp add: StaticKey_Authenticate_def Let_def)
next
  case (Some p)
  then obtain i where i: "i < length keys" "p = se_principal (static_entry_of i (keys ! i))"
      "ak_Key (keys ! i) = extractBearer r"
      "\<forall>j. i < j \<and> j < length keys \<longrightarrow> ak_Key (keys ! j) \<noteq> extractBearer r"
    by (auto simp only: static_match_Some_iff)
  then have "keys \<noteq> []" by auto
  with Some i show ?thesis
    by (auto simp: StaticKey_Authenticate_def Let_def intro!: exI [of _ i])
qed

definition demo_keys :: "api_key list" where
  "demo_keys = [\<lparr>ak_Key = ''s3'', ak_ReadOnly = False\<rparr>, \<lparr>ak_Key = ''s3'', ak_ReadOnly = True\<rparr>]"

definition demo_request :: "string \<Rightarrow> request" where
  "demo_request m = \<lparr>rq_Method = m, rq_Path = ''/api/v1/evidence'',
     rq_Header = [(''Authorization'', ''bearer s3'')], rq_Cookies = [], rq_RemoteAddr = ''''\<rparr>"

lemma demo_request_bearer: "extractBearer (demo_request m) = ''s3''"
  by code_simp

theorem static_keys_accept_witness:
  "\<exists>p. StaticKey_Authenticate (NewStaticKeyAuthenticator demo_keys) (demo_request ''POST'') ()
       = (Inr p, ()) \<and> Can (Some p) PermEvidenceRead \<and> \<not> Can (Some p) PermEvidenceWrite"
proof -
  have "static_match ''s3'' (NewStaticKeyAuthenticator demo_keys) \<noteq> None"
    by (simp add: static_match_None_iff demo_keys_def)
  then obtain p where p:
    "StaticKey_Authenticate (NewStaticKeyAuthenticator demo_keys) (demo_request ''POST'') ()
       = (Inr p, ())"
    by (auto simp: StaticKey_Authenticate_def demo_request_bearer Let_def demo_keys_def)
  have "Can (Some p) perm \<longleftrightarrow> Grants RoleViewer perm" for perm
    using static_keys_accept
      [where keys = demo_keys and r = "demo_request ''POST''" and w = "()"]
    unfolding p prod.case sum.case by (auto simp: demo_request_bearer demo_keys_def less_Suc_eq)
  then show ?thesis using p
    by (simp add: Grants_def role_perms_cases auth_simps)
qed

section \<open>What a chain decides\<close>

text \<open>What the authenticators of a chain answer when each is asked in turn, the state
  passed along.\<close>

fun chain_run :: "'w authenticator list \<Rightarrow> request \<Rightarrow> 'w \<Rightarrow> auth_result list" where
  "chain_run [] r w = []"
| "chain_run (a # as) r w = (case a r w of (x, w') \<Rightarrow> x # chain_run as r w')"

definition decisive :: "auth_result \<Rightarrow> bool" where
  "decisive x = (case x of Inr _ \<Rightarrow> True | Inl e \<Rightarrow> e = ErrAuthUnavailable)"

definition chain_verdict :: "auth_result list \<Rightarrow> auth_result" where
  "chain_verdict rs = (case find decisive rs of
      Some x \<Rightarrow> x
    | None \<Rightarrow>
        if Inl ErrInvalidCredentials \<in> set rs then Inl ErrInvalidCredentials
        else if \<forall>x \<in> set rs. x = Inl ErrAuthDisabled then Inl ErrAuthDisabled
        else Inl ErrNoCredentials)"

lemma chain_loop_verdict:
  "rejected = None \<or> rejected = Some ErrInvalidCredentials \<Longrightarrow>
   fst (chain_loop allDisabled rejected as r w) =
     (case find decisive (chain_run as r w) of
        Some x \<Rightarrow> x
      | None \<Rightarrow>
          if rejected \<noteq> None \<or> Inl ErrInvalidCredentials \<in> set (chain_run as r w)
          then Inl ErrInvalidCredentials
          else if allDisabled \<and> (\<forall>x \<in> set (chain_run as r w). x = Inl ErrAuthDisabled)
          then Inl ErrAuthDisabled else Inl ErrNoCredentials)"
proof (induction as arbitrary: allDisabled rejected w)
  case Nil
  then show ?case by auto
next
  case (Cons a as)
  obtain x w' where a: "a r w = (x, w')" by fastforce
  show ?case
  proof (cases x)
    case (Inr p)
    with a show ?thesis by (simp add: decisive_def)
  next
    case (Inl e)
    show ?thesis using Cons.IH [of _ _ w'] Cons.prems
      by (cases e) (auto simp: a Inl decisive_def split: option.splits)
  qed
qed

text \<open>
  C31. The chain of authenticators: the first scheme that recognises the caller decides, unless
  an earlier one could not be consulted, which ends the search as an outage. With neither,
  the answer is a rejection if any scheme rejected, and authentication counts as disabled
  only if every scheme is. In particular one configured scheme closes the door, and a
  credential that one scheme does not know never hides one that another accepts.
\<close>

theorem Chain_Authenticate_verdict:
  "fst (Chain_Authenticate as r w) = chain_verdict (chain_run as r w)"
  by (auto simp: Chain_Authenticate_def chain_loop_verdict chain_verdict_def split: option.splits)

lemma chain_verdict_disabled_iff:
  "chain_verdict rs = Inl ErrAuthDisabled \<longleftrightarrow> (\<forall>x \<in> set rs. x = Inl ErrAuthDisabled)"
  by (auto simp: chain_verdict_def decisive_def find_None_iff_list
      dest!: find_SomeD split: option.splits sum.splits if_splits)

lemma chain_verdict_accept:
  "chain_verdict rs = Inr p \<Longrightarrow> Inr p \<in> set rs"
  by (auto simp: chain_verdict_def dest: find_SomeD split: option.splits if_splits)

lemma chain_loop_accept:
  "fst (chain_loop d rej as r w) = Inr p \<Longrightarrow> \<exists>a \<in> set as. \<exists>w. fst (a r w) = Inr p"
proof (induction as arbitrary: d rej w)
  case Nil
  then show ?case by (auto split: option.splits if_splits)
next
  case (Cons a as)
  obtain x w' where a: "a r w = (x, w')" by fastforce
  show ?case
  proof (cases x)
    case (Inr q)
    with a Cons.prems show ?thesis by (auto intro!: exI [of _ w])
  next
    case (Inl e)
    with a Cons show ?thesis by (cases e) (auto split: option.splits)
  qed
qed

section \<open>The database authenticators\<close>

lemma DBKey_accept_iff:
  "(\<exists>w'. DBKey_Authenticate hash find_key now r w = (Inr p, w')) \<longleftrightarrow>
     (\<exists>stored. LooksLikeKey (extractBearer r) \<and>
        find_key (hash (extractBearer r)) = Inr (Some stored) \<and>
        sp_DisabledAt stored = None \<and> p = principalFromStored stored)"
  by (auto simp: DBKey_Authenticate_def Let_def Disabled_def LooksLikeKey_def has_prefix_def
      KeyPrefix_def split: sum.splits option.splits)

lemma Session_accept_iff:
  "(\<exists>w'. Session_Authenticate hash find_session now r w = (Inr p, w')) \<longleftrightarrow>
     (\<exists>v stored sess. Cookie r SessionCookie = Some v \<and> v \<noteq> [] \<and>
        find_session (hash v) = Inr (Some (stored, sess)) \<and>
        sp_DisabledAt stored = None \<and>
        p = (principalFromStored stored)\<lparr>pr_ViaSession := True\<rparr>)"
  by (auto simp: Session_Authenticate_def Disabled_def split: sum.splits option.splits prod.splits)

lemma touch_fresh:
  "\<exists>t. map_of (touched (touch now i w)) i = Some t \<and> time_sub now t < touchEvery"
  by (auto simp: touch_def touchEvery_def second_def time_sub_def min_duration_def max_duration_def
      split: option.splits)

lemma touch_queue_length:
  "length (touch_queue (touch now i w)) \<le> Suc (length (touch_queue w))"
  by (auto simp: touch_def split: option.splits)

end
