(* ===== verification/Identity_Store.thy ===== *)
theory Identity_Store
  imports Auth
begin

text \<open>
  The identity tables and the SQL of \<^verbatim>\<open>internal/store/principal.go\<close>,
  \<^verbatim>\<open>internal/store/session.go\<close> and \<^verbatim>\<open>internal/store/samlrequest.go\<close>. A table is the
  list of its rows; a statement is a function on it; the constraints of the migrations
  (unique columns, checks, foreign keys) are the errors a statement can return. A statement
  that fails, and a transaction one of whose statements fails, leaves the database as it
  was. The clock \<^verbatim>\<open>now()\<close> and a generated UUID are arguments.
\<close>

section \<open>Tables\<close>

record principal_row =
  pw_id :: uuid
  pw_subject :: string
  pw_kind :: string
  pw_display_name :: string
  pw_key_hash :: "string option"
  pw_disabled_at :: "instant option"
  pw_created_at :: instant
  pw_last_seen_at :: "instant option"
  pw_external_id :: "string option"
  pw_scim_id :: "string option"
  pw_scim_external_id :: "string option"
  pw_user_name :: "string option"
  pw_updated_at :: instant

record role_binding =
  rb_principal :: uuid
  rb_role :: string
  rb_scope :: string
  rb_source :: string
  rb_granted_by :: "uuid option"

record session_row =
  sr_id :: uuid
  sr_token_hash :: string
  sr_principal_id :: uuid
  sr_created_at :: instant
  sr_expires_at :: instant
  sr_last_seen_at :: "instant option"
  sr_user_agent :: string
  sr_id_token :: string

record group_row =
  gr_id :: uuid
  gr_scim_id :: string
  gr_external_id :: "string option"
  gr_display_name :: string
  gr_created_at :: instant
  gr_updated_at :: instant

record db =
  db_up :: bool
  db_principals :: "principal_row list"
  db_bindings :: "role_binding list"
  db_sessions :: "session_row list"
  db_saml_requests :: "(string \<times> instant) list"
  db_groups :: "group_row list"
  db_members :: "(uuid \<times> uuid) list"

datatype db_error =
    DBDown
  | UniqueViolation string
  | CheckViolation string
  | ForeignKeyViolation string

type_synonym 'a outcome = "(db_error + 'a) \<times> db"

definition update_where :: "('a \<Rightarrow> bool) \<Rightarrow> ('a \<Rightarrow> 'a) \<Rightarrow> 'a list \<Rightarrow> 'a list" where
  "update_where P f rows = map (\<lambda>r. if P r then f r else r) rows"

definition delete_where :: "('a \<Rightarrow> bool) \<Rightarrow> 'a list \<Rightarrow> 'a list" where
  "delete_where P rows = filter (\<lambda>r. \<not> P r) rows"

text \<open>The check on \<^verbatim>\<open>role_bindings.role\<close> as migration 15 left it.\<close>

definition role_check :: "string list" where
  "role_check = [''viewer'', ''contributor'', ''ci'', ''admin'', ''provisioner'']"

section \<open>Reading principals\<close>

text \<open>The roles bound store-wide to a principal, in the order the query returns them.\<close>

definition roles_of :: "db \<Rightarrow> uuid \<Rightarrow> string list" where
  "roles_of d i =
     sort (map rb_role (filter (\<lambda>b. rb_principal b = i \<and> rb_scope b = ScopeStoreWide) (db_bindings d)))"

definition stored_of :: "db \<Rightarrow> principal_row \<Rightarrow> stored_principal" where
  "stored_of d p = \<lparr>sp_ID = pw_id p, sp_Subject = pw_subject p, sp_Kind = pw_kind p,
     sp_DisplayName = pw_display_name p, sp_Roles = roles_of d (pw_id p),
     sp_DisabledAt = pw_disabled_at p, sp_CreatedAt = pw_created_at p,
     sp_LastSeenAt = pw_last_seen_at p, sp_ExternalID = ''''\<rparr>"

definition queryOne :: "db \<Rightarrow> (principal_row \<Rightarrow> bool) \<Rightarrow> db_error + stored_principal option" where
  "queryOne d P =
     (if \<not> db_up d then Inl DBDown else Inr (map_option (stored_of d) (find P (db_principals d))))"

definition FindByKeyHash :: "db \<Rightarrow> string \<Rightarrow> db_error + stored_principal option" where
  "FindByKeyHash d keyHash = queryOne d (\<lambda>p. pw_key_hash p = Some keyHash)"

definition FindBySubject :: "db \<Rightarrow> string \<Rightarrow> db_error + stored_principal option" where
  "FindBySubject d subject = queryOne d (\<lambda>p. pw_subject p = subject)"

definition FindByID :: "db \<Rightarrow> uuid \<Rightarrow> db_error + stored_principal option" where
  "FindByID d i = queryOne d (\<lambda>p. pw_id p = i)"

definition PrincipalStore_List :: "db \<Rightarrow> db_error + stored_principal list" where
  "PrincipalStore_List d =
     (if \<not> db_up d then Inl DBDown
      else Inr (map (stored_of d) (sort_key pw_subject (db_principals d))))"

definition CountOtherEnabledAdmins :: "db \<Rightarrow> uuid \<Rightarrow> db_error + nat" where
  "CountOtherEnabledAdmins d excluding =
     (if \<not> db_up d then Inl DBDown
      else Inr (length (remdups (map pw_id (filter (\<lambda>p. pw_id p \<noteq> excluding \<and> pw_disabled_at p = None
        \<and> (\<exists>b \<in> set (db_bindings d). rb_principal b = pw_id p \<and> rb_role b = ''admin''
             \<and> rb_scope b = ScopeStoreWide)) (db_principals d))))))"

section \<open>Changing principals\<close>

text \<open>What an operation that ends in a query by ID returns.\<close>

definition then_FindByID :: "db \<Rightarrow> uuid \<Rightarrow> stored_principal option outcome" where
  "then_FindByID d i = (FindByID d i, d)"

definition SetDisabled :: "instant \<Rightarrow> uuid \<Rightarrow> bool \<Rightarrow> db \<Rightarrow> stored_principal option outcome" where
  "SetDisabled now i disabled d =
     (if \<not> db_up d then (Inl DBDown, d)
      else let rows =
          (if disabled
           then update_where (\<lambda>p. pw_id p = i \<and> pw_disabled_at p = None)
                  (\<lambda>p. p\<lparr>pw_disabled_at := Some now\<rparr>) (db_principals d)
           else update_where (\<lambda>p. pw_id p = i) (\<lambda>p. p\<lparr>pw_disabled_at := None\<rparr>) (db_principals d))
        in then_FindByID (d\<lparr>db_principals := rows\<rparr>) i)"

text \<open>
  \<^verbatim>\<open>INSERT INTO role_bindings ... ON CONFLICT (principal_id, role, scope) DO NOTHING\<close>.
  A binding whose key is already present is not inserted, whatever its source; a role the
  check does not list and a principal that does not exist are refused.
\<close>

definition insert_binding ::
  "uuid list \<Rightarrow> role_binding \<Rightarrow> role_binding list \<Rightarrow> db_error + role_binding list" where
  "insert_binding ids b bs =
     (if rb_role b \<notin> set role_check then Inl (CheckViolation ''role_bindings_role_check'')
      else if \<exists>b' \<in> set bs. rb_principal b' = rb_principal b \<and> rb_role b' = rb_role b
                         \<and> rb_scope b' = rb_scope b then Inr bs
      else if rb_principal b \<notin> set ids
      then Inl (ForeignKeyViolation ''role_bindings_principal_id_fkey'')
      else if rb_granted_by b \<noteq> None \<and> the (rb_granted_by b) \<notin> set ids
      then Inl (ForeignKeyViolation ''role_bindings_granted_by_fkey'')
      else Inr (bs @ [b]))"

fun grant_all ::
  "uuid list \<Rightarrow> (string \<Rightarrow> role_binding) \<Rightarrow> string list \<Rightarrow> role_binding list
     \<Rightarrow> db_error + role_binding list" where
  "grant_all ids mk [] bs = Inr bs"
| "grant_all ids mk (role # roles) bs =
     (case insert_binding ids (mk role) bs of
        Inl e \<Rightarrow> Inl e
      | Inr bs' \<Rightarrow> grant_all ids mk roles bs')"

definition binding :: "uuid \<Rightarrow> string \<Rightarrow> uuid option \<Rightarrow> string \<Rightarrow> role_binding" where
  "binding i src by_whom role = \<lparr>rb_principal = i, rb_role = role, rb_scope = ScopeStoreWide,
     rb_source = src, rb_granted_by = by_whom\<rparr>"

abbreviation principal_ids :: "db \<Rightarrow> uuid list" where
  "principal_ids d \<equiv> map pw_id (db_principals d)"

definition ReplaceRoles ::
  "uuid \<Rightarrow> string list \<Rightarrow> uuid option \<Rightarrow> db \<Rightarrow> stored_principal option outcome" where
  "ReplaceRoles i roles grantedBy d =
     (if \<not> db_up d then (Inl DBDown, d)
      else let bs = delete_where (\<lambda>b. rb_principal b = i \<and> rb_scope b = ScopeStoreWide) (db_bindings d)
        in case grant_all (principal_ids d) (binding i GrantSourceLocal grantedBy) roles bs of
            Inl e \<Rightarrow> (Inl e, d)
          | Inr bs' \<Rightarrow> then_FindByID (d\<lparr>db_bindings := bs'\<rparr>) i)"

text \<open>The unique index on \<^verbatim>\<open>key_hash\<close> is checked against the rows that are not updated.\<close>

definition RotateKey :: "uuid \<Rightarrow> string \<Rightarrow> db \<Rightarrow> stored_principal option outcome" where
  "RotateKey i keyHash d =
     (if \<not> db_up d then (Inl DBDown, d)
      else let hit = (\<lambda>p. pw_id p = i \<and> pw_kind p = PrincipalKindAPIKey) in
        if \<not> (\<exists>p \<in> set (db_principals d). hit p) then (Inr None, d)
        else if \<exists>p \<in> set (db_principals d). \<not> hit p \<and> pw_key_hash p = Some keyHash
        then (Inl (UniqueViolation ''idx_principals_key_hash''), d)
        else then_FindByID
          (d\<lparr>db_principals :=
              update_where hit (\<lambda>p. p\<lparr>pw_key_hash := Some keyHash\<rparr>) (db_principals d)\<rparr>) i)"

definition new_row :: "uuid \<Rightarrow> instant \<Rightarrow> string \<Rightarrow> string \<Rightarrow> string \<Rightarrow> principal_row" where
  "new_row i now subject knd displayName = \<lparr>pw_id = i, pw_subject = subject, pw_kind = knd,
     pw_display_name = displayName, pw_key_hash = None, pw_disabled_at = None,
     pw_created_at = now, pw_last_seen_at = None, pw_external_id = None, pw_scim_id = None,
     pw_scim_external_id = None, pw_user_name = None, pw_updated_at = now\<rparr>"

text \<open>The checks of the \<^verbatim>\<open>principals\<close> table on one row.\<close>

definition row_check :: "principal_row \<Rightarrow> bool" where
  "row_check p \<longleftrightarrow> (pw_kind p = PrincipalKindAPIKey \<or> pw_kind p = PrincipalKindUser)
     \<and> (pw_kind p = PrincipalKindAPIKey) = (pw_key_hash p \<noteq> None)"

definition PrincipalStore_Insert ::
  "uuid \<Rightarrow> instant \<Rightarrow> principal_create \<Rightarrow> db \<Rightarrow> stored_principal option outcome" where
  "PrincipalStore_Insert new_id now c d =
     (if \<not> db_up d then (Inl DBDown, d)
      else let row = (new_row new_id now (pc_Subject c) (pc_Kind c) (pc_DisplayName c))
                \<lparr>pw_key_hash := (if pc_KeyHash c \<noteq> '''' then Some (pc_KeyHash c) else None)\<rparr> in
        if \<not> row_check row then (Inl (CheckViolation ''principals_check''), d)
        else if \<exists>p \<in> set (db_principals d). pw_subject p = pc_Subject c then (Inr None, d)
        else if new_id \<in> set (principal_ids d) then (Inl (UniqueViolation ''principals_pkey''), d)
        else if \<exists>p \<in> set (db_principals d). pw_key_hash row \<noteq> None \<and> pw_key_hash p = pw_key_hash row
        then (Inl (UniqueViolation ''idx_principals_key_hash''), d)
        else case grant_all (principal_ids d @ [new_id])
                    (binding new_id GrantSourceLocal (pc_GrantedBy c)) (pc_Roles c) (db_bindings d) of
            Inl e \<Rightarrow> (Inl e, d)
          | Inr bs' \<Rightarrow>
              (Inr (Some ((stored_of d row)\<lparr>sp_Roles := pc_Roles c\<rparr>)),
               d\<lparr>db_principals := db_principals d @ [row], db_bindings := bs'\<rparr>))"

definition touchInterval :: duration where "touchInterval = 60 * second"

definition stale :: "instant \<Rightarrow> instant option \<Rightarrow> bool" where
  "stale now seen = (case seen of None \<Rightarrow> True | Some t \<Rightarrow> t < now - touchInterval)"

definition PrincipalStore_TouchLastSeen :: "instant \<Rightarrow> uuid \<Rightarrow> db \<Rightarrow> unit outcome" where
  "PrincipalStore_TouchLastSeen now i d =
     (if \<not> db_up d then (Inl DBDown, d)
      else (Inr (), d\<lparr>db_principals :=
        update_where (\<lambda>p. pw_id p = i \<and> stale now (pw_last_seen_at p))
          (\<lambda>p. p\<lparr>pw_last_seen_at := Some now\<rparr>) (db_principals d)\<rparr>))"

section \<open>Logins\<close>

record idp_login =
  il_ExternalID :: string
  il_LoginNames :: "string list"
  il_Subject :: string
  il_DisplayName :: string
  il_Roles :: "string list"

datatype store_error = DBError db_error | ErrSubjectTaken string

text \<open>
  The claiming update. Several matching rows, or a matching row beside another that holds
  the subject, break the unique constraint on the subject, which is the first unique index
  of the table; a row elsewhere that already holds the external id breaks that index.
\<close>

definition claimable :: "idp_login \<Rightarrow> principal_row \<Rightarrow> bool" where
  "claimable l p \<longleftrightarrow> pw_scim_id p \<noteq> None \<and> pw_external_id p = None
     \<and> pw_kind p = PrincipalKindUser
     \<and> (pw_subject p = il_Subject l
        \<or> (case pw_user_name p of None \<Rightarrow> False | Some u \<Rightarrow> u \<in> set (il_LoginNames l)))"

definition claimProvisionedPrincipal ::
  "idp_login \<Rightarrow> db \<Rightarrow> store_error + (uuid \<times> principal_row list) option" where
  "claimProvisionedPrincipal l d =
     (case filter (claimable l) (db_principals d) of
        [] \<Rightarrow> Inr None
      | p # others \<Rightarrow>
          if others \<noteq> [] \<or> (\<exists>q \<in> set (db_principals d). \<not> claimable l q \<and> pw_subject q = il_Subject l)
          then Inl (ErrSubjectTaken (il_Subject l))
          else if \<exists>q \<in> set (db_principals d). pw_external_id q = Some (il_ExternalID l)
          then Inl (DBError (UniqueViolation ''idx_principals_external_id''))
          else Inr (Some (pw_id p,
            update_where (claimable l)
              (\<lambda>q. q\<lparr>pw_external_id := Some (il_ExternalID l),
                     pw_display_name := il_DisplayName l, pw_subject := il_Subject l\<rparr>)
              (db_principals d))))"

text \<open>The insert that a login falls back to, updating on a conflict of the external id.\<close>

definition upsert_by_external_id ::
  "uuid \<Rightarrow> instant \<Rightarrow> idp_login \<Rightarrow> db \<Rightarrow> store_error + (uuid \<times> principal_row list)" where
  "upsert_by_external_id new_id now l d =
     (case find (\<lambda>p. pw_external_id p = Some (il_ExternalID l)) (db_principals d) of
        Some q \<Rightarrow>
          if \<exists>p \<in> set (db_principals d). pw_external_id p \<noteq> Some (il_ExternalID l)
               \<and> pw_subject p = il_Subject l
          then Inl (ErrSubjectTaken (il_Subject l))
          else Inr (pw_id q,
            update_where (\<lambda>p. pw_external_id p = Some (il_ExternalID l))
              (\<lambda>p. p\<lparr>pw_subject := il_Subject l, pw_display_name := il_DisplayName l\<rparr>)
              (db_principals d))
      | None \<Rightarrow>
          if new_id \<in> set (principal_ids d)
          then Inl (DBError (UniqueViolation ''principals_pkey''))
          else if \<exists>p \<in> set (db_principals d). pw_subject p = il_Subject l
          then Inl (ErrSubjectTaken (il_Subject l))
          else Inr (new_id, db_principals d @
            [(new_row new_id now (il_Subject l) PrincipalKindUser (il_DisplayName l))
               \<lparr>pw_external_id := Some (il_ExternalID l)\<rparr>]))"

definition reconcile ::
  "uuid list \<Rightarrow> string \<Rightarrow> uuid \<Rightarrow> string list \<Rightarrow> role_binding list
     \<Rightarrow> db_error + role_binding list" where
  "reconcile ids src i roles bs =
     grant_all ids (binding i src None) roles
       (delete_where (\<lambda>b. rb_principal b = i \<and> rb_scope b = ScopeStoreWide \<and> rb_source b = src
                        \<and> rb_role b \<notin> set roles) bs)"

definition reconcileIdPRoles ::
  "uuid list \<Rightarrow> uuid \<Rightarrow> string list \<Rightarrow> role_binding list \<Rightarrow> db_error + role_binding list" where
  "reconcileIdPRoles ids i roles bs = reconcile ids GrantSourceIdP i roles bs"

definition UpsertFromIdP ::
  "uuid \<Rightarrow> instant \<Rightarrow> idp_login \<Rightarrow> db \<Rightarrow> (store_error + stored_principal option) \<times> db" where
  "UpsertFromIdP new_id now l d =
     (if \<not> db_up d then (Inl (DBError DBDown), d)
      else case claimProvisionedPrincipal l d of
          Inl e \<Rightarrow> (Inl e, d)
        | Inr claim \<Rightarrow>
            (case (case claim of Some hit \<Rightarrow> Inr hit
                               | None \<Rightarrow> upsert_by_external_id new_id now l d) of
               Inl e \<Rightarrow> (Inl e, d)
             | Inr (i, rows) \<Rightarrow>
                 (case reconcileIdPRoles (map pw_id rows) i (il_Roles l) (db_bindings d) of
                    Inl e \<Rightarrow> (Inl (DBError e), d)
                  | Inr bs \<Rightarrow>
                      let d' = d\<lparr>db_principals := rows, db_bindings := bs\<rparr>
                      in (case FindByID d' i of Inl e \<Rightarrow> Inl (DBError e) | Inr r \<Rightarrow> Inr r, d'))))"

section \<open>Sessions and outstanding SAML requests\<close>

definition session_of :: "session_row \<Rightarrow> session" where
  "session_of s = \<lparr>se_ID = sr_id s, se_PrincipalID = sr_principal_id s,
     se_CreatedAt = sr_created_at s, se_ExpiresAt = sr_expires_at s,
     se_LastSeenAt = sr_last_seen_at s, se_UserAgent = sr_user_agent s\<rparr>"

definition SessionStore_Create ::
  "uuid \<Rightarrow> instant \<Rightarrow> uuid \<Rightarrow> string \<Rightarrow> instant \<Rightarrow> string \<Rightarrow> string \<Rightarrow> db \<Rightarrow> session outcome" where
  "SessionStore_Create new_id now principalID tokenHash expiresAt userAgent idToken d =
     (if \<not> db_up d then (Inl DBDown, d)
      else if new_id \<in> sr_id ` set (db_sessions d) then (Inl (UniqueViolation ''sessions_pkey''), d)
      else if tokenHash \<in> sr_token_hash ` set (db_sessions d)
      then (Inl (UniqueViolation ''sessions_token_hash_key''), d)
      else if principalID \<notin> set (principal_ids d)
      then (Inl (ForeignKeyViolation ''sessions_principal_id_fkey''), d)
      else let s = \<lparr>sr_id = new_id, sr_token_hash = tokenHash, sr_principal_id = principalID,
                    sr_created_at = now, sr_expires_at = expiresAt, sr_last_seen_at = None,
                    sr_user_agent = userAgent, sr_id_token = idToken\<rparr>
        in (Inr (session_of s), d\<lparr>db_sessions := db_sessions d @ [s]\<rparr>))"

definition FindPrincipalBySessionToken ::
  "instant \<Rightarrow> db \<Rightarrow> string \<Rightarrow> db_error + (stored_principal \<times> session) option" where
  "FindPrincipalBySessionToken now d tokenHash =
     (if \<not> db_up d then Inl DBDown
      else case find (\<lambda>s. sr_token_hash s = tokenHash \<and> now < sr_expires_at s) (db_sessions d) of
          None \<Rightarrow> Inr None
        | Some s \<Rightarrow>
            (case find (\<lambda>p. pw_id p = sr_principal_id s) (db_principals d) of
               None \<Rightarrow> Inr None
             | Some p \<Rightarrow> Inr (Some (stored_of d p, session_of s))))"

record ended_session =
  es_IDToken :: string
  es_Subject :: string

definition SessionStore_Delete :: "string \<Rightarrow> db \<Rightarrow> ended_session outcome" where
  "SessionStore_Delete tokenHash d =
     (if \<not> db_up d then (Inl DBDown, d)
      else
        (case find (\<lambda>s. sr_token_hash s = tokenHash) (db_sessions d) of
           None \<Rightarrow> Inr \<lparr>es_IDToken = '''', es_Subject = ''''\<rparr>
         | Some s \<Rightarrow>
             (case find (\<lambda>p. pw_id p = sr_principal_id s) (db_principals d) of
                None \<Rightarrow> Inr \<lparr>es_IDToken = '''', es_Subject = ''''\<rparr>
              | Some p \<Rightarrow> Inr \<lparr>es_IDToken = sr_id_token s, es_Subject = pw_subject p\<rparr>),
         d\<lparr>db_sessions := delete_where (\<lambda>s. sr_token_hash s = tokenHash) (db_sessions d)\<rparr>))"

definition DeleteForPrincipal :: "uuid \<Rightarrow> db \<Rightarrow> unit outcome" where
  "DeleteForPrincipal i d =
     (if \<not> db_up d then (Inl DBDown, d)
      else (Inr (), d\<lparr>db_sessions := delete_where (\<lambda>s. sr_principal_id s = i) (db_sessions d)\<rparr>))"

definition SessionStore_TouchLastSeen :: "instant \<Rightarrow> uuid \<Rightarrow> db \<Rightarrow> unit outcome" where
  "SessionStore_TouchLastSeen now i d =
     (if \<not> db_up d then (Inl DBDown, d)
      else (Inr (), d\<lparr>db_sessions :=
        update_where (\<lambda>s. sr_id s = i \<and> stale now (sr_last_seen_at s))
          (\<lambda>s. s\<lparr>sr_last_seen_at := Some now\<rparr>) (db_sessions d)\<rparr>))"

definition SessionStore_DeleteExpired :: "instant \<Rightarrow> db \<Rightarrow> nat outcome" where
  "SessionStore_DeleteExpired now d =
     (if \<not> db_up d then (Inl DBDown, d)
      else (Inr (length (filter (\<lambda>s. sr_expires_at s \<le> now) (db_sessions d))),
            d\<lparr>db_sessions := delete_where (\<lambda>s. sr_expires_at s \<le> now) (db_sessions d)\<rparr>))"

definition SAML_Remember :: "string \<Rightarrow> instant \<Rightarrow> db \<Rightarrow> unit outcome" where
  "SAML_Remember rid expiresAt d =
     (if \<not> db_up d then (Inl DBDown, d)
      else (Inr (), if rid \<in> fst ` set (db_saml_requests d) then d
                    else d\<lparr>db_saml_requests := db_saml_requests d @ [(rid, expiresAt)]\<rparr>))"

definition SAML_Pending :: "instant \<Rightarrow> db \<Rightarrow> db_error + string list" where
  "SAML_Pending now d =
     (if \<not> db_up d then Inl DBDown
      else Inr (map fst (filter (\<lambda>(_, e). now < e) (db_saml_requests d))))"

definition SAML_Forget :: "string \<Rightarrow> db \<Rightarrow> unit outcome" where
  "SAML_Forget rid d =
     (if \<not> db_up d then (Inl DBDown, d)
      else (Inr (), d\<lparr>db_saml_requests := delete_where (\<lambda>(i, _). i = rid) (db_saml_requests d)\<rparr>))"

definition SAML_DeleteExpired :: "instant \<Rightarrow> db \<Rightarrow> nat outcome" where
  "SAML_DeleteExpired now d =
     (if \<not> db_up d then (Inl DBDown, d)
      else (Inr (length (filter (\<lambda>(_, e). e \<le> now) (db_saml_requests d))),
            d\<lparr>db_saml_requests := delete_where (\<lambda>(_, e). e \<le> now) (db_saml_requests d)\<rparr>))"

section \<open>Laws of the statements\<close>

lemma set_update_where:
  "set (update_where P f rows) = (\<lambda>r. if P r then f r else r) ` set rows"
  by (simp add: update_where_def)

lemma map_update_where [table_simps]:
  "(\<And>r. g (f r) = g r) \<Longrightarrow> map g (update_where P f rows) = map g rows"
  by (simp add: update_where_def)

text \<open>A partial unique index: two rows with a value in the column have different values.\<close>

fun unique_col :: "('a \<Rightarrow> 'b option) \<Rightarrow> 'a list \<Rightarrow> bool" where
  "unique_col f [] \<longleftrightarrow> True"
| "unique_col f (x # xs) \<longleftrightarrow> (f x = None \<or> f x \<notin> f ` set xs) \<and> unique_col f xs"

lemma unique_col_update_where [table_simps]:
  assumes "\<And>r. g (f r) = g r"
  shows "unique_col g (update_where P f rows) = unique_col g rows"
proof (induction rows)
  case Nil
  then show ?case by (simp add: update_where_def)
next
  case (Cons r rows)
  have "g ` set (update_where P f rows) = g ` set rows"
    using map_update_where [of g f P rows] assms by (metis set_map)
  with Cons assms show ?case by (simp add: update_where_def)
qed

lemma unique_colD:
  "unique_col f xs \<Longrightarrow> x \<in> set xs \<Longrightarrow> y \<in> set xs \<Longrightarrow> f x = Some v \<Longrightarrow> f y = Some v \<Longrightarrow> x = y"
  by (induction xs) (auto simp: image_iff)

lemma unique_col_append:
  "unique_col f (xs @ [y]) \<longleftrightarrow> unique_col f xs \<and> (f y = None \<or> f y \<notin> f ` set xs)"
  by (induction xs) auto

lemma find_update_where:
  "(\<And>r. Q (f r) = Q r) \<Longrightarrow>
   find Q (update_where P f rows) = map_option (\<lambda>r. if P r then f r else r) (find Q rows)"
  by (induction rows) (auto simp: update_where_def)

lemma set_delete_where [simp]: "set (delete_where P rows) = {r \<in> set rows. \<not> P r}"
  by (auto simp: delete_where_def)

lemma distinct_delete_where: "distinct (map f rows) \<Longrightarrow> distinct (map f (delete_where P rows))"
  by (induction rows) (auto simp: delete_where_def)

lemma find_delete_where:
  "(\<And>r. r \<in> set rows \<Longrightarrow> Q r \<Longrightarrow> \<not> P r) \<Longrightarrow> find Q (delete_where P rows) = find Q rows"
  by (induction rows) (auto simp: delete_where_def)

section \<open>Well-formed tables\<close>

definition binding_key :: "role_binding \<Rightarrow> uuid \<times> string \<times> string" where
  "binding_key b = (rb_principal b, rb_role b, rb_scope b)"

definition principals_wf :: "principal_row list \<Rightarrow> bool" where
  "principals_wf ps \<longleftrightarrow> distinct (map pw_id ps) \<and> distinct (map pw_subject ps)
     \<and> unique_col pw_key_hash ps \<and> unique_col pw_external_id ps
     \<and> list_all row_check ps"

definition bindings_wf :: "uuid list \<Rightarrow> role_binding list \<Rightarrow> bool" where
  "bindings_wf ids bs \<longleftrightarrow> distinct (map binding_key bs)
     \<and> (\<forall>b \<in> set bs. rb_role b \<in> set role_check \<and> rb_principal b \<in> set ids)"

definition sessions_wf :: "uuid list \<Rightarrow> session_row list \<Rightarrow> bool" where
  "sessions_wf ids ss \<longleftrightarrow> distinct (map sr_id ss) \<and> distinct (map sr_token_hash ss)
     \<and> (\<forall>s \<in> set ss. sr_principal_id s \<in> set ids)"

definition db_wf :: "db \<Rightarrow> bool" where
  "db_wf d \<longleftrightarrow> principals_wf (db_principals d) \<and> bindings_wf (principal_ids d) (db_bindings d)
     \<and> sessions_wf (principal_ids d) (db_sessions d)"

lemma binding_sel [simp]:
  "rb_principal (binding i src g role) = i" "rb_role (binding i src g role) = role"
  "rb_scope (binding i src g role) = ScopeStoreWide" "rb_source (binding i src g role) = src"
  "rb_granted_by (binding i src g role) = g"
  by (simp_all add: binding_def)

lemma insert_binding_Inr_iff:
  "insert_binding ids b bs = Inr bs' \<longleftrightarrow>
     rb_role b \<in> set role_check \<and>
     (if binding_key b \<in> binding_key ` set bs then bs' = bs
      else rb_principal b \<in> set ids
        \<and> (rb_granted_by b = None \<or> the (rb_granted_by b) \<in> set ids) \<and> bs' = bs @ [b])"
proof -
  have "(\<exists>b' \<in> set bs. rb_principal b' = rb_principal b \<and> rb_role b' = rb_role b
           \<and> rb_scope b' = rb_scope b) \<longleftrightarrow> binding_key b \<in> binding_key ` set bs"
    unfolding binding_key_def image_iff prod.inject by (metis (no_types))
  then show ?thesis unfolding insert_binding_def by auto
qed

lemma insert_binding_wf:
  "bindings_wf ids bs \<Longrightarrow> insert_binding ids b bs = Inr bs' \<Longrightarrow> bindings_wf ids bs'"
  by (auto simp: insert_binding_Inr_iff bindings_wf_def split: if_splits)

lemma grant_all_wf:
  "bindings_wf ids bs \<Longrightarrow> grant_all ids mk roles bs = Inr bs' \<Longrightarrow> bindings_wf ids bs'"
  by (induction roles arbitrary: bs) (auto split: sum.splits intro: insert_binding_wf)

lemma bindings_wf_delete: "bindings_wf ids bs \<Longrightarrow> bindings_wf ids (delete_where P bs)"
  by (auto simp: bindings_wf_def distinct_delete_where)

lemma bindings_wf_mono: "bindings_wf ids bs \<Longrightarrow> set ids \<subseteq> set ids' \<Longrightarrow> bindings_wf ids' bs"
  by (auto simp: bindings_wf_def)

lemma sessions_wf_mono: "sessions_wf ids ss \<Longrightarrow> set ids \<subseteq> set ids' \<Longrightarrow> sessions_wf ids' ss"
  by (auto simp: sessions_wf_def)

lemma sessions_wf_delete: "sessions_wf ids ss \<Longrightarrow> sessions_wf ids (delete_where P ss)"
  by (auto simp: sessions_wf_def distinct_delete_where)

text \<open>Inserting bindings: what is there afterwards.\<close>

lemma insert_binding_keeps:
  "insert_binding ids b bs = Inr bs' \<Longrightarrow> set bs \<subseteq> set bs' \<and> set bs' \<subseteq> insert b (set bs)
     \<and> binding_key b \<in> binding_key ` set bs'"
  by (auto simp: insert_binding_Inr_iff split: if_splits)

lemma grant_all_keeps:
  "grant_all ids mk roles bs = Inr bs' \<Longrightarrow> set bs \<subseteq> set bs'
     \<and> set bs' \<subseteq> set bs \<union> mk ` set roles
     \<and> (\<forall>role \<in> set roles. binding_key (mk role) \<in> binding_key ` set bs')"
proof (induction roles arbitrary: bs)
  case Nil
  then show ?case by simp
next
  case (Cons role roles)
  then obtain bs1 where ins: "insert_binding ids (mk role) bs = Inr bs1"
    and rest: "grant_all ids mk roles bs1 = Inr bs'"
    by (auto split: sum.splits)
  from insert_binding_keeps [OF ins] Cons.IH [OF rest] show ?case by auto
qed

text \<open>Granting roles that the check lists to a principal that exists always succeeds.\<close>

lemma grant_all_succeeds:
  "set roles \<subseteq> set role_check \<Longrightarrow> i \<in> set ids \<Longrightarrow> by_whom = None \<or> the by_whom \<in> set ids \<Longrightarrow>
   \<exists>bs'. grant_all ids (binding i src by_whom) roles bs = Inr bs'"
proof (induction roles arbitrary: bs)
  case Nil
  then show ?case by simp
next
  case (Cons role roles)
  then have "\<exists>bs1. insert_binding ids (binding i src by_whom role) bs = Inr bs1"
    by (cases "binding_key (binding i src by_whom role) \<in> binding_key ` set bs")
      (simp_all add: insert_binding_Inr_iff)
  then show ?case using Cons by (auto split: sum.splits)
qed

end
