(* ===== verification/Identity_Laws.thy ===== *)
theory Identity_Laws
  imports Identity_Store
begin

text \<open>
  What the identity store promises: its operations keep the tables well-formed, a
  replacement of roles is exact and touches nobody else, rotation retires the old key,
  logins and directory syncs reconcile only their own grants, and revocation, stated once
  as an interface, holds for keys and for sessions alike.
\<close>

section \<open>Roles bound to a principal\<close>

lemma set_roles_of:
  "set (roles_of d i) = {r. (i, r, ScopeStoreWide) \<in> binding_key ` set (db_bindings d)}"
  by (auto simp: roles_of_def binding_key_def image_iff)

lemma distinct_roles_of:
  assumes "bindings_wf ids (db_bindings d)"
  shows "distinct (roles_of d i)"
proof -
  let ?mine = "filter (\<lambda>b. rb_principal b = i \<and> rb_scope b = ScopeStoreWide) (db_bindings d)"
  have "distinct (map binding_key ?mine)"
    using assms by (simp add: bindings_wf_def distinct_map_filter)
  moreover have "map binding_key ?mine = map (\<lambda>r. (i, r, ScopeStoreWide)) (map rb_role ?mine)"
    by (simp add: binding_key_def)
  ultimately have "distinct (map (\<lambda>r. (i, r, ScopeStoreWide)) (map rb_role ?mine))"
    by (simp only:)
  then have "distinct (map rb_role ?mine)" unfolding distinct_map by (rule conjunct1)
  then show ?thesis by (simp add: roles_of_def)
qed

lemma roles_of_eq_set:
  assumes "bindings_wf ids (db_bindings d)"
  shows "roles_of d i = sorted_list_of_set (set (roles_of d i))"
proof -
  have "sorted (roles_of d i)" by (simp add: roles_of_def)
  from sorted_list_of_set.idem_if_sorted_distinct [OF this distinct_roles_of [OF assms]]
  show ?thesis by (rule sym)
qed

lemma roles_of_principals_update [simp]:
  "roles_of (d\<lparr>db_principals := ps\<rparr>) i = roles_of d i"
  "roles_of (d\<lparr>db_sessions := ss\<rparr>) i = roles_of d i"
  by (simp_all add: roles_of_def)

lemma stored_of_principals_update [simp]:
  "stored_of (d\<lparr>db_principals := ps\<rparr>) = stored_of d"
  "stored_of (d\<lparr>db_sessions := ss\<rparr>) = stored_of d"
  by (auto simp: stored_of_def)

lemma binding_key_binding: "binding_key (binding i src g r) = (i, r, ScopeStoreWide)"
  by (simp add: binding_key_def)

lemma grant_all_append:
  "grant_all ids mk roles bs = Inr bs' \<Longrightarrow> \<exists>news. bs' = bs @ news \<and> set news \<subseteq> mk ` set roles"
proof (induction roles arbitrary: bs)
  case Nil
  then show ?case by simp
next
  case (Cons role roles)
  then obtain bs1 where ins: "insert_binding ids (mk role) bs = Inr bs1"
    and rest: "grant_all ids mk roles bs1 = Inr bs'"
    by (auto split: sum.splits)
  from ins obtain n where "bs1 = bs @ n" "set n \<subseteq> {mk role}"
    by (auto simp: insert_binding_Inr_iff split: if_splits)
  with Cons.IH [OF rest] show ?case by auto
qed

lemma grant_all_others:
  assumes "grant_all ids (binding i src g) roles bs = Inr bs'" and "j \<noteq> i"
  shows "filter (\<lambda>b. rb_principal b = j \<and> P b) bs' = filter (\<lambda>b. rb_principal b = j \<and> P b) bs"
proof -
  obtain news where "bs' = bs @ news" "set news \<subseteq> binding i src g ` set roles"
    using grant_all_append [OF assms(1)] by blast
  moreover from this have "\<forall>b \<in> set news. rb_principal b \<noteq> j" using assms(2) by auto
  ultimately show ?thesis by (auto simp: filter_empty_conv)
qed

lemma grant_all_roles:
  assumes "grant_all ids (binding i src g) roles bs = Inr bs'"
  shows "{r. (i, r, ScopeStoreWide) \<in> binding_key ` set bs'} =
           set roles \<union> {r. (i, r, ScopeStoreWide) \<in> binding_key ` set bs}"
proof -
  let ?K = "\<lambda>bs. binding_key ` set bs"
  note keeps = grant_all_keeps [OF assms]
  have "?K bs \<subseteq> ?K bs'"
    using keeps by (intro image_mono) blast
  moreover have "?K bs' \<subseteq> ?K bs \<union> binding_key ` (binding i src g ` set roles)"
    unfolding image_Un [symmetric] using keeps by (intro image_mono) blast
  moreover have "\<forall>role \<in> set roles. (i, role, ScopeStoreWide) \<in> ?K bs'"
    using keeps by (simp add: binding_key_binding)
  moreover have "binding_key ` (binding i src g ` set roles) = (\<lambda>r. (i, r, ScopeStoreWide)) ` set roles"
    by (simp add: image_image binding_key_binding)
  ultimately show ?thesis by auto
qed

section \<open>Replacing the roles of a principal\<close>

lemma find_by_id:
  "distinct (map pw_id ps) \<Longrightarrow> p \<in> set ps \<Longrightarrow> find (\<lambda>q. pw_id q = pw_id p) ps = Some p"
  by (induction ps) auto

lemma FindByID_row:
  "db_up d \<Longrightarrow> principals_wf (db_principals d) \<Longrightarrow> p \<in> set (db_principals d) \<Longrightarrow>
   FindByID d (pw_id p) = Inr (Some (stored_of d p))"
  by (simp add: FindByID_def queryOne_def principals_wf_def find_by_id)

lemma ReplaceRoles_bindings:
  assumes "ReplaceRoles i roles g d = (Inr r, d')"
  shows "\<exists>bs'. grant_all (principal_ids d) (binding i GrantSourceLocal g) roles
           (delete_where (\<lambda>b. rb_principal b = i \<and> rb_scope b = ScopeStoreWide) (db_bindings d))
             = Inr bs' \<and> d' = d\<lparr>db_bindings := bs'\<rparr>"
  using assms by (auto simp: ReplaceRoles_def Let_def then_FindByID_def split: if_splits sum.splits)

lemma ReplaceRoles_roles:
  assumes wf: "db_wf d" and run: "ReplaceRoles i roles g d = (Inr r, d')"
  shows "roles_of d' i = sorted_list_of_set (set roles)"
    and "j \<noteq> i \<Longrightarrow> roles_of d' j = roles_of d j"
    and "db_principals d' = db_principals d" and "db_sessions d' = db_sessions d"
    and "bindings_wf (principal_ids d) (db_bindings d')"
proof -
  let ?kept = "delete_where (\<lambda>b. rb_principal b = i \<and> rb_scope b = ScopeStoreWide) (db_bindings d)"
  from ReplaceRoles_bindings [OF run] obtain bs' where
    grant: "grant_all (principal_ids d) (binding i GrantSourceLocal g) roles ?kept = Inr bs'"
    and d': "d' = d\<lparr>db_bindings := bs'\<rparr>" by blast
  show "db_principals d' = db_principals d" "db_sessions d' = db_sessions d"
    by (simp_all add: d')
  show wf': "bindings_wf (principal_ids d) (db_bindings d')"
    using wf grant by (auto simp: d' db_wf_def intro: grant_all_wf bindings_wf_delete)
  have "(i, r, ScopeStoreWide) \<notin> binding_key ` set ?kept" for r
    by (auto simp: binding_key_def)
  then have "set (roles_of d' i) = set roles"
    using grant_all_roles [OF grant] by (simp add: set_roles_of d')
  then show "roles_of d' i = sorted_list_of_set (set roles)"
    using roles_of_eq_set [OF wf', of i] by metis
  assume j: "j \<noteq> i"
  then have "filter (\<lambda>b. rb_principal b = j \<and> rb_scope b = ScopeStoreWide) ?kept =
      filter (\<lambda>b. rb_principal b = j \<and> rb_scope b = ScopeStoreWide) (db_bindings d)"
    by (auto simp: delete_where_def intro!: filter_cong)
  then show "roles_of d' j = roles_of d j"
    using grant_all_others [OF grant j] by (simp add: roles_of_def d')
qed


text \<open>A small database for concrete instances: a robot with a key and an administrator.\<close>

definition demo_db :: db where
  "demo_db = \<lparr>db_up = True,
     db_principals =
       [(new_row 1 0 ''ci:nightly'' ''api_key'' ''nightly'')\<lparr>pw_key_hash := Some ''h1''\<rparr>,
        (new_row 2 0 ''user:ann'' ''user'' ''Ann'')\<lparr>pw_external_id := Some ''idp|ann''\<rparr>],
     db_bindings = [binding 1 GrantSourceLocal None ''ci'', binding 2 GrantSourceLocal None ''admin''],
     db_sessions = [\<lparr>sr_id = 9, sr_token_hash = ''t'', sr_principal_id = 2, sr_created_at = 0,
       sr_expires_at = 100, sr_last_seen_at = None, sr_user_agent = '''', sr_id_token = ''''\<rparr>],
     db_saml_requests = [], db_groups = [], db_members = []\<rparr>"

lemma demo_db_wf: "db_wf demo_db"
  by code_simp


section \<open>Updating one row of a table with unique columns\<close>

lemma update_where_none: "(\<forall>r \<in> set rows. \<not> P r) \<Longrightarrow> update_where P f rows = rows"
  by (simp add: update_where_def map_idI)

lemma update_where_Cons [simp]:
  "update_where P f (x # xs) = (if P x then f x else x) # update_where P f xs"
  by (simp add: update_where_def)

lemma update_where_Nil [simp]: "update_where P f [] = []"
  by (simp add: update_where_def)

lemma only_one_hit:
  "distinct (map k (x # xs)) \<Longrightarrow> \<forall>y \<in> set (x # xs). P y \<longrightarrow> k y = i \<Longrightarrow> P x \<Longrightarrow> \<forall>y \<in> set xs. \<not> P y"
  by (auto simp: image_iff)

lemma unique_col_update_one:
  assumes "distinct (map k xs)" and "\<forall>x \<in> set xs. P x \<longrightarrow> k x = i"
    and "unique_col f xs" and "\<forall>x \<in> set xs. \<not> P x \<longrightarrow> f x \<noteq> Some v"
    and g: "\<And>x. f (g x) = Some v"
  shows "unique_col f (update_where P g xs)"
  using assms(1-4)
proof (induction xs)
  case Nil
  then show ?case by simp
next
  case (Cons x xs)
  show ?case
  proof (cases "P x")
    case True
    then have none: "\<forall>y \<in> set xs. \<not> P y"
      using only_one_hit [OF Cons.prems(1,2)] by blast
    then have "Some v \<notin> f ` set xs" using Cons.prems(4) by force
    with True none Cons.prems(3) g show ?thesis by (simp add: update_where_none)
  next
    case False
    then have "f x \<noteq> Some v" using Cons.prems(4) by simp
    then have "f x \<notin> f ` set (update_where P g xs)" if "f x \<noteq> None"
      using that Cons.prems(3) g by (auto simp: set_update_where split: if_splits)
    with False Cons show ?thesis by auto
  qed
qed

lemma distinct_map_update_one:
  assumes "distinct (map k xs)" and "\<forall>x \<in> set xs. P x \<longrightarrow> k x = i"
    and "distinct (map f xs)" and "\<forall>x \<in> set xs. \<not> P x \<longrightarrow> f x \<noteq> v" and "\<And>x. f (g x) = v"
  shows "distinct (map f (update_where P g xs))"
  using assms(1-4)
proof (induction xs)
  case Nil
  then show ?case by simp
next
  case (Cons x xs)
  show ?case
  proof (cases "P x")
    case True
    then have "\<forall>y \<in> set xs. \<not> P y"
      using only_one_hit [OF Cons.prems(1,2)] by blast
    with True Cons.prems assms(5) show ?thesis by (auto simp: update_where_none)
  next
    case False
    with Cons assms(5) show ?thesis by (auto simp: set_update_where split: if_splits)
  qed
qed

lemma find_unique:
  "p \<in> set ps \<Longrightarrow> Q p \<Longrightarrow> (\<And>q. q \<in> set ps \<Longrightarrow> Q q \<Longrightarrow> q = p) \<Longrightarrow> find Q ps = Some p"
  by (metis find_None_iff find_SomeD not_None_eq)

section \<open>Rotating a key\<close>

lemma wf_same_id:
  "principals_wf ps \<Longrightarrow> p \<in> set ps \<Longrightarrow> q \<in> set ps \<Longrightarrow> pw_id q = pw_id p \<Longrightarrow> q = p"
  by (auto simp: principals_wf_def distinct_map dest: inj_onD)

lemma rotate_rows_wf:
  assumes wf: "principals_wf ps" and p: "p \<in> set ps" "pw_kind p = PrincipalKindAPIKey"
    and fresh: "\<forall>q \<in> set ps. q \<noteq> p \<longrightarrow> pw_key_hash q \<noteq> Some h"
  shows "principals_wf (update_where (\<lambda>q. pw_id q = pw_id p \<and> pw_kind q = PrincipalKindAPIKey)
           (\<lambda>q. q\<lparr>pw_key_hash := Some h\<rparr>) ps)"
proof -
  let ?hit = "\<lambda>q. pw_id q = pw_id p \<and> pw_kind q = PrincipalKindAPIKey"
  have hit: "?hit q \<longleftrightarrow> q = p" if "q \<in> set ps" for q
    using wf_same_id [OF wf p(1) that] p(2) by auto
  have "unique_col pw_key_hash (update_where ?hit (\<lambda>q. q\<lparr>pw_key_hash := Some h\<rparr>) ps)"
  proof (rule unique_col_update_one [where k = pw_id and i = "pw_id p" and v = h])
    show "distinct (map pw_id ps)" "unique_col pw_key_hash ps"
      using wf by (simp_all add: principals_wf_def)
    show "\<forall>q \<in> set ps. \<not> ?hit q \<longrightarrow> pw_key_hash q \<noteq> Some h"
      using fresh p(2) by metis
  qed simp_all
  moreover have "list_all row_check (update_where ?hit (\<lambda>q. q\<lparr>pw_key_hash := Some h\<rparr>) ps)"
    using wf by (auto simp: principals_wf_def list_all_iff set_update_where row_check_def)
  ultimately show ?thesis using wf
    by (simp add: principals_wf_def table_simps)
qed

lemma find_key_after_rotate:
  assumes wf: "principals_wf ps" and p: "p \<in> set ps"
    and hit: "\<And>q. q \<in> set ps \<Longrightarrow> P q \<longleftrightarrow> q = p" and k: "k \<noteq> h"
  shows "find (\<lambda>q. pw_key_hash q = Some k) (update_where P (\<lambda>q. q\<lparr>pw_key_hash := Some h\<rparr>) ps) =
     (if pw_key_hash p = Some k then None else find (\<lambda>q. pw_key_hash q = Some k) ps)"
proof (cases "pw_key_hash p = Some k")
  case True
  have uniq: "unique_col pw_key_hash ps" using wf by (simp add: principals_wf_def)
  have "pw_key_hash r \<noteq> Some k"
    if r: "r \<in> set (update_where P (\<lambda>q. q\<lparr>pw_key_hash := Some h\<rparr>) ps)" for r
  proof -
    from r obtain q where q: "q \<in> set ps" "r = (if P q then q\<lparr>pw_key_hash := Some h\<rparr> else q)"
      unfolding set_update_where by blast
    show ?thesis
    proof (cases "q = p")
      case False
      then show ?thesis using q hit [OF q(1)] unique_colD [OF uniq p q(1) True] by auto
    qed (use q hit [OF q(1)] k in simp)
  qed
  with True show ?thesis by (simp add: find_None_iff_list)
next
  case False
  have "find (\<lambda>q. pw_key_hash q = Some k) (update_where P (\<lambda>q. q\<lparr>pw_key_hash := Some h\<rparr>) qs) =
      find (\<lambda>q. pw_key_hash q = Some k) qs" if "set qs \<subseteq> set ps" for qs
    using that by (induction qs) (auto simp: hit False k [symmetric])
  with False show ?thesis by simp
qed

text \<open>
  Rotating a key of an API-key principal, to a hash no other principal uses, keeps the
  identity and replaces the credential: the new hash resolves to the same principal with
  the same subject and roles, the old one resolves to nobody, and every other key resolves as
  before. A human principal has no key and nothing changes for it.
\<close>

theorem RotateKey_replaces:
  assumes wf: "db_wf d" and up: "db_up d" and p: "p \<in> set (db_principals d)"
    and fresh: "\<forall>q \<in> set (db_principals d). q \<noteq> p \<longrightarrow> pw_key_hash q \<noteq> Some h"
  shows "if pw_kind p = PrincipalKindAPIKey
     then \<exists>st d'. RotateKey (pw_id p) h d = (Inr (Some st), d') \<and> db_wf d'
       \<and> FindByKeyHash d' h = Inr (Some st)
       \<and> sp_ID st = pw_id p \<and> sp_Subject st = pw_subject p \<and> sp_Roles st = roles_of d (pw_id p)
       \<and> (\<forall>k. k \<noteq> h \<longrightarrow> FindByKeyHash d' k =
            (if pw_key_hash p = Some k then Inr None else FindByKeyHash d k))
     else RotateKey (pw_id p) h d = (Inr None, d)"
proof -
  let ?ps = "db_principals d"
  let ?hit = "\<lambda>q. pw_id q = pw_id p \<and> pw_kind q = PrincipalKindAPIKey"
  let ?f = "\<lambda>q. q\<lparr>pw_key_hash := Some h\<rparr>"
  let ?rows = "update_where ?hit ?f ?ps"
  let ?d' = "d\<lparr>db_principals := ?rows\<rparr>"
  have pwf: "principals_wf ?ps" using wf by (simp add: db_wf_def)
  have hit: "?hit q \<longleftrightarrow> q = p \<and> pw_kind p = PrincipalKindAPIKey" if "q \<in> set ?ps" for q
    using wf_same_id [OF pwf p that] by auto
  show ?thesis
  proof (cases "pw_kind p = PrincipalKindAPIKey")
    case False
    with hit up show ?thesis by (auto simp: RotateKey_def)
  next
    case True
    have rows_wf: "principals_wf ?rows" by (rule rotate_rows_wf [OF pwf p True fresh])
    have mem: "?f p \<in> set ?rows" using p True by (auto simp: set_update_where image_iff intro!: bexI [of _ p])
    have found: "find (\<lambda>q. pw_key_hash q = Some h) ?rows = Some (?f p)"
      using fresh hit True by (intro find_unique mem) (auto simp: set_update_where split: if_splits)
    have "FindByID ?d' (pw_id (?f p)) = Inr (Some (stored_of ?d' (?f p)))"
      by (rule FindByID_row) (use up rows_wf mem in auto)
    then have run: "RotateKey (pw_id p) h d = (Inr (Some (stored_of d (?f p))), ?d')"
      using up p True fresh hit by (auto simp: RotateKey_def Let_def then_FindByID_def)
    have others: "FindByKeyHash ?d' k =
        (if pw_key_hash p = Some k then Inr None else FindByKeyHash d k)" if "k \<noteq> h" for k
      using find_key_after_rotate [OF pwf p _ that, of ?hit] hit True up
      by (simp add: FindByKeyHash_def queryOne_def)
    have "db_wf ?d'"
      using wf rows_wf by (simp add: db_wf_def table_simps)
    with run found others up True show ?thesis
      by (auto simp: FindByKeyHash_def queryOne_def stored_of_def)
  qed
qed

theorem RotateKey_replaces_witness:
  "\<exists>st d'. RotateKey 1 ''h2'' demo_db = (Inr (Some st), d') \<and> FindByKeyHash d' ''h2'' = Inr (Some st)
     \<and> sp_Subject st = ''ci:nightly'' \<and> FindByKeyHash d' ''h1'' = Inr None"
proof -
  let ?p = "db_principals demo_db ! 0"
  have p: "?p \<in> set (db_principals demo_db)" by code_simp
  have facts: "pw_id ?p = 1" "pw_kind ?p = PrincipalKindAPIKey" "pw_subject ?p = ''ci:nightly''"
      "pw_key_hash ?p = Some ''h1''"
    by code_simp+
  have up: "db_up demo_db" by code_simp
  have fresh: "\<forall>q \<in> set (db_principals demo_db). q \<noteq> ?p \<longrightarrow> pw_key_hash q \<noteq> Some ''h2''" by code_simp
  show ?thesis
    using RotateKey_replaces [OF demo_db_wf up p fresh] unfolding facts by fastforce
qed

section \<open>Revocation\<close>

text \<open>
  What both credential lookups promise about revocation, and what an authenticator makes of
  it: a lookup never returns an enabled principal that has been revoked, and revoking one
  principal does not change what the lookup says about any other.
\<close>

locale revocable =
  fixes resolve :: "db \<Rightarrow> string \<Rightarrow> db_error + stored_principal option"
    and revoke :: "uuid \<Rightarrow> db \<Rightarrow> db"
  assumes resolve_other:
      "sp_ID st \<noteq> i \<Longrightarrow> resolve (revoke i d) k = Inr (Some st) \<longleftrightarrow> resolve d k = Inr (Some st)"
    and resolve_self:
      "resolve (revoke i d) k = Inr (Some st) \<Longrightarrow> sp_ID st = i \<Longrightarrow> sp_DisabledAt st \<noteq> None"
begin

text \<open>The enabled principals a credential resolves to after a revocation are the ones it
  resolved to before, less the one revoked.\<close>

lemma enabled_after_revoke:
  "resolve (revoke i d) k = Inr (Some st) \<and> sp_DisabledAt st = None \<longleftrightarrow>
     resolve d k = Inr (Some st) \<and> sp_DisabledAt st = None \<and> sp_ID st \<noteq> i"
  using resolve_other resolve_self by blast

text \<open>Revocations commute as far as authentication can tell.\<close>

lemma revoke_commute:
  "resolve (revoke i (revoke j d)) k = Inr (Some st) \<and> sp_DisabledAt st = None \<longleftrightarrow>
   resolve (revoke j (revoke i d)) k = Inr (Some st) \<and> sp_DisabledAt st = None"
  using enabled_after_revoke [of i "revoke j d" k st] enabled_after_revoke [of j d k st]
    enabled_after_revoke [of j "revoke i d" k st] enabled_after_revoke [of i d k st]
  by argo

end

definition disable_row :: "instant \<Rightarrow> uuid \<Rightarrow> principal_row \<Rightarrow> principal_row" where
  "disable_row now i p =
     (if pw_id p = i \<and> pw_disabled_at p = None then p\<lparr>pw_disabled_at := Some now\<rparr> else p)"

lemma disable_row_sel [simp]:
  "pw_id (disable_row now i p) = pw_id p" "pw_key_hash (disable_row now i p) = pw_key_hash p"
  "pw_id p = i \<Longrightarrow> pw_disabled_at (disable_row now i p) \<noteq> None"
  "pw_id p \<noteq> i \<Longrightarrow> disable_row now i p = p"
  by (auto simp: disable_row_def)

abbreviation disabled_db :: "instant \<Rightarrow> uuid \<Rightarrow> db \<Rightarrow> db" where
  "disabled_db now i d \<equiv> snd (SetDisabled now i True d)"

lemma SetDisabled_rows:
  "disabled_db now i d =
     (if db_up d then d\<lparr>db_principals := map (disable_row now i) (db_principals d)\<rparr> else d)"
  by (simp add: SetDisabled_def Let_def then_FindByID_def update_where_def disable_row_def)

lemma stored_of_disable_row:
  "sp_ID (stored_of d (disable_row now i p)) = pw_id p"
  "pw_id p = i \<Longrightarrow> sp_DisabledAt (stored_of d (disable_row now i p)) \<noteq> None"
  by (simp_all add: stored_of_def)

lemma find_disable_row:
  "(\<And>p. Q (disable_row now i p) = Q p) \<Longrightarrow>
   find Q (map (disable_row now i) ps) = map_option (disable_row now i) (find Q ps)"
  by (induction ps) auto

lemma map_option_stored_disable:
  assumes "sp_ID st \<noteq> i"
  shows "map_option (\<lambda>p. stored_of d (disable_row now i p)) found = Some st \<longleftrightarrow>
     map_option (stored_of d) found = Some st"
proof (cases found)
  case (Some p)
  show ?thesis
  proof (cases "pw_id p = i")
    case True
    then show ?thesis using assms Some by (auto simp: stored_of_def)
  qed (simp add: Some)
qed simp

lemma disabled_stored:
  assumes "map_option (\<lambda>p. stored_of d (disable_row now i p)) found = Some st" and "sp_ID st = i"
  shows "sp_DisabledAt st \<noteq> None"
proof -
  from assms(1) obtain p where st: "st = stored_of d (disable_row now i p)" by (cases found) auto
  with assms(2) have "pw_id p = i" by (simp only: stored_of_disable_row)
  then show ?thesis unfolding st by (rule stored_of_disable_row(2))
qed

lemmas disable_lookup =
  SetDisabled_rows find_disable_row option.map_comp comp_def map_option_stored_disable

interpretation key_revocation: revocable FindByKeyHash "\<lambda>i d. disabled_db now i d" for now
proof unfold_locales
  fix st :: stored_principal and i d k
  show "sp_ID st \<noteq> i \<Longrightarrow>
      FindByKeyHash (disabled_db now i d) k = Inr (Some st) \<longleftrightarrow> FindByKeyHash d k = Inr (Some st)"
    by (simp add: FindByKeyHash_def queryOne_def disable_lookup del: map_option_eq_Some)
  show "FindByKeyHash (disabled_db now i d) k = Inr (Some st) \<Longrightarrow> sp_ID st = i
      \<Longrightarrow> sp_DisabledAt st \<noteq> None"
    using disabled_stored
    by (simp add: FindByKeyHash_def queryOne_def disable_lookup del: map_option_eq_Some
        split: if_splits)
qed

text \<open>Sessions resolve through the principal's row, so the same law holds for them.\<close>

definition session_principal :: "instant \<Rightarrow> db \<Rightarrow> string \<Rightarrow> db_error + stored_principal option" where
  "session_principal t d k = map_sum id (map_option fst) (FindPrincipalBySessionToken t d k)"

lemma session_principal_simp:
  "session_principal t d k =
     (if \<not> db_up d then Inl DBDown
      else case find (\<lambda>s. sr_token_hash s = k \<and> t < sr_expires_at s) (db_sessions d) of
          None \<Rightarrow> Inr None
        | Some s \<Rightarrow> Inr (map_option (stored_of d)
                            (find (\<lambda>p. pw_id p = sr_principal_id s) (db_principals d))))"
  by (simp add: session_principal_def FindPrincipalBySessionToken_def split: option.splits)

interpretation session_revocation:
  revocable "session_principal t" "\<lambda>i d. disabled_db now i d" for t now
proof unfold_locales
  fix st :: stored_principal and i d k
  show "sp_ID st \<noteq> i \<Longrightarrow> session_principal t (disabled_db now i d) k = Inr (Some st)
      \<longleftrightarrow> session_principal t d k = Inr (Some st)"
    by (simp add: session_principal_simp disable_lookup del: map_option_eq_Some split: option.splits)
  show "session_principal t (disabled_db now i d) k = Inr (Some st) \<Longrightarrow> sp_ID st = i
      \<Longrightarrow> sp_DisabledAt st \<noteq> None"
    using disabled_stored
    by (simp add: session_principal_simp disable_lookup del: map_option_eq_Some
        split: if_splits option.splits)
qed

lemma Session_accept_principal_iff:
  "(\<exists>w'. Session_Authenticate hash (FindPrincipalBySessionToken t d) now r w = (Inr p, w')) \<longleftrightarrow>
     (\<exists>v st. Cookie r SessionCookie = Some v \<and> v \<noteq> [] \<and>
        session_principal t d (hash v) = Inr (Some st) \<and> sp_DisabledAt st = None \<and>
        p = (principalFromStored st)\<lparr>pr_ViaSession := True\<rparr>)"
proof -
  have "(\<exists>sess. FindPrincipalBySessionToken t d h = Inr (Some (st, sess)))
      \<longleftrightarrow> session_principal t d h = Inr (Some st)" for h st
    by (cases "FindPrincipalBySessionToken t d h") (auto simp: session_principal_def)
  then show ?thesis unfolding Session_accept_iff by blast
qed

lemma pr_ID_via_session: "pr_ID (p\<lparr>pr_ViaSession := b\<rparr>) = pr_ID p"
  by simp

lemma disabled_key:
  "(\<exists>w'. DBKey_Authenticate hash (FindByKeyHash (disabled_db now i d)) t r w = (Inr p, w'))
     \<longleftrightarrow> (\<exists>w'. DBKey_Authenticate hash (FindByKeyHash d) t r w = (Inr p, w')) \<and> pr_ID p \<noteq> i"
  unfolding DBKey_accept_iff using key_revocation.enabled_after_revoke
  by (metis principalFromStored_simps(1))

lemma disabled_session:
  "(\<exists>w'. Session_Authenticate hash (FindPrincipalBySessionToken t (disabled_db now i d)) t r w = (Inr p, w'))
     \<longleftrightarrow> (\<exists>w'. Session_Authenticate hash (FindPrincipalBySessionToken t d) t r w = (Inr p, w'))
         \<and> pr_ID p \<noteq> i"
  unfolding Session_accept_principal_iff using session_revocation.enabled_after_revoke
  by (metis principalFromStored_simps(1) pr_ID_via_session)

text \<open>
  C33. Revocation is immediate and precise. After a principal is disabled, the database
  authenticators (an API key, a session cookie) accept a request exactly when they accepted it
  before and it authenticates somebody else; nobody else's requests are affected, and the
  caller that is accepted is the same.
\<close>

theorem disabled_never_authenticates:
  "((\<exists>w'. DBKey_Authenticate hash (FindByKeyHash (snd (SetDisabled now i True d))) t r w = (Inr p, w'))
     \<longleftrightarrow> (\<exists>w'. DBKey_Authenticate hash (FindByKeyHash d) t r w = (Inr p, w')) \<and> pr_ID p \<noteq> i) \<and>
   ((\<exists>w'. Session_Authenticate hash
              (FindPrincipalBySessionToken t (snd (SetDisabled now i True d))) t r w = (Inr p, w'))
     \<longleftrightarrow> (\<exists>w'. Session_Authenticate hash (FindPrincipalBySessionToken t d) t r w = (Inr p, w'))
         \<and> pr_ID p \<noteq> i)"
  by (intro conjI disabled_key disabled_session)

section \<open>Reconciling the grants of one source\<close>

text \<open>Both logins and directory syncs replace the grants that came from their own source and
  leave every other grant alone.\<close>

lemma reconcile_wf:
  "bindings_wf ids bs \<Longrightarrow> reconcile ids src i roles bs = Inr bs' \<Longrightarrow> bindings_wf ids bs'"
  unfolding reconcile_def by (rule grant_all_wf [OF bindings_wf_delete])

lemma reconcile_succeeds:
  "set roles \<subseteq> set role_check \<Longrightarrow> i \<in> set ids \<Longrightarrow> \<exists>bs'. reconcile ids src i roles bs = Inr bs'"
  unfolding reconcile_def by (rule grant_all_succeeds) simp_all

lemma reconcile_keeps_foreign:
  assumes "reconcile ids src i roles bs = Inr bs'" and "b \<in> set bs"
    and "rb_source b \<noteq> src \<or> rb_principal b \<noteq> i \<or> rb_scope b \<noteq> ScopeStoreWide"
  shows "b \<in> set bs'"
  using grant_all_keeps [OF assms(1) [unfolded reconcile_def]] assms(2,3) by auto

lemma reconcile_others:
  assumes "reconcile ids src i roles bs = Inr bs'" and "j \<noteq> i"
  shows "filter (\<lambda>b. rb_principal b = j \<and> P b) bs' = filter (\<lambda>b. rb_principal b = j \<and> P b) bs"
proof -
  have "filter (\<lambda>b. rb_principal b = j \<and> P b)
      (delete_where (\<lambda>b. rb_principal b = i \<and> rb_scope b = ScopeStoreWide \<and> rb_source b = src
         \<and> rb_role b \<notin> set roles) bs) = filter (\<lambda>b. rb_principal b = j \<and> P b) bs"
    using assms(2) by (auto simp: delete_where_def intro!: filter_cong)
  then show ?thesis
    using grant_all_others [OF assms(1) [unfolded reconcile_def] assms(2), of P] by simp
qed

lemma reconcile_roles:
  assumes "reconcile ids src i roles bs = Inr bs'"
  shows "{r. (i, r, ScopeStoreWide) \<in> binding_key ` set bs'} =
     set roles \<union> {rb_role b |b. b \<in> set bs \<and> rb_principal b = i \<and> rb_scope b = ScopeStoreWide
                      \<and> rb_source b \<noteq> src}"
proof -
  have "{r. (i, r, ScopeStoreWide) \<in> binding_key ` set (delete_where
        (\<lambda>b. rb_principal b = i \<and> rb_scope b = ScopeStoreWide \<and> rb_source b = src
         \<and> rb_role b \<notin> set roles) bs)} \<union> set roles
      = set roles \<union> {rb_role b |b. b \<in> set bs \<and> rb_principal b = i \<and> rb_scope b = ScopeStoreWide
                      \<and> rb_source b \<noteq> src}"
    by (auto simp: binding_key_def image_iff)
  then show ?thesis
    using grant_all_roles [OF assms [unfolded reconcile_def]] by (simp add: Un_commute)
qed

section \<open>Logins\<close>

lemma update_where_cong:
  "(\<And>r. r \<in> set rows \<Longrightarrow> P r \<Longrightarrow> f r = g r) \<Longrightarrow> update_where P f rows = update_where P g rows"
  by (auto simp: update_where_def)

text \<open>Naming one row anew: a subject and an external id that no other row has.\<close>

lemma rename_one_row:
  assumes wf: "principals_wf ps" and p: "p \<in> set ps"
    and hit: "\<And>q. q \<in> set ps \<Longrightarrow> P q \<longleftrightarrow> q = p"
    and subj: "\<forall>q \<in> set ps. q \<noteq> p \<longrightarrow> pw_subject q \<noteq> s"
    and ext: "\<forall>q \<in> set ps. q \<noteq> p \<longrightarrow> pw_external_id q \<noteq> Some e"
    and f: "\<And>q. f q = q\<lparr>pw_external_id := Some e, pw_display_name := n, pw_subject := s\<rparr>"
  shows "principals_wf (update_where P f ps)"
proof -
  have one: "\<forall>q \<in> set ps. P q \<longrightarrow> pw_id q = pw_id p" using hit by auto
  have "distinct (map pw_subject (update_where P f ps))"
    by (rule distinct_map_update_one [where k = pw_id and v = s and i = "pw_id p"])
      (use wf one hit subj f in \<open>auto simp: principals_wf_def\<close>)
  moreover have "unique_col pw_external_id (update_where P f ps)"
    by (rule unique_col_update_one [where k = pw_id and v = e and i = "pw_id p"])
      (use wf one hit ext f in \<open>auto simp: principals_wf_def\<close>)
  moreover have "list_all row_check (update_where P f ps)"
    using wf by (auto simp: principals_wf_def list_all_iff set_update_where row_check_def f)
  ultimately show ?thesis using wf
    by (simp add: principals_wf_def table_simps f)
qed

definition login_target ::
  "uuid \<Rightarrow> instant \<Rightarrow> idp_login \<Rightarrow> db \<Rightarrow> store_error + (uuid \<times> principal_row list)" where
  "login_target new_id now l d =
     (case claimProvisionedPrincipal l d of
        Inl e \<Rightarrow> Inl e
      | Inr (Some hit) \<Rightarrow> Inr hit
      | Inr None \<Rightarrow> upsert_by_external_id new_id now l d)"

text \<open>What a login makes of the principals: it names one row, new or old, and leaves the
  others as they are.\<close>

definition login_named :: "idp_login \<Rightarrow> uuid \<Rightarrow> principal_row list \<Rightarrow> principal_row list \<Rightarrow> bool" where
  "login_named l i ps rows \<longleftrightarrow>
     principals_wf rows \<and> set (map pw_id ps) \<subseteq> set (map pw_id rows)
     \<and> (\<exists>p \<in> set rows. pw_id p = i \<and> pw_subject p = il_Subject l
          \<and> pw_external_id p = Some (il_ExternalID l))
     \<and> (\<forall>q \<in> set ps. \<exists>q' \<in> set rows. pw_id q' = pw_id q \<and> pw_disabled_at q' = pw_disabled_at q
          \<and> (pw_id q \<noteq> i \<longrightarrow> q' = q))
     \<and> (\<forall>q \<in> set ps. pw_external_id q = Some (il_ExternalID l) \<longrightarrow> pw_id q = i)"

lemma login_named_update:
  assumes wf: "principals_wf ps" and p: "p \<in> set ps"
    and hit: "\<And>q. q \<in> set ps \<Longrightarrow> P q \<longleftrightarrow> q = p"
    and subj: "\<forall>q \<in> set ps. q \<noteq> p \<longrightarrow> pw_subject q \<noteq> il_Subject l"
    and ext: "\<forall>q \<in> set ps. q \<noteq> p \<longrightarrow> pw_external_id q \<noteq> Some (il_ExternalID l)"
    and f: "\<And>q. f q = q\<lparr>pw_external_id := Some (il_ExternalID l), pw_display_name := n,
                      pw_subject := il_Subject l\<rparr>"
  shows "login_named l (pw_id p) ps (update_where P f ps)"
proof -
  let ?rows = "update_where P f ps"
  have ids: "set (map pw_id ps) \<subseteq> set (map pw_id ?rows)" by (simp add: table_simps f)
  have named: "f p \<in> set ?rows" using p hit by (force simp: set_update_where)
  have kept: "\<exists>q' \<in> set ?rows. pw_id q' = pw_id q \<and> pw_disabled_at q' = pw_disabled_at q
      \<and> (pw_id q \<noteq> pw_id p \<longrightarrow> q' = q)" if "q \<in> set ps" for q
  proof (rule bexI)
    show "(if P q then f q else q) \<in> set ?rows" using that by (auto simp: set_update_where)
  qed (use that hit in \<open>auto simp: f\<close>)
  show ?thesis
    unfolding login_named_def
  proof (intro conjI ballI impI)
    show "principals_wf ?rows" by (rule rename_one_row [OF wf p hit subj ext f])
    show "\<exists>q \<in> set ?rows. pw_id q = pw_id p \<and> pw_subject q = il_Subject l
        \<and> pw_external_id q = Some (il_ExternalID l)"
      by (rule bexI [OF _ named]) (simp add: f)
    show "pw_id q = pw_id p" if "q \<in> set ps" "pw_external_id q = Some (il_ExternalID l)" for q
      using that ext by auto
  qed (rule ids, rule kept)
qed

lemma login_named_claim:
  assumes wf: "principals_wf (db_principals d)"
    and claim: "claimProvisionedPrincipal l d = Inr (Some (i, rows))"
  shows "login_named l i (db_principals d) rows"
proof -
  let ?ps = "db_principals d"
  obtain p where one: "filter (claimable l) ?ps = [p]" and i: "i = pw_id p"
    and subj: "\<forall>q \<in> set ?ps. claimable l q \<or> pw_subject q \<noteq> il_Subject l"
    and ext: "\<forall>q \<in> set ?ps. pw_external_id q \<noteq> Some (il_ExternalID l)"
    and rows: "rows = update_where (claimable l)
        (\<lambda>q. q\<lparr>pw_external_id := Some (il_ExternalID l), pw_display_name := il_DisplayName l,
               pw_subject := il_Subject l\<rparr>) ?ps"
    using claim by (auto simp: claimProvisionedPrincipal_def split: list.splits if_splits)
  have only: "q \<in> set ?ps \<Longrightarrow> claimable l q \<longleftrightarrow> q = p" for q
    using arg_cong [OF one, of set] by auto
  have "p \<in> set ?ps" using arg_cong [OF one, of set] by auto
  then show ?thesis
    unfolding i rows by (rule login_named_update [OF wf]) (use only subj ext in auto)
qed

lemma unique_col_new: "unique_col f (xs @ [y]) \<longleftrightarrow> unique_col f xs \<and> (f y = None \<or> (\<forall>x \<in> set xs. f x \<noteq> f y))"
  unfolding unique_col_append by (auto simp: image_iff)

lemma login_named_new:
  assumes wf: "principals_wf ps" and i: "i \<notin> set (map pw_id ps)"
    and subj: "\<forall>q \<in> set ps. pw_subject q \<noteq> il_Subject l"
    and ext: "\<forall>q \<in> set ps. pw_external_id q \<noteq> Some (il_ExternalID l)"
  shows "login_named l i ps (ps @ [(new_row i now (il_Subject l) PrincipalKindUser n)
           \<lparr>pw_external_id := Some (il_ExternalID l)\<rparr>])"
proof -
  have "pw_subject ` set ps \<inter> {il_Subject l} = {}" using subj by auto
  then show ?thesis
    using wf i ext unfolding login_named_def principals_wf_def
    by (auto simp: new_row_def unique_col_new row_check_def PrincipalKindUser_def
        PrincipalKindAPIKey_def)
qed

lemma login_named_upsert:
  assumes wf: "principals_wf (db_principals d)"
    and upsert: "upsert_by_external_id new_id now l d = Inr (i, rows)"
  shows "login_named l i (db_principals d) rows"
proof -
  let ?ps = "db_principals d"
  let ?ext = "\<lambda>p. pw_external_id p = Some (il_ExternalID l)"
  show ?thesis
  proof (cases "find ?ext ?ps")
    case None
    then have "\<forall>q \<in> set ?ps. \<not> ?ext q" by (simp only: find_None_iff_list)
    with None upsert show ?thesis
      by (auto simp: upsert_by_external_id_def split: if_splits intro!: login_named_new [OF wf])
  next
    case (Some p)
    have p: "p \<in> set ?ps" "?ext p" using find_SomeD [OF Some] by blast+
    have uniq: "unique_col pw_external_id ?ps" using wf by (simp add: principals_wf_def)
    have only: "?ext q \<longleftrightarrow> q = p" if "q \<in> set ?ps" for q
      using unique_colD [OF uniq that p(1)] p(2) by blast
    from Some upsert have i: "i = pw_id p"
      and subj: "\<forall>q \<in> set ?ps. ?ext q \<or> pw_subject q \<noteq> il_Subject l"
      and rows: "rows = update_where ?ext
          (\<lambda>p. p\<lparr>pw_subject := il_Subject l, pw_display_name := il_DisplayName l\<rparr>) ?ps"
      by (auto simp: upsert_by_external_id_def split: if_splits)
    have rows': "rows = update_where ?ext (\<lambda>q. q\<lparr>pw_external_id := Some (il_ExternalID l),
        pw_display_name := il_DisplayName l, pw_subject := il_Subject l\<rparr>) ?ps"
      unfolding rows by (rule update_where_cong) simp
    show ?thesis
      unfolding i rows' by (rule login_named_update [OF wf p(1)]) (use only subj in auto)
  qed
qed

lemma UpsertFromIdP_run:
  assumes "UpsertFromIdP new_id now l d = (Inr r, d')"
  shows "\<exists>i rows bs. db_up d
     \<and> login_target new_id now l d = Inr (i, rows)
     \<and> reconcile (map pw_id rows) GrantSourceIdP i (il_Roles l) (db_bindings d) = Inr bs
     \<and> d' = d\<lparr>db_principals := rows, db_bindings := bs\<rparr> \<and> FindByID d' i = Inr r"
  using assms
  by (auto simp: UpsertFromIdP_def reconcileIdPRoles_def login_target_def Let_def
      split: if_splits sum.splits option.splits)

lemma login_named_target:
  "principals_wf (db_principals d) \<Longrightarrow> login_target new_id now l d = Inr (i, rows) \<Longrightarrow>
   login_named l i (db_principals d) rows"
  by (auto simp: login_target_def split: sum.splits option.splits
      dest: login_named_claim login_named_upsert)

text \<open>What a login that succeeds leaves behind.\<close>

lemma login_effect:
  assumes wf: "db_wf d" and run: "UpsertFromIdP new_id now l d = (Inr r, d')"
  shows "\<exists>st. r = Some st \<and> sp_Subject st = il_Subject l
     \<and> set (sp_Roles st) = set (il_Roles l)
         \<union> {rb_role b |b. b \<in> set (db_bindings d) \<and> rb_principal b = sp_ID st
              \<and> rb_scope b = ScopeStoreWide \<and> rb_source b \<noteq> GrantSourceIdP}
     \<and> (\<forall>p \<in> set (db_principals d). pw_external_id p = Some (il_ExternalID l) \<longrightarrow>
          sp_ID st = pw_id p \<and> sp_DisabledAt st = pw_disabled_at p)
     \<and> (\<forall>p \<in> set (db_principals d). pw_id p \<noteq> sp_ID st \<longrightarrow>
          p \<in> set (db_principals d') \<and> roles_of d' (pw_id p) = roles_of d (pw_id p))
     \<and> db_sessions d' = db_sessions d \<and> db_wf d'"
proof -
  from UpsertFromIdP_run [OF run] obtain i rows bs where up: "db_up d"
    and target: "login_target new_id now l d = Inr (i, rows)"
    and rec: "reconcile (map pw_id rows) GrantSourceIdP i (il_Roles l) (db_bindings d) = Inr bs"
    and d': "d' = d\<lparr>db_principals := rows, db_bindings := bs\<rparr>" and r: "FindByID d' i = Inr r"
    by blast
  have pwf: "principals_wf (db_principals d)" using wf by (simp add: db_wf_def)
  then have named: "login_named l i (db_principals d) rows"
    using target by (rule login_named_target)
  then obtain p where p: "p \<in> set rows" "pw_id p = i" "pw_subject p = il_Subject l"
    and rows_wf: "principals_wf rows" unfolding login_named_def by blast
  have st: "r = Some (stored_of d' p)"
    using FindByID_row [of d' p] r up p rows_wf by (simp add: d')
  have roles: "set (roles_of d' i) = set (il_Roles l) \<union> {rb_role b |b. b \<in> set (db_bindings d)
      \<and> rb_principal b = i \<and> rb_scope b = ScopeStoreWide \<and> rb_source b \<noteq> GrantSourceIdP}"
    using reconcile_roles [OF rec] by (simp add: set_roles_of d')
  have disabled: "pw_id q = i \<and> pw_disabled_at p = pw_disabled_at q"
    if "q \<in> set (db_principals d)" "pw_external_id q = Some (il_ExternalID l)" for q
    using that named wf_same_id [OF rows_wf p(1)] p(2) unfolding login_named_def by metis
  have others: "q \<in> set rows \<and> roles_of d' (pw_id q) = roles_of d (pw_id q)"
    if "q \<in> set (db_principals d)" "pw_id q \<noteq> i" for q
    using that named reconcile_others [OF rec that(2), of "\<lambda>b. rb_scope b = ScopeStoreWide"]
    unfolding login_named_def by (auto simp: roles_of_def d')
  have "bindings_wf (map pw_id rows) (db_bindings d)"
    using wf named unfolding db_wf_def login_named_def by (blast intro: bindings_wf_mono)
  then have "bindings_wf (map pw_id rows) bs" using rec by (rule reconcile_wf)
  moreover have "sessions_wf (map pw_id rows) (db_sessions d)"
    using wf named unfolding db_wf_def login_named_def by (blast intro: sessions_wf_mono)
  ultimately have "db_wf d'" using rows_wf by (simp add: db_wf_def d')
  with st roles disabled others p show ?thesis
    by (auto simp: stored_of_def d')
qed


text \<open>Ann signs in: she keeps the administration granted locally and gains the role her groups
  imply.\<close>

definition ann_login :: idp_login where
  "ann_login = \<lparr>il_ExternalID = ''idp|ann'', il_LoginNames = [''ann@example.org''],
     il_Subject = ''user:ann.b'', il_DisplayName = ''Ann B'', il_Roles = [''contributor'']\<rparr>"


end
