(* ===== verification/Expiry.thy ===== *)
theory Expiry
  imports Identity_Laws "HOL-Library.Multiset"
begin

text \<open>
  The lifetime of sessions and of outstanding SAML requests, and the sweeper of
  \<^verbatim>\<open>internal/expiry/sweeper.go\<close> that deletes what has expired. The interface
  \<^verbatim>\<open>expiry.Deleter\<close> is a locale: what is deleted was already invisible to every reader, so a
  sweep can run at any moment and on any replica.
\<close>

section \<open>The sweeper\<close>

type_synonym deleter = "instant \<Rightarrow> db \<Rightarrow> nat outcome"

text \<open>One line of the log of a run.\<close>

datatype sweep_log = SweepFailed string db_error | SweepCompleted string nat

text \<open>
  The insertion sort of \<^verbatim>\<open>names\<close>. The inner loop moves the element at \<open>j\<close> down while it is
  smaller than its left neighbour; the outer loop runs \<open>i\<close> over the positions.
\<close>

fun sink :: "nat \<Rightarrow> string list \<Rightarrow> string list" where
  "sink 0 xs = xs"
| "sink (Suc j) xs =
     (if xs ! Suc j < xs ! j then sink j (xs[Suc j := xs ! j, j := xs ! Suc j]) else xs)"

definition names :: "(string \<times> deleter) list \<Rightarrow> string list" where
  "names targets = fold sink [1..<length targets] (map fst targets)"

definition sweep_one :: "instant \<Rightarrow> string \<Rightarrow> deleter \<Rightarrow> db \<Rightarrow> sweep_log list \<times> db" where
  "sweep_one now name deleter d =
     (case deleter now d of
        (Inl e, d') \<Rightarrow> ([SweepFailed name e], d')
      | (Inr n, d') \<Rightarrow> (if 0 < n then [SweepCompleted name n] else [], d'))"

fun run_targets ::
  "instant \<Rightarrow> (string \<rightharpoonup> deleter) \<Rightarrow> string list \<Rightarrow> db \<Rightarrow> sweep_log list \<times> db" where
  "run_targets now targets [] d = ([], d)"
| "run_targets now targets (name # ns) d =
     (case targets name of
        None \<Rightarrow> run_targets now targets ns d
      | Some deleter \<Rightarrow>
          let (logs, d') = sweep_one now name deleter d;
              (logs', d'') = run_targets now targets ns d'
          in (logs @ logs', d''))"

definition RunOnce :: "instant \<Rightarrow> (string \<times> deleter) list \<Rightarrow> db \<Rightarrow> sweep_log list \<times> db" where
  "RunOnce now targets d = run_targets now (map_of targets) (names targets) d"

text \<open>The two targets the server sweeps (\<^verbatim>\<open>cmd/server/main.go\<close>).\<close>

definition server_targets :: "(string \<times> deleter) list" where
  "server_targets = [(''sessions'', SessionStore_DeleteExpired), (''saml_requests'', SAML_DeleteExpired)]"

section \<open>The order of the targets\<close>

lemma length_sink [simp]: "length (sink j xs) = length xs"
  by (induction j xs rule: sink.induct) auto

lemma sink_beyond: "j < k \<Longrightarrow> sink j xs ! k = xs ! k"
  by (induction j xs rule: sink.induct) auto

lemma mset_sink: "j < length xs \<Longrightarrow> mset (sink j xs) = mset xs"
proof (induction j xs rule: sink.induct)
  case (2 j xs)
  then show ?case
    using mset_swap [of "Suc j" xs j] by (auto simp: list_update_swap)
qed simp

text \<open>Sinking the last element of a prefix that is sorted but for it sorts the prefix.\<close>

lemma sorted_take_nth:
  "k \<le> length xs \<Longrightarrow> sorted (take k xs) \<longleftrightarrow> (\<forall>a b. a < b \<and> b < k \<longrightarrow> xs ! a \<le> xs ! b)"
  by (auto simp: sorted_iff_nth_mono_less)

lemma sorted_sink:
  "j < length xs \<Longrightarrow> sorted (take j xs) \<Longrightarrow> (\<forall>a b. a < b \<and> j < b \<and> b < n \<longrightarrow> xs ! a \<le> xs ! b)
     \<Longrightarrow> n \<le> length xs \<Longrightarrow> j < n \<Longrightarrow> sorted (take n (sink j xs))"
proof (induction j xs rule: sink.induct)
  case (1 xs)
  then show ?case by (auto simp: sorted_take_nth)
next
  case (2 j xs)
  let ?ys = "xs[Suc j := xs ! j, j := xs ! Suc j]"
  have le: "xs ! a \<le> xs ! b" if "a < b" "b \<le> j" for a b
    using 2(2,3) that by (auto simp: sorted_take_nth)
  show ?case
  proof (cases "xs ! Suc j < xs ! j")
    case True
    have "sorted (take n (sink j ?ys))"
    proof (rule 2(1) [OF True])
      show "sorted (take j ?ys)"
        using 2(2) le by (auto simp: sorted_take_nth nth_list_update)
      show "\<forall>a b. a < b \<and> j < b \<and> b < n \<longrightarrow> ?ys ! a \<le> ?ys ! b"
      proof (intro allI impI)
        fix a b assume ab: "a < b \<and> j < b \<and> b < n"
        show "?ys ! a \<le> ?ys ! b"
        proof (cases "b = Suc j")
          case T: True
          then show ?thesis using ab le [of a j] True 2(2)
            by (auto simp: nth_list_update less_Suc_eq)
        next
          case F: False
          have "xs ! x \<le> xs ! b" if "x < b" for x using 2(4) ab F that by auto
          then show ?thesis using ab F 2(2,5) by (auto simp: nth_list_update)
        qed
      qed
    qed (use 2 in auto)
    then show ?thesis using True by simp
  next
    case False
    have "xs ! a \<le> xs ! b" if "a < b" "b < n" for a b
    proof -
      consider "b \<le> j" | "b = Suc j" | "Suc j < b" by linarith
      then show ?thesis
      proof cases
        case 2
        have "xs ! a \<le> xs ! j" using le [of a j] that 2 by (cases "a = j") auto
        then show ?thesis using False 2 by auto
      qed (use le that 2(4) in auto)
    qed
    then show ?thesis using False 2(5) by (auto simp: sorted_take_nth)
  qed
qed

lemma fold_sink:
  assumes "n \<le> length xs"
  shows "mset (fold sink [1..<n] xs) = mset xs \<and> sorted (take n (fold sink [1..<n] xs))"
  using assms
proof (induction n)
  case 0
  then show ?case by simp
next
  case (Suc n)
  show ?case
  proof (cases "n = 0")
    case True
    then show ?thesis by (cases xs) auto
  next
    case False
    let ?ys = "fold sink [1..<n] xs"
    have len: "length ?ys = length xs" using Suc by (metis Suc_leD mset_eq_length)
    have step: "fold sink [1..<Suc n] xs = sink n ?ys" using False by simp
    have "sorted (take (Suc n) (sink n ?ys))"
      by (rule sorted_sink) (use Suc len in auto)
    moreover have "mset (sink n ?ys) = mset xs"
      using Suc len by (simp add: mset_sink)
    ultimately show ?thesis by (simp only: step)
  qed
qed

lemma names_sorted: "sorted (names targets)" and mset_names: "mset (names targets) = mset (map fst targets)"
proof -
  have *: "mset (names targets) = mset (map fst targets)
      \<and> sorted (take (length targets) (names targets))"
    unfolding names_def using fold_sink [of "length targets" "map fst targets"] by simp
  moreover from * have "length (names targets) = length targets"
    by (metis length_map mset_eq_length)
  ultimately show "sorted (names targets)" "mset (names targets) = mset (map fst targets)" by simp_all
qed

lemma names_eq_sort: "names targets = sort (map fst targets)"
  using names_sorted mset_names by (metis properties_for_sort)

definition sweep_step ::
  "instant \<Rightarrow> (string \<rightharpoonup> deleter) \<Rightarrow> string \<Rightarrow> sweep_log list \<times> db \<Rightarrow> sweep_log list \<times> db" where
  "sweep_step now targets name =
     (\<lambda>(logs, d). let (logs', d') = sweep_one now name (the (targets name)) d in (logs @ logs', d'))"

lemma run_targets_fold:
  "set ns \<subseteq> dom targets \<Longrightarrow> fold (sweep_step now targets) ns (logs, d) =
     (logs @ fst (run_targets now targets ns d), snd (run_targets now targets ns d))"
  by (induction ns arbitrary: logs d) (auto simp: sweep_step_def Let_def split: prod.splits)

text \<open>
  A run of the sweeper deletes from every target once, in the order of their names and
  whatever the map's own order, and a target that fails does not keep the later ones from
  being swept; the log names exactly the failures and the targets that had something to
  delete, in that order.
\<close>

theorem RunOnce_sweeps_all:
  "RunOnce now targets d =
     fold (\<lambda>name (logs, d). let (logs', d') = sweep_one now name (the (map_of targets name)) d
                           in (logs @ logs', d'))
       (sort (map fst targets)) ([], d)"
proof -
  have "set (names targets) \<subseteq> dom (map_of targets)"
    by (simp add: names_eq_sort dom_map_of_conv_image_fst)
  from run_targets_fold [OF this, of now "[]" d] show ?thesis
    by (simp add: RunOnce_def names_eq_sort sweep_step_def [abs_def])
qed

section \<open>What an expiry deletes was already invisible\<close>

text \<open>
  The contract of \<^verbatim>\<open>expiry.Deleter\<close>. \<open>visible t d\<close> is everything a reader of the table can
  learn at time \<open>t\<close>, \<open>expired t d\<close> the number of its rows that have expired by then.
\<close>

locale expiring =
  fixes purge :: deleter
    and visible :: "instant \<Rightarrow> db \<Rightarrow> 'v"
    and expired :: "instant \<Rightarrow> db \<Rightarrow> nat"
  assumes purge_invisible: "t0 \<le> t \<Longrightarrow> visible t (snd (purge t0 d)) = visible t d"
    and purge_up: "db_up (snd (purge t d)) = db_up d"
    and purge_result: "fst (purge t d) = (if db_up d then Inr (expired t d) else Inl DBDown)"
    and purge_all: "db_up d \<Longrightarrow> expired t (snd (purge t d)) = 0"
    and purge_twice: "t0 \<le> t \<Longrightarrow> snd (purge t (snd (purge t0 d))) = snd (purge t d)"
begin

text \<open>Two replicas sweeping one after the other: the second finds nothing and nothing is lost.\<close>

lemma second_sweep:
  assumes "db_up d"
  shows "fst (purge t (snd (purge t d))) = Inr 0" and "snd (purge t (snd (purge t d))) = snd (purge t d)"
  using assms by (simp_all add: purge_result purge_up purge_all purge_twice)

lemma sweep_one_visible:
  "t0 \<le> t \<Longrightarrow> visible t (snd (sweep_one t0 name purge d)) = visible t d"
  using purge_invisible [of t0 t d] by (auto simp: sweep_one_def split: prod.splits sum.splits)

lemma sweep_one_log:
  "fst (sweep_one t name purge d) =
     (if \<not> db_up d then [SweepFailed name DBDown]
      else if expired t d = 0 then [] else [SweepCompleted name (expired t d)])"
  using purge_result [of t d] by (auto simp: sweep_one_def split: prod.splits sum.splits if_splits)

end

lemma delete_where_delete_where:
  "delete_where P (delete_where Q rows) = delete_where (\<lambda>r. P r \<or> Q r) rows"
  by (auto simp: delete_where_def conj_commute)

interpretation session_expiry: expiring SessionStore_DeleteExpired FindPrincipalBySessionToken
  "\<lambda>t d. length (filter (\<lambda>s. sr_expires_at s \<le> t) (db_sessions d))"
proof unfold_locales
  fix t0 t d
  show "FindPrincipalBySessionToken t (snd (SessionStore_DeleteExpired t0 d))
      = FindPrincipalBySessionToken t d" if "t0 \<le> t"
  proof
    fix k
    have "find (\<lambda>s. sr_token_hash s = k \<and> t < sr_expires_at s)
        (delete_where (\<lambda>s. sr_expires_at s \<le> t0) (db_sessions d))
      = find (\<lambda>s. sr_token_hash s = k \<and> t < sr_expires_at s) (db_sessions d)"
      using that by (intro find_delete_where) auto
    then show "FindPrincipalBySessionToken t (snd (SessionStore_DeleteExpired t0 d)) k
        = FindPrincipalBySessionToken t d k"
      by (simp add: FindPrincipalBySessionToken_def SessionStore_DeleteExpired_def cong: option.case_cong)
  qed
  show "snd (SessionStore_DeleteExpired t (snd (SessionStore_DeleteExpired t0 d)))
      = snd (SessionStore_DeleteExpired t d)" if "t0 \<le> t"
    using that by (auto simp: SessionStore_DeleteExpired_def delete_where_delete_where
        intro!: arg_cong [of _ _ "\<lambda>P. d\<lparr>db_sessions := delete_where P (db_sessions d)\<rparr>"])
qed (auto simp: SessionStore_DeleteExpired_def delete_where_def filter_empty_conv)

interpretation saml_expiry: expiring SAML_DeleteExpired SAML_Pending
  "\<lambda>t d. length (filter (\<lambda>(_, e). e \<le> t) (db_saml_requests d))"
proof unfold_locales
  fix t0 t d
  show "SAML_Pending t (snd (SAML_DeleteExpired t0 d)) = SAML_Pending t d" if "t0 \<le> t"
    using that by (auto simp: SAML_Pending_def SAML_DeleteExpired_def delete_where_def
        intro!: arg_cong [of _ _ "map fst"] filter_cong)
  show "snd (SAML_DeleteExpired t (snd (SAML_DeleteExpired t0 d)))
      = snd (SAML_DeleteExpired t d)" if "t0 \<le> t"
    using that by (auto simp: SAML_DeleteExpired_def delete_where_delete_where
        intro!: arg_cong [of _ _ "\<lambda>P. d\<lparr>db_saml_requests := delete_where P (db_saml_requests d)\<rparr>"])
qed (auto simp: SAML_DeleteExpired_def delete_where_def filter_empty_conv)

lemma server_names: "names server_targets = [''saml_requests'', ''sessions'']"
  by code_simp

lemma server_sweep:
  "snd (RunOnce t0 server_targets d) =
     (if db_up d then
        d\<lparr>db_saml_requests := delete_where (\<lambda>(_, e). e \<le> t0) (db_saml_requests d),
          db_sessions := delete_where (\<lambda>s. sr_expires_at s \<le> t0) (db_sessions d)\<rparr>
      else d)"
  unfolding RunOnce_def server_names
  by (simp add: server_targets_def sweep_one_def SessionStore_DeleteExpired_def
      SAML_DeleteExpired_def)

lemma SAML_Pending_sessions [simp]: "SAML_Pending t (d\<lparr>db_sessions := ss\<rparr>) = SAML_Pending t d"
  by (simp add: SAML_Pending_def)

lemma FindPrincipalBySessionToken_saml [simp]:
  "FindPrincipalBySessionToken t (d\<lparr>db_saml_requests := rs\<rparr>) = FindPrincipalBySessionToken t d"
proof -
  have "stored_of (d\<lparr>db_saml_requests := rs\<rparr>) = stored_of d"
    by (simp add: stored_of_def roles_of_def fun_eq_iff)
  then show ?thesis by (simp add: FindPrincipalBySessionToken_def fun_eq_iff cong: option.case_cong)
qed

text \<open>
  C35. Sweeping is safe at any moment: after a sweep at time \<open>t0\<close>, every reader at \<open>t0\<close> or
  later sees the sessions and the outstanding SAML requests it would have seen without it, on
  an answering database no expired row of either table is left, identities and role bindings
  are untouched, and the tables stay well-formed.
\<close>

theorem server_sweep_safe:
  assumes "t0 \<le> t"
  shows "(FindPrincipalBySessionToken t (snd (RunOnce t0 server_targets d))
           = FindPrincipalBySessionToken t d)
     \<and> (SAML_Pending t (snd (RunOnce t0 server_targets d)) = SAML_Pending t d)
     \<and> (db_up d \<longrightarrow> (\<forall>s \<in> set (db_sessions (snd (RunOnce t0 server_targets d))). t0 < sr_expires_at s)
           \<and> (\<forall>(i, e) \<in> set (db_saml_requests (snd (RunOnce t0 server_targets d))). t0 < e))
     \<and> (db_principals (snd (RunOnce t0 server_targets d)) = db_principals d)
     \<and> (db_bindings (snd (RunOnce t0 server_targets d)) = db_bindings d)
     \<and> (db_wf d \<longrightarrow> db_wf (snd (RunOnce t0 server_targets d)))"
proof (intro conjI)
  have steps: "snd (RunOnce t0 server_targets d) =
      snd (SessionStore_DeleteExpired t0 (snd (SAML_DeleteExpired t0 d)))"
    by (simp add: server_sweep SessionStore_DeleteExpired_def SAML_DeleteExpired_def)
  show "FindPrincipalBySessionToken t (snd (RunOnce t0 server_targets d))
      = FindPrincipalBySessionToken t d"
    unfolding steps session_expiry.purge_invisible [OF assms] by (simp add: SAML_DeleteExpired_def)
  have "SAML_Pending t (snd (SessionStore_DeleteExpired t0 d')) = SAML_Pending t d'" for d'
    by (simp add: SessionStore_DeleteExpired_def)
  then show "SAML_Pending t (snd (RunOnce t0 server_targets d)) = SAML_Pending t d"
    unfolding steps by (simp add: saml_expiry.purge_invisible [OF assms])
  show "db_wf d \<longrightarrow> db_wf (snd (RunOnce t0 server_targets d))"
    by (auto simp: server_sweep db_wf_def intro: sessions_wf_delete)
qed (auto simp: server_sweep)

theorem server_sweep_safe_witness:
  "FindPrincipalBySessionToken 99 (snd (RunOnce 50 server_targets demo_db)) ''t''
     = FindPrincipalBySessionToken 99 demo_db ''t''
   \<and> FindPrincipalBySessionToken 99 demo_db ''t'' \<noteq> Inr None"
proof -
  have "FindPrincipalBySessionToken 99 demo_db ''t'' \<noteq> Inr None" by code_simp
  then show ?thesis using server_sweep_safe [of 50 99 demo_db] by simp
qed

section \<open>The lifetime of a session\<close>

lemma find_append_new:
  "find Q (xs @ [y]) = (case find Q xs of Some x \<Rightarrow> Some x | None \<Rightarrow> if Q y then Some y else None)"
  by (induction xs) auto

text \<open>What creating a session leaves behind.\<close>

lemma session_created:
  assumes wf: "db_wf d"
    and run: "SessionStore_Create new_id now i tokenHash expiresAt ua idToken d = (Inr s, d')"
  shows "(\<exists>p \<in> set (db_principals d). pw_id p = i \<and>
      (\<forall>t. FindPrincipalBySessionToken t d' tokenHash =
         (if t < expiresAt then Inr (Some (stored_of d p, s)) else Inr None)))
     \<and> (k \<noteq> tokenHash \<longrightarrow> FindPrincipalBySessionToken t d' k = FindPrincipalBySessionToken t d k)
     \<and> (SessionStore_Delete tokenHash d' =
           (Inr \<lparr>es_IDToken = idToken, es_Subject = pw_subject (the (find (\<lambda>p. pw_id p = i) (db_principals d)))\<rparr>, d))
     \<and> (db_wf d')"
proof (intro conjI)
  let ?row = "\<lparr>sr_id = new_id, sr_token_hash = tokenHash, sr_principal_id = i, sr_created_at = now,
    sr_expires_at = expiresAt, sr_last_seen_at = None, sr_user_agent = ua, sr_id_token = idToken\<rparr>"
  from run have up: "db_up d" and i: "i \<in> set (principal_ids d)"
    and id_fresh: "new_id \<notin> sr_id ` set (db_sessions d)"
    and fresh: "tokenHash \<notin> sr_token_hash ` set (db_sessions d)"
    and s: "s = session_of ?row" and d': "d' = d\<lparr>db_sessions := db_sessions d @ [?row]\<rparr>"
    by (auto simp: SessionStore_Create_def Let_def split: if_splits)
  from i obtain p where p: "p \<in> set (db_principals d)" "pw_id p = i" by auto
  have found: "find (\<lambda>p. pw_id p = i) (db_principals d) = Some p"
    using find_by_id [of "db_principals d" p] wf p by (simp add: db_wf_def principals_wf_def)
  have none: "find (\<lambda>s. sr_token_hash s = tokenHash \<and> t < sr_expires_at s) (db_sessions d) = None" for t
    using fresh by (auto simp: find_None_iff_list)
  have none': "find (\<lambda>s. sr_token_hash s = tokenHash) (db_sessions d) = None"
    using fresh by (auto simp: find_None_iff_list)
  show "\<exists>p \<in> set (db_principals d). pw_id p = i \<and>
      (\<forall>t. FindPrincipalBySessionToken t d' tokenHash =
         (if t < expiresAt then Inr (Some (stored_of d p, s)) else Inr None))"
    using p up found none s
    by (intro bexI [of _ p]) (auto simp: FindPrincipalBySessionToken_def d' find_append_new)
  show "k \<noteq> tokenHash \<longrightarrow> FindPrincipalBySessionToken t d' k = FindPrincipalBySessionToken t d k"
    by (simp add: FindPrincipalBySessionToken_def d' find_append_new split: option.splits)
  have "delete_where (\<lambda>s. sr_token_hash s = tokenHash) (db_sessions d) = db_sessions d"
    using fresh by (auto simp: delete_where_def filter_id_conv)
  then show "SessionStore_Delete tokenHash d' =
      (Inr \<lparr>es_IDToken = idToken, es_Subject = pw_subject (the (find (\<lambda>p. pw_id p = i) (db_principals d)))\<rparr>, d)"
    using up found none' by (simp add: SessionStore_Delete_def d' find_append_new delete_where_def)
  show "db_wf d'" using wf i id_fresh fresh by (auto simp: d' db_wf_def sessions_wf_def)
qed

text \<open>
  C36. A session lives exactly from its creation to its expiry. The token it was created for
  resolves to its principal, with the roles that principal has at that moment, at every time
  before the expiry and at none after; no other token is affected; and logging out puts the
  tables back to what they were before the login.
\<close>

theorem session_lifetime:
  assumes wf: "db_wf d"
    and run: "SessionStore_Create new_id now i tokenHash expiresAt ua idToken d = (Inr s, d')"
  shows "(\<exists>p \<in> set (db_principals d). pw_id p = i \<and>
      (\<forall>t. FindPrincipalBySessionToken t d' tokenHash =
         (if t < expiresAt then Inr (Some (stored_of d p, s)) else Inr None)))
     \<and> (k \<noteq> tokenHash \<longrightarrow> FindPrincipalBySessionToken t d' k = FindPrincipalBySessionToken t d k)
     \<and> (SessionStore_Delete tokenHash d' =
           (Inr \<lparr>es_IDToken = idToken, es_Subject = pw_subject (the (find (\<lambda>p. pw_id p = i) (db_principals d)))\<rparr>, d))
     \<and> (db_wf d')"
  by (rule session_created [OF assms])

theorem session_lifetime_witness:
  "\<exists>s d'. SessionStore_Create 10 0 1 ''u'' 50 '''' '''' demo_db = (Inr s, d')
     \<and> FindPrincipalBySessionToken 50 d' ''u'' = Inr None
     \<and> FindPrincipalBySessionToken 49 d' ''u'' \<noteq> Inr None \<and> snd (SessionStore_Delete ''u'' d') = demo_db"
proof -
  have "case SessionStore_Create 10 0 1 ''u'' 50 '''' '''' demo_db of (Inr s, d') \<Rightarrow> True | _ \<Rightarrow> False"
    by code_simp
  then obtain s d' where run: "SessionStore_Create 10 0 1 ''u'' 50 '''' '''' demo_db = (Inr s, d')"
    by (auto split: prod.splits sum.splits)
  show ?thesis
    using run session_lifetime [OF demo_db_wf run, of "''u''" 0] by auto
qed

end
