(* ===== verification/Principal_API.thy ===== *)
theory Principal_API
  imports Expiry
begin

text \<open>
  Administration of principals: the validation of \<^verbatim>\<open>internal/validate/principal.go\<close>, the
  handlers of \<^verbatim>\<open>internal/api/principals.go\<close> and the bootstrap of
  \<^verbatim>\<open>internal/auth/bootstrap.go\<close>. A handler maps the decoded request, the caller's context and
  the database to a status with a body and the database after it. The path parameter is
  already parsed (\<open>None\<close> when it is no UUID) and the body already decoded (\<open>Inl\<close> the
  decoder's message): both are the standard library's and the router's work. The clock, the
  identifier the database generates, the random bytes and the hash are arguments.
\<close>

section \<open>Validation\<close>

definition maxSubjectLen :: nat where "maxSubjectLen = 255"

text \<open>A message, with the values that are formatted into it.\<close>

datatype validation_error =
    SubjectRequired
  | SubjectTooLong nat
  | SubjectControlCharacters
  | KindNotCreatedHere string
  | KindInvalid string string
  | RoleListedTwice string
  | RoleInvalid string "string list"

fun validate_roles_from :: "string list \<Rightarrow> string list \<Rightarrow> validation_error list" where
  "validate_roles_from seen [] = []"
| "validate_roles_from seen (name # rest) =
     (if name \<in> set seen then RoleListedTwice name # validate_roles_from seen rest
      else (if ParseRole name = None then [RoleInvalid name RoleNames] else [])
           @ validate_roles_from (name # seen) rest)"

definition validate_Roles :: "string list \<Rightarrow> validation_error list" where
  "validate_Roles roles = validate_roles_from [] roles"

definition validate_PrincipalCreate :: "principal_create \<Rightarrow> validation_error list" where
  "validate_PrincipalCreate c =
     (if trim_space (pc_Subject c) = '''' then [SubjectRequired]
      else if maxSubjectLen < length (pc_Subject c) then [SubjectTooLong maxSubjectLen] else [])
     @ (if \<exists>x \<in> set (pc_Subject c). x \<in> {CHR 0x0A, CHR 0x0D, CHR 0x09}
        then [SubjectControlCharacters] else [])
     @ (if pc_Kind c = PrincipalKindAPIKey then []
        else if pc_Kind c = PrincipalKindUser then [KindNotCreatedHere (pc_Kind c)]
        else [KindInvalid (pc_Kind c) PrincipalKindAPIKey])
     @ validate_Roles (pc_Roles c)"

section \<open>Handlers\<close>

datatype principal_body =
    ErrorBody string
  | ErrorsBody "validation_error list"
  | PrincipalBody "stored_principal option"
  | IssuedBody stored_principal string
  | PrincipalsBody "stored_principal list" bool

type_synonym reply = "nat \<times> principal_body"

definition hasRole :: "string list \<Rightarrow> string \<Rightarrow> bool" where
  "hasRole roles want \<longleftrightarrow> want \<in> set roles"

definition callerID :: "ctx \<Rightarrow> uuid option" where
  "callerID c = (case PrincipalFrom c of
      None \<Rightarrow> None
    | Some p \<Rightarrow> if pr_ID p = 0 then None else Some (pr_ID p))"

definition lookup :: "uuid option \<Rightarrow> db \<Rightarrow> reply + stored_principal" where
  "lookup pid d =
     (case pid of
        None \<Rightarrow> Inl (400, ErrorBody ''invalid principal id'')
      | Some i \<Rightarrow>
          (case FindByID d i of
             Inl _ \<Rightarrow> Inl (500, ErrorBody ''internal error'')
           | Inr None \<Rightarrow> Inl (404, ErrorBody ''principal not found'')
           | Inr (Some target) \<Rightarrow> Inr target))"

datatype admin_refusal = CountFailed db_error | ErrLastAdmin string

definition errLastAdmin_text :: "string \<Rightarrow> string" where
  "errLastAdmin_text subject = subject @ '' is the only principal that can still administer this store; ''
     @ ''grant admin to another principal first''"

text \<open>\<open>nextRoles\<close> is \<open>None\<close> for the nil slice of a disable.\<close>

definition refuseIfLastAdmin ::
  "db \<Rightarrow> stored_principal \<Rightarrow> string list option \<Rightarrow> admin_refusal option" where
  "refuseIfLastAdmin d target nextRoles =
     (if Disabled (Some target) \<or> \<not> hasRole (sp_Roles target) RoleAdmin then None
      else if nextRoles \<noteq> None \<and> hasRole (the nextRoles) RoleAdmin then None
      else case CountOtherEnabledAdmins d (sp_ID target) of
          Inl e \<Rightarrow> Some (CountFailed e)
        | Inr others \<Rightarrow> if others > 0 then None else Some (ErrLastAdmin (sp_Subject target)))"

definition refusal_text :: "(db_error \<Rightarrow> string) \<Rightarrow> admin_refusal \<Rightarrow> string" where
  "refusal_text errtext e =
     (case e of CountFailed x \<Rightarrow> errtext x | ErrLastAdmin subject \<Rightarrow> errLastAdmin_text subject)"

definition handle_List :: "bool \<Rightarrow> db \<Rightarrow> reply" where
  "handle_List authDB d =
     (case PrincipalStore_List d of
        Inl _ \<Rightarrow> (500, ErrorBody ''internal error'')
      | Inr ps \<Rightarrow> (200, PrincipalsBody ps authDB))"

record create_request =
  cr_Subject :: string
  cr_DisplayName :: string
  cr_Roles :: "string list"

definition handle_Create ::
  "(string \<Rightarrow> string) \<Rightarrow> nat list option \<Rightarrow> uuid \<Rightarrow> instant \<Rightarrow> ctx \<Rightarrow> string + create_request
     \<Rightarrow> db \<Rightarrow> reply \<times> db" where
  "handle_Create hash rand new_id now c body d =
     (case body of
        Inl msg \<Rightarrow> ((400, ErrorBody (''invalid JSON: '' @ msg)), d)
      | Inr req \<Rightarrow>
          let create = \<lparr>pc_Subject = cr_Subject req, pc_Kind = PrincipalKindAPIKey,
                pc_DisplayName = cr_DisplayName req, pc_KeyHash = '''', pc_Roles = cr_Roles req,
                pc_GrantedBy = callerID c\<rparr>;
              errs = validate_PrincipalCreate create
          in if errs \<noteq> [] then ((422, ErrorsBody errs), d)
             else case GenerateKey rand of
                 None \<Rightarrow> ((500, ErrorBody ''internal error''), d)
               | Some key \<Rightarrow>
                   (case PrincipalStore_Insert new_id now (create\<lparr>pc_KeyHash := hash key\<rparr>) d of
                      (Inl _, d') \<Rightarrow> ((500, ErrorBody ''internal error''), d')
                    | (Inr None, d') \<Rightarrow>
                        ((409, ErrorBody (''a principal with subject '' @ cr_Subject req
                                          @ '' already exists'')), d')
                    | (Inr (Some created), d') \<Rightarrow> ((201, IssuedBody created key), d')))"

definition handle_setDisabled ::
  "(db_error \<Rightarrow> string) \<Rightarrow> instant \<Rightarrow> uuid option \<Rightarrow> bool \<Rightarrow> db \<Rightarrow> reply \<times> db" where
  "handle_setDisabled errtext now pid disabled d =
     (case lookup pid d of
        Inl refused \<Rightarrow> (refused, d)
      | Inr target \<Rightarrow>
          (case (if disabled then refuseIfLastAdmin d target None else None) of
             Some e \<Rightarrow> ((409, ErrorBody (refusal_text errtext e)), d)
           | None \<Rightarrow>
               (case SetDisabled now (sp_ID target) disabled d of
                  (Inl _, d') \<Rightarrow> ((500, ErrorBody ''internal error''), d')
                | (Inr updated, d') \<Rightarrow> ((200, PrincipalBody updated), d'))))"

definition handle_Disable ::
  "(db_error \<Rightarrow> string) \<Rightarrow> instant \<Rightarrow> uuid option \<Rightarrow> db \<Rightarrow> reply \<times> db" where
  "handle_Disable errtext now pid d = handle_setDisabled errtext now pid True d"

definition handle_Enable ::
  "(db_error \<Rightarrow> string) \<Rightarrow> instant \<Rightarrow> uuid option \<Rightarrow> db \<Rightarrow> reply \<times> db" where
  "handle_Enable errtext now pid d = handle_setDisabled errtext now pid False d"

text \<open>The decoded body is \<open>None\<close> where the roles were absent or null.\<close>

definition handle_ReplaceRoles ::
  "(db_error \<Rightarrow> string) \<Rightarrow> ctx \<Rightarrow> uuid option \<Rightarrow> string + string list option \<Rightarrow> db \<Rightarrow> reply \<times> db" where
  "handle_ReplaceRoles errtext c pid body d =
     (case lookup pid d of
        Inl refused \<Rightarrow> (refused, d)
      | Inr target \<Rightarrow>
          (case body of
             Inl msg \<Rightarrow> ((400, ErrorBody (''invalid JSON: '' @ msg)), d)
           | Inr sent \<Rightarrow>
               let roles = (case sent of None \<Rightarrow> [] | Some rs \<Rightarrow> rs);
                   errs = validate_Roles roles
               in if errs \<noteq> [] then ((422, ErrorsBody errs), d)
                  else case refuseIfLastAdmin d target (Some roles) of
                      Some e \<Rightarrow> ((409, ErrorBody (refusal_text errtext e)), d)
                    | None \<Rightarrow>
                        (case ReplaceRoles (sp_ID target) roles (callerID c) d of
                           (Inl _, d') \<Rightarrow> ((500, ErrorBody ''internal error''), d')
                         | (Inr updated, d') \<Rightarrow> ((200, PrincipalBody updated), d'))))"

definition handle_Rotate ::
  "(string \<Rightarrow> string) \<Rightarrow> nat list option \<Rightarrow> uuid option \<Rightarrow> db \<Rightarrow> reply \<times> db" where
  "handle_Rotate hash rand pid d =
     (case lookup pid d of
        Inl refused \<Rightarrow> (refused, d)
      | Inr target \<Rightarrow>
          (case GenerateKey rand of
             None \<Rightarrow> ((500, ErrorBody ''internal error''), d)
           | Some key \<Rightarrow>
               (case RotateKey (sp_ID target) (hash key) d of
                  (Inl _, d') \<Rightarrow> ((500, ErrorBody ''internal error''), d')
                | (Inr None, d') \<Rightarrow>
                    ((409, ErrorBody ''only api_key principals have a key to rotate''), d')
                | (Inr (Some updated), d') \<Rightarrow> ((200, IssuedBody updated key), d'))))"

section \<open>Bootstrap\<close>

datatype bootstrap_error = LookupFailed db_error | NoRandomness | CreateFailed db_error

definition BootstrapAdmin ::
  "(string \<Rightarrow> string) \<Rightarrow> nat list option \<Rightarrow> uuid \<Rightarrow> instant \<Rightarrow> string \<Rightarrow> db
     \<Rightarrow> (bootstrap_error + string) \<times> db" where
  "BootstrapAdmin hash rand new_id now subject d =
     (case FindBySubject d subject of
        Inl e \<Rightarrow> (Inl (LookupFailed e), d)
      | Inr (Some _) \<Rightarrow> (Inr '''', d)
      | Inr None \<Rightarrow>
          (case GenerateKey rand of
             None \<Rightarrow> (Inl NoRandomness, d)
           | Some key \<Rightarrow>
               (case PrincipalStore_Insert new_id now
                       \<lparr>pc_Subject = subject, pc_Kind = PrincipalKindAPIKey,
                        pc_DisplayName = ''bootstrap administrator'', pc_KeyHash = hash key,
                        pc_Roles = [RoleAdmin], pc_GrantedBy = None\<rparr> d of
                  (Inl e, d') \<Rightarrow> (Inl (CreateFailed e), d')
                | (Inr None, d') \<Rightarrow> (Inr '''', d')
                | (Inr (Some _), d') \<Rightarrow> (Inr key, d'))))"

section \<open>What is validated\<close>

lemma validate_roles_from_Nil_iff:
  "validate_roles_from seen roles = [] \<longleftrightarrow>
     distinct roles \<and> set roles \<inter> set seen = {} \<and> set roles \<subseteq> set RoleNames"
  by (induction roles arbitrary: seen) (auto simp: ParseRole_None_iff)

lemma validate_Roles_Nil_iff:
  "validate_Roles roles = [] \<longleftrightarrow> distinct roles \<and> set roles \<subseteq> set RoleNames"
  by (simp add: validate_Roles_def validate_roles_from_Nil_iff)

lemma RoleNames_check: "set RoleNames = set role_check"
  by code_simp

section \<open>Administrators\<close>

definition admin_ids :: "db \<Rightarrow> uuid set" where
  "admin_ids d = {i. \<exists>p \<in> set (db_principals d). pw_id p = i \<and> pw_disabled_at p = None
                     \<and> RoleAdmin \<in> set (roles_of d i)}"

lemma admin_idsI:
  "p \<in> set (db_principals d) \<Longrightarrow> pw_id p = i \<Longrightarrow> pw_disabled_at p = None
     \<Longrightarrow> RoleAdmin \<in> set (roles_of d i) \<Longrightarrow> i \<in> admin_ids d"
  unfolding admin_ids_def by blast

lemma admin_ids_accounts:
  "admin_ids d = {i. (i, None) \<in> set (map (\<lambda>p. (pw_id p, pw_disabled_at p)) (db_principals d))
                     \<and> RoleAdmin \<in> set (roles_of d i)}"
  by (auto simp: admin_ids_def image_iff)

lemma other_admins:
  "admin_ids d - {i} = set (map pw_id (filter (\<lambda>p. pw_id p \<noteq> i \<and> pw_disabled_at p = None
     \<and> (\<exists>b \<in> set (db_bindings d). rb_principal b = pw_id p \<and> rb_role b = ''admin''
          \<and> rb_scope b = ScopeStoreWide)) (db_principals d)))"
proof -
  have "RoleAdmin \<in> set (roles_of d j) \<longleftrightarrow> (\<exists>b \<in> set (db_bindings d). rb_principal b = j
      \<and> rb_role b = ''admin'' \<and> rb_scope b = ScopeStoreWide)" for j
    by (force simp: roles_of_def RoleAdmin_def)
  then show ?thesis by (auto simp: admin_ids_def)
qed

lemma CountOtherEnabledAdmins_positive:
  "CountOtherEnabledAdmins d i = Inr n \<Longrightarrow> 0 < n \<longleftrightarrow> admin_ids d - {i} \<noteq> {}"
  unfolding other_admins set_empty by (auto simp: CountOtherEnabledAdmins_def split: if_splits)

lemma refuseIfLastAdmin_None:
  assumes wf: "db_wf d" and target: "FindByID d i = Inr (Some target)"
    and ok: "refuseIfLastAdmin d target nextRoles = None"
    and loses: "nextRoles = None \<or> RoleAdmin \<notin> set (the nextRoles)"
  shows "i \<in> admin_ids d \<Longrightarrow> admin_ids d - {i} \<noteq> {}"
proof -
  from target obtain p where p: "find (\<lambda>p. pw_id p = i) (db_principals d) = Some p"
    and t: "target = stored_of d p"
    by (auto simp: FindByID_def queryOne_def split: if_splits)
  have i: "pw_id p = i" "p \<in> set (db_principals d)" using find_SomeD [OF p] by simp_all
  assume "i \<in> admin_ids d"
  then obtain q where "q \<in> set (db_principals d)" "pw_id q = i" "pw_disabled_at q = None"
    and admin: "RoleAdmin \<in> set (roles_of d i)" by (auto simp: admin_ids_def)
  moreover from this have "q = p" using wf wf_same_id [of "db_principals d" p q] i by (simp add: db_wf_def)
  ultimately have "\<not> Disabled (Some target)" "hasRole (sp_Roles target) RoleAdmin" "sp_ID target = i"
    using i by (simp_all add: t stored_of_def Disabled_def hasRole_def)
  with ok loses obtain n where "CountOtherEnabledAdmins d i = Inr n" "0 < n"
    by (auto simp: refuseIfLastAdmin_def hasRole_def split: if_splits sum.splits)
  then show "admin_ids d - {i} \<noteq> {}" using CountOtherEnabledAdmins_positive by blast
qed

lemma FindByID_ID: "FindByID d i = Inr (Some st) \<Longrightarrow> sp_ID st = i"
  by (auto simp: FindByID_def queryOne_def stored_of_def dest: find_SomeD split: if_splits)

lemma lookup_Inr: "lookup pid d = Inr target \<Longrightarrow> pid = Some (sp_ID target) \<and> FindByID d (sp_ID target) = Inr (Some target)"
  by (auto simp: lookup_def split: option.splits sum.splits dest: FindByID_ID)

section \<open>Every operation keeps the tables well-formed and an administrator in place\<close>

lemma SetDisabled_wf:
  assumes "db_wf d"
  shows "db_wf (snd (SetDisabled now i b d))"
proof -
  have upd: "principals_wf (update_where P (\<lambda>p. p\<lparr>pw_disabled_at := t\<rparr>) (db_principals d))" for P t
    using assms
    by (auto simp: db_wf_def principals_wf_def table_simps list_all_iff set_update_where row_check_def)
  have "map pw_id (update_where P (\<lambda>p. p\<lparr>pw_disabled_at := t\<rparr>) (db_principals d)) = principal_ids d" for P t
    by (simp add: table_simps)
  with upd assms show ?thesis
    by (simp add: SetDisabled_def Let_def then_FindByID_def db_wf_def)
qed

lemma SetDisabled_admins:
  "admin_ids (snd (SetDisabled now i True d)) = (if db_up d then admin_ids d - {i} else admin_ids d)"
  "admin_ids d \<subseteq> admin_ids (snd (SetDisabled now i False d))"
proof -
  have row: "pw_disabled_at (disable_row now i p) = None \<longleftrightarrow> pw_id p \<noteq> i \<and> pw_disabled_at p = None" for p
    by (auto simp: disable_row_def)
  have "admin_ids (d\<lparr>db_principals := map (disable_row now i) (db_principals d)\<rparr>) = admin_ids d - {i}"
    unfolding admin_ids_def by (simp add: row bex_simps) blast
  then show "admin_ids (snd (SetDisabled now i True d)) =
      (if db_up d then admin_ids d - {i} else admin_ids d)"
    by (simp add: SetDisabled_rows)
  show "admin_ids d \<subseteq> admin_ids (snd (SetDisabled now i False d))"
  proof
    fix j assume "j \<in> admin_ids d"
    then obtain p where p: "p \<in> set (db_principals d)" "pw_id p = j" "pw_disabled_at p = None"
      and admin: "RoleAdmin \<in> set (roles_of d j)" by (auto simp: admin_ids_def)
    let ?f = "\<lambda>p. p\<lparr>pw_disabled_at := None\<rparr>"
    have "(if pw_id p = i then ?f p else p) \<in> set (update_where (\<lambda>p. pw_id p = i) ?f (db_principals d))"
      using p(1) by (auto simp: set_update_where)
    then have "j \<in> admin_ids (d\<lparr>db_principals :=
        update_where (\<lambda>p. pw_id p = i) ?f (db_principals d)\<rparr>)"
      using admin_idsI [where p = "if pw_id p = i then ?f p else p" and i = j
          and d = "d\<lparr>db_principals := update_where (\<lambda>p. pw_id p = i) ?f (db_principals d)\<rparr>"] p admin
      by simp
    with p admin show "j \<in> admin_ids (snd (SetDisabled now i False d))"
      by (auto simp: SetDisabled_def Let_def then_FindByID_def intro: admin_idsI)
  qed
qed

lemma RotateKey_rows:
  assumes "db_wf d"
  shows "db_wf (snd (RotateKey i h d)) \<and> admin_ids (snd (RotateKey i h d)) = admin_ids d"
proof (cases "\<exists>p \<in> set (db_principals d). pw_id p = i \<and> pw_kind p = PrincipalKindAPIKey")
  case False
  then show ?thesis using assms by (auto simp: RotateKey_def)
next
  case True
  then obtain p where p: "p \<in> set (db_principals d)" "pw_kind p = PrincipalKindAPIKey" "i = pw_id p" by blast
  let ?hit = "\<lambda>q. pw_id q = i \<and> pw_kind q = PrincipalKindAPIKey"
  let ?rows = "update_where ?hit (\<lambda>q. q\<lparr>pw_key_hash := Some h\<rparr>) (db_principals d)"
  have ids: "map pw_id ?rows = principal_ids d" by (simp add: table_simps)
  have adm: "admin_ids (d\<lparr>db_principals := ?rows\<rparr>) = admin_ids d"
    unfolding admin_ids_accounts by (simp add: map_update_where del: set_map)
  show ?thesis
  proof (cases "\<exists>q \<in> set (db_principals d). \<not> ?hit q \<and> pw_key_hash q = Some h")
    case True
    then show ?thesis using assms p by (auto simp: RotateKey_def)
  next
    case False
    then have "\<forall>q \<in> set (db_principals d). q \<noteq> p \<longrightarrow> pw_key_hash q \<noteq> Some h"
      using assms p wf_same_id unfolding db_wf_def by metis
    then have "principals_wf ?rows"
      using rotate_rows_wf [of "db_principals d" p h] assms p by (simp add: db_wf_def)
    then have "db_wf (d\<lparr>db_principals := ?rows\<rparr>)" using assms ids by (simp add: db_wf_def)
    with adm False True show ?thesis
      by (simp only: RotateKey_def Let_def then_FindByID_def if_False if_True snd_conv simp_thms)
        (simp add: assms)
  qed
qed

lemma Insert_cases:
  assumes "PrincipalStore_Insert new_id now c d = (r, d')"
  shows "(d' = d \<and> (\<forall>st. r \<noteq> Inr (Some st))) \<or>
     (\<exists>row bs. db_up d \<and> row_check row \<and> pw_id row = new_id \<and> pw_subject row = pc_Subject c
        \<and> pw_kind row = pc_Kind c \<and> pw_disabled_at row = None \<and> pw_external_id row = None
        \<and> pw_key_hash row = (if pc_KeyHash c \<noteq> '''' then Some (pc_KeyHash c) else None)
        \<and> new_id \<notin> set (principal_ids d) \<and> pc_Subject c \<notin> pw_subject ` set (db_principals d)
        \<and> (pw_key_hash row = None \<or> pw_key_hash row \<notin> pw_key_hash ` set (db_principals d))
        \<and> grant_all (principal_ids d @ [new_id]) (binding new_id GrantSourceLocal (pc_GrantedBy c))
             (pc_Roles c) (db_bindings d) = Inr bs
        \<and> r = Inr (Some ((stored_of d row)\<lparr>sp_Roles := pc_Roles c\<rparr>))
        \<and> d' = d\<lparr>db_principals := db_principals d @ [row], db_bindings := bs\<rparr>)"
proof -
  let ?row = "(new_row new_id now (pc_Subject c) (pc_Kind c) (pc_DisplayName c))
      \<lparr>pw_key_hash := (if pc_KeyHash c \<noteq> '''' then Some (pc_KeyHash c) else None)\<rparr>"
  show ?thesis
  proof (cases "\<exists>st. r = Inr (Some st)")
    case False
    then show ?thesis using assms
      by (auto simp: PrincipalStore_Insert_def Let_def split: if_splits sum.splits)
  next
    case True
    with assms have "db_up d" "row_check ?row" "pc_Subject c \<notin> pw_subject ` set (db_principals d)"
      "new_id \<notin> set (principal_ids d)"
      "pw_key_hash ?row = None \<or> pw_key_hash ?row \<notin> pw_key_hash ` set (db_principals d)"
      by (auto simp: PrincipalStore_Insert_def Let_def image_iff split: if_splits)
    moreover from True this assms obtain bs where
      "grant_all (principal_ids d @ [new_id]) (binding new_id GrantSourceLocal (pc_GrantedBy c))
             (pc_Roles c) (db_bindings d) = Inr bs"
      "r = Inr (Some ((stored_of d ?row)\<lparr>sp_Roles := pc_Roles c\<rparr>))"
      "d' = d\<lparr>db_principals := db_principals d @ [?row], db_bindings := bs\<rparr>"
      by (auto simp: PrincipalStore_Insert_def Let_def split: if_splits sum.splits)
    ultimately show ?thesis
      by (intro disjI2 exI [of _ ?row] exI [of _ bs]) (simp add: new_row_def)
  qed
qed

lemma new_principal_wf:
  assumes wf: "db_wf d" and row: "row_check row" "pw_id row \<notin> set (principal_ids d)"
    "pw_subject row \<notin> pw_subject ` set (db_principals d)" "pw_external_id row = None"
    "pw_key_hash row = None \<or> pw_key_hash row \<notin> pw_key_hash ` set (db_principals d)"
    and bs: "bindings_wf (principal_ids d @ [pw_id row]) bs"
  shows "db_wf (d\<lparr>db_principals := db_principals d @ [row], db_bindings := bs\<rparr>)"
proof -
  have "principals_wf (db_principals d @ [row])"
    using wf row by (simp add: db_wf_def principals_wf_def unique_col_append)
  moreover have "sessions_wf (principal_ids d @ [pw_id row]) (db_sessions d)"
    using wf by (auto simp: db_wf_def intro: sessions_wf_mono)
  ultimately show ?thesis using bs by (simp add: db_wf_def)
qed

lemma Insert_wf:
  assumes wf: "db_wf d" and run: "PrincipalStore_Insert new_id now c d = (r, d')"
  shows "db_wf d'" and "admin_ids d \<subseteq> admin_ids d'"
proof -
  have "db_wf d' \<and> admin_ids d \<subseteq> admin_ids d'"
  proof (cases "d' = d")
    case False
    from Insert_cases [OF run] False obtain row bs where
      row: "row_check row" "pw_id row = new_id" "pw_subject row = pc_Subject c"
        "pw_external_id row = None" "new_id \<notin> set (principal_ids d)"
        "pc_Subject c \<notin> pw_subject ` set (db_principals d)"
        "pw_key_hash row = None \<or> pw_key_hash row \<notin> pw_key_hash ` set (db_principals d)"
      and grant: "grant_all (principal_ids d @ [new_id]) (binding new_id GrantSourceLocal (pc_GrantedBy c))
             (pc_Roles c) (db_bindings d) = Inr bs"
      and d': "d' = d\<lparr>db_principals := db_principals d @ [row], db_bindings := bs\<rparr>" by blast
    have "bindings_wf (principal_ids d @ [new_id]) (db_bindings d)"
      using wf by (auto simp: db_wf_def intro: bindings_wf_mono)
    then have "bindings_wf (principal_ids d @ [pw_id row]) bs" using grant grant_all_wf row(2) by metis
    then have "db_wf d'" unfolding d' using wf row by (intro new_principal_wf) simp_all
    moreover have "set (roles_of d i) \<subseteq> set (roles_of d' i)" for i
      using grant_all_keeps [OF grant] by (auto simp: roles_of_def d')
    then have "admin_ids d \<subseteq> admin_ids d'" by (auto simp: admin_ids_def d')
    ultimately show ?thesis by blast
  qed (use wf in simp)
  then show "db_wf d'" and "admin_ids d \<subseteq> admin_ids d'" by simp_all
qed

text \<open>The guarantee each operation gives: well-formed tables with an administrator in them
  stay so.\<close>

definition administered :: "db \<Rightarrow> bool" where
  "administered d \<longleftrightarrow> db_wf d \<and> admin_ids d \<noteq> {}"

lemma administeredI:
  "administered d \<Longrightarrow> db_wf d' \<Longrightarrow> admin_ids d \<subseteq> admin_ids d' \<Longrightarrow> administered d'"
  by (auto simp: administered_def)

lemma handle_Create_db:
  "snd (handle_Create hash rand new_id now c body d) = d \<or>
   (\<exists>cr r. PrincipalStore_Insert new_id now cr d = (r, snd (handle_Create hash rand new_id now c body d)))"
proof (cases "handle_Create hash rand new_id now c body d")
  case (Pair reply d')
  then show ?thesis
    by (auto simp: handle_Create_def Let_def split: sum.splits option.splits if_splits prod.splits)
qed

lemma handle_Create_administered:
  "administered d \<Longrightarrow> administered (snd (handle_Create hash rand new_id now c body d))"
  using handle_Create_db [of hash rand new_id now c body d] Insert_wf administeredI
  by (metis administered_def)

lemma snd_answered [simp]:
  "snd (case x of (Inl e, d') \<Rightarrow> (a, d') | (Inr u, d') \<Rightarrow> (f u, d')) = snd x"
  by (simp split: prod.splits sum.splits)

lemma handle_setDisabled_administered:
  assumes inv: "administered d"
  shows "administered (snd (handle_setDisabled errtext now pid disabled d))"
proof (cases "lookup pid d")
  case (Inl e)
  then show ?thesis using inv by (simp add: handle_setDisabled_def)
next
  case (Inr target)
  let ?i = "sp_ID target"
  have wf: "db_wf d" using inv by (simp add: administered_def)
  have wf': "db_wf (snd (SetDisabled now ?i disabled d))" by (rule SetDisabled_wf [OF wf])
  show ?thesis
  proof (cases disabled)
    case False
    then show ?thesis
      using Inr administeredI [OF inv] wf' SetDisabled_admins(2)
      by (simp add: handle_setDisabled_def)
  next
    case True
    show ?thesis
    proof (cases "refuseIfLastAdmin d target None")
      case (Some e)
      then show ?thesis using inv Inr True by (simp add: handle_setDisabled_def)
    next
      case None
      have "FindByID d ?i = Inr (Some target)" using lookup_Inr [OF Inr] by blast
      from refuseIfLastAdmin_None [OF wf this None] have "admin_ids d - {?i} \<noteq> {}"
        using inv by (cases "?i \<in> admin_ids d") (auto simp: administered_def)
      then have "administered (snd (SetDisabled now ?i True d))"
        using wf' True inv by (auto simp: administered_def SetDisabled_admins)
      then show ?thesis using None True Inr by (simp add: handle_setDisabled_def)
    qed
  qed
qed

lemma ReplaceRoles_admins:
  assumes wf: "db_wf d" and run: "ReplaceRoles i roles g d = (r, d')"
  shows "db_wf d'"
    and "admin_ids d - {i} \<subseteq> admin_ids d'"
    and "RoleAdmin \<in> set roles \<Longrightarrow> admin_ids d \<subseteq> admin_ids d'"
proof -
  have "db_wf d' \<and> admin_ids d - {i} \<subseteq> admin_ids d'
      \<and> (RoleAdmin \<in> set roles \<longrightarrow> admin_ids d \<subseteq> admin_ids d')"
  proof (cases r)
    case (Inl e)
    then have "d' = d" using run
      by (auto simp: ReplaceRoles_def Let_def then_FindByID_def FindByID_def queryOne_def
          split: if_splits sum.splits)
    with wf show ?thesis by blast
  next
    case (Inr x)
    note laws = ReplaceRoles_roles [OF wf run [unfolded Inr]]
    have "db_wf d'" using wf laws by (simp add: db_wf_def)
    moreover have "admin_ids d - {i} \<subseteq> admin_ids d'"
      using laws(2,3) by (auto simp: admin_ids_def)
    moreover have "admin_ids d \<subseteq> admin_ids d'" if "RoleAdmin \<in> set roles"
    proof
      fix j assume j: "j \<in> admin_ids d"
      show "j \<in> admin_ids d'"
      proof (cases "j = i")
        case True
        then show ?thesis using j that laws(1,3) by (auto simp: admin_ids_def)
      qed (use j calculation in auto)
    qed
    ultimately show ?thesis by blast
  qed
  then show "db_wf d'" "admin_ids d - {i} \<subseteq> admin_ids d'"
    "RoleAdmin \<in> set roles \<Longrightarrow> admin_ids d \<subseteq> admin_ids d'" by blast+
qed

lemma handle_ReplaceRoles_db:
  "snd (handle_ReplaceRoles errtext c pid body d) = d \<or>
   (\<exists>target roles. lookup pid d = Inr target \<and> refuseIfLastAdmin d target (Some roles) = None
      \<and> snd (handle_ReplaceRoles errtext c pid body d)
          = snd (ReplaceRoles (sp_ID target) roles (callerID c) d))"
proof (cases "lookup pid d")
  case (Inr target)
  show ?thesis
  proof (cases body)
    case Body: (Inr sent)
    let ?roles = "case sent of None \<Rightarrow> [] | Some rs \<Rightarrow> rs"
    show ?thesis
      by (cases "refuseIfLastAdmin d target (Some ?roles)")
        (auto simp: handle_ReplaceRoles_def Let_def Inr Body)
  qed (simp add: handle_ReplaceRoles_def Inr)
qed (simp add: handle_ReplaceRoles_def)

lemma handle_ReplaceRoles_administered:
  assumes inv: "administered d"
  shows "administered (snd (handle_ReplaceRoles errtext c pid body d))"
proof (cases "snd (handle_ReplaceRoles errtext c pid body d) = d")
  case True
  then show ?thesis using inv by simp
next
  case False
  then obtain target roles where target: "lookup pid d = Inr target"
    and ok: "refuseIfLastAdmin d target (Some roles) = None"
    and d'_eq: "snd (handle_ReplaceRoles errtext c pid body d)
        = snd (ReplaceRoles (sp_ID target) roles (callerID c) d)"
    using handle_ReplaceRoles_db by blast
  then obtain r d' where run: "ReplaceRoles (sp_ID target) roles (callerID c) d = (r, d')"
    and d': "snd (handle_ReplaceRoles errtext c pid body d) = d'" by (metis prod.collapse)
  let ?i = "sp_ID target"
  have wf: "db_wf d" using inv by (simp add: administered_def)
  note laws = ReplaceRoles_admins [OF wf run]
  have "admin_ids d' \<noteq> {}"
  proof (cases "RoleAdmin \<in> set roles")
    case True
    then show ?thesis using laws(3) inv by (auto simp: administered_def)
  next
    case F: False
    have "FindByID d ?i = Inr (Some target)" using lookup_Inr [OF target] by blast
    from refuseIfLastAdmin_None [OF wf this ok] F have "?i \<in> admin_ids d \<Longrightarrow> admin_ids d - {?i} \<noteq> {}"
      by simp
    then show ?thesis using laws(2) inv by (cases "?i \<in> admin_ids d") (auto simp: administered_def)
  qed
  then show ?thesis unfolding d' using laws(1) by (simp add: administered_def)
qed

lemma handle_Rotate_administered:
  assumes "administered d"
  shows "administered (snd (handle_Rotate hash rand pid d))"
proof -
  have "snd (handle_Rotate hash rand pid d) = d \<or>
      (\<exists>i h. snd (handle_Rotate hash rand pid d) = snd (RotateKey i h d))"
    by (auto simp: handle_Rotate_def split: sum.splits option.splits prod.splits)
      (metis snd_conv)+
  then show ?thesis using assms RotateKey_rows [of d] by (auto simp: administered_def)
qed

lemma BootstrapAdmin_db:
  "snd (BootstrapAdmin hash rand new_id now subject d) = d \<or>
   (\<exists>cr r. PrincipalStore_Insert new_id now cr d = (r, snd (BootstrapAdmin hash rand new_id now subject d)))"
  by (cases "BootstrapAdmin hash rand new_id now subject d")
    (auto simp: BootstrapAdmin_def split: sum.splits option.splits prod.splits)

lemma sessions_administered:
  "administered d \<Longrightarrow> sessions_wf (principal_ids d) ss \<Longrightarrow> administered (d\<lparr>db_sessions := ss\<rparr>)"
  by (auto simp: administered_def db_wf_def admin_ids_def)

lemma last_seen_administered:
  assumes "administered d"
  shows "administered (snd (PrincipalStore_TouchLastSeen now i d))"
proof -
  let ?rows = "\<lambda>P. update_where P (\<lambda>p. p\<lparr>pw_last_seen_at := Some now\<rparr>) (db_principals d)"
  have "principals_wf (?rows P)" for P
    using assms by (auto simp: administered_def db_wf_def principals_wf_def table_simps list_all_iff
        set_update_where row_check_def)
  moreover have "admin_ids (d\<lparr>db_principals := ?rows P\<rparr>) = admin_ids d" for P
    unfolding admin_ids_accounts by (simp add: map_update_where del: set_map)
  ultimately show ?thesis using assms
    by (simp add: PrincipalStore_TouchLastSeen_def administered_def db_wf_def table_simps)
qed

section \<open>The administration of a running store\<close>

text \<open>
  One request, or one piece of background work, that touches identities without a login or a
  directory being involved: the five handlers of the principals API, the bootstrap of another
  replica, the last-seen updates, sessions beginning and ending, and a sweep.
\<close>

inductive admin_step :: "db \<Rightarrow> db \<Rightarrow> bool" where
  create: "admin_step d (snd (handle_Create hash rand new_id now c body d))"
| disable: "admin_step d (snd (handle_Disable errtext now pid d))"
| enable: "admin_step d (snd (handle_Enable errtext now pid d))"
| roles: "admin_step d (snd (handle_ReplaceRoles errtext c pid roles d))"
| rotate: "admin_step d (snd (handle_Rotate hash rand pid d))"
| bootstrap: "admin_step d (snd (BootstrapAdmin hash rand new_id now subject d))"
| seen: "admin_step d (snd (PrincipalStore_TouchLastSeen now i d))"
| session_seen: "admin_step d (snd (SessionStore_TouchLastSeen now i d))"
| session_begin: "admin_step d (snd (SessionStore_Create new_id now i h expires ua tok d))"
| session_end: "admin_step d (snd (SessionStore_Delete h d))"
| sweep: "admin_step d (snd (RunOnce now server_targets d))"

lemma admin_step_administered:
  assumes "admin_step d d'" and inv: "administered d"
  shows "administered d'"
  using assms(1)
proof cases
  case create
  then show ?thesis using handle_Create_administered [OF inv] by blast
next
  case disable
  then show ?thesis using handle_setDisabled_administered [OF inv] by (simp add: handle_Disable_def)
next
  case enable
  then show ?thesis using handle_setDisabled_administered [OF inv] by (simp add: handle_Enable_def)
next
  case roles
  then show ?thesis using handle_ReplaceRoles_administered [OF inv] by blast
next
  case rotate
  then show ?thesis using handle_Rotate_administered [OF inv] by blast
next
  case (bootstrap hash rand new_id now subject)
  then show ?thesis
    using BootstrapAdmin_db [of hash rand new_id now subject d] Insert_wf administeredI inv
    by (metis administered_def)
next
  case seen
  then show ?thesis using last_seen_administered [OF inv] by blast
next
  case (session_seen now i)
  have "sessions_wf (principal_ids d) (update_where P (\<lambda>s. s\<lparr>sr_last_seen_at := t\<rparr>) (db_sessions d))" for P t
    using inv by (auto simp: administered_def db_wf_def sessions_wf_def table_simps set_update_where)
  then show ?thesis
    using session_seen inv by (auto simp: SessionStore_TouchLastSeen_def intro: sessions_administered)
next
  case session_begin
  then show ?thesis using inv
    by (auto simp: SessionStore_Create_def Let_def administered_def db_wf_def sessions_wf_def
        admin_ids_def)
next
  case session_end
  moreover have "sessions_wf (principal_ids d) (delete_where P (db_sessions d))" for P
    using inv by (auto simp: administered_def db_wf_def intro: sessions_wf_delete)
  ultimately show ?thesis using inv
    by (auto simp: SessionStore_Delete_def intro: sessions_administered)
next
  case (sweep now)
  then show ?thesis using inv
    by (auto simp: server_sweep administered_def db_wf_def admin_ids_def roles_of_def sessions_wf_delete)
qed

text \<open>
  C17. The store cannot be locked out through its own API. From well-formed tables in which
  somebody enabled holds \<open>admin\<close>, every sequence of administration requests and background
  work, served one after the other and whoever calls them, ends with well-formed tables in which
  somebody enabled still holds it.
\<close>

theorem admin_never_lost:
  assumes "admin_step\<^sup>*\<^sup>* d d'" and "db_wf d" and "admin_ids d \<noteq> {}"
  shows "db_wf d' \<and> admin_ids d' \<noteq> {}"
proof -
  have "administered d" using assms(2,3) by (simp add: administered_def)
  with assms(1) have "administered d'"
    by (induction rule: rtranclp_induct) (auto intro: admin_step_administered)
  then show ?thesis by (simp add: administered_def)
qed

theorem admin_never_lost_witness:
  "admin_step\<^sup>*\<^sup>* demo_db (snd (handle_Disable (\<lambda>_. '''') 1 (Some 2) demo_db))
   \<and> fst (handle_Disable (\<lambda>_. '''') 1 (Some 2) demo_db) =
       (409, ErrorBody (errLastAdmin_text ''user:ann''))
   \<and> admin_ids (snd (handle_Disable (\<lambda>_. '''') 1 (Some 2) demo_db)) \<noteq> {}"
proof -
  have step: "admin_step\<^sup>*\<^sup>* demo_db (snd (handle_Disable (\<lambda>_. '''') 1 (Some 2) demo_db))"
    by (rule r_into_rtranclp) (rule admin_step.disable)
  have refused: "fst (handle_Disable (\<lambda>_. '''') 1 (Some 2) demo_db) =
      (409, ErrorBody (errLastAdmin_text ''user:ann''))" by code_simp
  have "2 \<in> admin_ids demo_db"
    by (rule admin_idsI [where p = "db_principals demo_db ! 1"]) code_simp+
  then have "admin_ids demo_db \<noteq> {}" by blast
  from admin_never_lost [OF step demo_db_wf this] step show ?thesis
    using refused by blast
qed

section \<open>Keys that are issued work\<close>

lemma Insert_usable:
  assumes wf: "db_wf d" and run: "PrincipalStore_Insert new_id now c d = (Inr (Some st), d')"
    and kind: "pc_Kind c = PrincipalKindAPIKey"
  shows "\<exists>st'. FindByKeyHash d' (pc_KeyHash c) = Inr (Some st') \<and> sp_ID st' = new_id
           \<and> sp_Subject st' = pc_Subject c \<and> sp_DisabledAt st' = None
           \<and> set (sp_Roles st') = set (pc_Roles c)"
    and "sp_Subject st = pc_Subject c"
    and "k \<noteq> pc_KeyHash c \<Longrightarrow> FindByKeyHash d' k = FindByKeyHash d k"
    and "\<exists>st'. FindBySubject d' (pc_Subject c) = Inr (Some st')"
proof -
  from Insert_cases [OF run] obtain row bs where up: "db_up d" and
    row: "row_check row" "pw_id row = new_id" "pw_subject row = pc_Subject c" "pw_kind row = pc_Kind c"
      "pw_disabled_at row = None"
      "pw_key_hash row = (if pc_KeyHash c \<noteq> '''' then Some (pc_KeyHash c) else None)"
    and fresh: "new_id \<notin> set (principal_ids d)" "pc_Subject c \<notin> pw_subject ` set (db_principals d)"
      "pw_key_hash row = None \<or> pw_key_hash row \<notin> pw_key_hash ` set (db_principals d)"
    and grant: "grant_all (principal_ids d @ [new_id]) (binding new_id GrantSourceLocal (pc_GrantedBy c))
             (pc_Roles c) (db_bindings d) = Inr bs"
    and st: "st = (stored_of d row)\<lparr>sp_Roles := pc_Roles c\<rparr>"
    and d': "d' = d\<lparr>db_principals := db_principals d @ [row], db_bindings := bs\<rparr>" by blast
  have hash: "pw_key_hash row = Some (pc_KeyHash c)"
    using row kind by (auto simp: row_check_def split: if_splits)
  with fresh(3) have none: "find (\<lambda>p. pw_key_hash p = Some (pc_KeyHash c)) (db_principals d) = None"
    by (auto simp: find_None_iff_list image_iff)
  have "(new_id, role, ScopeStoreWide) \<notin> binding_key ` set (db_bindings d)" for role
    using wf fresh(1) by (auto simp: db_wf_def bindings_wf_def binding_key_def)
  then have roles: "set (roles_of d' new_id) = set (pc_Roles c)"
    using grant_all_roles [OF grant] by (simp add: set_roles_of d')
  show "\<exists>st'. FindByKeyHash d' (pc_KeyHash c) = Inr (Some st') \<and> sp_ID st' = new_id
           \<and> sp_Subject st' = pc_Subject c \<and> sp_DisabledAt st' = None
           \<and> set (sp_Roles st') = set (pc_Roles c)"
    using up row hash none roles
    by (auto simp: FindByKeyHash_def queryOne_def d' find_append_new stored_of_def)
  show "sp_Subject st = pc_Subject c" using row by (simp add: st stored_of_def)
  have others: "stored_of d' p = stored_of d p" if "p \<in> set (db_principals d)" for p
  proof -
    have "pw_id p \<noteq> new_id" using that fresh(1) by auto
    from grant_all_others [OF grant this, of "\<lambda>b. rb_scope b = ScopeStoreWide"] show ?thesis
      by (simp add: stored_of_def roles_of_def d')
  qed
  assume k: "k \<noteq> pc_KeyHash c"
  show "FindByKeyHash d' k = FindByKeyHash d k"
  proof (cases "find (\<lambda>p. pw_key_hash p = Some k) (db_principals d)")
    case None
    then show ?thesis using k hash by (simp add: FindByKeyHash_def queryOne_def d' find_append_new)
  next
    case (Some p)
    have "p \<in> set (db_principals d)" using find_SomeD [OF Some] by blast
    with Some others show ?thesis
      by (simp add: FindByKeyHash_def queryOne_def d' find_append_new)
  qed
next
  from Insert_cases [OF run] obtain row bs where "db_up d" "pw_subject row = pc_Subject c"
    "pc_Subject c \<notin> pw_subject ` set (db_principals d)"
    "d' = d\<lparr>db_principals := db_principals d @ [row], db_bindings := bs\<rparr>" by blast
  then show "\<exists>st'. FindBySubject d' (pc_Subject c) = Inr (Some st')"
    by (auto simp: FindBySubject_def queryOne_def find_append_new split: option.splits)
qed

lemma DBKey_accepts:
  assumes "GenerateKey rand = Some key" and "extractBearer r = key"
    and "find_key (hash key) = Inr (Some st)" and "sp_DisabledAt st = None"
  shows "\<exists>w'. DBKey_Authenticate hash find_key t r w = (Inr (principalFromStored st), w')"
  unfolding DBKey_accept_iff using assms GenerateKey_looks_like_key by blast

text \<open>
  C37. Creating a principal issues a working credential: when it answers 201, a request that
  bears the key in the response authenticates as the new subject, with exactly the permissions
  of the roles that were asked for; every other key resolves as before; and the roles sent are
  roles this store defines, each once.
\<close>

theorem create_issues_usable_key:
  assumes wf: "db_wf d"
    and run: "handle_Create hash rand new_id now c body d = ((201, IssuedBody st key), d')"
    and bearer: "extractBearer r = key"
  shows "db_wf d' \<and>
    (\<exists>req. body = Inr req \<and> distinct (cr_Roles req) \<and> set (cr_Roles req) \<subseteq> set RoleNames \<and>
      (\<exists>p w'. DBKey_Authenticate hash (FindByKeyHash d') t r w = (Inr p, w') \<and>
         pr_Subject p = cr_Subject req \<and>
         (\<forall>perm. Can (Some p) perm \<longleftrightarrow> (\<exists>role \<in> set (cr_Roles req). Grants role perm)))) \<and>
    (\<forall>k. k \<noteq> hash key \<longrightarrow> FindByKeyHash d' k = FindByKeyHash d k)"
proof -
  from run obtain req where req: "body = Inr req" by (cases body) (auto simp: handle_Create_def)
  let ?c = "\<lparr>pc_Subject = cr_Subject req, pc_Kind = PrincipalKindAPIKey,
    pc_DisplayName = cr_DisplayName req, pc_KeyHash = hash key, pc_Roles = cr_Roles req,
    pc_GrantedBy = callerID c\<rparr>"
  from run req have gen: "GenerateKey rand = Some key"
    and ins: "PrincipalStore_Insert new_id now ?c d = (Inr (Some st), d')"
    and valid: "validate_Roles (cr_Roles req) = []"
    by (auto simp: handle_Create_def Let_def validate_PrincipalCreate_def
        split: option.splits if_splits prod.splits sum.splits)
  note usable = Insert_usable [OF wf ins, simplified]
  from usable(1) obtain st' where st': "FindByKeyHash d' (hash key) = Inr (Some st')"
    "sp_Subject st' = cr_Subject req" "sp_DisabledAt st' = None" "set (sp_Roles st') = set (cr_Roles req)"
    by auto
  have auth: "\<exists>p w'. DBKey_Authenticate hash (FindByKeyHash d') t r w = (Inr p, w') \<and>
      pr_Subject p = cr_Subject req \<and>
      (\<forall>perm. Can (Some p) perm \<longleftrightarrow> (\<exists>role \<in> set (cr_Roles req). Grants role perm))"
    using DBKey_accepts
      [where r = r and find_key = "FindByKeyHash d'" and hash = hash and t = t and w = w, OF gen bearer st'(1,3)] st'(2,4)
    by (metis Can_principalFromStored principalFromStored_simps(2))
  have "db_wf d'" by (rule Insert_wf(1) [OF wf ins])
  with auth usable(3) req valid show ?thesis by (auto simp: validate_Roles_Nil_iff)
qed

text \<open>A request that bears a given token.\<close>

definition bearer_request :: "string \<Rightarrow> request" where
  "bearer_request key = \<lparr>rq_Method = ''POST'', rq_Path = ''/api/v1/evidence'',
     rq_Header = [(''Authorization'', ''Bearer '' @ key)], rq_Cookies = [], rq_RemoteAddr = ''''\<rparr>"

definition demo_create :: create_request where
  "demo_create = \<lparr>cr_Subject = ''ci:weekly'', cr_DisplayName = '''', cr_Roles = [''contributor'']\<rparr>"

theorem create_issues_usable_key_witness:
  "\<exists>st d' p w'. handle_Create (\<lambda>k. ''#'' @ k) (Some [0, 0, 0]) 5 0 empty_ctx (Inr demo_create) demo_db
       = ((201, IssuedBody st ''evs_AAAA''), d')
     \<and> DBKey_Authenticate (\<lambda>k. ''#'' @ k) (FindByKeyHash d') 1 (bearer_request ''evs_AAAA'')
           \<lparr>touched = [], touch_queue = []\<rparr> = (Inr p, w')
     \<and> pr_Subject p = ''ci:weekly''"
proof -
  let ?h = "\<lambda>k. ''#'' @ k"
  have "case handle_Create ?h (Some [0, 0, 0]) 5 0 empty_ctx (Inr demo_create) demo_db of
      ((s, IssuedBody st k), d') \<Rightarrow> s = 201 \<and> k = ''evs_AAAA'' | _ \<Rightarrow> False" by code_simp
  then obtain st d' where run: "handle_Create ?h (Some [0, 0, 0]) 5 0 empty_ctx (Inr demo_create) demo_db
      = ((201, IssuedBody st ''evs_AAAA''), d')"
    by (auto split: prod.splits principal_body.splits)
  have bearer: "extractBearer (bearer_request ''evs_AAAA'') = ''evs_AAAA''" by code_simp
  show ?thesis
    using create_issues_usable_key [OF demo_db_wf run bearer, of 1 "\<lparr>touched = [], touch_queue = []\<rparr>"] run
    by (auto simp: demo_create_def)
qed

text \<open>
  Bootstrapping. When it succeeds, running it again, on this or on any other replica, does
  nothing and returns no key. When it does return a key, that key authenticates as an
  administrator, so that the store can be administered; and no key is returned unless the
  principal was created by this run.
\<close>

theorem BootstrapAdmin_once:
  assumes wf: "db_wf d" and run: "BootstrapAdmin hash rand new_id now subject d = (Inr key, d')"
  shows "db_wf d' \<and> BootstrapAdmin hash rand' new_id' now' subject d' = (Inr [], d') \<and>
    (key = [] \<longleftrightarrow> d' = d) \<and>
    (key \<noteq> [] \<longrightarrow> admin_ids d' \<noteq> {} \<and> (extractBearer r = key \<longrightarrow>
       (\<exists>p w'. DBKey_Authenticate hash (FindByKeyHash d') t r w = (Inr p, w')
          \<and> pr_Subject p = subject \<and> Can (Some p) PermPrincipalAdmin)))"
proof (cases "FindBySubject d subject")
  case (Inl e)
  then show ?thesis using run by (simp add: BootstrapAdmin_def)
next
  case (Inr found)
  show ?thesis
  proof (cases found)
    case (Some st)
    then have "key = [] \<and> d' = d" using run Inr by (simp add: BootstrapAdmin_def)
    with Some Inr wf show ?thesis by (simp add: BootstrapAdmin_def)
  next
    case None
    then have free: "db_up d" "subject \<notin> pw_subject ` set (db_principals d)"
      using Inr by (auto simp: FindBySubject_def queryOne_def find_None_iff_list split: if_splits)
    let ?c = "\<lambda>k. \<lparr>pc_Subject = subject, pc_Kind = PrincipalKindAPIKey,
      pc_DisplayName = ''bootstrap administrator'', pc_KeyHash = hash k,
      pc_Roles = [RoleAdmin], pc_GrantedBy = None\<rparr>"
    from run None Inr obtain k where gen: "GenerateKey rand = Some k"
      by (auto simp: BootstrapAdmin_def split: option.splits)
    obtain r1 d1 where ins1: "PrincipalStore_Insert new_id now (?c k) d = (r1, d1)" by fastforce
    have "r1 \<noteq> Inr None" using ins1 free
      by (auto simp: PrincipalStore_Insert_def Let_def split: if_splits sum.splits)
    with run None Inr gen ins1 obtain st where ins: "PrincipalStore_Insert new_id now (?c k) d = (Inr (Some st), d')"
      and key: "key = k"
      by (auto simp: BootstrapAdmin_def split: option.splits sum.splits)
    note usable = Insert_usable [OF wf ins, simplified]
    have k: "key = k" "k \<noteq> []" using key gen
      by (auto simp: GenerateKey_def KeyPrefix_def split: option.splits)
    have "d' \<noteq> d" using usable(4) Inr None by auto
    moreover have "BootstrapAdmin hash rand' new_id' now' subject d' = (Inr [], d')"
      using usable(4) by (auto simp: BootstrapAdmin_def)
    moreover obtain st' where st': "FindByKeyHash d' (hash k) = Inr (Some st')" "sp_Subject st' = subject"
        "sp_DisabledAt st' = None" "set (sp_Roles st') = {RoleAdmin}"
      using usable(1) by auto
    moreover have "admin_ids d' \<noteq> {}"
    proof -
      from st'(1) obtain p where p: "p \<in> set (db_principals d')" "st' = stored_of d' p"
        by (auto simp: FindByKeyHash_def queryOne_def dest: find_SomeD split: if_splits)
      then have "pw_id p \<in> admin_ids d'"
        using st' by (intro admin_idsI [of p]) (auto simp: stored_of_def)
      then show ?thesis by blast
    qed
    moreover have "\<exists>p w'. DBKey_Authenticate hash (FindByKeyHash d') t r w = (Inr p, w')
          \<and> pr_Subject p = subject \<and> Can (Some p) PermPrincipalAdmin" if "extractBearer r = k"
    proof -
      have "Grants RoleAdmin PermPrincipalAdmin" by code_simp
      then have "Can (Some (principalFromStored st')) PermPrincipalAdmin" using st'(4) by simp
      then show ?thesis
        using DBKey_accepts [where r = r and find_key = "FindByKeyHash d'" and hash = hash and t = t
            and w = w, OF gen that st'(1,3)] st'(2)
        by (metis principalFromStored_simps(2))
    qed
    ultimately show ?thesis using Insert_wf(1) [OF wf ins] k by simp
  qed
qed

theorem BootstrapAdmin_once_witness:
  "\<exists>d'. BootstrapAdmin (\<lambda>k. ''#'' @ k) (Some [0, 0, 0]) 5 0 ''ops'' demo_db = (Inr ''evs_AAAA'', d')
     \<and> BootstrapAdmin (\<lambda>k. ''#'' @ k) (Some [1, 2, 3]) 6 9 ''ops'' d' = (Inr [], d')"
proof -
  let ?h = "\<lambda>k. ''#'' @ k"
  have "case BootstrapAdmin ?h (Some [0, 0, 0]) 5 0 ''ops'' demo_db of
      (Inr k, d') \<Rightarrow> k = ''evs_AAAA'' | _ \<Rightarrow> False" by code_simp
  then obtain d' where run: "BootstrapAdmin ?h (Some [0, 0, 0]) 5 0 ''ops'' demo_db = (Inr ''evs_AAAA'', d')"
    by (auto split: prod.splits sum.splits)
  from BootstrapAdmin_once [OF demo_db_wf run] show ?thesis using run by blast
qed

section \<open>Two findings\<close>

text \<open>The guard and the update are separate statements. Two administrators who disable each
  other at the same time both pass the guard, and both updates are then carried out.\<close>

definition two_admins :: db where
  "two_admins = demo_db\<lparr>db_bindings :=
     [binding 1 GrantSourceLocal None ''admin'', binding 2 GrantSourceLocal None ''admin'']\<rparr>"

lemma concurrent_disables_lose_admin:
  "refuseIfLastAdmin two_admins (stored_of two_admins (db_principals two_admins ! 0)) None = None
   \<and> refuseIfLastAdmin two_admins (stored_of two_admins (db_principals two_admins ! 1)) None = None
   \<and> (let d' = snd (SetDisabled 1 2 True (snd (SetDisabled 1 1 True two_admins)))
      in CountOtherEnabledAdmins d' 0 = Inr 0)"
  by code_simp

text \<open>A person who has logged in before, and for whom the directory then provisions a second
  account under one of their login names, can no longer log in: the claim of the provisioned row
  comes first and meets the name the first row holds.\<close>

lemma provisioned_twin_locks_out:
  "fst (UpsertFromIdP 4 0 (ann_login\<lparr>il_Subject := ''user:ann''\<rparr>) (demo_db\<lparr>db_principals :=
      db_principals demo_db @ [(new_row 3 0 ''ann@example.org'' ''user'' ''Ann'')
        \<lparr>pw_scim_id := Some ''x'', pw_user_name := Some ''ann@example.org''\<rparr>]\<rparr>))
   = Inl (ErrSubjectTaken ''user:ann'')"
  by code_simp

end
