(* ===== verification/RateLimit.thy ===== *)
theory RateLimit
  imports Auth
begin

text \<open>
  The per-caller rate limiter of \<^verbatim>\<open>internal/ratelimit/ratelimit.go\<close>. The token bucket itself is
  \<^verbatim>\<open>golang.org/x/time/rate\<close>, which is not part of this repository: a record of functions on
  an abstract limiter stands for it, and what the code relies on, that a limiter whose bucket
  is full behaves like a new one, is a hypothesis of the theorem that needs it. The digest of
  the caller is an argument as well. A rate is rational where the code has a float; it is only
  ever compared with zero here.
\<close>

section \<open>The token bucket this relies on\<close>

record ('l, 'r) rate_limiter =
  NewLimiter :: "rat \<Rightarrow> int \<Rightarrow> 'l"
  Tokens :: "instant \<Rightarrow> 'l \<Rightarrow> rat"
  Reserve :: "instant \<Rightarrow> 'l \<Rightarrow> 'r \<times> 'l"
  OK :: "'r \<Rightarrow> bool"
  Delay :: "instant \<Rightarrow> 'r \<Rightarrow> duration"
  Cancel :: "instant \<Rightarrow> 'r \<Rightarrow> 'l \<Rightarrow> 'l"

section \<open>Who is calling\<close>

definition before_byte :: "char \<Rightarrow> string \<Rightarrow> string" where
  "before_byte b s = takeWhile (\<lambda>x. x \<noteq> b) s"

fun last_index :: "char \<Rightarrow> string \<Rightarrow> nat option" where
  "last_index b [] = None"
| "last_index b (x # xs) =
     (case last_index b xs of Some i \<Rightarrow> Some (Suc i) | None \<Rightarrow> if x = b then Some 0 else None)"

fun first_index :: "char \<Rightarrow> string \<Rightarrow> nat option" where
  "first_index b [] = None"
| "first_index b (x # xs) = (if x = b then Some 0 else map_option Suc (first_index b xs))"

text \<open>\<^verbatim>\<open>net.SplitHostPort\<close>: the host, or \<open>None\<close> where it returns an error.\<close>

definition split_host :: "string \<Rightarrow> string option" where
  "split_host s =
     (case last_index CHR '':'' s of
        None \<Rightarrow> None
      | Some i \<Rightarrow>
          if take 1 s = ''[''
          then (case first_index CHR '']'' s of
                  None \<Rightarrow> None
                | Some e \<Rightarrow>
                    if e + 1 \<noteq> i then None
                    else if CHR ''['' \<in> set (drop 1 s) \<or> CHR '']'' \<in> set (drop (e + 1) s) then None
                    else Some (drop 1 (take e s)))
          else if CHR '':'' \<in> set (take i s) then None
          else if CHR ''['' \<in> set s \<or> CHR '']'' \<in> set s then None
          else Some (take i s))"

definition clientIP :: "request \<Rightarrow> string" where
  "clientIP r =
     (let h = Header_Get r ''X-Forwarded-For''; ip = trim_space (before_byte CHR '','' h) in
      if h \<noteq> '''' \<and> ip \<noteq> '''' then ip
      else if rq_RemoteAddr r = '''' then ''unknown''
      else case split_host (rq_RemoteAddr r) of
          Some host \<Rightarrow> host
        | None \<Rightarrow> rq_RemoteAddr r)"

definition callerKey :: "request \<Rightarrow> string" where
  "callerKey r =
     (let h = Header_Get r ''Authorization''; prefix = ''Bearer '' in
      if length prefix \<le> length h \<and> equal_fold (take (length prefix) h) prefix
         \<and> trim_space (drop (length prefix) h) \<noteq> ''''
      then ''k:'' @ trim_space (drop (length prefix) h)
      else ''ip:'' @ clientIP r)"

definition isWrite :: "request \<Rightarrow> bool" where
  "isWrite r \<longleftrightarrow> \<not> (rq_Method r = ''GET'' \<or> rq_Method r = ''HEAD'' \<or> rq_Method r = ''OPTIONS'')"

section \<open>The store of limiters\<close>

record rate_config =
  rc_ReadRPS :: rat
  rc_ReadBurst :: int
  rc_WriteRPS :: rat
  rc_WriteBurst :: int

definition RateLimit_Enabled :: "rate_config \<Rightarrow> bool" where
  "RateLimit_Enabled cfg \<longleftrightarrow> rc_ReadRPS cfg > 0 \<or> rc_WriteRPS cfg > 0"

record 'l limiter_store =
  ls_readers :: "(string \<times> 'l) list"
  ls_writers :: "(string \<times> 'l) list"

definition newStore :: "'l limiter_store" where
  "newStore = \<lparr>ls_readers = [], ls_writers = []\<rparr>"

definition sweepThreshold :: nat where "sweepThreshold = 1024"

definition rps_of :: "rate_config \<Rightarrow> bool \<Rightarrow> rat" where
  "rps_of cfg w = (if w then rc_WriteRPS cfg else rc_ReadRPS cfg)"

definition burst_of :: "rate_config \<Rightarrow> bool \<Rightarrow> int" where
  "burst_of cfg w = (if w then rc_WriteBurst cfg else rc_ReadBurst cfg)"

definition bucket_of :: "bool \<Rightarrow> 'l limiter_store \<Rightarrow> (string \<times> 'l) list" where
  "bucket_of w s = (if w then ls_writers s else ls_readers s)"

definition set_bucket :: "bool \<Rightarrow> (string \<times> 'l) list \<Rightarrow> 'l limiter_store \<Rightarrow> 'l limiter_store" where
  "set_bucket w b s = (if w then s\<lparr>ls_writers := b\<rparr> else s\<lparr>ls_readers := b\<rparr>)"

definition sweepRefilled ::
  "('l, 'r) rate_limiter \<Rightarrow> instant \<Rightarrow> (string \<times> 'l) list \<Rightarrow> int \<Rightarrow> (string \<times> 'l) list" where
  "sweepRefilled rl now bucket burst = filter (\<lambda>(_, l). \<not> Tokens rl now l \<ge> of_int burst) bucket"

text \<open>The limiter of a caller with the digest it is kept under; \<open>None\<close> for no limit.\<close>

definition limiterFor ::
  "('l, 'r) rate_limiter \<Rightarrow> (string \<Rightarrow> string) \<Rightarrow> rate_config \<Rightarrow> instant \<Rightarrow> string \<Rightarrow> bool
     \<Rightarrow> 'l limiter_store \<Rightarrow> (string \<times> 'l) option \<times> 'l limiter_store" where
  "limiterFor rl identify cfg now key write s =
     (let rps = rps_of cfg write; burst = burst_of cfg write in
      if rps \<le> 0 \<or> burst \<le> 0 then (None, s)
      else let bucket = bucket_of write s; cid = identify key in
        case map_of bucket cid of
          Some l \<Rightarrow> (Some (cid, l), s)
        | None \<Rightarrow>
            let bucket = (if sweepThreshold \<le> length bucket then sweepRefilled rl now bucket burst
                          else bucket);
                l = NewLimiter rl rps burst
            in (Some (cid, l), set_bucket write (put cid l bucket) s))"

section \<open>The middleware\<close>

definition retry_seconds :: "duration \<Rightarrow> int" where
  "retry_seconds d = max (- ((- d) div second)) 1"

text \<open>
  What one limiter decides about a request: nothing, or the seconds to wait. A reservation
  that would have to wait is cancelled. The limiter is a shared object, so its new state is
  written back under its digest.
\<close>

definition admit :: "('l, 'r) rate_limiter \<Rightarrow> instant \<Rightarrow> 'l \<Rightarrow> int option \<times> 'l" where
  "admit rl now l =
     (let (res, l') = Reserve rl now l in
      if \<not> OK rl res then (Some (retry_seconds 0), l')
      else if Delay rl now res > 0 then (Some (retry_seconds (Delay rl now res)), Cancel rl now res l')
      else (None, l'))"

definition check_limit ::
  "('l, 'r) rate_limiter \<Rightarrow> (string \<Rightarrow> string) \<Rightarrow> rate_config \<Rightarrow> instant \<Rightarrow> request
     \<Rightarrow> 'l limiter_store \<Rightarrow> int option \<times> 'l limiter_store" where
  "check_limit rl identify cfg now r s =
     (case limiterFor rl identify cfg now (callerKey r) (isWrite r) s of
        (None, s') \<Rightarrow> (None, s')
      | (Some (cid, l), s') \<Rightarrow>
          let (verdict, l') = admit rl now l
          in (verdict, set_bucket (isWrite r) (put cid l' (bucket_of (isWrite r) s')) s'))"

definition RateLimit_Middleware ::
  "('l, 'r) rate_limiter \<Rightarrow> (string \<Rightarrow> string) \<Rightarrow> rate_config \<Rightarrow> instant
     \<Rightarrow> ('w \<Rightarrow> 'l limiter_store) \<Rightarrow> ('l limiter_store \<Rightarrow> 'w \<Rightarrow> 'w) \<Rightarrow> 'w middleware" where
  "RateLimit_Middleware rl identify cfg now get_store set_store next r c w =
     (if \<not> RateLimit_Enabled cfg then next r c w
      else case check_limit rl identify cfg now r (get_store w) of
          (None, s) \<Rightarrow> next r c (set_store s w)
        | (Some seconds, s) \<Rightarrow> (TooManyRequests seconds, set_store s w))"

section \<open>Callers\<close>

text \<open>The limiter and the authenticators read the same token, which the limiter trims.\<close>

lemma callerKey_bearer:
  "callerKey r = (if trim_space (extractBearer r) \<noteq> [] then ''k:'' @ trim_space (extractBearer r)
                  else ''ip:'' @ clientIP r)"
proof (cases "7 \<le> length (Header_Get r ''Authorization'')
    \<and> equal_fold (take 7 (Header_Get r ''Authorization'')) ''Bearer ''")
  case True
  then have "Header_Get r ''Authorization'' \<noteq> []" by auto
  with True have "extractBearer r = drop 7 (Header_Get r ''Authorization'')"
    by (auto simp: extractBearer_def bearer_prefix_def Let_def numeral_eq_Suc)
  with True show ?thesis by (simp add: callerKey_def Let_def numeral_eq_Suc)
next
  case False
  then have "extractBearer r = []"
    by (auto simp: extractBearer_def bearer_prefix_def Let_def numeral_eq_Suc)
  moreover have "callerKey r = ''ip:'' @ clientIP r"
    using False by (auto simp: callerKey_def Let_def numeral_eq_Suc)
  ultimately show ?thesis by simp
qed

text \<open>Tokens and addresses are separate name spaces.\<close>

lemma callerKey_eq_iff:
  "callerKey r = callerKey r' \<longleftrightarrow>
     trim_space (extractBearer r) = trim_space (extractBearer r')
     \<and> (trim_space (extractBearer r) = [] \<longrightarrow> clientIP r = clientIP r')"
  by (auto simp: callerKey_bearer)

lemma isWrite_isSafeMethod: "isWrite r \<longleftrightarrow> \<not> isSafeMethod (rq_Method r)"
  by (simp add: isWrite_def isSafeMethod_def)

lemma retry_seconds_bounds:
  "0 < d \<Longrightarrow> d \<le> retry_seconds d * second \<and> (retry_seconds d - 1) * second < d"
proof -
  assume d: "0 < d"
  define x where "x = (- d) div second"
  define y where "y = (- d) mod second"
  have "- d = second * x + y" unfolding x_def y_def by (rule mult_div_mod_eq [symmetric])
  moreover have "0 \<le> y" "y < second" by (simp_all add: y_def second_def)
  ultimately have q: "d \<le> (- x) * second" "(- x - 1) * second < d" by (auto simp: algebra_simps)
  with d have "- x \<ge> 1" by (smt (verit) mult_nonpos_nonneg second_def)
  with q show ?thesis by (simp add: retry_seconds_def x_def [symmetric])
qed

section \<open>Collecting idle limiters changes no verdict\<close>

text \<open>What a limiter decides about requests at given times, and the limiter afterwards.\<close>

fun outcomes :: "('l, 'r) rate_limiter \<Rightarrow> instant list \<Rightarrow> 'l \<Rightarrow> int option list" where
  "outcomes rl [] l = []"
| "outcomes rl (t # ts) l = fst (admit rl t l) # outcomes rl ts (snd (admit rl t l))"

definition limiter_after :: "('l, 'r) rate_limiter \<Rightarrow> instant list \<Rightarrow> 'l \<Rightarrow> 'l" where
  "limiter_after rl ts l = fold (\<lambda>t l. snd (admit rl t l)) ts l"

text \<open>Two limiters that cannot be told apart from time \<open>t\<close> on.\<close>

definition same_from :: "('l, 'r) rate_limiter \<Rightarrow> instant \<Rightarrow> 'l \<Rightarrow> 'l \<Rightarrow> bool" where
  "same_from rl t l m \<longleftrightarrow>
     (\<forall>ts. sorted ts \<and> (\<forall>x \<in> set ts. t \<le> x) \<longrightarrow> outcomes rl ts l = outcomes rl ts m)"

text \<open>
  The documented behaviour of the token bucket that \<^verbatim>\<open>sweepRefilled\<close> rests on: a limiter that
  was made for this rate and burst, has served requests up to \<open>t\<close> and has a full bucket at
  \<open>t\<close> cannot be told from a new one from then on.
\<close>

definition full_is_new :: "('l, 'r) rate_limiter \<Rightarrow> rat \<Rightarrow> int \<Rightarrow> bool" where
  "full_is_new rl rps burst \<longleftrightarrow>
     (\<forall>ts t. sorted ts \<and> (\<forall>x \<in> set ts. x \<le> t)
        \<and> of_int burst \<le> Tokens rl t (limiter_after rl ts (NewLimiter rl rps burst)) \<longrightarrow>
        same_from rl t (limiter_after rl ts (NewLimiter rl rps burst)) (NewLimiter rl rps burst))"

text \<open>The same middleware with a map that is never swept.\<close>

definition unswept_check ::
  "('l, 'r) rate_limiter \<Rightarrow> (string \<Rightarrow> string) \<Rightarrow> rate_config \<Rightarrow> instant \<Rightarrow> request
     \<Rightarrow> 'l limiter_store \<Rightarrow> int option \<times> 'l limiter_store" where
  "unswept_check rl identify cfg now r s =
     (let w = isWrite r; rps = rps_of cfg w; burst = burst_of cfg w; cid = identify (callerKey r);
          bucket = bucket_of w s in
      if rps \<le> 0 \<or> burst \<le> 0 then (None, s)
      else let l = (case map_of bucket cid of Some l \<Rightarrow> l | None \<Rightarrow> NewLimiter rl rps burst);
               (verdict, l') = admit rl now l
           in (verdict, set_bucket w (put cid l' bucket) s))"

fun verdicts ::
  "(instant \<Rightarrow> request \<Rightarrow> 's \<Rightarrow> int option \<times> 's) \<Rightarrow> (instant \<times> request) list \<Rightarrow> 's \<Rightarrow> int option list" where
  "verdicts check [] s = []"
| "verdicts check ((t, r) # rs) s = fst (check t r s) # verdicts check rs (snd (check t r s))"

definition effective :: "('l, 'r) rate_limiter \<Rightarrow> rate_config \<Rightarrow> bool \<Rightarrow> (string \<times> 'l) list \<Rightarrow> string \<Rightarrow> 'l" where
  "effective rl cfg w b cid =
     (case map_of b cid of Some l \<Rightarrow> l | None \<Rightarrow> NewLimiter rl (rps_of cfg w) (burst_of cfg w))"

definition bucket_history ::
  "('l, 'r) rate_limiter \<Rightarrow> rate_config \<Rightarrow> bool \<Rightarrow> instant \<Rightarrow> (string \<times> 'l) list \<Rightarrow> bool" where
  "bucket_history rl cfg w t b \<longleftrightarrow> distinct (map fst b) \<and>
     (\<forall>cid l. map_of b cid = Some l \<longrightarrow>
        (\<exists>ts. sorted ts \<and> (\<forall>x \<in> set ts. x \<le> t)
           \<and> l = limiter_after rl ts (NewLimiter rl (rps_of cfg w) (burst_of cfg w))))"

lemma same_from_refl [simp]: "same_from rl t l l"
  by (simp add: same_from_def)

lemma same_from_sym: "same_from rl t l m \<Longrightarrow> same_from rl t m l"
  by (simp add: same_from_def)

lemma same_from_trans: "same_from rl t l m \<Longrightarrow> same_from rl t m n \<Longrightarrow> same_from rl t l n"
  by (simp add: same_from_def)

lemma same_from_later: "same_from rl t l m \<Longrightarrow> t \<le> t' \<Longrightarrow> same_from rl t' l m"
  unfolding same_from_def by (meson order_trans)

lemma same_from_admit:
  assumes "same_from rl t l m"
  shows "fst (admit rl t l) = fst (admit rl t m)"
    and "same_from rl t (snd (admit rl t l)) (snd (admit rl t m))"
proof -
  have eq: "outcomes rl (t # ts) l = outcomes rl (t # ts) m" if "sorted ts" "\<forall>x \<in> set ts. t \<le> x" for ts
    using assms that unfolding same_from_def by (metis list.set_intros(2) set_ConsD sorted_simps(2) order_refl)
  from eq [of "[]"] show "fst (admit rl t l) = fst (admit rl t m)" by simp
  from eq show "same_from rl t (snd (admit rl t l)) (snd (admit rl t m))"
    by (simp add: same_from_def)
qed

lemma map_of_filter_distinct:
  "distinct (map fst b) \<Longrightarrow> map_of (filter P b) k =
     (case map_of b k of Some v \<Rightarrow> if P (k, v) then Some v else None | None \<Rightarrow> None)"
proof (induction b)
  case (Cons x b)
  have "map_of (filter P b) (fst x) = None" if "fst x \<notin> fst ` set b"
    using that by (auto simp: map_of_eq_None_iff)
  with Cons show ?case by (cases x) (auto split: option.splits)
qed simp

lemma bucket_history_put:
  assumes hist: "bucket_history rl cfg w t b" and "t \<le> t'"
  shows "bucket_history rl cfg w t' (put cid (snd (admit rl t' (effective rl cfg w b cid))) b)"
proof -
  let ?new = "NewLimiter rl (rps_of cfg w) (burst_of cfg w)"
  have later: "\<exists>ts. sorted ts \<and> (\<forall>x \<in> set ts. x \<le> t') \<and> l = limiter_after rl ts ?new"
    if "map_of b k = Some l" for k l
    using hist that assms(2) unfolding bucket_history_def by (meson order_trans)
  obtain ts where ts: "sorted ts" "\<forall>x \<in> set ts. x \<le> t'" "effective rl cfg w b cid = limiter_after rl ts ?new"
  proof (cases "map_of b cid")
    case None
    then show ?thesis using that [of "[]"] by (simp add: effective_def limiter_after_def)
  next
    case (Some l)
    then show ?thesis using later [OF Some] that by (auto simp: effective_def)
  qed
  have "\<exists>ts. sorted ts \<and> (\<forall>x \<in> set ts. x \<le> t')
      \<and> snd (admit rl t' (effective rl cfg w b cid)) = limiter_after rl ts ?new"
    by (rule exI [of _ "ts @ [t']"]) (use ts in \<open>auto simp: sorted_append limiter_after_def\<close>)
  with later hist show ?thesis
    by (auto simp: bucket_history_def distinct_put)
qed

lemma sweep_effective:
  assumes hist: "bucket_history rl cfg w t b" and "t \<le> t'"
    and full: "full_is_new rl (rps_of cfg w) (burst_of cfg w)"
  shows "bucket_history rl cfg w t (sweepRefilled rl t' b (burst_of cfg w))"
    and "same_from rl t' (effective rl cfg w (sweepRefilled rl t' b (burst_of cfg w)) cid)
           (effective rl cfg w b cid)"
proof -
  let ?new = "NewLimiter rl (rps_of cfg w) (burst_of cfg w)"
  let ?b' = "sweepRefilled rl t' b (burst_of cfg w)"
  have dist: "distinct (map fst b)" using hist by (simp add: bucket_history_def)
  have lookup: "map_of ?b' k = (case map_of b k of
      Some l \<Rightarrow> if of_int (burst_of cfg w) \<le> Tokens rl t' l then None else Some l | None \<Rightarrow> None)" for k
    unfolding sweepRefilled_def map_of_filter_distinct [OF dist] by (auto split: option.splits)
  have "map_of ?b' k = Some l \<Longrightarrow> map_of b k = Some l" for k l
    by (simp add: lookup split: option.splits if_splits)
  moreover have "distinct (map fst ?b')"
    using dist unfolding sweepRefilled_def by (rule distinct_keys_filter)
  ultimately show "bucket_history rl cfg w t ?b'" using hist unfolding bucket_history_def by blast
  show "same_from rl t' (effective rl cfg w ?b' cid) (effective rl cfg w b cid)"
  proof (cases "map_of ?b' cid = map_of b cid")
    case False
    then obtain l where l: "map_of b cid = Some l" "map_of ?b' cid = None"
        "of_int (burst_of cfg w) \<le> Tokens rl t' l"
      by (auto simp: lookup split: option.splits if_splits)
    then obtain ts where ts: "sorted ts" "\<forall>x \<in> set ts. x \<le> t" "l = limiter_after rl ts ?new"
      using hist unfolding bucket_history_def by blast
    then have "same_from rl t' l ?new"
      using full l(3) assms(2) unfolding full_is_new_def by (meson order_trans)
    then show ?thesis using l by (simp add: effective_def same_from_sym)
  qed (simp add: effective_def)
qed

text \<open>What one request does to the bucket it is counted in.\<close>

definition collected ::
  "('l, 'r) rate_limiter \<Rightarrow> instant \<Rightarrow> int \<Rightarrow> string \<Rightarrow> (string \<times> 'l) list \<Rightarrow> (string \<times> 'l) list" where
  "collected rl now burst cid b =
     (if map_of b cid = None \<and> sweepThreshold \<le> length b then sweepRefilled rl now b burst else b)"

lemma put_put [simp]: "put k v (put k v' m) = put k v m"
  by (simp add: put_def)

lemma bucket_of_set [simp]:
  "bucket_of w (set_bucket w' b s) = (if w = w' then b else bucket_of w s)"
  "set_bucket w b (set_bucket w b' s) = set_bucket w b s"
  by (simp_all add: bucket_of_def set_bucket_def)

lemma check_limit_active:
  assumes "\<not> (rps_of cfg (isWrite r) \<le> 0 \<or> burst_of cfg (isWrite r) \<le> 0)"
  shows "check_limit rl identify cfg now r s =
    (let w = isWrite r; b = bucket_of w s; cid = identify (callerKey r);
         a = admit rl now (effective rl cfg w b cid)
     in (fst a, set_bucket w (put cid (snd a) (collected rl now (burst_of cfg w) cid b)) s))"
  using assms
  by (auto simp: check_limit_def limiterFor_def Let_def effective_def collected_def split: option.splits prod.splits)

lemma unswept_check_active:
  assumes "\<not> (rps_of cfg (isWrite r) \<le> 0 \<or> burst_of cfg (isWrite r) \<le> 0)"
  shows "unswept_check rl identify cfg now r s =
    (let w = isWrite r; b = bucket_of w s; cid = identify (callerKey r);
         a = admit rl now (effective rl cfg w b cid)
     in (fst a, set_bucket w (put cid (snd a) b) s))"
  using assms by (simp add: unswept_check_def Let_def effective_def split: prod.splits)

definition sim ::
  "('l, 'r) rate_limiter \<Rightarrow> rate_config \<Rightarrow> instant \<Rightarrow> 'l limiter_store \<Rightarrow> 'l limiter_store \<Rightarrow> bool" where
  "sim rl cfg t s s' \<longleftrightarrow> (\<forall>w. bucket_history rl cfg w t (bucket_of w s) \<and>
     (\<forall>cid. same_from rl t (effective rl cfg w (bucket_of w s) cid) (effective rl cfg w (bucket_of w s') cid)))"

lemma bucket_history_later: "bucket_history rl cfg w t b \<Longrightarrow> t \<le> t' \<Longrightarrow> bucket_history rl cfg w t' b"
  unfolding bucket_history_def by (meson order_trans)

lemma sim_later: "sim rl cfg t s s' \<Longrightarrow> t \<le> t' \<Longrightarrow> sim rl cfg t' s s'"
  unfolding sim_def by (meson bucket_history_later same_from_later)

lemma effective_put [simp]:
  "effective rl cfg w (put k l b) cid = (if cid = k then l else effective rl cfg w b cid)"
  by (simp add: effective_def)

lemma sim_step:
  assumes sim: "sim rl cfg t s s'" and "t \<le> now"
    and full: "\<And>w. 0 < rps_of cfg w \<Longrightarrow> 0 < burst_of cfg w \<Longrightarrow> full_is_new rl (rps_of cfg w) (burst_of cfg w)"
  shows "fst (check_limit rl identify cfg now r s) = fst (unswept_check rl identify cfg now r s')"
    and "sim rl cfg now (snd (check_limit rl identify cfg now r s)) (snd (unswept_check rl identify cfg now r s'))"
proof -
  note sim' = sim_later [OF sim assms(2)]
  let ?w = "isWrite r" and ?cid = "identify (callerKey r)"
  have "fst (check_limit rl identify cfg now r s) = fst (unswept_check rl identify cfg now r s')
    \<and> sim rl cfg now (snd (check_limit rl identify cfg now r s)) (snd (unswept_check rl identify cfg now r s'))"
  proof (cases "rps_of cfg ?w \<le> 0 \<or> burst_of cfg ?w \<le> 0")
    case True
    then show ?thesis
      using sim' by (auto simp: check_limit_def limiterFor_def unswept_check_def Let_def)
  next
    case False
    let ?b = "bucket_of ?w s" and ?b' = "bucket_of ?w s'"
    let ?c = "collected rl now (burst_of cfg ?w) ?cid ?b"
    let ?a = "admit rl now (effective rl cfg ?w ?b ?cid)"
    let ?a' = "admit rl now (effective rl cfg ?w ?b' ?cid)"
    have hist: "bucket_history rl cfg ?w now ?b"
      and same: "same_from rl now (effective rl cfg ?w ?b k) (effective rl cfg ?w ?b' k)" for k
      using sim' unfolding sim_def by blast+
    have full': "full_is_new rl (rps_of cfg ?w) (burst_of cfg ?w)" using full False by auto
    note swept = sweep_effective [OF hist order_refl full']
    have hist_c: "bucket_history rl cfg ?w now ?c"
      and same_c: "same_from rl now (effective rl cfg ?w ?c k) (effective rl cfg ?w ?b k)" for k
      using hist swept by (simp_all add: collected_def)
    have eff: "effective rl cfg ?w ?c ?cid = effective rl cfg ?w ?b ?cid"
    proof (cases "map_of ?b ?cid")
      case None
      then have "map_of (sweepRefilled rl now ?b (burst_of cfg ?w)) ?cid = None"
        unfolding sweepRefilled_def by (auto simp: map_of_eq_None_iff)
      with None show ?thesis by (simp add: collected_def effective_def)
    qed (simp add: collected_def)
    note adm = same_from_admit [OF same [of ?cid]]
    have hist_p: "bucket_history rl cfg ?w now (put ?cid (snd ?a) ?c)"
      using bucket_history_put [OF hist_c order_refl, of ?cid] by (simp only: eff)
    have "same_from rl now (effective rl cfg ?w (put ?cid (snd ?a) ?c) k)
        (effective rl cfg ?w (put ?cid (snd ?a') ?b') k)" for k
      using adm(2) same_from_trans [OF same_c same] by simp
    with hist_p sim' have "sim rl cfg now (set_bucket ?w (put ?cid (snd ?a) ?c) s)
        (set_bucket ?w (put ?cid (snd ?a') ?b') s')"
      by (simp add: sim_def)
    with adm(1) show ?thesis
      by (simp add: check_limit_active [OF False] unswept_check_active [OF False] Let_def)
  qed
  then show "fst (check_limit rl identify cfg now r s) = fst (unswept_check rl identify cfg now r s')"
    and "sim rl cfg now (snd (check_limit rl identify cfg now r s)) (snd (unswept_check rl identify cfg now r s'))"
    by blast+
qed

text \<open>
  C38. Collecting idle limiters is invisible. Whatever requests arrive, in whatever order of
  callers, the limiter that sweeps its map gives every one of them the verdict, and the
  \<^verbatim>\<open>Retry-After\<close>, of a limiter that remembers every caller for ever: eviction neither forgives
  a caller's debt nor takes anything from one. Relied on: from a time at which its bucket is
  full, a limiter of the underlying package behaves like a new one.
\<close>

theorem sweeping_is_invisible:
  assumes full: "\<forall>w. 0 < rps_of cfg w \<and> 0 < burst_of cfg w \<longrightarrow>
      full_is_new rl (rps_of cfg w) (burst_of cfg w)"
    and sorted: "sorted (map fst requests)"
  shows "verdicts (check_limit rl identify cfg) requests newStore =
         verdicts (unswept_check rl identify cfg) requests newStore"
proof -
  have "verdicts (check_limit rl identify cfg) rs s = verdicts (unswept_check rl identify cfg) rs s'"
    if "sorted (map fst rs)" "\<forall>x \<in> fst ` set rs. t \<le> x" "sim rl cfg t s s'" for rs t s s'
    using that
  proof (induction rs arbitrary: t s s')
    case (Cons q rs)
    obtain now r where q: "q = (now, r)" by fastforce
    have "t \<le> now" using Cons.prems(2) q by simp
    note step = sim_step [OF Cons.prems(3) this, where identify = identify and r = r]
    have "\<forall>x \<in> fst ` set rs. now \<le> x" using Cons.prems(1) q by auto
    with step full Cons.IH Cons.prems(1) show ?case by (simp add: q)
  qed simp
  moreover obtain t where "\<forall>x \<in> fst ` set requests. t \<le> x"
    by (cases requests) (use sorted in \<open>auto intro: order_refl\<close>)
  moreover have "sim rl cfg t newStore newStore" for t
    by (simp add: sim_def newStore_def bucket_of_def bucket_history_def)
  ultimately show ?thesis using sorted by blast
qed

text \<open>A bucket of one token that refills in a second, for a concrete instance: the limiter
  remembers the time from which the next request is admitted.\<close>

definition one_per_second :: "(int option, int) rate_limiter" where
  "one_per_second = \<lparr>NewLimiter = (\<lambda>_ _. None),
     Tokens = (\<lambda>t l. case l of None \<Rightarrow> 1 | Some n \<Rightarrow> if n \<le> t then 1 else 0),
     Reserve = (\<lambda>t l. case l of None \<Rightarrow> (0, Some (t + second))
        | Some n \<Rightarrow> if n \<le> t then (0, Some (t + second)) else (n - t, Some (n + second))),
     OK = (\<lambda>_. True), Delay = (\<lambda>_ r. r),
     Cancel = (\<lambda>_ _ l. map_option (\<lambda>n. n - second) l)\<rparr>"

definition demo_rates :: rate_config where
  "demo_rates = \<lparr>rc_ReadRPS = 1, rc_ReadBurst = 1, rc_WriteRPS = 1, rc_WriteBurst = 1\<rparr>"

lemma one_per_second_full: "full_is_new one_per_second 1 1"
proof -
  have "same_from one_per_second t l None" if "1 \<le> Tokens one_per_second t l" for t l
  proof -
    have "admit one_per_second t' l = admit one_per_second t' None" if "t \<le> t'" for t'
      using that \<open>1 \<le> Tokens one_per_second t l\<close>
      by (auto simp: admit_def one_per_second_def split: option.splits if_splits)
    then have "outcomes one_per_second ts l = outcomes one_per_second ts None"
      if "\<forall>x \<in> set ts. t \<le> x" for ts
      using that by (cases ts) auto
    then show ?thesis by (simp add: same_from_def)
  qed
  moreover have "NewLimiter one_per_second 1 1 = None" by (simp add: one_per_second_def)
  ultimately show ?thesis by (simp add: full_is_new_def)
qed

lemma trim_s3: "trim_space ''s3'' = ''s3''"
  by code_simp

lemma demo_caller: "callerKey (demo_request m) = ''k:s3''" "isWrite (demo_request ''POST'')"
  by (simp add: callerKey_bearer demo_request_bearer trim_s3) (simp add: isWrite_def demo_request_def)

theorem sweeping_is_invisible_witness:
  "verdicts (check_limit one_per_second id demo_rates)
     [(0, demo_request ''POST''), (1, demo_request ''POST''), (2 * second, demo_request ''POST'')] newStore
   = [None, Some 1, None] \<and>
   verdicts (unswept_check one_per_second id demo_rates)
     [(0, demo_request ''POST''), (1, demo_request ''POST''), (2 * second, demo_request ''POST'')] newStore
   = [None, Some 1, None]"
proof -
  have full: "\<forall>w. 0 < rps_of demo_rates w \<and> 0 < burst_of demo_rates w \<longrightarrow>
      full_is_new one_per_second (rps_of demo_rates w) (burst_of demo_rates w)"
    using one_per_second_full by (simp add: rps_of_def burst_of_def demo_rates_def)
  have sorted: "sorted (map fst [(0, demo_request ''POST''), (1, demo_request ''POST''),
      (2 * second, demo_request ''POST'')])" by (simp add: second_def)
  have "verdicts (unswept_check one_per_second id demo_rates)
     [(0, demo_request ''POST''), (1, demo_request ''POST''), (2 * second, demo_request ''POST'')] newStore
   = [None, Some 1, None]"
    by (simp add: unswept_check_def Let_def demo_caller demo_rates_def rps_of_def burst_of_def
        newStore_def bucket_of_def set_bucket_def admit_def one_per_second_def second_def
        retry_seconds_def)
  then show ?thesis using sweeping_is_invisible [OF full sorted, of id] by simp
qed

lemma length_filter_all: "length xs \<le> length (filter P xs) \<Longrightarrow> \<forall>x \<in> set xs. P x"
  by (metis length_filter_less not_le)

lemma length_put_known: "map_of b k \<noteq> None \<Longrightarrow> length (put k v b) \<le> length b"
proof -
  assume "map_of b k \<noteq> None"
  then obtain x where "x \<in> set b" "fst x = k" by (metis map_of_eq_None_iff imageE)
  then have "length (filter (\<lambda>(k', _). k' \<noteq> k) b) < length b" by (intro length_filter_less [of x]) auto
  then show ?thesis by (simp add: put_def)
qed

text \<open>
  Memory is bounded by the callers in use: past the threshold, a request makes the map
  of its bucket grow only if every limiter in it is in use, that is, none has a full bucket. A
  request of one kind never touches the map of the other.
\<close>

theorem limiter_map_growth:
  "bucket_of (\<not> isWrite r) (snd (check_limit rl identify cfg now r s)) = bucket_of (\<not> isWrite r) s \<and>
   (sweepThreshold \<le> length (bucket_of (isWrite r) s) \<and>
    length (bucket_of (isWrite r) s)
      < length (bucket_of (isWrite r) (snd (check_limit rl identify cfg now r s))) \<longrightarrow>
    (\<forall>(cid, l) \<in> set (bucket_of (isWrite r) s). Tokens rl now l < of_int (burst_of cfg (isWrite r))))"
proof (cases "rps_of cfg (isWrite r) \<le> 0 \<or> burst_of cfg (isWrite r) \<le> 0")
  case True
  then show ?thesis by (auto simp: check_limit_def limiterFor_def Let_def)
next
  case False
  let ?b = "bucket_of (isWrite r) s" and ?cid = "identify (callerKey r)"
  let ?burst = "burst_of cfg (isWrite r)"
  note eq = check_limit_active [OF False, of rl identify now s]
  have "\<forall>(cid, l) \<in> set ?b. Tokens rl now l < of_int ?burst"
    if big: "sweepThreshold \<le> length ?b"
      and grows: "length ?b < length (put ?cid v (collected rl now ?burst ?cid ?b))" for v
  proof (cases "map_of ?b ?cid")
    case (Some l)
    then show ?thesis using grows length_put_known [of ?b ?cid v] by (simp add: collected_def)
  next
    case None
    then have "length ?b \<le> length (sweepRefilled rl now ?b ?burst)"
      using big grows length_put [of ?cid v "sweepRefilled rl now ?b ?burst"]
      by (simp add: collected_def)
    then show ?thesis unfolding sweepRefilled_def by (auto dest!: length_filter_all simp: not_le)
  qed
  then show ?thesis unfolding eq by (simp add: Let_def) blast
qed

theorem limiter_map_growth_witness:
  "let s = snd (check_limit one_per_second id demo_rates 0 (demo_request ''POST'') newStore)
   in map fst (bucket_of True s) = [''k:s3''] \<and> bucket_of False s = []"
proof -
  have w: "isWrite (demo_request ''POST'')" by (rule demo_caller)
  have "map fst (bucket_of True (snd (check_limit one_per_second id demo_rates 0
      (demo_request ''POST'') newStore))) = [''k:s3'']"
    by (simp add: check_limit_def limiterFor_def Let_def demo_caller demo_rates_def rps_of_def
        burst_of_def newStore_def bucket_of_def set_bucket_def admit_def one_per_second_def put_def
        sweepThreshold_def)
  moreover have "bucket_of False (newStore :: int option limiter_store) = []" by (simp add: newStore_def bucket_of_def)
  ultimately show ?thesis
    using limiter_map_growth [of "demo_request ''POST''" one_per_second id demo_rates 0 newStore] w
    by (simp add: Let_def)
qed

end
