(* ===== verification/Server.thy ===== *)
theory Server
  imports Principal_API RateLimit
begin

text \<open>
  The wiring of \<^verbatim>\<open>internal/server/server.go\<close>: which authenticators are chained, which
  middlewares stand before which group of routes, and which permissions each route demands.
  Matching a path against a pattern is the router's work (\<^verbatim>\<open>go-chi\<close>); a route here is what the
  router has found, its method and pattern.
\<close>

section \<open>The authenticator\<close>

record 'l server_state =
  sv_key_touch :: touch_state
  sv_session_touch :: touch_state
  sv_limits :: "'l limiter_store"

definition on_part ::
  "('w \<Rightarrow> 's) \<Rightarrow> ('s \<Rightarrow> 'w \<Rightarrow> 'w) \<Rightarrow> 's authenticator \<Rightarrow> 'w authenticator" where
  "on_part get_part set_part a r w = (case a r (get_part w) of (x, s) \<Rightarrow> (x, set_part s w))"

definition key_authenticator ::
  "(string \<Rightarrow> string) \<Rightarrow> instant \<Rightarrow> db \<Rightarrow> 'l server_state authenticator" where
  "key_authenticator hash now d =
     on_part sv_key_touch (\<lambda>s w. w\<lparr>sv_key_touch := s\<rparr>) (DBKey_Authenticate hash (FindByKeyHash d) now)"

definition session_authenticator ::
  "(string \<Rightarrow> string) \<Rightarrow> instant \<Rightarrow> db \<Rightarrow> 'l server_state authenticator" where
  "session_authenticator hash now d =
     on_part sv_session_touch (\<lambda>s w. w\<lparr>sv_session_touch := s\<rparr>)
       (Session_Authenticate hash (FindPrincipalBySessionToken now d) now)"

record server_config =
  sc_APIKeys :: "api_key list"
  sc_AuthDB :: bool
  sc_RateLimit :: rate_config

definition server_chain ::
  "(string \<Rightarrow> string) \<Rightarrow> server_config \<Rightarrow> instant \<Rightarrow> db \<Rightarrow> 'l server_state authenticator list" where
  "server_chain hash cfg now d =
     [StaticKey_Authenticate (NewStaticKeyAuthenticator (sc_APIKeys cfg))]
     @ (if sc_AuthDB cfg then [key_authenticator hash now d] else [])
     @ (if sc_AuthDB cfg then [session_authenticator hash now d] else [])"

section \<open>Routes\<close>

record route =
  rt_method :: string
  rt_pattern :: string
  rt_perms :: "permission list"

abbreviation with_perms :: "permission list \<Rightarrow> string \<Rightarrow> string \<Rightarrow> route" where
  "with_perms ps m p \<equiv> \<lparr>rt_method = m, rt_pattern = p, rt_perms = ps\<rparr>"

definition principal_routes :: "route list" where
  "principal_routes = map (\<lambda>(m, p). with_perms [PermPrincipalAdmin] m p)
     [(''GET'', ''/principals/''), (''POST'', ''/principals/''),
      (''PUT'', ''/principals/{id}/roles''), (''POST'', ''/principals/{id}/disable''),
      (''POST'', ''/principals/{id}/enable''), (''POST'', ''/principals/{id}/rotate'')]"

definition api_routes :: "route list" where
  "api_routes =
     [with_perms [PermEvidenceWrite] ''POST'' ''/evidence'',
      with_perms [PermEvidenceWrite] ''POST'' ''/evidence/batch'',
      with_perms [PermEvidenceRead] ''GET'' ''/evidence'',
      with_perms [PermEvidenceRead] ''GET'' ''/evidence/distinct'',
      with_perms [PermEvidenceRead] ''GET'' ''/evidence/{id}'',
      with_perms [PermEvidenceWrite, PermBlobWrite] ''POST'' ''/campaigns/import'',
      with_perms [PermEvidenceRead] ''GET'' ''/campaigns'',
      with_perms [PermEvidenceRead] ''GET'' ''/campaigns/{id}'',
      with_perms [PermEvidenceRead, PermBlobRead] ''GET'' ''/campaigns/{id}/package'',
      with_perms [PermEvidenceRead, PermBlobRead] ''HEAD'' ''/campaigns/{id}/package'',
      with_perms [PermEvidenceWrite] ''POST'' ''/campaign-attempts'',
      with_perms [PermEvidenceRead] ''GET'' ''/campaign-attempts'',
      with_perms [PermEvidenceRead] ''GET'' ''/campaign-attempts/{id}'',
      with_perms [PermEvidenceWrite] ''PUT'' ''/campaign-attempts/{id}'',
      with_perms [PermEvidenceWrite] ''POST'' ''/campaign-attempts/{id}/finalize'',
      with_perms [PermEvidenceRead] ''GET'' ''/campaign-executions'',
      with_perms [PermEvidenceRead] ''GET'' ''/campaign-executions/{id}'',
      with_perms [PermEvidenceWrite] ''POST'' ''/campaign-executions'',
      with_perms [PermEvidenceWrite] ''PUT'' ''/campaign-executions/{id}/state'',
      with_perms [PermInheritanceWrite] ''POST'' ''/inheritance'',
      with_perms [PermInheritanceRead] ''GET'' ''/inheritance'',
      with_perms [PermAnalyticsRead] ''GET'' ''/analytics/summary'',
      with_perms [PermAnalyticsRead] ''GET'' ''/analytics/tests'',
      with_perms [PermAnalyticsRead] ''GET'' ''/analytics/clusters'',
      with_perms [PermEvidenceRead] ''GET'' ''/weather'',
      with_perms [PermBlobWrite] ''POST'' ''/blobs'',
      with_perms [PermBlobRead] ''GET'' ''/blobs/{ref}'',
      with_perms [PermBlobRead] ''HEAD'' ''/blobs/{ref}'',
      with_perms [PermBlobRead] ''GET'' ''/blobs/{ref}/url'',
      with_perms [] ''GET'' ''/me'']
     @ principal_routes"

definition scim_routes :: "route list" where
  "scim_routes = map (\<lambda>(m, p). with_perms [PermSCIMProvision] m p)
     [(''GET'', ''/ServiceProviderConfig''), (''GET'', ''/ResourceTypes''), (''GET'', ''/Schemas''),
      (''GET'', ''/Users''), (''POST'', ''/Users''), (''GET'', ''/Users/{id}''),
      (''PUT'', ''/Users/{id}''), (''PATCH'', ''/Users/{id}''), (''DELETE'', ''/Users/{id}''),
      (''GET'', ''/Groups''), (''POST'', ''/Groups''), (''GET'', ''/Groups/{id}''),
      (''PUT'', ''/Groups/{id}''), (''PATCH'', ''/Groups/{id}''), (''DELETE'', ''/Groups/{id}'')]"

section \<open>The middleware stacks\<close>

definition api_stack ::
  "('l, 'r) rate_limiter \<Rightarrow> (string \<Rightarrow> string) \<Rightarrow> (string \<Rightarrow> string) \<Rightarrow> server_config \<Rightarrow> instant \<Rightarrow> db
     \<Rightarrow> permission list \<Rightarrow> 'l server_state middleware list" where
  "api_stack rl identify hash cfg now d perms =
     [Authenticate (Chain_Authenticate (server_chain hash cfg now d)),
      RequireCSRF,
      RateLimit_Middleware rl identify (sc_RateLimit cfg) now sv_limits (\<lambda>s w. w\<lparr>sv_limits := s\<rparr>)]
     @ map Require perms"

definition scim_stack ::
  "(string \<Rightarrow> string) \<Rightarrow> server_config \<Rightarrow> instant \<Rightarrow> db \<Rightarrow> permission list
     \<Rightarrow> 'l server_state middleware list" where
  "scim_stack hash cfg now d perms =
     [Authenticate (Chain_Authenticate (server_chain hash cfg now d))] @ map Require perms"

definition serve_api ::
  "('l, 'r) rate_limiter \<Rightarrow> (string \<Rightarrow> string) \<Rightarrow> (string \<Rightarrow> string) \<Rightarrow> server_config \<Rightarrow> instant \<Rightarrow> db
     \<Rightarrow> route \<Rightarrow> request \<Rightarrow> 'l server_state \<Rightarrow> response \<times> 'l server_state" where
  "serve_api rl identify hash cfg now d rt r w =
     compose (api_stack rl identify hash cfg now d (rt_perms rt)) route_handler r empty_ctx w"

definition serve_scim ::
  "(string \<Rightarrow> string) \<Rightarrow> server_config \<Rightarrow> instant \<Rightarrow> db
     \<Rightarrow> route \<Rightarrow> request \<Rightarrow> 'l server_state \<Rightarrow> response \<times> 'l server_state" where
  "serve_scim hash cfg now d rt r w =
     compose (scim_stack hash cfg now d (rt_perms rt)) route_handler r empty_ctx w"

section \<open>Who the chain accepts\<close>

lemma on_part_accept:
  "fst (on_part get_part set_part a r w) = Inr p \<Longrightarrow> \<exists>s s'. a r s = (Inr p, s')"
  by (auto simp: on_part_def split: prod.splits)

lemma static_principal_ID:
  "StaticKey_Authenticate (NewStaticKeyAuthenticator keys) r w = (Inr p, w') \<Longrightarrow> pr_ID p = 0
     \<and> \<not> pr_ViaSession p"
  by (auto simp: StaticKey_Authenticate_def Let_def static_match_Some_iff static_entry_of_def
      NewPrincipal_def split: if_splits option.splits)

text \<open>The kinds of caller the server knows: a key of the environment, an enabled principal by its
  key, an enabled principal by its session.\<close>

lemma server_chain_accept:
  fixes w :: "'l server_state"
  assumes "fst (Chain_Authenticate (server_chain hash cfg now d) r w) = Inr p"
  shows "(pr_ID p = 0 \<and> \<not> pr_ViaSession p \<and> extractBearer r \<in> ak_Key ` set (sc_APIKeys cfg)) \<or>
     sc_AuthDB cfg \<and> ((\<exists>s s'. DBKey_Authenticate hash (FindByKeyHash d) now r s = (Inr p, s')) \<or>
       (\<exists>s s'. Session_Authenticate hash (FindPrincipalBySessionToken now d) now r s = (Inr p, s')))"
proof -
  obtain a :: "'l server_state authenticator" and w'
    where a: "a \<in> set (server_chain hash cfg now d)" "fst (a r w') = Inr p"
    using chain_loop_accept [OF assms [unfolded Chain_Authenticate_def]] by blast
  have bearer: "extractBearer r \<in> ak_Key ` set (sc_APIKeys cfg)"
    if "StaticKey_Authenticate (NewStaticKeyAuthenticator (sc_APIKeys cfg)) r w' = (Inr p, w'')" for w''
    using that static_match_None_iff [of "extractBearer r" "sc_APIKeys cfg"]
    by (auto simp: StaticKey_Authenticate_def Let_def split: if_splits option.splits)
  from a consider "fst (StaticKey_Authenticate (NewStaticKeyAuthenticator (sc_APIKeys cfg)) r w') = Inr p"
    | "sc_AuthDB cfg" "fst (key_authenticator hash now d r w') = Inr p"
    | "sc_AuthDB cfg" "fst (session_authenticator hash now d r w') = Inr p"
    by (auto simp: server_chain_def split: if_splits)
  then show ?thesis
  proof cases
    case 1
    then obtain w'' where run: "StaticKey_Authenticate (NewStaticKeyAuthenticator (sc_APIKeys cfg)) r w'
        = (Inr p, w'')" by (metis fst_conv surj_pair)
    from static_principal_ID [OF run] bearer [OF run] show ?thesis by blast
  next
    case 2
    then show ?thesis unfolding key_authenticator_def by (blast dest: on_part_accept)
  next
    case 3
    then show ?thesis unfolding session_authenticator_def by (blast dest: on_part_accept)
  qed
qed

section \<open>What reaches a route\<close>

lemma compose_simps [simp]:
  "compose [] h = h" "compose (m # ms) h = m (compose ms h)" "compose (ms @ ms') h = compose ms (compose ms' h)"
  by (simp_all add: compose_def)

lemma Require_stack_reached:
  "fst (compose (map Require perms) route_handler r c w) = Reached c' \<longleftrightarrow> c' = c \<and>
     (case PrincipalFrom c of
        Some p \<Rightarrow> \<forall>perm \<in> set perms. Can (Some p) perm
      | None \<Rightarrow> authDisabled c \<or> perms = [])"
  by (induction perms) (auto simp: route_handler_def Require_def split: option.splits)

definition limit_verdict ::
  "('l, 'r) rate_limiter \<Rightarrow> (string \<Rightarrow> string) \<Rightarrow> rate_config \<Rightarrow> instant \<Rightarrow> request
     \<Rightarrow> 'l limiter_store \<Rightarrow> int option" where
  "limit_verdict rl identify cfg now r s =
     (if RateLimit_Enabled cfg then fst (check_limit rl identify cfg now r s) else None)"

lemma RateLimit_reached:
  assumes "\<And>w w'. fst (next r c w) = fst (next r c w')"
  shows "fst (RateLimit_Middleware rl identify cfg now get_store set_store next r c w) = Reached c' \<longleftrightarrow>
    limit_verdict rl identify cfg now r (get_store w) = None \<and> fst (next r c w) = Reached c'"
  using assms by (auto simp: RateLimit_Middleware_def limit_verdict_def split: prod.splits option.splits) metis+

lemma Require_stack_state:
  "fst (compose (map Require perms) route_handler r c w) = fst (compose (map Require perms) route_handler r c w')"
  by (induction perms) (auto simp: route_handler_def Require_def split: option.splits)

lemma RateLimit_Require_reached:
  "fst (RateLimit_Middleware rl identify cfg now get_store set_store
       (compose (map Require perms) route_handler) r c w) = Reached c' \<longleftrightarrow>
     limit_verdict rl identify cfg now r (get_store w) = None
     \<and> fst (compose (map Require perms) route_handler r c w) = Reached c'"
  by (rule RateLimit_reached) (rule Require_stack_state)

lemma RequireCSRF_reached:
  "fst (RequireCSRF next r c w) = Reached c' \<longleftrightarrow> fst (next r c w) = Reached c' \<and>
     (isSafeMethod (rq_Method r) \<or> csrf_ok r \<or>
      (case PrincipalFrom c of None \<Rightarrow> True | Some p \<Rightarrow> \<not> pr_ViaSession p))"
  by (auto simp: RequireCSRF_def split: option.splits)

lemma Authenticate_reached:
  "fst (Authenticate a next r c w) = Reached c' \<longleftrightarrow>
     (case fst (a r w) of
        Inr p \<Rightarrow> fst (next r (WithPrincipal c p) (snd (a r w))) = Reached c'
      | Inl ErrAuthDisabled \<Rightarrow> fst (next r (withAuthDisabled c) (snd (a r w))) = Reached c'
      | Inl _ \<Rightarrow> False)"
  by (cases "a r w") (auto simp: Authenticate_def split: sum.splits auth_error.splits)

lemma chain_loop_keeps:
  assumes "\<And>a w. a \<in> set as \<Longrightarrow> f (snd (a r w)) = f w"
  shows "f (snd (chain_loop al rej as r w)) = f w"
  using assms
proof (induction as arbitrary: al rej w)
  case Nil
  then show ?case by (auto split: option.splits)
next
  case (Cons a as)
  obtain x w' where a: "a r w = (x, w')" by fastforce
  have "f w' = f w" using Cons.prems [of a w] a by simp
  moreover have "f (snd (chain_loop al rej as r w')) = f w'" for al rej
    using Cons.prems by (intro Cons.IH) simp
  ultimately show ?case
    by (auto simp: a split: sum.splits auth_error.splits option.splits)
qed

lemma server_chain_keeps_limits:
  fixes w :: "'l server_state"
  shows "sv_limits (snd (Chain_Authenticate (server_chain hash cfg now d) r w)) = sv_limits w"
  unfolding Chain_Authenticate_def
proof (rule chain_loop_keeps)
  fix a :: "'l server_state authenticator" and w :: "'l server_state"
  assume "a \<in> set (server_chain hash cfg now d)"
  then consider "a = StaticKey_Authenticate (NewStaticKeyAuthenticator (sc_APIKeys cfg))"
    | "a = key_authenticator hash now d" | "a = session_authenticator hash now d"
    by (auto simp: server_chain_def split: if_splits)
  then show "sv_limits (snd (a r w)) = sv_limits w"
  proof cases
    case 1
    then show ?thesis by (auto simp: StaticKey_Authenticate_def Let_def split: option.splits)
  qed (auto simp: key_authenticator_def session_authenticator_def on_part_def split: prod.splits)
qed

lemma ctx_of_middleware [simp]:
  "PrincipalFrom (WithPrincipal c p) = Some p" "PrincipalFrom (withAuthDisabled empty_ctx) = None"
  "authDisabled (withAuthDisabled c)"
  by (simp_all add: ctx_defs)

lemma serve_api_iff:
  "fst (serve_api rl identify hash cfg now d rt r w) = Reached c \<longleftrightarrow>
     limit_verdict rl identify (sc_RateLimit cfg) now r (sv_limits w) = None \<and>
     (case fst (Chain_Authenticate (server_chain hash cfg now d) r w) of
        Inl e \<Rightarrow> e = ErrAuthDisabled \<and> c = withAuthDisabled empty_ctx
      | Inr p \<Rightarrow> c = WithPrincipal empty_ctx p \<and> (\<forall>perm \<in> set (rt_perms rt). Can (Some p) perm)
          \<and> (pr_ViaSession p \<longrightarrow> isSafeMethod (rq_Method r) \<or> csrf_ok r))"
proof -
  have stack: "fst (compose (api_stack rl identify hash cfg now d (rt_perms rt)) route_handler r c0 w)
     = fst (Authenticate (Chain_Authenticate (server_chain hash cfg now d)) (RequireCSRF
         (RateLimit_Middleware rl identify (sc_RateLimit cfg) now sv_limits (\<lambda>s w. w\<lparr>sv_limits := s\<rparr>)
           (compose (map Require (rt_perms rt)) route_handler))) r c0 w)" for c0
    by (simp add: api_stack_def)
  show ?thesis
    unfolding serve_api_def stack Authenticate_reached RequireCSRF_reached
      RateLimit_Require_reached Require_stack_reached server_chain_keeps_limits
    by (auto split: sum.splits auth_error.splits)
qed

text \<open>
  C12. Access control of the API, on every route. A request reaches the handler of a route
  under \<^verbatim>\<open>/api/v1\<close> exactly when authentication is switched off altogether, or the chain
  recognises a caller who holds every permission the route demands and, if the caller came
  with a session cookie and the method changes state, presented the matching CSRF token; and,
  in both cases, the rate limiter admits it. The handler then runs with that caller.
\<close>

theorem serve_api_reached:
  "fst (serve_api rl identify hash cfg now d rt r w) = Reached c \<longleftrightarrow>
     limit_verdict rl identify (sc_RateLimit cfg) now r (sv_limits w) = None \<and>
     (case fst (Chain_Authenticate (server_chain hash cfg now d) r w) of
        Inl e \<Rightarrow> e = ErrAuthDisabled \<and> c = withAuthDisabled empty_ctx
      | Inr p \<Rightarrow> c = WithPrincipal empty_ctx p \<and> list_all (Can (Some p)) (rt_perms rt)
          \<and> (if pr_ViaSession p then isSafeMethod (rq_Method r) \<or> csrf_ok r else True))"
  unfolding serve_api_iff list_all_iff by (auto split: sum.splits)

lemma serve_scim_reached:
  "fst (serve_scim hash cfg now d rt r w) = Reached c \<longleftrightarrow>
     (case fst (Chain_Authenticate (server_chain hash cfg now d) r w) of
        Inl e \<Rightarrow> e = ErrAuthDisabled \<and> c = withAuthDisabled empty_ctx
      | Inr p \<Rightarrow> c = WithPrincipal empty_ctx p \<and> (\<forall>perm \<in> set (rt_perms rt). Can (Some p) perm))"
proof -
  have stack: "fst (compose (scim_stack hash cfg now d (rt_perms rt)) route_handler r c0 w)
     = fst (Authenticate (Chain_Authenticate (server_chain hash cfg now d))
         (compose (map Require (rt_perms rt)) route_handler) r c0 w)" for c0
    by (simp add: scim_stack_def)
  show ?thesis
    unfolding serve_scim_def stack Authenticate_reached Require_stack_reached
    by (auto split: sum.splits auth_error.splits)
qed

section \<open>Readers read\<close>

lemma viewer_routes:
  "\<forall>rt \<in> set api_routes. (\<forall>perm \<in> set (rt_perms rt). Grants RoleViewer perm) \<longrightarrow>
     rt_method rt = ''GET'' \<or> rt_method rt = ''HEAD''"
  by (simp add: api_routes_def principal_routes_def Grants_def role_perms_cases auth_simps)

lemma viewer_no_scim: "\<forall>rt \<in> set scim_routes. \<not> (\<forall>perm \<in> set (rt_perms rt). Grants RoleViewer perm)"
  by (simp add: scim_routes_def Grants_def role_perms_cases auth_simps)

text \<open>
  C27. A reader cannot change the store. Whichever route is called, a caller all of whose roles
  are \<open>viewer\<close>, or that this binary does not define, reaches only routes that answer GET and
  HEAD, and never a provisioning route. The same holds for a read-only key of the
  environment, whose permissions are those of \<open>viewer\<close>.
\<close>

theorem viewer_only_reads:
  assumes can: "\<forall>perm. Can (Some p) perm \<longrightarrow> Grants RoleViewer perm"
    and principal: "PrincipalFrom c = Some p"
  shows "(rt \<in> set api_routes \<and> fst (serve_api rl identify hash cfg now d rt r w) = Reached c
           \<longrightarrow> rt_method rt = ''GET'' \<or> rt_method rt = ''HEAD'')
       \<and> (rt \<in> set scim_routes \<longrightarrow> fst (serve_scim hash cfg now d rt r w) \<noteq> Reached c)"
proof (intro conjI impI notI)
  assume h: "rt \<in> set api_routes \<and> fst (serve_api rl identify hash cfg now d rt r w) = Reached c"
  then have "\<forall>perm \<in> set (rt_perms rt). Can (Some p) perm"
    using principal unfolding serve_api_iff by (auto split: sum.splits)
  then show "rt_method rt = ''GET'' \<or> rt_method rt = ''HEAD''" using can viewer_routes h by blast
next
  assume "rt \<in> set scim_routes" "fst (serve_scim hash cfg now d rt r w) = Reached c"
  moreover from this(2) have "\<forall>perm \<in> set (rt_perms rt). Can (Some p) perm"
    using principal unfolding serve_scim_reached by (auto split: sum.splits)
  ultimately show False using can viewer_no_scim by blast
qed

definition demo_config :: server_config where
  "demo_config = \<lparr>sc_APIKeys = [], sc_AuthDB = True, sc_RateLimit = demo_rates\<rparr>"

definition fresh_state :: "'l server_state" where
  "fresh_state = \<lparr>sv_key_touch = \<lparr>touched = [], touch_queue = []\<rparr>,
     sv_session_touch = \<lparr>touched = [], touch_queue = []\<rparr>, sv_limits = newStore\<rparr>"

definition reader :: principal where
  "reader = principalFromStored (alice\<lparr>sp_Roles := [''viewer'', ''retired'']\<rparr>)"

theorem viewer_only_reads_witness:
  "\<not> Can (Some reader) PermEvidenceWrite \<and>
   fst (serve_api one_per_second id id demo_config 0 demo_db (api_routes ! 0) (demo_request ''POST'') fresh_state)
     \<noteq> Reached (WithPrincipal empty_ctx reader)"
proof -
  have can: "\<forall>perm. Can (Some reader) perm \<longrightarrow> Grants RoleViewer perm"
    by (auto simp: reader_def RoleViewer_def Grants_def role_perms_cases auth_simps)
  have rt: "api_routes ! 0 \<in> set api_routes" "rt_method (api_routes ! 0) = ''POST''"
    by (simp_all add: api_routes_def)
  have "\<not> Grants RoleViewer PermEvidenceWrite" by (simp add: Grants_def role_perms_cases auth_simps)
  then show ?thesis
    using viewer_only_reads [OF can ctx_of_middleware(1), of "api_routes ! 0" one_per_second id id
        demo_config 0 demo_db "demo_request ''POST''" fresh_state empty_ctx] can rt
    by (simp add: rt) blast
qed

section \<open>The door is closed\<close>

lemma no_credentials:
  assumes "sc_APIKeys cfg \<noteq> [] \<or> sc_AuthDB cfg" and "extractBearer r = []"
    and "Cookie r SessionCookie = None \<or> Cookie r SessionCookie = Some []"
  shows "fst (Chain_Authenticate (server_chain hash cfg now d) r w) = Inl ErrNoCredentials"
proof -
  have static: "StaticKey_Authenticate (NewStaticKeyAuthenticator (sc_APIKeys cfg)) r w =
      (Inl (if sc_APIKeys cfg = [] then ErrAuthDisabled else ErrNoCredentials), w)"
    for w :: "'a server_state"
    using assms(2) by (simp add: StaticKey_Authenticate_def)
  have key: "key_authenticator hash now d r w = (Inl ErrNoCredentials, w)" for w :: "'a server_state"
    using assms(2) by (simp add: key_authenticator_def on_part_def DBKey_Authenticate_def Let_def
        LooksLikeKey_def has_prefix_def KeyPrefix_def)
  have session: "session_authenticator hash now d r w = (Inl ErrNoCredentials, w)" for w :: "'a server_state"
    using assms(3) by (auto simp: session_authenticator_def on_part_def Session_Authenticate_def)
  show ?thesis
    using assms(1) by (auto simp: Chain_Authenticate_def server_chain_def static key session)
qed

text \<open>
  C28. The door is closed as soon as one way in is configured: with any key in the environment,
  or with database authentication on, a request that presents neither a bearer token nor a
  session cookie gets a 401 from every route of the API and of provisioning, and reaches no
  handler.
\<close>

theorem anonymous_is_refused:
  assumes "sc_APIKeys cfg \<noteq> [] \<or> sc_AuthDB cfg" and "extractBearer r = []"
    and "Cookie r SessionCookie = None \<or> Cookie r SessionCookie = Some []"
  shows "fst (serve_api rl identify hash cfg now d rt r w)
           = Refused 401 ''missing or invalid Authorization header''
       \<and> fst (serve_scim hash cfg now d rt r w) = Refused 401 ''missing or invalid Authorization header''"
proof -
  obtain w' where "Chain_Authenticate (server_chain hash cfg now d) r w = (Inl ErrNoCredentials, w')"
    using no_credentials [OF assms] by (metis prod.collapse)
  then show ?thesis
    by (simp add: serve_api_def serve_scim_def api_stack_def scim_stack_def Authenticate_def)
qed

definition anonymous_request :: request where
  "anonymous_request = \<lparr>rq_Method = ''GET'', rq_Path = ''/api/v1/me'', rq_Header = [],
     rq_Cookies = [], rq_RemoteAddr = ''10.0.0.1:4000''\<rparr>"

theorem anonymous_is_refused_witness:
  "fst (serve_api one_per_second id id demo_config 0 demo_db (with_perms [] ''GET'' ''/me'')
     anonymous_request fresh_state) = Refused 401 ''missing or invalid Authorization header''"
proof -
  have "sc_APIKeys demo_config \<noteq> [] \<or> sc_AuthDB demo_config" by (simp add: demo_config_def)
  moreover have "extractBearer anonymous_request = []" by code_simp
  moreover have "Cookie anonymous_request SessionCookie = None \<or> Cookie anonymous_request SessionCookie = Some []"
    by code_simp
  ultimately show ?thesis by (intro anonymous_is_refused [THEN conjunct1])
qed

section \<open>The revoked stay out\<close>

lemma chain_disabled:
  assumes "fst (Chain_Authenticate (server_chain hash cfg now (disabled_db t i d)) r w) = Inr p" and "i \<noteq> 0"
  shows "pr_ID p \<noteq> i"
  using server_chain_accept [OF assms(1)] assms(2) disabled_key disabled_session by blast

text \<open>
  A revoked principal is out of the whole server at once: after it is disabled, no request
  whatever, by key, by session or with both, reaches a handler of the API or of provisioning
  as that principal. (Principals are rows with an identifier of their own; the nil identifier
  is that of the keys of the environment.)
\<close>

theorem disabled_never_served:
  assumes "i \<noteq> 0" and "PrincipalFrom c = Some p"
    and "fst (serve_api rl identify hash cfg now (snd (SetDisabled t i True d)) rt r w) = Reached c
       \<or> fst (serve_scim hash cfg now (snd (SetDisabled t i True d)) rt r w) = Reached c"
  shows "pr_ID p \<noteq> i"
proof -
  have "fst (Chain_Authenticate (server_chain hash cfg now (disabled_db t i d)) r w) = Inr p"
    using assms(2,3) unfolding serve_api_iff serve_scim_reached
    by (auto split: sum.splits)
  then show ?thesis using assms(1) by (rule chain_disabled)
qed

text \<open>Ann's session, and a request with its cookie.\<close>

definition session_request :: "string \<Rightarrow> string \<Rightarrow> request" where
  "session_request m path = \<lparr>rq_Method = m, rq_Path = path, rq_Header = [],
     rq_Cookies = [(SessionCookie, ''t'')], rq_RemoteAddr = ''10.0.0.1:4000''\<rparr>"

definition no_limit_config :: server_config where
  "no_limit_config = \<lparr>sc_APIKeys = [], sc_AuthDB = True,
     sc_RateLimit = \<lparr>rc_ReadRPS = 0, rc_ReadBurst = 0, rc_WriteRPS = 0, rc_WriteBurst = 0\<rparr>\<rparr>"

definition ann_row :: stored_principal where
  "ann_row = stored_of demo_db (db_principals demo_db ! 1)"

definition ann :: principal where
  "ann = (principalFromStored ann_row)\<lparr>pr_ViaSession := True\<rparr>"

lemma ann_chain:
  fixes w :: "'l server_state"
  assumes "session_principal 1 d ''t'' = Inr (Some ann_row)"
  shows "fst (Chain_Authenticate (server_chain id no_limit_config 1 d) (session_request m path) w) = Inr ann"
proof -
  let ?r = "session_request m path"
  have bearer: "extractBearer ?r = []" by code_simp
  have cookie: "Cookie ?r SessionCookie = Some ''t''" by code_simp
  have enabled: "sp_DisabledAt ann_row = None" by code_simp
  have "\<exists>w'. Session_Authenticate id (FindPrincipalBySessionToken 1 d) 1 ?r w = (Inr ann, w')" for w
    unfolding Session_accept_principal_iff using cookie assms enabled by (auto simp: ann_def)
  then have session: "\<exists>w'. session_authenticator id 1 d ?r w = (Inr ann, w')" for w :: "'l server_state"
    unfolding session_authenticator_def on_part_def by (metis (mono_tags, lifting) case_prod_conv)
  have key: "key_authenticator id 1 d ?r w = (Inl ErrNoCredentials, w)" for w :: "'l server_state"
    using bearer by (simp add: key_authenticator_def on_part_def DBKey_Authenticate_def Let_def
        LooksLikeKey_def has_prefix_def KeyPrefix_def)
  from session obtain w' where "session_authenticator id 1 d ?r w = (Inr ann, w')" by blast
  then show ?thesis
    by (simp add: Chain_Authenticate_def server_chain_def no_limit_config_def key
        StaticKey_Authenticate_def)
qed

lemma no_limit: "limit_verdict rl identify (sc_RateLimit no_limit_config) now r s = None"
  by (simp add: limit_verdict_def no_limit_config_def RateLimit_Enabled_def)

theorem disabled_never_served_witness:
  "fst (serve_api one_per_second id id no_limit_config 1 (snd (SetDisabled 0 1 True demo_db))
      (with_perms [] ''GET'' ''/me'') (session_request ''GET'' ''/api/v1/me'') fresh_state)
     = Reached (WithPrincipal empty_ctx ann) \<and> pr_ID ann \<noteq> 1"
proof -
  have "session_principal 1 (snd (SetDisabled 0 1 True demo_db)) ''t'' = Inr (Some ann_row)" by code_simp
  note chain = ann_chain [OF this]
  have reached: "fst (serve_api one_per_second id id no_limit_config 1 (snd (SetDisabled 0 1 True demo_db))
      (with_perms [] ''GET'' ''/me'') (session_request ''GET'' ''/api/v1/me'') fresh_state)
     = Reached (WithPrincipal empty_ctx ann)"
    unfolding serve_api_iff no_limit chain by (simp add: isSafeMethod_def session_request_def)
  then show ?thesis
    using disabled_never_served [OF _ ctx_of_middleware(1) disjI1 [OF reached]] by simp
qed

section \<open>A finding\<close>

text \<open>The routes of provisioning accept a session but not the CSRF middleware: a write that Ann's
  browser is made to send, with her cookie and no token, is refused by the API and carried out
  by provisioning.\<close>

lemma scim_write_needs_no_csrf_token:
  "with_perms [PermSCIMProvision] ''DELETE'' ''/Users/{id}'' \<in> set scim_routes \<and>
   \<not> csrf_ok (session_request ''DELETE'' path) \<and>
   fst (serve_scim id no_limit_config 1 demo_db (with_perms [PermSCIMProvision] ''DELETE'' ''/Users/{id}'')
     (session_request ''DELETE'' path) fresh_state) = Reached (WithPrincipal empty_ctx ann) \<and>
   fst (serve_api rl identify id no_limit_config 1 demo_db rt
     (session_request ''DELETE'' path) fresh_state) \<noteq> Reached c"
proof -
  have "session_principal 1 demo_db ''t'' = Inr (Some ann_row)" by code_simp
  note chain = ann_chain [OF this]
  have csrf: "\<not> csrf_ok (session_request ''DELETE'' path)" "\<not> isSafeMethod ''DELETE''"
    by (simp_all add: csrf_ok_def Cookie_def session_request_def SessionCookie_def CSRFCookie_def
        isSafeMethod_def)
  have "sp_Roles ann_row = [''admin'']" by code_simp
  then have can: "Can (Some ann) PermSCIMProvision"
    by (simp add: ann_def Grants_SCIMProvision_iff RoleAdmin_def)
  have via: "pr_ViaSession ann" by (simp add: ann_def)
  show ?thesis
    using csrf can via unfolding serve_api_iff serve_scim_reached chain
    by (auto simp: scim_routes_def session_request_def)
qed

end
