(* ===== verification/Blob.thy ===== *)
theory Blob
  imports Prelude
begin

text \<open>
  Content addresses and references to them: \<^verbatim>\<open>internal/blob/blob.go\<close> and
  \<^verbatim>\<open>internal/blob/refs.go\<close>. The hash itself is not modelled: a digest is the text the
  code passes around. The two regular expressions of these files are written out as the
  matchers they denote.
\<close>

section \<open>Digests\<close>

type_synonym digest = string

definition algorithm :: string where "algorithm = ''sha256''"

definition PathPrefix :: string where "PathPrefix = ''/api/v1/blobs/''"

definition is_hex :: "char \<Rightarrow> bool" where
  "is_hex c \<longleftrightarrow> c \<in> set ''0123456789abcdef''"

text \<open>What \<^verbatim>\<open>digestPattern\<close> matches.\<close>

definition is_digest :: "string \<Rightarrow> bool" where
  "is_digest s \<longleftrightarrow> has_prefix s (algorithm @ '':'') \<and> length s = 71 \<and> list_all is_hex (drop 7 s)"

definition ParseDigest :: "string \<Rightarrow> digest option" where
  "ParseDigest s = (if is_digest s then Some s else None)"

definition Hex :: "digest \<Rightarrow> string" where
  "Hex d = (if has_prefix d (algorithm @ '':'') then drop 7 d else d)"

text \<open>The object key; \<open>None\<close> where slicing the hex would panic.\<close>

definition Key :: "digest \<Rightarrow> string option" where
  "Key d = (let h = Hex d in
     if length h < 4 then None
     else Some (algorithm @ ''/'' @ take 2 h @ ''/'' @ take 2 (drop 2 h) @ ''/'' @ h))"

fun split_on :: "char \<Rightarrow> string \<Rightarrow> string list" where
  "split_on b [] = [[]]"
| "split_on b (x # xs) =
     (if x = b then [] # split_on b xs
      else case split_on b xs of [] \<Rightarrow> [[x]] | p # ps \<Rightarrow> (x # p) # ps)"

definition digestFromKey :: "string \<Rightarrow> digest option" where
  "digestFromKey key =
     (case split_on CHR ''/'' key of
        [a, b, c, h] \<Rightarrow>
          if a \<noteq> algorithm then None
          else (case ParseDigest (algorithm @ '':'' @ h) of
                  None \<Rightarrow> None
                | Some d \<Rightarrow> if b \<noteq> take 2 h \<or> c \<noteq> take 2 (drop 2 h) then None else Some d)
      | _ \<Rightarrow> None)"

section \<open>References\<close>

record blob_ref =
  br_Digest :: digest
  br_Ext :: string

definition Ref_Path :: "blob_ref \<Rightarrow> string" where
  "Ref_Path r =
     (if br_Ext r = '''' then PathPrefix @ br_Digest r
      else PathPrefix @ br_Digest r @ ''.'' @ br_Ext r)"

definition is_ext_char :: "char \<Rightarrow> bool" where
  "is_ext_char c \<longleftrightarrow> c \<in> set ''abcdefghijklmnopqrstuvwxyz0123456789''"

definition is_word_char :: "char \<Rightarrow> bool" where
  "is_word_char c \<longleftrightarrow> is_ext_char c \<or> c \<in> set ''ABCDEFGHIJKLMNOPQRSTUVWXYZ_''"

text \<open>The leading class of the pattern: what may stand before a reference.\<close>

definition is_delimiter :: "char \<Rightarrow> bool" where
  "is_delimiter c \<longleftrightarrow> \<not> is_word_char c \<and> c \<notin> set ''.:/@-''"

definition match_ext :: "string \<Rightarrow> string \<times> string" where
  "match_ext s =
     (let e = take 5 (takeWhile is_ext_char (drop 1 s)) in
      if take 1 s = ''.'' \<and> e \<noteq> '''' then (e, drop (1 + length e) s) else ('''', s))"

text \<open>The pattern after its leading class, matched at the beginning of a text: the
  reference and what follows it.\<close>

definition match_ref :: "string \<Rightarrow> (blob_ref \<times> string) option" where
  "match_ref s =
     (if \<not> has_prefix s PathPrefix then None
      else let u = drop (length PathPrefix) s in
        if \<not> is_digest (take 71 u) then None
        else let (e, rest) = match_ext (drop 71 u)
             in Some (\<lparr>br_Digest = take 71 u, br_Ext = e\<rparr>, rest))"

lemma match_ext_length: "length (snd (match_ext s)) \<le> length s"
  by (simp add: match_ext_def Let_def)

lemma match_ref_shorter: "match_ref s = Some (r, rest) \<Longrightarrow> length rest < length s"
proof -
  assume m: "match_ref s = Some (r, rest)"
  then have pre: "has_prefix s PathPrefix" and
    rest: "rest = snd (match_ext (drop 71 (drop (length PathPrefix) s)))"
    by (auto simp: match_ref_def Let_def split: if_splits prod.splits)
  have "0 < length s" using has_prefix_length [OF pre] by (cases s) (simp_all add: PathPrefix_def)
  then show ?thesis
    using match_ext_length [of "drop 71 (drop (length PathPrefix) s)"] rest
    by (cases s) (simp_all add: less_Suc_eq_le)
qed

text \<open>All matches from the left, none overlapping; \<open>start\<close> says that the text begins here.\<close>

function find_refs :: "bool \<Rightarrow> string \<Rightarrow> blob_ref list" where
  "find_refs start s =
     (case (if start then match_ref s else None) of
        Some (r, rest) \<Rightarrow> r # find_refs False rest
      | None \<Rightarrow>
          (case s of
             [] \<Rightarrow> []
           | c # t \<Rightarrow>
               (case (if is_delimiter c then match_ref t else None) of
                  Some (r, rest) \<Rightarrow> r # find_refs False rest
                | None \<Rightarrow> find_refs False t)))"
  by pat_completeness auto
termination
  by (relation "measure (length \<circ> snd)") (auto dest: match_ref_shorter split: if_splits)

declare find_refs.simps [simp del]

fun dedup_refs :: "digest list \<Rightarrow> blob_ref list \<Rightarrow> blob_ref list" where
  "dedup_refs seen [] = []"
| "dedup_refs seen (r # rs) =
     (if br_Digest r \<in> set seen then dedup_refs seen rs
      else r # dedup_refs (br_Digest r # seen) rs)"

definition Refs :: "string \<Rightarrow> blob_ref list" where
  "Refs text = dedup_refs [] (find_refs True text)"

section \<open>Objects\<close>

record blob_object =
  bo_Digest :: digest
  bo_Size :: nat
  bo_Created :: instant

section \<open>Media\<close>

definition mediaExt :: "(string \<times> string) list" where
  "mediaExt = [(''image/png'', ''png''), (''image/jpeg'', ''jpg''), (''image/webp'', ''webp''),
     (''image/gif'', ''gif''), (''video/mp4'', ''mp4''), (''video/webm'', ''webm'')]"

definition SniffLen :: nat where "SniffLen = 512"

definition be_uint32 :: "string \<Rightarrow> nat" where
  "be_uint32 bs = fold (\<lambda>c n. n * 256 + of_char c) bs 0"

definition brand_at :: "nat \<Rightarrow> string \<Rightarrow> string" where
  "brand_at i head = take 4 (drop i head)"

definition image_brands :: "string list" where
  "image_brands = [''avif'', ''avis'', ''heic'', ''heix'', ''hevc'', ''hevx'', ''mif1'', ''msf1'']"

definition video_brands :: "string list" where
  "video_brands = [''isom'', ''iso2'', ''iso3'', ''iso4'', ''iso5'', ''iso6'', ''iso7'', ''iso8'',
     ''iso9'', ''avc1'', ''dash'', ''M4V '', ''MSNV'']"

definition isMP4 :: "string \<Rightarrow> bool" where
  "isMP4 head =
     (if length head < 16 \<or> brand_at 4 head \<noteq> ''ftyp'' then False
      else let size = be_uint32 (take 4 head) in
        if size < 16 \<or> length head < size \<or> size mod 4 \<noteq> 0 then False
        else if \<exists>k \<in> set [0..<(size - 8) div 4]. 8 + 4 * k \<noteq> 12
                   \<and> brand_at (8 + 4 * k) head \<in> set image_brands then False
        else brand_at 8 head \<in> set video_brands)"

text \<open>The sniffer of \<^verbatim>\<open>net/http\<close> is an argument; what follows a semicolon in its answer is
  cut off.\<close>

definition DetectMedia :: "(string \<Rightarrow> string) \<Rightarrow> string \<Rightarrow> (string \<times> string) option" where
  "DetectMedia sniff head =
     (let mt0 = takeWhile (\<lambda>c. c \<noteq> CHR '';'') (sniff head);
          mt = (if mt0 = ''application/octet-stream'' \<and> isMP4 head then ''video/mp4'' else mt0)
      in map_option (\<lambda>ext. (mt, ext)) (map_of mediaExt mt))"

section \<open>Keys\<close>

lemma split_on_not_Nil [simp]: "split_on b s \<noteq> []"
  by (induction s) (auto split: list.splits)

lemma split_on_append:
  "b \<notin> set p \<Longrightarrow> split_on b (p @ b # s) = p # split_on b s"
  by (induction p) auto

lemma split_on_none: "b \<notin> set p \<Longrightarrow> split_on b p = [p]"
  by (induction p) auto

fun join_with :: "char \<Rightarrow> string list \<Rightarrow> string" where
  "join_with b [] = []"
| "join_with b [p] = p"
| "join_with b (p # q # ps) = p @ b # join_with b (q # ps)"

lemma join_split: "join_with b (split_on b s) = s"
proof (induction s)
  case (Cons x s)
  then show ?case
    by (cases "split_on b s"; cases "tl (split_on b s)") auto
qed simp

lemma is_hex_not_slash: "is_hex c \<Longrightarrow> c \<noteq> CHR ''/''"
  by (auto simp: is_hex_def)

lemma is_digest_iff:
  "is_digest d \<longleftrightarrow> (\<exists>h. d = algorithm @ '':'' @ h \<and> length h = 64 \<and> list_all is_hex h)"
proof
  assume d: "is_digest d"
  have "take 7 d = algorithm @ '':''" using d
    by (simp add: is_digest_def has_prefix_def algorithm_def numeral_eq_Suc)
  then have "d = (algorithm @ '':'') @ drop 7 d" by (metis append_take_drop_id)
  then show "\<exists>h. d = algorithm @ '':'' @ h \<and> length h = 64 \<and> list_all is_hex h"
    using d by (intro exI [of _ "drop 7 d"]) (simp add: is_digest_def)
next
  assume "\<exists>h. d = algorithm @ '':'' @ h \<and> length h = 64 \<and> list_all is_hex h"
  then show "is_digest d" by (auto simp: is_digest_def has_prefix_def algorithm_def numeral_eq_Suc)
qed

lemma Hex_digest: "Hex (algorithm @ '':'' @ h) = h"
  by (simp add: Hex_def has_prefix_def algorithm_def numeral_eq_Suc)

lemma Key_digest:
  "length h = 64 \<Longrightarrow> Key (algorithm @ '':'' @ h) =
     Some (algorithm @ CHR ''/'' # take 2 h @ CHR ''/'' # take 2 (drop 2 h) @ CHR ''/'' # h)"
  unfolding Key_def Hex_digest by (simp add: Let_def)

lemma split_Key:
  assumes "length h = 64" and "list_all is_hex h"
  shows "split_on CHR ''/'' (algorithm @ CHR ''/'' # take 2 h @ CHR ''/'' # take 2 (drop 2 h) @ CHR ''/'' # h)
     = [algorithm, take 2 h, take 2 (drop 2 h), h]"
proof -
  have none: "CHR ''/'' \<notin> set h" using assms(2) by (auto simp: list_all_iff is_hex_def)
  then have "CHR ''/'' \<notin> set (take 2 h)" "CHR ''/'' \<notin> set (take 2 (drop 2 h))"
    by (meson in_set_takeD in_set_dropD)+
  moreover have "CHR ''/'' \<notin> set algorithm" by (simp add: algorithm_def)
  ultimately show ?thesis using none by (simp add: split_on_append split_on_none)
qed

text \<open>
  C39. Object keys and digests determine each other: the key of a digest reads back as that
  digest, and whatever key a listing finds either names no blob or is exactly the key of the
  digest it is read as. So a sweep that lists keys cannot delete an object other than the one it
  looked up, and no object written under its digest is missed.
\<close>

theorem Key_roundtrip:
  "(is_digest d \<longrightarrow> (\<exists>k. Key d = Some k \<and> digestFromKey k = Some d)) \<and>
   (digestFromKey k = Some d \<longrightarrow> is_digest d \<and> Key d = Some k)"
proof (intro conjI impI)
  assume "is_digest d"
  then obtain h where d: "d = algorithm @ '':'' @ h" and h: "length h = 64" "list_all is_hex h"
    by (auto simp: is_digest_iff)
  have dig: "is_digest (algorithm @ '':'' @ h)" using h is_digest_iff by blast
  have "digestFromKey (algorithm @ CHR ''/'' # take 2 h @ CHR ''/'' # take 2 (drop 2 h) @ CHR ''/'' # h) = Some d"
    unfolding digestFromKey_def split_Key [OF h] using dig by (simp add: ParseDigest_def d)
  then show "\<exists>k. Key d = Some k \<and> digestFromKey k = Some d" unfolding d Key_digest [OF h(1)] by blast
next
  assume k: "digestFromKey k = Some d"
  then obtain a b c h where parts: "split_on CHR ''/'' k = [a, b, c, h]"
    unfolding digestFromKey_def by (auto split: list.splits)
  from k parts have a: "a = algorithm" "b = take 2 h" "c = take 2 (drop 2 h)"
    and d: "is_digest (algorithm @ '':'' @ h)" "d = algorithm @ '':'' @ h"
    by (auto simp: digestFromKey_def ParseDigest_def split: if_splits option.splits)
  then show "is_digest d" by simp
  have "length h = 64" using d(1) by (simp add: is_digest_def algorithm_def)
  moreover have "k = algorithm @ CHR ''/'' # take 2 h @ CHR ''/'' # take 2 (drop 2 h) @ CHR ''/'' # h"
    using join_split [of "CHR ''/''" k] unfolding parts a by simp
  ultimately show "Key d = Some k" unfolding d(2) by (simp only: Key_digest)
qed

definition demo_digest :: digest where
  "demo_digest = ''sha256:'' @ replicate 64 CHR ''a''"

lemma demo_digest: "is_digest demo_digest"
  by code_simp

theorem Key_roundtrip_witness: "\<exists>k. Key demo_digest = Some k \<and> digestFromKey k = Some demo_digest"
  using Key_roundtrip [of demo_digest] demo_digest by blast

section \<open>References are found where they are written\<close>

lemma find_refs_start_False:
  "find_refs False (c # t) =
     (case (if is_delimiter c then match_ref t else None) of
        Some (r, rest) \<Rightarrow> r # find_refs False rest
      | None \<Rightarrow> find_refs False t)"
  by (subst find_refs.simps) simp

lemma is_hex_not_delimiter: "is_hex c \<Longrightarrow> \<not> is_delimiter c"
  by (auto simp: is_delimiter_def is_word_char_def is_ext_char_def is_hex_def)

lemma algorithm_not_delimiter: "\<forall>c \<in> set (algorithm @ '':''). \<not> is_delimiter c"
  by (simp add: algorithm_def is_delimiter_def is_word_char_def is_ext_char_def)

lemma not_delimiter_digest:
  assumes "is_digest d" and "c \<in> set d"
  shows "\<not> is_delimiter c"
proof -
  from assms obtain h where "d = (algorithm @ '':'') @ h" "list_all is_hex h"
    unfolding is_digest_iff append_assoc by blast
  with assms(2) show ?thesis
    using algorithm_not_delimiter is_hex_not_delimiter by (auto simp: list_all_iff simp del: append_assoc)
qed

lemma match_ref_text:
  assumes "match_ref s = Some (r, rest)"
  shows "\<exists>x. s = x @ rest \<and> (\<forall>c \<in> set x. \<not> is_delimiter c) \<and> is_digest (br_Digest r)"
proof -
  let ?u = "drop (length PathPrefix) s"
  from assms have pre: "has_prefix s PathPrefix" and dig: "is_digest (take 71 ?u)"
    and r: "br_Digest r = take 71 ?u" and rest: "rest = snd (match_ext (drop 71 ?u))"
    by (auto simp: match_ref_def Let_def split: if_splits prod.splits)
  have s: "s = PathPrefix @ take 71 ?u @ drop 71 ?u"
    using pre by (metis append_take_drop_id has_prefix_def)
  obtain y where y: "drop 71 ?u = y @ rest" "\<forall>c \<in> set y. \<not> is_delimiter c"
  proof (cases "take 1 (drop 71 ?u) = ''.'' \<and> take 5 (takeWhile is_ext_char (drop 1 (drop 71 ?u))) \<noteq> []")
    case True
    let ?e = "take 5 (takeWhile is_ext_char (drop 1 (drop 71 ?u)))"
    have "drop 1 (drop 71 ?u) = ?e @ drop (length ?e) (drop 1 (drop 71 ?u))"
      by (metis append_take_drop_id append_eq_conv_conj takeWhile_dropWhile_id append.assoc)
    moreover have "drop 71 ?u = ''.'' @ drop 1 (drop 71 ?u)" using True by (metis append_take_drop_id)
    moreover have "rest = drop (1 + length ?e) (drop 71 ?u)"
      using True rest by (simp add: match_ext_def Let_def)
    ultimately have "drop 71 ?u = (''.'' @ ?e) @ rest" by (simp add: add.commute)
    moreover have "\<forall>c \<in> set (''.'' @ ?e). \<not> is_delimiter c"
      by (auto simp: is_delimiter_def is_word_char_def dest: in_set_takeD set_takeWhileD)
    ultimately show ?thesis using that by blast
  next
    case False
    then have "rest = drop 71 ?u" using rest by (auto simp: match_ext_def Let_def)
    then show ?thesis using that [of "[]"] by simp
  qed
  have "\<forall>c \<in> set PathPrefix. \<not> is_delimiter c"
    by (simp add: PathPrefix_def is_delimiter_def is_word_char_def is_ext_char_def)
  moreover have "\<forall>c \<in> set (take 71 ?u). \<not> is_delimiter c" using dig not_delimiter_digest by blast
  moreover have "s = (PathPrefix @ take 71 ?u @ y) @ rest" using s y(1) by simp
  ultimately show ?thesis using y(2) dig r
    by (intro exI [of _ "PathPrefix @ take 71 ?u @ y"]) auto
qed

lemma match_ref_ext: "match_ref s = Some (r, rest) \<Longrightarrow> list_all is_ext_char (br_Ext r)"
  by (auto simp: match_ref_def match_ext_def Let_def list_all_iff split: if_splits prod.splits
      dest!: in_set_takeD set_takeWhileD)

text \<open>What holds of every match holds of every reference found.\<close>

lemma find_refs_all:
  assumes "\<And>s r rest. match_ref s = Some (r, rest) \<Longrightarrow> P r"
  shows "r \<in> set (find_refs b s) \<Longrightarrow> P r"
proof (induction b s rule: find_refs.induct)
  case (1 start s)
  show ?case
  proof (cases "if start then match_ref s else None")
    case (Some x)
    obtain r' rest where x: "x = (r', rest)" by fastforce
    with Some have "P r'" using assms by (auto split: if_splits)
    moreover have "r = r' \<or> r \<in> set (find_refs False rest)"
      using "1.prems" Some x by (subst (asm) find_refs.simps) simp
    ultimately show ?thesis using "1.IH"(3) Some x by blast
  next
    case None
    show ?thesis
    proof (cases s)
      case Nil
      then show ?thesis using "1.prems" None by (subst (asm) find_refs.simps) simp
    next
      case (Cons c t)
      show ?thesis
      proof (cases "if is_delimiter c then match_ref t else None")
        case N: None
        have "r \<in> set (find_refs False t)" using "1.prems" None Cons N by (subst (asm) find_refs.simps) simp
        then show ?thesis using "1.IH"(1) [OF None Cons N] by blast
      next
        case (Some x)
        obtain r' rest where x: "x = (r', rest)" by fastforce
        with Some have "P r'" using assms by (auto split: if_splits)
        moreover have "r = r' \<or> r \<in> set (find_refs False rest)"
          using "1.prems" None Cons Some x by (subst (asm) find_refs.simps) simp
        ultimately show ?thesis using "1.IH"(2) None Cons Some x by blast
      qed
    qed
  qed
qed

lemma find_refs_digest: "r \<in> set (find_refs b s) \<Longrightarrow> is_digest (br_Digest r)"
  by (rule find_refs_all [where P = "\<lambda>r. is_digest (br_Digest r)"]) (use match_ref_text in blast)

lemma find_refs_ext: "r \<in> set (find_refs b s) \<Longrightarrow> list_all is_ext_char (br_Ext r)"
  by (rule find_refs_all [where P = "\<lambda>r. list_all is_ext_char (br_Ext r)"]) (use match_ref_ext in blast)

text \<open>A delimiter inside a text whose tail matched lies in what follows the match.\<close>

lemma delimiter_after_match:
  assumes "x @ rest = pre @ c # u" and "\<forall>c \<in> set x. \<not> is_delimiter c" and "is_delimiter c"
  shows "\<exists>pre'. rest = pre' @ c # u"
proof -
  have "\<not> length pre < length x"
  proof
    assume "length pre < length x"
    then have "(x @ rest) ! length pre = x ! length pre" "x ! length pre \<in> set x"
      by (simp_all add: nth_append)
    moreover have "(x @ rest) ! length pre = c" using assms(1) by simp
    ultimately show False using assms(2,3) by auto
  qed
  then show ?thesis using assms(1) by (metis append_eq_append_conv2 append_eq_append_conv_if not_less)
qed

lemma find_refs_complete:
  "s = pre @ c # u \<Longrightarrow> is_delimiter c \<Longrightarrow> match_ref u = Some (r, rest) \<Longrightarrow> r \<in> set (find_refs b s)"
proof (induction b s arbitrary: pre rule: find_refs.induct)
  case (1 start s)
  show ?case
  proof (cases "if start then match_ref s else None")
    case (Some x)
    obtain r' rest' where x: "x = (r', rest')" by fastforce
    with Some have m: "match_ref s = Some (r', rest')" by (simp split: if_splits)
    from match_ref_text [OF m] obtain y where y: "s = y @ rest'" "\<forall>c \<in> set y. \<not> is_delimiter c" by blast
    obtain pre' where "rest' = pre' @ c # u"
      using delimiter_after_match [of y rest' pre c u] y "1.prems" by auto
    then have "r \<in> set (find_refs False rest')" using "1.IH"(3) Some x "1.prems" by blast
    then show ?thesis using Some x by (subst find_refs.simps) simp
  next
    case None
    have "s \<noteq> []" using "1.prems"(1) by simp
    then obtain c' t where s: "s = c' # t" by (meson neq_Nil_conv)
    show ?thesis
    proof (cases pre)
      case Nil
      then have "c' = c" "t = u" using s "1.prems"(1) by auto
      then show ?thesis using None s "1.prems" by (subst find_refs.simps) simp
    next
      case (Cons p ps)
      then have t: "t = ps @ c # u" using s "1.prems"(1) by simp
      show ?thesis
      proof (cases "if is_delimiter c' then match_ref t else None")
        case N: None
        have "r \<in> set (find_refs False t)" using "1.IH"(1) [OF None s N] t "1.prems" by blast
        then show ?thesis using None s N by (subst find_refs.simps) simp
      next
        case (Some x)
        obtain r' rest' where x: "x = (r', rest')" by fastforce
        with Some have m: "match_ref t = Some (r', rest')" by (simp split: if_splits)
        from match_ref_text [OF m] obtain y where y: "t = y @ rest'" "\<forall>c \<in> set y. \<not> is_delimiter c" by blast
        obtain pre' where "rest' = pre' @ c # u"
          using delimiter_after_match [of y rest' ps c u] y t "1.prems" by auto
        then have "r \<in> set (find_refs False rest')" using "1.IH"(2) None s Some x "1.prems" by blast
        then show ?thesis using None s Some x by (subst find_refs.simps) simp
      qed
    qed
  qed
qed

lemma dedup_refs_digests:
  "br_Digest ` set (dedup_refs seen rs) = br_Digest ` set rs - set seen
   \<and> distinct (map br_Digest (dedup_refs seen rs)) \<and> set (dedup_refs seen rs) \<subseteq> set rs"
proof (induction rs arbitrary: seen)
  case (Cons r rs)
  then show ?case
    using Cons.IH [of seen] Cons.IH [of "br_Digest r # seen"]
    by (cases "br_Digest r \<in> set seen") (simp, blast, auto)
qed simp

lemma Refs_valid:
  "distinct (map br_Digest (Refs text)) \<and> (\<forall>r \<in> set (Refs text). is_digest (br_Digest r))"
  using dedup_refs_digests [of "[]" "find_refs True text"] find_refs_digest unfolding Refs_def by blast

lemma Refs_complete:
  "is_delimiter c \<Longrightarrow> match_ref u = Some (r, rest) \<Longrightarrow> br_Digest r \<in> br_Digest ` set (Refs (pre @ c # u))"
  using find_refs_complete [of "pre @ c # u" pre c u r rest True]
    dedup_refs_digests [of "[]" "find_refs True (pre @ c # u)"]
  unfolding Refs_def by auto

text \<open>The digests found, described on the text alone.\<close>

definition mentioned :: "digest \<Rightarrow> string \<Rightarrow> bool" where
  "mentioned d text \<longleftrightarrow>
     is_digest d \<and> (\<exists>pre post. text = pre @ PathPrefix @ d @ post \<and> (pre = [] \<or> is_delimiter (last pre)))"

lemma match_ref_digest:
  "(\<exists>r rest. match_ref u = Some (r, rest) \<and> br_Digest r = d) \<longleftrightarrow>
     is_digest d \<and> (\<exists>post. u = PathPrefix @ d @ post)" (is "?L \<longleftrightarrow> ?R")
proof
  assume ?L
  then have pre: "has_prefix u PathPrefix" and dig: "is_digest (take 71 (drop (length PathPrefix) u))"
    and d: "d = take 71 (drop (length PathPrefix) u)"
    by (auto simp: match_ref_def Let_def split: if_splits prod.splits)
  have "u = PathPrefix @ d @ drop 71 (drop (length PathPrefix) u)"
    using pre d by (metis append_take_drop_id has_prefix_def)
  then show ?R using dig d by blast
next
  assume ?R
  then obtain post where d: "is_digest d" and u: "u = PathPrefix @ d @ post" by blast
  have "length d = 71" using d by (simp add: is_digest_def)
  then show ?L using d u by (simp add: match_ref_def Let_def split: prod.splits)
qed

lemma match_ref_mentioned:
  "match_ref u = Some (r, rest) \<Longrightarrow> mentioned (br_Digest r) u"
  using match_ref_digest [of u "br_Digest r"] unfolding mentioned_def by fastforce

lemma mentioned_later:
  assumes "mentioned d u" and "x = [] \<or> is_delimiter (last x) \<or> \<not> (\<exists>post. u = PathPrefix @ d @ post)"
  shows "mentioned d (x @ u)"
proof -
  obtain pre post where d: "is_digest d" and u: "u = pre @ PathPrefix @ d @ post"
    and pre: "pre = [] \<or> is_delimiter (last pre)" using assms(1) unfolding mentioned_def by blast
  have "x @ pre = [] \<or> is_delimiter (last (x @ pre))"
    using assms(2) u pre by (cases "pre = []") auto
  then show ?thesis unfolding mentioned_def using d u by (metis append.assoc)
qed

lemma find_refs_mentioned:
  assumes "is_digest d"
  shows "d \<in> br_Digest ` set (find_refs b s) \<Longrightarrow>
    (b \<and> (\<exists>post. s = PathPrefix @ d @ post)) \<or>
    (\<exists>pre c post. s = pre @ c # PathPrefix @ d @ post \<and> is_delimiter c)"
proof (induction b s rule: find_refs.induct)
  case (1 start s)
  have later: "\<exists>pre c post. s = pre @ c # PathPrefix @ d @ post \<and> is_delimiter c"
    if "s = x @ t" and "(False \<and> (\<exists>post. t = PathPrefix @ d @ post)) \<or>
      (\<exists>pre c post. t = pre @ c # PathPrefix @ d @ post \<and> is_delimiter c)" for x t
    using that by (metis append.assoc)
  show ?case
  proof (cases "if start then match_ref s else None")
    case (Some x)
    obtain r' rest where x: "x = (r', rest)" by fastforce
    with Some have m: "match_ref s = Some (r', rest)" "start" by (auto split: if_splits)
    obtain y where y: "s = y @ rest" using match_ref_text [OF m(1)] by blast
    have "d = br_Digest r' \<or> d \<in> br_Digest ` set (find_refs False rest)"
      using "1.prems" Some x by (subst (asm) find_refs.simps) auto
    then show ?thesis
    proof
      assume "d = br_Digest r'"
      then show ?thesis using match_ref_digest [of s d] m by blast
    next
      assume "d \<in> br_Digest ` set (find_refs False rest)"
      from later [OF y "1.IH"(3) [OF Some x [symmetric] this]] show ?thesis by blast
    qed
  next
    case None
    show ?thesis
    proof (cases s)
      case Nil
      then show ?thesis using "1.prems" None by (subst (asm) find_refs.simps) simp
    next
      case (Cons c t)
      show ?thesis
      proof (cases "if is_delimiter c then match_ref t else None")
        case N: None
        have "d \<in> br_Digest ` set (find_refs False t)"
          using "1.prems" None Cons N by (subst (asm) find_refs.simps) simp
        from later [of "[c]" t, OF _ "1.IH"(1) [OF None Cons N this]] Cons show ?thesis by simp
      next
        case (Some x)
        obtain r' rest where x: "x = (r', rest)" by fastforce
        with Some have m: "match_ref t = Some (r', rest)" "is_delimiter c" by (auto split: if_splits)
        obtain y where y: "s = (c # y) @ rest" using match_ref_text [OF m(1)] Cons by auto
        have "d = br_Digest r' \<or> d \<in> br_Digest ` set (find_refs False rest)"
          using "1.prems" None Cons Some x by (subst (asm) find_refs.simps) auto
        then show ?thesis
        proof
          assume "d = br_Digest r'"
          then obtain post where "t = PathPrefix @ d @ post" using match_ref_digest [of t d] m by blast
          then show ?thesis using Cons m(2) by (metis append_Nil)
        next
          assume "d \<in> br_Digest ` set (find_refs False rest)"
          from later [OF y "1.IH"(2) [OF None Cons Some x [symmetric] this]] show ?thesis by blast
        qed
      qed
    qed
  qed
qed

lemma Refs_digests: "d \<in> br_Digest ` set (Refs text) \<longleftrightarrow> mentioned d text"
proof
  assume "d \<in> br_Digest ` set (Refs text)"
  then have f: "d \<in> br_Digest ` set (find_refs True text)"
    using dedup_refs_digests [of "[]" "find_refs True text"] unfolding Refs_def by blast
  have dig: "is_digest d" using f find_refs_digest by blast
  from find_refs_mentioned [OF dig f] show "mentioned d text"
  proof
    assume "True \<and> (\<exists>post. text = PathPrefix @ d @ post)"
    then show ?thesis unfolding mentioned_def using dig by (metis append_Nil)
  next
    assume "\<exists>pre c post. text = pre @ c # PathPrefix @ d @ post \<and> is_delimiter c"
    then obtain pre c post where t: "text = (pre @ [c]) @ PathPrefix @ d @ post" and c: "is_delimiter c" by auto
    show ?thesis unfolding mentioned_def using dig t c by (metis last_snoc)
  qed
next
  assume m: "mentioned d text"
  then obtain pre post where dig: "is_digest d" and t: "text = pre @ PathPrefix @ d @ post"
    and pre: "pre = [] \<or> is_delimiter (last pre)" unfolding mentioned_def by blast
  obtain r rest where r: "match_ref (PathPrefix @ d @ post) = Some (r, rest)" "br_Digest r = d"
    using match_ref_digest [of "PathPrefix @ d @ post" d] dig by blast
  show "d \<in> br_Digest ` set (Refs text)"
  proof (cases "pre = []")
    case True
    have "find_refs True (PathPrefix @ d @ post) = r # find_refs False rest"
      using r(1) by (subst find_refs.simps) simp
    then show ?thesis using True t r(2) by (simp add: Refs_def)
  next
    case False
    then have eq: "text = butlast pre @ last pre # (PathPrefix @ d @ post)"
      using t by (metis append.assoc append_Cons append_Nil append_butlast_last_id)
    have "is_delimiter (last pre)" using pre False by simp
    from Refs_complete [OF this r(1), of "butlast pre"] show ?thesis using eq r(2) by simp
  qed
qed

text \<open>
  C40. What a test log references. The digests found in a text are exactly those whose path
  stands in it at the beginning or after a character that is neither part of a word nor of a
  URL, whatever follows; each is a well-formed digest and none is listed twice.
\<close>

theorem Refs_exact:
  "(\<forall>d. d \<in> br_Digest ` set (Refs text) \<longleftrightarrow>
      is_digest d \<and> (\<exists>pre post. text = pre @ PathPrefix @ d @ post \<and> (pre = [] \<or> is_delimiter (last pre))))
   \<and> distinct (map br_Digest (Refs text))"
  using Refs_digests Refs_valid unfolding mentioned_def by blast

subsection \<open>References line by line\<close>

lemma newline_delimits: "is_delimiter (CHR 0x0A)"
  by code_simp

lemma PathPrefix_no_delimiter: "\<forall>c \<in> set PathPrefix. \<not> is_delimiter c"
  by code_simp

lemma path_no_delimiter: "is_digest d \<Longrightarrow> c \<in> set (PathPrefix @ d) \<Longrightarrow> \<not> is_delimiter c"
  using not_delimiter_digest PathPrefix_no_delimiter by auto

lemma append_before:
  "x \<notin> set p \<Longrightarrow> us @ x # t = p @ post \<Longrightarrow> \<exists>vs. us = p @ vs"
proof (induction p arbitrary: us)
  case (Cons a p)
  then show ?case by (cases us) auto
qed simp

lemma mentioned_Nil [simp]: "\<not> mentioned d []"
  by (auto simp: mentioned_def PathPrefix_def)

lemma mentioned_newline:
  "mentioned d (s @ CHR 0x0A # t) \<longleftrightarrow> mentioned d s \<or> mentioned d t" (is "?L \<longleftrightarrow> ?R")
proof
  assume ?L
  then obtain pre post where dig: "is_digest d" and st: "s @ CHR 0x0A # t = pre @ (PathPrefix @ d) @ post"
    and pre: "pre = [] \<or> is_delimiter (last pre)" unfolding mentioned_def by auto
  have no: "CHR 0x0A \<notin> set (PathPrefix @ d)" using path_no_delimiter [OF dig] newline_delimits by blast
  consider (left) us where "s = pre @ us" "us @ CHR 0x0A # t = (PathPrefix @ d) @ post"
    | (right) us where "pre = s @ us" "CHR 0x0A # t = us @ (PathPrefix @ d) @ post"
    using st unfolding append_eq_append_conv2 [of s] by blast
  then show ?R
  proof cases
    case left
    obtain vs where "us = (PathPrefix @ d) @ vs" using append_before [OF no left(2)] by blast
    then show ?thesis using left(1) dig pre unfolding mentioned_def by auto
  next
    case right
    show ?thesis
    proof (cases us)
      case Nil
      then show ?thesis using right(2) no by (simp add: PathPrefix_def)
    next
      case (Cons a us')
      then have "t = us' @ PathPrefix @ d @ post" "us' = [] \<or> is_delimiter (last us')"
        using right pre by (auto split: if_splits)
      then show ?thesis using dig unfolding mentioned_def by blast
    qed
  qed
next
  assume ?R
  then show ?L
  proof
    assume "mentioned d s"
    then show ?L unfolding mentioned_def by fastforce
  next
    assume "mentioned d t"
    then have "mentioned d ((s @ [CHR 0x0A]) @ t)" by (rule mentioned_later) (simp add: newline_delimits)
    then show ?L by simp
  qed
qed

lemma mentioned_Path:
  assumes "is_digest (br_Digest r)" and "list_all is_ext_char (br_Ext r)"
  shows "mentioned d (Ref_Path r) \<longleftrightarrow> d = br_Digest r"
proof
  assume "mentioned d (Ref_Path r)"
  then obtain pre post where dig: "is_digest d" and p: "Ref_Path r = pre @ PathPrefix @ d @ post"
    and pre: "pre = [] \<or> is_delimiter (last pre)" unfolding mentioned_def by blast
  have "\<forall>c \<in> set (Ref_Path r). \<not> is_delimiter c"
  proof -
    have "\<forall>c \<in> set (br_Ext r). \<not> is_delimiter c" and dot: "\<not> is_delimiter (CHR ''.'')"
      using assms(2) by (auto simp: list_all_iff is_delimiter_def is_word_char_def)
    then show ?thesis using path_no_delimiter [OF assms(1)] by (auto simp: Ref_Path_def)
  qed
  then have "pre = []" using p pre by (metis Un_iff last_in_set set_append)
  then obtain tail where "PathPrefix @ br_Digest r @ tail = PathPrefix @ d @ post"
    using p by (cases "br_Ext r = []") (auto simp: Ref_Path_def)
  moreover have "length (br_Digest r) = length d" using assms(1) dig by (simp add: is_digest_def)
  ultimately show "d = br_Digest r" by simp
next
  assume "d = br_Digest r"
  then show "mentioned d (Ref_Path r)" using assms(1) unfolding mentioned_def Ref_Path_def
    by (cases "br_Ext r = []") (auto intro: exI [of _ "[]"])
qed

end
