(* ===== verification/Evidence_Store.thy ===== *)
theory Evidence_Store
  imports Blob Model "HOL-Library.Product_Lexorder" "HOL-Library.Multiset"
begin

text \<open>
  The evidence table and the queries on it: \<^verbatim>\<open>internal/store/evidence.go\<close>,
  \<^verbatim>\<open>internal/store/filter.go\<close>, \<^verbatim>\<open>internal/store/pagination.go\<close> and the references of
  \<^verbatim>\<open>internal/store/blobref.go\<close>. A query is a function on the list of rows; the database's
  regular expressions are an argument. Every statement may fail: \<open>fails n\<close> says whether the
  \<open>n\<close>th statement since the start does, and a transaction that fails leaves the tables as
  they were.
\<close>

section \<open>Tables\<close>

record evidence_db =
  ed_rows :: "evidence list"
  ed_blob_refs :: "(digest \<times> uuid) list"
  ed_campaign_refs :: "(digest \<times> uuid) list"
  ed_draft_refs :: "(digest \<times> uuid) list"
  ed_inheritance :: "inheritance_declaration list"
  ed_stmt :: nat

datatype evidence_error =
    StatementFailed
  | BadClientRecordID string
  | NotJSON
  | CheckFailed string
  | NoRow
  | BadSort string

definition tick :: "evidence_db \<Rightarrow> evidence_db" where
  "tick d = d\<lparr>ed_stmt := Suc (ed_stmt d)\<rparr>"

section \<open>References in metadata\<close>

text \<open>\<^verbatim>\<open>json.Unmarshal\<close> into a string that starts out empty; an error leaves it empty.\<close>

definition unmarshal_string :: "json option \<Rightarrow> string" where
  "unmarshal_string j = (case j of Some (JStr s) \<Rightarrow> s | _ \<Rightarrow> '''')"

fun json_string :: "json \<Rightarrow> string option" where
  "json_string (JStr s) = Some s"
| "json_string JNull = Some ''''"
| "json_string _ = None"

fun json_strings :: "json list \<Rightarrow> string list option" where
  "json_strings [] = Some []"
| "json_strings (j # js) =
     (case (json_string j, json_strings js) of (Some s, Some ss) \<Rightarrow> Some (s # ss) | _ \<Rightarrow> None)"

text \<open>\<^verbatim>\<open>json.Unmarshal\<close> into a slice of strings; \<open>None\<close> is an error, as is a missing text.\<close>

definition unmarshal_strings :: "json option \<Rightarrow> string list option" where
  "unmarshal_strings j = (case j of
      Some JNull \<Rightarrow> Some []
    | Some (JArr js) \<Rightarrow> json_strings js
    | _ \<Rightarrow> None)"

fun join_lines :: "string list \<Rightarrow> string" where
  "join_lines [] = ''''"
| "join_lines [x] = x"
| "join_lines (x # y # xs) = x @ CHR 0x0A # join_lines (y # xs)"

definition uri_fields :: "string list" where
  "uri_fields = [''photo_uris'', ''video_uris'']"

text \<open>The text the references are searched in: the log and the listed URIs.\<close>

definition referenced_text :: "(string \<times> json) list \<Rightarrow> string" where
  "referenced_text fs =
     unmarshal_string (json_field fs ''observations'')
     @ concat (map (\<lambda>f. case unmarshal_strings (json_field fs f) of
                          Some uris \<Rightarrow> CHR 0x0A # join_lines uris
                        | None \<Rightarrow> '''') uri_fields)"

definition is_video :: "blob_ref \<Rightarrow> bool" where
  "is_video r \<longleftrightarrow> br_Ext r = ''mp4'' \<or> br_Ext r = ''webm''"

definition add_uris :: "string \<Rightarrow> blob_ref list \<Rightarrow> string list \<Rightarrow> string list" where
  "add_uris field refs existing =
     fold (\<lambda>r uris. if is_video r \<noteq> (field = ''video_uris'') then uris
                    else if Ref_Path r \<in> set uris then uris else uris @ [Ref_Path r]) refs existing"

definition annotate_field :: "blob_ref list \<Rightarrow> string \<Rightarrow> (string \<times> json) list \<Rightarrow> (string \<times> json) list" where
  "annotate_field refs field fs =
     (case (case json_field fs field of None \<Rightarrow> Some [] | Some j \<Rightarrow> unmarshal_strings (Some j)) of
        None \<Rightarrow> fs
      | Some existing \<Rightarrow>
          let uris = add_uris field refs existing
          in if uris = [] then fs
             else filter (\<lambda>(k, _). k \<noteq> field) fs @ [(field, JArr (map JStr uris))])"

definition annotateBlobRefs :: "raw_message \<Rightarrow> raw_message \<times> blob_ref list" where
  "annotateBlobRefs metadata =
     (if metadata = RawNil then (RawDoc (JObj []), [])
      else case unmarshal_map metadata of
          None \<Rightarrow> (metadata, [])
        | Some fs \<Rightarrow>
            let refs = Refs (referenced_text fs) in
            if refs = [] then (metadata, [])
            else (RawDoc (JObj (fold (annotate_field refs) uri_fields fs)), refs))"

section \<open>Filing a record\<close>

record evidence_create =
  ec_ClientRecordID :: "string option"
  ec_Repo :: string
  ec_Branch :: string
  ec_RCSRef :: string
  ec_ProcedureRef :: string
  ec_EvidenceType :: string
  ec_Source :: string
  ec_Result :: string
  ec_FinishedAt :: instant
  ec_Metadata :: raw_message

record insert_result =
  ir_Evidence :: evidence
  ir_Created :: bool

text \<open>The database keeps microseconds; the driver drops what is finer.\<close>

definition to_micros :: "instant \<Rightarrow> instant" where
  "to_micros t = t div 1000 * 1000"

text \<open>What the columns accept: no text with a NUL byte, the enumeration of results, valid JSON
  without NUL, and the check on the type.\<close>

definition text_ok :: "string \<Rightarrow> bool" where
  "text_ok s \<longleftrightarrow> CHR 0x00 \<notin> set s"

fun json_ok :: "json \<Rightarrow> bool" where
  "json_ok (JStr s) = text_ok s"
| "json_ok (JArr js) = list_all json_ok js"
| "json_ok (JObj kvs) = list_all (\<lambda>kv. text_ok (fst kv) \<and> json_ok (snd kv)) kvs"
| "json_ok _ = True"

definition column_error :: "evidence_create \<Rightarrow> raw_message \<Rightarrow> evidence_error option" where
  "column_error e metadata =
     (if \<not> list_all text_ok [ec_Repo e, ec_Branch e, ec_RCSRef e, ec_ProcedureRef e,
                             ec_EvidenceType e, ec_Source e] then Some (CheckFailed ''text'')
      else if \<not> EvidenceResult_Valid (ec_Result e) then Some (CheckFailed ''evidence_result'')
      else if \<not> (case metadata of RawDoc j \<Rightarrow> json_ok j | _ \<Rightarrow> False) then Some NotJSON
      else if \<not> ValidEvidenceType (ec_EvidenceType e) then Some (CheckFailed ''evidence_type'')
      else None)"

definition evidence_row ::
  "uuid \<Rightarrow> instant \<Rightarrow> uuid option \<Rightarrow> raw_message \<Rightarrow> evidence_create \<Rightarrow> evidence" where
  "evidence_row i now cid metadata e = \<lparr>ev_ID = i, ev_ClientRecordID = cid, ev_Repo = ec_Repo e,
     ev_Branch = ec_Branch e, ev_RCSRef = ec_RCSRef e, ev_ProcedureRef = ec_ProcedureRef e,
     ev_EvidenceType = ec_EvidenceType e, ev_Source = ec_Source e, ev_Result = ec_Result e,
     ev_FinishedAt = to_micros (ec_FinishedAt e), ev_IngestedAt = now, ev_Metadata = metadata\<rparr>"

definition findByClientRecordID :: "evidence_db \<Rightarrow> uuid \<Rightarrow> evidence option" where
  "findByClientRecordID d cid = find (\<lambda>e. ev_ClientRecordID e = Some cid) (ed_rows d)"

fun recordBlobRefs ::
  "(nat \<Rightarrow> bool) \<Rightarrow> uuid \<Rightarrow> blob_ref list \<Rightarrow> evidence_db \<Rightarrow> evidence_error + evidence_db" where
  "recordBlobRefs fails i [] d = Inr d"
| "recordBlobRefs fails i (r # rs) d =
     (if fails (ed_stmt d) then Inl StatementFailed
      else recordBlobRefs fails i rs
        ((tick d)\<lparr>ed_blob_refs := (if (br_Digest r, i) \<in> set (ed_blob_refs d) then ed_blob_refs d
                                    else ed_blob_refs d @ [(br_Digest r, i)])\<rparr>))"

text \<open>
  \<^verbatim>\<open>insertOne\<close>, inside a transaction. The record is stored under the identifier the database
  generates, which is taken from a supply indexed by the statement counter; the argument
  \<open>parse\<close> is \<^verbatim>\<open>uuid.Parse\<close>.
\<close>

definition insertOne ::
  "(nat \<Rightarrow> bool) \<Rightarrow> (string \<Rightarrow> uuid option) \<Rightarrow> (nat \<Rightarrow> uuid) \<Rightarrow> instant \<Rightarrow> evidence_create
     \<Rightarrow> evidence_db \<Rightarrow> evidence_error + insert_result \<times> evidence_db" where
  "insertOne fails parse new_id now e d =
     (let (metadata, refs) = annotateBlobRefs (ec_Metadata e) in
      case (case ec_ClientRecordID e of
              None \<Rightarrow> Inr None
            | Some s \<Rightarrow> (case parse s of None \<Rightarrow> Inl (BadClientRecordID s) | Some u \<Rightarrow> Inr (Some u))) of
        Inl err \<Rightarrow> Inl err
      | Inr cid \<Rightarrow>
          if fails (ed_stmt d) then Inl StatementFailed
          else case column_error e metadata of
              Some err \<Rightarrow> Inl err
            | None \<Rightarrow>
                if cid \<noteq> None \<and> findByClientRecordID d (the cid) \<noteq> None
                then (if fails (Suc (ed_stmt d)) then Inl StatementFailed
                      else Inr (\<lparr>ir_Evidence = the (findByClientRecordID d (the cid)),
                                 ir_Created = False\<rparr>, tick (tick d)))
                else
                  let i = new_id (ed_stmt d); row = evidence_row i now cid metadata e in
                  if i \<in> ev_ID ` set (ed_rows d) then Inl (CheckFailed ''evidence_pkey'')
                  else case recordBlobRefs fails i refs ((tick d)\<lparr>ed_rows := ed_rows d @ [row]\<rparr>) of
                      Inl err \<Rightarrow> Inl err
                    | Inr d' \<Rightarrow> Inr (\<lparr>ir_Evidence = row, ir_Created = True\<rparr>, d'))"

text \<open>A transaction: what it does is kept if its last statement commits.\<close>

definition in_tx ::
  "(nat \<Rightarrow> bool) \<Rightarrow> (evidence_db \<Rightarrow> evidence_error + 'a \<times> evidence_db) \<Rightarrow> evidence_db
     \<Rightarrow> (evidence_error + 'a) \<times> evidence_db" where
  "in_tx fails body d =
     (if fails (ed_stmt d) then (Inl StatementFailed, tick d)
      else case body (tick d) of
          Inl err \<Rightarrow> (Inl err, tick d)
        | Inr (x, d') \<Rightarrow>
            if fails (ed_stmt d') then (Inl StatementFailed, tick d) else (Inr x, tick d'))"

definition EvidenceStore_Insert ::
  "(nat \<Rightarrow> bool) \<Rightarrow> (string \<Rightarrow> uuid option) \<Rightarrow> (nat \<Rightarrow> uuid) \<Rightarrow> instant \<Rightarrow> evidence_create
     \<Rightarrow> evidence_db \<Rightarrow> (evidence_error + insert_result) \<times> evidence_db" where
  "EvidenceStore_Insert fails parse new_id now e d = in_tx fails (insertOne fails parse new_id now e) d"

fun insert_all ::
  "(nat \<Rightarrow> bool) \<Rightarrow> (string \<Rightarrow> uuid option) \<Rightarrow> (nat \<Rightarrow> uuid) \<Rightarrow> instant \<Rightarrow> evidence_create list
     \<Rightarrow> evidence_db \<Rightarrow> evidence_error + insert_result list \<times> evidence_db" where
  "insert_all fails parse new_id now [] d = Inr ([], d)"
| "insert_all fails parse new_id now (e # es) d =
     (case insertOne fails parse new_id now e d of
        Inl err \<Rightarrow> Inl err
      | Inr (r, d') \<Rightarrow>
          (case insert_all fails parse new_id now es d' of
             Inl err \<Rightarrow> Inl err
           | Inr (rs, d'') \<Rightarrow> Inr (r # rs, d'')))"

definition InsertBatch ::
  "(nat \<Rightarrow> bool) \<Rightarrow> (string \<Rightarrow> uuid option) \<Rightarrow> (nat \<Rightarrow> uuid) \<Rightarrow> instant \<Rightarrow> evidence_create list
     \<Rightarrow> evidence_db \<Rightarrow> (evidence_error + insert_result list) \<times> evidence_db" where
  "InsertBatch fails parse new_id now es d = in_tx fails (insert_all fails parse new_id now es) d"

definition GetByID :: "(nat \<Rightarrow> bool) \<Rightarrow> uuid \<Rightarrow> evidence_db \<Rightarrow> evidence_error + evidence" where
  "GetByID fails i d =
     (if fails (ed_stmt d) then Inl StatementFailed
      else case find (\<lambda>e. ev_ID e = i) (ed_rows d) of None \<Rightarrow> Inl NoRow | Some e \<Rightarrow> Inr e)"

section \<open>Deleting\<close>

text \<open>References of a deleted record go with it.\<close>

definition DeleteBatch ::
  "(nat \<Rightarrow> bool) \<Rightarrow> uuid list \<Rightarrow> evidence_db \<Rightarrow> (evidence_error + nat) \<times> evidence_db" where
  "DeleteBatch fails ids d =
     (if ids = [] then (Inr 0, d)
      else if fails (ed_stmt d) then (Inl StatementFailed, tick d)
      else (Inr (length (filter (\<lambda>e. ev_ID e \<in> set ids) (ed_rows d))),
            (tick d)\<lparr>ed_rows := filter (\<lambda>e. ev_ID e \<notin> set ids) (ed_rows d),
                     ed_blob_refs := filter (\<lambda>(_, i). i \<notin> set ids) (ed_blob_refs d)\<rparr>))"

section \<open>What a record mentions\<close>

definition mentions :: "raw_message \<Rightarrow> digest set" where
  "mentions m = {d. \<exists>fs. unmarshal_map m = Some fs \<and> mentioned d (referenced_text fs)}"

text \<open>The digests in the strings a field lists.\<close>

definition field_mentions :: "(string \<times> json) list \<Rightarrow> string \<Rightarrow> digest set" where
  "field_mentions fs f = {d. \<exists>uris. unmarshal_strings (json_field fs f) = Some uris
                                     \<and> (\<exists>u \<in> set uris. mentioned d u)}"

lemma mentioned_join: "mentioned d (join_lines xs) \<longleftrightarrow> (\<exists>x \<in> set xs. mentioned d x)"
  by (induction xs rule: join_lines.induct) (auto simp: mentioned_newline)

lemma mentioned_lines:
  "mentioned d (s @ concat (map (\<lambda>f. case g f of Some uris \<Rightarrow> CHR 0x0A # join_lines uris | None \<Rightarrow> '''') fs))
   \<longleftrightarrow> mentioned d s \<or> (\<exists>f \<in> set fs. \<exists>uris. g f = Some uris \<and> (\<exists>u \<in> set uris. mentioned d u))"
proof (induction fs arbitrary: s)
  case (Cons f fs)
  show ?case
  proof (cases "g f")
    case None
    then show ?thesis using Cons.IH [of s] by simp
  next
    case (Some uris)
    then show ?thesis using Cons.IH [of "s @ CHR 0x0A # join_lines uris"]
      by (auto simp: mentioned_newline mentioned_join)
  qed
qed simp

lemma mentioned_text:
  "mentioned d (referenced_text fs) \<longleftrightarrow>
     mentioned d (unmarshal_string (json_field fs ''observations''))
     \<or> (\<exists>f \<in> set uri_fields. d \<in> field_mentions fs f)"
  unfolding referenced_text_def mentioned_lines field_mentions_def by blast

lemma json_field_put:
  "json_field (filter (\<lambda>(k, _). k \<noteq> f) fs @ [(f, v)]) g = (if g = f then Some v else json_field fs g)"
proof -
  have "map_of (filter (\<lambda>(k, _). k \<noteq> f) kvs) g = map_of kvs g" if "g \<noteq> f" for kvs :: "(string \<times> json) list"
    using that by (induction kvs) auto
  then show ?thesis by (auto simp: json_field_def rev_filter)
qed

lemma json_strings_JStr: "json_strings (map JStr ss) = Some ss"
  by (induction ss) auto

lemma add_uris_set:
  "set (add_uris f refs xs) \<subseteq> set xs \<union> Ref_Path ` set refs \<and> set xs \<subseteq> set (add_uris f refs xs)"
proof (induction refs arbitrary: xs)
  case (Cons r refs)
  show ?case using Cons.IH [of xs] Cons.IH [of "xs @ [Ref_Path r]"]
    by (auto simp: add_uris_def)
qed (simp add: add_uris_def)

text \<open>Listing references under a field adds no digest that was not one of them, and loses none.\<close>

lemma annotate_field_mentions:
  assumes valid: "\<And>r. r \<in> set refs \<Longrightarrow> is_digest (br_Digest r) \<and> list_all is_ext_char (br_Ext r)"
  shows "json_field (annotate_field refs f fs) g = json_field fs g \<or> g = f"
    and "field_mentions fs f \<subseteq> field_mentions (annotate_field refs f fs) f"
    and "field_mentions (annotate_field refs f fs) f \<subseteq> field_mentions fs f \<union> br_Digest ` set refs"
proof -
  show "json_field (annotate_field refs f fs) g = json_field fs g \<or> g = f"
    by (auto simp: annotate_field_def json_field_put Let_def split: option.splits)
  show "field_mentions fs f \<subseteq> field_mentions (annotate_field refs f fs) f"
    using add_uris_set [of f refs]
    by (auto simp: annotate_field_def field_mentions_def json_field_put Let_def unmarshal_strings_def
        json_strings_JStr split: option.splits)
  show "field_mentions (annotate_field refs f fs) f \<subseteq> field_mentions fs f \<union> br_Digest ` set refs"
  proof (cases "annotate_field refs f fs = fs")
    case False
    then obtain existing where
      ex: "(case json_field fs f of None \<Rightarrow> Some [] | Some j \<Rightarrow> unmarshal_strings (Some j)) = Some existing"
      and new: "json_field (annotate_field refs f fs) f = Some (JArr (map JStr (add_uris f refs existing)))"
      by (auto simp: annotate_field_def json_field_put Let_def split: option.splits if_splits)
    show ?thesis
    proof
      fix d
      assume "d \<in> field_mentions (annotate_field refs f fs) f"
      then obtain u where u: "u \<in> set (add_uris f refs existing)" and d: "mentioned d u"
        unfolding field_mentions_def new by (auto simp: unmarshal_strings_def json_strings_JStr)
      show "d \<in> field_mentions fs f \<union> br_Digest ` set refs"
      proof (cases "u \<in> set existing")
        case True
        then have "unmarshal_strings (json_field fs f) = Some existing"
          using ex by (auto split: option.splits)
        then show ?thesis using True d unfolding field_mentions_def by blast
      next
        case False
        then obtain r where "r \<in> set refs" "u = Ref_Path r" using u add_uris_set by blast
        then show ?thesis using d mentioned_Path valid by blast
      qed
    qed
  qed simp
qed

text \<open>Annotation changes what a record mentions by nothing: the references returned are exactly
  those of the metadata sent and of the metadata stored.\<close>

lemma annotate_mentions:
  "mentions (fst (annotateBlobRefs m)) = mentions m
   \<and> br_Digest ` set (snd (annotateBlobRefs m)) = mentions m"
proof (cases "\<exists>fs. unmarshal_map m = Some fs \<and> Refs (referenced_text fs) \<noteq> []")
  case False
  then have "mentions m = {}" by (auto simp: mentions_def simp flip: Refs_digests)
  moreover have "fst (annotateBlobRefs m) = m \<and> snd (annotateBlobRefs m) = []
      \<or> m = RawNil \<and> annotateBlobRefs m = (RawDoc (JObj []), [])"
    using False by (auto simp: annotateBlobRefs_def Let_def split: option.splits)
  moreover have "mentions (RawDoc (JObj [])) = {}"
    by (auto simp: mentions_def unmarshal_map_def mentioned_text field_mentions_def json_field_def
        unmarshal_string_def unmarshal_strings_def)
  ultimately show ?thesis by auto
next
  case True
  then obtain fs where fs: "unmarshal_map m = Some fs" and ne: "Refs (referenced_text fs) \<noteq> []" by blast
  let ?refs = "Refs (referenced_text fs)"
  let ?p = "annotate_field ?refs ''photo_uris'' fs"
  let ?v = "annotate_field ?refs ''video_uris'' ?p"
  have valid: "is_digest (br_Digest r) \<and> list_all is_ext_char (br_Ext r)" if "r \<in> set ?refs" for r
    using that dedup_refs_digests [of "[]" "find_refs True (referenced_text fs)"]
      find_refs_digest find_refs_ext unfolding Refs_def by blast
  have m: "mentions m = br_Digest ` set ?refs"
    using fs by (auto simp: mentions_def Refs_digests [symmetric])
  have a: "annotateBlobRefs m = (RawDoc (JObj ?v), ?refs)"
    using fs ne by (auto simp: annotateBlobRefs_def Let_def uri_fields_def unmarshal_map_def
        split: raw_message.splits json.splits)
  have "json_field ?p ''observations'' = json_field fs ''observations''"
    and "json_field ?p ''video_uris'' = json_field fs ''video_uris''"
    and "json_field ?v ''observations'' = json_field ?p ''observations''"
    and "json_field ?v ''photo_uris'' = json_field ?p ''photo_uris''"
    using annotate_field_mentions(1) [of ?refs, OF valid] by (simp, fastforce)+
  then have obs: "json_field ?v ''observations'' = json_field fs ''observations''"
    and fp: "field_mentions ?v ''photo_uris'' = field_mentions ?p ''photo_uris''"
    and fv: "field_mentions ?p ''video_uris'' = field_mentions fs ''video_uris''"
    by (simp_all add: field_mentions_def)
  have "mentioned d (referenced_text ?v) \<longleftrightarrow> mentioned d (referenced_text fs)" for d
  proof -
    have "d \<in> br_Digest ` set ?refs \<longleftrightarrow> mentioned d (referenced_text fs)" by (rule Refs_digests)
    then show ?thesis
      using annotate_field_mentions(2,3) [where refs = ?refs and f = "''photo_uris''" and fs = fs, OF valid]
        annotate_field_mentions(2,3) [where refs = ?refs and f = "''video_uris''" and fs = ?p, OF valid]
      unfolding mentioned_text obs uri_fields_def by (auto simp: fv fp)
  qed
  then have "mentions (RawDoc (JObj ?v)) = mentions m"
    using fs unfolding mentions_def unmarshal_map_def [of "RawDoc (JObj ?v)"] by simp
  then show ?thesis using a m by simp
qed

section \<open>Well-formed tables\<close>

text \<open>
  The constraints of the tables, and the one the code itself has to keep: a row of
  \<^verbatim>\<open>blob_ref\<close> for every blob a stored record mentions, and no row for a record that is gone.
\<close>

definition record_refs :: "evidence list \<Rightarrow> (digest \<times> uuid) set" where
  "record_refs es = (\<Union>e \<in> set es. mentions (ev_Metadata e) \<times> {ev_ID e})"

definition evidence_wf :: "evidence_db \<Rightarrow> bool" where
  "evidence_wf d \<longleftrightarrow>
     distinct (map ev_ID (ed_rows d))
     \<and> (\<forall>e \<in> set (ed_rows d). \<forall>e' \<in> set (ed_rows d).
          ev_ClientRecordID e \<noteq> None \<and> ev_ClientRecordID e = ev_ClientRecordID e' \<longrightarrow> e = e')
     \<and> (\<forall>e \<in> set (ed_rows d). text_ok (ev_Repo e) \<and> text_ok (ev_RCSRef e)
          \<and> EvidenceResult_Valid (ev_Result e) \<and> ValidEvidenceType (ev_EvidenceType e))
     \<and> record_refs (ed_rows d) \<subseteq> set (ed_blob_refs d) \<and> snd ` set (ed_blob_refs d) \<subseteq> ev_ID ` set (ed_rows d)
     \<and> distinct (ed_blob_refs d)"

text \<open>The tables without the statement counter.\<close>

definition tables :: "evidence_db \<Rightarrow> evidence_db" where
  "tables d = d\<lparr>ed_stmt := 0\<rparr>"

lemma tables_tick [simp]: "tables (tick d) = tables d"
  by (simp add: tables_def tick_def)

lemma tables_eq:
  "tables d = tables d' \<longleftrightarrow> ed_rows d = ed_rows d' \<and> ed_blob_refs d = ed_blob_refs d'
     \<and> ed_campaign_refs d = ed_campaign_refs d' \<and> ed_draft_refs d = ed_draft_refs d'
     \<and> ed_inheritance d = ed_inheritance d'"
  by (cases d; cases d') (auto simp: tables_def)

lemma evidence_wf_tables: "tables d = tables d' \<Longrightarrow> evidence_wf d = evidence_wf d'"
  by (auto simp: tables_eq evidence_wf_def)

lemma evidence_wf_tick [simp]: "evidence_wf (tick d) = evidence_wf d"
  by (rule evidence_wf_tables) simp

lemma tick_simps [simp]:
  "ed_rows (tick d) = ed_rows d" "ed_blob_refs (tick d) = ed_blob_refs d"
  "ed_campaign_refs (tick d) = ed_campaign_refs d" "ed_draft_refs (tick d) = ed_draft_refs d"
  "ed_inheritance (tick d) = ed_inheritance d" "ed_stmt (tick d) = Suc (ed_stmt d)"
  by (simp_all add: tick_def)

lemma recordBlobRefs_refs:
  assumes "recordBlobRefs fails i refs d = Inr d'"
  shows "ed_rows d' = ed_rows d" "ed_campaign_refs d' = ed_campaign_refs d"
    "ed_draft_refs d' = ed_draft_refs d" "ed_inheritance d' = ed_inheritance d"
    "set (ed_blob_refs d') = set (ed_blob_refs d) \<union> br_Digest ` set refs \<times> {i}"
    "distinct (ed_blob_refs d) \<Longrightarrow> distinct (ed_blob_refs d')"
proof -
  have "ed_rows d' = ed_rows d \<and> ed_campaign_refs d' = ed_campaign_refs d
    \<and> ed_draft_refs d' = ed_draft_refs d \<and> ed_inheritance d' = ed_inheritance d
    \<and> set (ed_blob_refs d') = set (ed_blob_refs d) \<union> br_Digest ` set refs \<times> {i}
    \<and> (distinct (ed_blob_refs d) \<longrightarrow> distinct (ed_blob_refs d'))"
    using assms
  proof (induction refs arbitrary: d)
    case (Cons r refs)
    let ?d = "(tick d)\<lparr>ed_blob_refs := (if (br_Digest r, i) \<in> set (ed_blob_refs d) then ed_blob_refs d
                                    else ed_blob_refs d @ [(br_Digest r, i)])\<rparr>"
    have "recordBlobRefs fails i refs ?d = Inr d'" using Cons.prems by (simp split: if_splits)
    from Cons.IH [OF this] show ?case by auto
  qed simp
  then show "ed_rows d' = ed_rows d" "ed_campaign_refs d' = ed_campaign_refs d"
    "ed_draft_refs d' = ed_draft_refs d" "ed_inheritance d' = ed_inheritance d"
    "set (ed_blob_refs d') = set (ed_blob_refs d) \<union> br_Digest ` set refs \<times> {i}"
    "distinct (ed_blob_refs d) \<Longrightarrow> distinct (ed_blob_refs d')"
    by blast+
qed

text \<open>One submission, when it succeeds: either a new row at the end with exactly the references
  it mentions, or the row its token already names and no change.\<close>

lemma insertOne_cases:
  assumes "insertOne fails parse new_id now e d = Inr (r, d')"
  obtains (filed) cid where
      "ir_Created r" "map_option parse (ec_ClientRecordID e) = map_option Some cid"
      "ir_Evidence r = evidence_row (new_id (ed_stmt d)) now cid (fst (annotateBlobRefs (ec_Metadata e))) e"
      "column_error e (fst (annotateBlobRefs (ec_Metadata e))) = None"
      "\<And>c. cid = Some c \<Longrightarrow> findByClientRecordID d c = None"
      "new_id (ed_stmt d) \<notin> ev_ID ` set (ed_rows d)"
      "recordBlobRefs fails (new_id (ed_stmt d)) (snd (annotateBlobRefs (ec_Metadata e)))
         ((tick d)\<lparr>ed_rows := ed_rows d @ [ir_Evidence r]\<rparr>) = Inr d'"
  | (repeated) s c where
      "\<not> ir_Created r" "ec_ClientRecordID e = Some s" "parse s = Some c"
      "findByClientRecordID d c = Some (ir_Evidence r)" "d' = tick (tick d)"
      "column_error e (fst (annotateBlobRefs (ec_Metadata e))) = None"
proof -
  obtain m refs where a: "annotateBlobRefs (ec_Metadata e) = (m, refs)" by fastforce
  obtain cid where cid: "(case ec_ClientRecordID e of None \<Rightarrow> Inr None
      | Some s \<Rightarrow> (case parse s of None \<Rightarrow> Inl (BadClientRecordID s) | Some u \<Rightarrow> Inr (Some u))) = Inr cid"
    using assms unfolding insertOne_def a Let_def by (auto split: sum.splits)
  have cid': "map_option parse (ec_ClientRecordID e) = map_option Some cid"
    using cid by (cases "ec_ClientRecordID e"; cases "parse (the (ec_ClientRecordID e))") auto
  have ce: "column_error e m = None"
    using assms unfolding insertOne_def a Let_def prod.case cid by (auto split: if_splits option.splits)
  show thesis
  proof (cases "cid \<noteq> None \<and> findByClientRecordID d (the cid) \<noteq> None")
    case True
    then obtain c ev where c: "cid = Some c" "findByClientRecordID d c = Some ev" by auto
    from cid c(1) obtain s where s: "ec_ClientRecordID e = Some s" "parse s = Some c"
      by (auto split: option.splits)
    have "r = \<lparr>ir_Evidence = ev, ir_Created = False\<rparr>" "d' = tick (tick d)"
      using assms unfolding insertOne_def a Let_def prod.case cid ce by (auto simp: c split: if_splits)
    then show thesis using repeated [of s c] s c ce a by simp
  next
    case False
    let ?row = "evidence_row (new_id (ed_stmt d)) now cid m e"
    have "new_id (ed_stmt d) \<notin> ev_ID ` set (ed_rows d)" "r = \<lparr>ir_Evidence = ?row, ir_Created = True\<rparr>"
      "recordBlobRefs fails (new_id (ed_stmt d)) refs ((tick d)\<lparr>ed_rows := ed_rows d @ [?row]\<rparr>) = Inr d'"
      using assms False unfolding insertOne_def a Let_def prod.case cid ce
      by (auto split: if_splits sum.splits)
    moreover have "findByClientRecordID d c = None" if "cid = Some c" for c using False that by auto
    ultimately show thesis by (intro filed [of cid]) (use cid' ce a in auto)
  qed
qed

lemma findByClientRecordID_iff:
  assumes "evidence_wf d"
  shows "findByClientRecordID d c = Some e \<longleftrightarrow> e \<in> set (ed_rows d) \<and> ev_ClientRecordID e = Some c"
proof
  assume "findByClientRecordID d c = Some e"
  then show "e \<in> set (ed_rows d) \<and> ev_ClientRecordID e = Some c"
    unfolding findByClientRecordID_def by (rule find_SomeD)
next
  assume e: "e \<in> set (ed_rows d) \<and> ev_ClientRecordID e = Some c"
  then have "findByClientRecordID d c \<noteq> None"
    unfolding findByClientRecordID_def find_None_iff_list by blast
  then obtain e' where e': "findByClientRecordID d c = Some e'" by blast
  then have "e' \<in> set (ed_rows d)" "ev_ClientRecordID e' = Some c"
    unfolding findByClientRecordID_def by (auto dest: find_SomeD)
  moreover have "x = y" if "x \<in> set (ed_rows d)" "y \<in> set (ed_rows d)"
      "ev_ClientRecordID x = Some c" "ev_ClientRecordID y = Some c" for x y
    using assms that unfolding evidence_wf_def by simp
  ultimately have "e' = e" using e by blast
  then show "findByClientRecordID d c = Some e" using e' by simp
qed

lemma column_error_None:
  "column_error e m = None \<Longrightarrow> text_ok (ec_Repo e) \<and> text_ok (ec_RCSRef e)
     \<and> EvidenceResult_Valid (ec_Result e) \<and> ValidEvidenceType (ec_EvidenceType e)"
  by (simp add: column_error_def split: if_splits)

text \<open>The record a result names answers the submission: it carries its token, and where it is
  new, its contents.\<close>

definition answers :: "(string \<Rightarrow> uuid option) \<Rightarrow> evidence_create \<Rightarrow> insert_result \<Rightarrow> bool" where
  "answers parse e r \<longleftrightarrow>
     map_option parse (ec_ClientRecordID e) = map_option Some (ev_ClientRecordID (ir_Evidence r))
     \<and> (ir_Created r \<longrightarrow>
          ir_Evidence r = evidence_row (ev_ID (ir_Evidence r)) (ev_IngestedAt (ir_Evidence r))
            (ev_ClientRecordID (ir_Evidence r)) (fst (annotateBlobRefs (ec_Metadata e))) e)"

lemma record_refs_append [simp]: "record_refs (es @ fs) = record_refs es \<union> record_refs fs"
  by (auto simp: record_refs_def)

lemma record_refs_Nil [simp]: "record_refs [] = {}"
  by (simp add: record_refs_def)

lemma insertOne_refs:
  assumes "insertOne fails parse new_id now e d = Inr (r, d')"
  shows "set (ed_blob_refs d') = set (ed_blob_refs d) \<union> record_refs (if ir_Created r then [ir_Evidence r] else [])"
    "ed_campaign_refs d' = ed_campaign_refs d" "ed_draft_refs d' = ed_draft_refs d"
    "ed_inheritance d' = ed_inheritance d"
proof -
  have "set (ed_blob_refs d') = set (ed_blob_refs d) \<union> record_refs (if ir_Created r then [ir_Evidence r] else [])
    \<and> ed_campaign_refs d' = ed_campaign_refs d \<and> ed_draft_refs d' = ed_draft_refs d
    \<and> ed_inheritance d' = ed_inheritance d"
    using assms
  proof (cases rule: insertOne_cases)
    case (repeated s c)
    then show ?thesis by simp
  next
    case (filed cid)
    note rec = recordBlobRefs_refs [OF filed(7)]
    have "ev_ID (ir_Evidence r) = new_id (ed_stmt d)"
      "mentions (ev_Metadata (ir_Evidence r)) = br_Digest ` set (snd (annotateBlobRefs (ec_Metadata e)))"
      unfolding filed(3) using annotate_mentions [of "ec_Metadata e"] by (simp_all add: evidence_row_def)
    then show ?thesis using rec filed(1) by (simp add: record_refs_def)
  qed
  then show "set (ed_blob_refs d') = set (ed_blob_refs d) \<union> record_refs (if ir_Created r then [ir_Evidence r] else [])"
    "ed_campaign_refs d' = ed_campaign_refs d" "ed_draft_refs d' = ed_draft_refs d"
    "ed_inheritance d' = ed_inheritance d" by blast+
qed

lemma insertOne_wf:
  assumes wf: "evidence_wf d" and ins: "insertOne fails parse new_id now e d = Inr (r, d')"
  shows "evidence_wf d'"
    and "ed_rows d' = ed_rows d @ (if ir_Created r then [ir_Evidence r] else [])"
    and "ir_Evidence r \<in> set (ed_rows d')" and "answers parse e r"
    and "\<not> ir_Created r \<Longrightarrow> tables d' = tables d"
    and "column_error e (fst (annotateBlobRefs (ec_Metadata e))) = None"
proof -
  let ?m = "fst (annotateBlobRefs (ec_Metadata e))"
  have "evidence_wf d' \<and> ed_rows d' = ed_rows d @ (if ir_Created r then [ir_Evidence r] else [])
     \<and> ir_Evidence r \<in> set (ed_rows d') \<and> answers parse e r \<and> (\<not> ir_Created r \<longrightarrow> tables d' = tables d)
     \<and> column_error e ?m = None"
    using ins
  proof (cases rule: insertOne_cases)
    case (repeated s c)
    have "ir_Evidence r \<in> set (ed_rows d)" "ev_ClientRecordID (ir_Evidence r) = Some c"
      using repeated(4) findByClientRecordID_iff [OF wf] by auto
    moreover have "evidence_wf d'" using wf evidence_wf_tables [of d' d] repeated(5) by simp
    ultimately show ?thesis using repeated by (simp add: answers_def)
  next
    case (filed cid)
    note rec = recordBlobRefs_refs [OF filed(7)]
    have row: "ev_ID (ir_Evidence r) = new_id (ed_stmt d)" "ev_ClientRecordID (ir_Evidence r) = cid"
        "ev_Metadata (ir_Evidence r) = ?m" "ev_Repo (ir_Evidence r) = ec_Repo e"
        "ev_RCSRef (ir_Evidence r) = ec_RCSRef e" "ev_Result (ir_Evidence r) = ec_Result e"
        "ev_EvidenceType (ir_Evidence r) = ec_EvidenceType e"
      unfolding filed(3) by (simp_all add: evidence_row_def)
    have rows: "ed_rows d' = ed_rows d @ [ir_Evidence r]" using rec(1) by simp
    have fresh: "ev_ClientRecordID x \<noteq> cid" if "x \<in> set (ed_rows d)" "cid \<noteq> None" for x
      using that filed(5) findByClientRecordID_iff [OF wf] by (metis not_None_eq option.distinct(1))
    have refs: "set (ed_blob_refs d') = set (ed_blob_refs d) \<union> record_refs [ir_Evidence r]"
      using insertOne_refs(1) [OF ins] filed(1) by simp
    have "evidence_wf d'"
      unfolding evidence_wf_def
    proof (intro conjI)
      show "distinct (map ev_ID (ed_rows d'))" using wf filed(6) row(1) by (simp add: rows evidence_wf_def)
      show "\<forall>x \<in> set (ed_rows d'). \<forall>y \<in> set (ed_rows d').
          ev_ClientRecordID x \<noteq> None \<and> ev_ClientRecordID x = ev_ClientRecordID y \<longrightarrow> x = y"
        using wf fresh row(2) unfolding rows evidence_wf_def by (metis Un_iff empty_iff empty_set list.set_intros(1) set_ConsD set_append)
      show "\<forall>x \<in> set (ed_rows d'). text_ok (ev_Repo x) \<and> text_ok (ev_RCSRef x)
          \<and> EvidenceResult_Valid (ev_Result x) \<and> ValidEvidenceType (ev_EvidenceType x)"
        using wf column_error_None [OF filed(4)] row unfolding rows evidence_wf_def by simp
      show "record_refs (ed_rows d') \<subseteq> set (ed_blob_refs d')"
        using wf unfolding rows refs evidence_wf_def by auto
      show "snd ` set (ed_blob_refs d') \<subseteq> ev_ID ` set (ed_rows d')"
        using wf unfolding rows refs evidence_wf_def by (auto simp: record_refs_def)
      show "distinct (ed_blob_refs d')" using rec(6) wf by (simp add: evidence_wf_def)
    qed
    moreover have "answers parse e r" using filed(2,3) row by (simp add: answers_def) (simp add: evidence_row_def)
    ultimately show ?thesis using filed(1,4) rows by simp
  qed
  then show "evidence_wf d'"
    and "ed_rows d' = ed_rows d @ (if ir_Created r then [ir_Evidence r] else [])"
    and "ir_Evidence r \<in> set (ed_rows d')" and "answers parse e r"
    and "\<not> ir_Created r \<Longrightarrow> tables d' = tables d" and "column_error e ?m = None"
    by blast+
qed

lemma insert_all_wf:
  assumes "evidence_wf d" and "insert_all fails parse new_id now es d = Inr (rs, d')"
  shows "evidence_wf d' \<and> list_all2 (answers parse) es rs
    \<and> ed_rows d' = ed_rows d @ map ir_Evidence (filter ir_Created rs)
    \<and> ir_Evidence ` set rs \<subseteq> set (ed_rows d')
    \<and> set (ed_blob_refs d') = set (ed_blob_refs d) \<union> record_refs (map ir_Evidence (filter ir_Created rs))
    \<and> (filter ir_Created rs = [] \<longrightarrow> tables d' = tables d)
    \<and> (\<forall>e \<in> set es. column_error e (fst (annotateBlobRefs (ec_Metadata e))) = None)"
  using assms
proof (induction es arbitrary: d rs)
  case (Cons e es)
  from Cons.prems(2) obtain r d1 rs' where one: "insertOne fails parse new_id now e d = Inr (r, d1)"
    and rest: "insert_all fails parse new_id now es d1 = Inr (rs', d')" and rs: "rs = r # rs'"
    by (auto split: sum.splits)
  note w = insertOne_wf [OF Cons.prems(1) one]
  from Cons.IH [OF w(1) rest] w insertOne_refs(1) [OF one] show ?case by (auto simp: rs record_refs_def)
qed simp

lemma in_tx_cases:
  assumes "in_tx fails body d = (res, d')"
  obtains (rolled_back) err where "res = Inl err" "d' = tick d"
  | (committed) x d1 where "res = Inr x" "body (tick d) = Inr (x, d1)" "d' = tick d1"
  using assms unfolding in_tx_def by (auto split: if_splits sum.splits)

lemma InsertBatch_wf:
  assumes "evidence_wf d"
  shows "evidence_wf (snd (InsertBatch fails parse new_id now es d))"
proof -
  obtain res d' where run: "in_tx fails (insert_all fails parse new_id now es) d = (res, d')" by fastforce
  have tick: "evidence_wf (tick x) = evidence_wf x" for x by (rule evidence_wf_tables) simp
  from run have "evidence_wf d'"
  proof (cases rule: in_tx_cases)
    case (committed rs d1)
    have "evidence_wf d1" using insert_all_wf [OF _ committed(2)] assms tick by blast
    then show ?thesis using committed(3) tick by simp
  qed (use assms tick in simp)
  then show ?thesis using run by (simp add: InsertBatch_def)
qed

lemma in_tx_no_failure:
  "(\<And>n. \<not> fails n) \<Longrightarrow> body (tick d) = Inr (x, d1) \<Longrightarrow> in_tx fails body d = (Inr x, tick d1)"
  by (simp add: in_tx_def)

lemma insert_all_resent:
  assumes "\<And>n. \<not> fails n" and "evidence_wf d" and "list_all2 (answers parse) es rs"
    and "ir_Evidence ` set rs \<subseteq> set (ed_rows d)"
    and "\<forall>e \<in> set es. ec_ClientRecordID e \<noteq> None
           \<and> column_error e (fst (annotateBlobRefs (ec_Metadata e))) = None"
  shows "\<exists>d'. insert_all fails parse new_id now es d = Inr (map (\<lambda>r. r\<lparr>ir_Created := False\<rparr>) rs, d')
           \<and> tables d' = tables d"
  using assms(2-)
proof (induction es arbitrary: rs d)
  case (Cons e es)
  from Cons.prems(2) obtain r rs' where rs: "rs = r # rs'" and r: "answers parse e r"
    and rest: "list_all2 (answers parse) es rs'" by (auto simp: list_all2_Cons1)
  from Cons.prems(4) obtain s where s: "ec_ClientRecordID e = Some s" by auto
  from r s obtain c where c: "parse s = Some c" "ev_ClientRecordID (ir_Evidence r) = Some c"
    unfolding answers_def by (cases "ev_ClientRecordID (ir_Evidence r)") auto
  have f: "findByClientRecordID d c = Some (ir_Evidence r)"
    using c(2) Cons.prems(1,3) findByClientRecordID_iff rs by auto
  have one: "insertOne fails parse new_id now e d = Inr (r\<lparr>ir_Created := False\<rparr>, tick (tick d))"
    using Cons.prems(4) assms(1) s c(1) f
    by (cases "annotateBlobRefs (ec_Metadata e)") (simp add: insertOne_def)
  have "evidence_wf (tick (tick d))" using Cons.prems(1) evidence_wf_tables by (metis tables_tick)
  from Cons.IH [OF this rest] Cons.prems(3,4) rs one show ?case by auto
qed simp

text \<open>
  C1. A batch is filed as a whole or not at all. From well-formed tables, whatever statement
  fails, the tables stay well-formed: identifiers and client tokens unique, every value one its
  column accepts, and a reference row for every blob a stored record mentions. A batch
  that fails changes nothing. One that succeeds answers every submission, in order, with a
  stored record that carries its token and, where the call created it, its contents; the records
  it reports as created are exactly the ones added, and exactly the blobs they mention gain a
  reference row.
\<close>

theorem InsertBatch_atomic:
  assumes "evidence_wf d" and "InsertBatch fails parse new_id now es d = (res, d')"
  shows "evidence_wf d' \<and>
    (case res of
       Inl err \<Rightarrow> tables d' = tables d
     | Inr rs \<Rightarrow> list_all2 (answers parse) es rs
         \<and> ed_rows d' = ed_rows d @ map ir_Evidence (filter ir_Created rs)
         \<and> ir_Evidence ` set rs \<subseteq> set (ed_rows d')
         \<and> set (ed_blob_refs d') = set (ed_blob_refs d) \<union> record_refs (map ir_Evidence (filter ir_Created rs))
         \<and> (filter ir_Created rs = [] \<longrightarrow> tables d' = tables d))"
  using assms(2) unfolding InsertBatch_def
proof (cases rule: in_tx_cases)
  case (rolled_back err)
  then show ?thesis using assms(1) evidence_wf_tables [of d' d] by simp
next
  case (committed rs d1)
  have "evidence_wf (tick d)" using assms(1) evidence_wf_tables [of "tick d" d] by simp
  note w = insert_all_wf [OF this committed(2), unfolded tick_simps tables_tick]
  have e: "tables d' = tables d1" "ed_rows d' = ed_rows d1" "ed_blob_refs d' = ed_blob_refs d1"
    using committed(3) by simp_all
  show ?thesis using w evidence_wf_tables [OF e(1)] unfolding committed(1) sum.case e by blast
qed

text \<open>
  C26. Sending a batch again files nothing twice. When a batch whose records carry client tokens
  has been filed, and is sent once more to tables that still hold those records, whatever has
  been added since, every submission is answered with the very record it became, reported as
  not created, and the tables do not change.
\<close>

theorem resent_batch_is_duplicate:
  assumes "evidence_wf d" and "InsertBatch fails parse new_id now es d = (Inr rs, d1)"
    and "\<forall>e \<in> set es. ec_ClientRecordID e \<noteq> None"
    and "evidence_wf d2" and "set (ed_rows d1) \<subseteq> set (ed_rows d2)" and "\<forall>n. \<not> fails' n"
  shows "\<exists>d3. InsertBatch fails' parse new_id' now' es d2 = (Inr (map (\<lambda>r. r\<lparr>ir_Created := False\<rparr>) rs), d3)
    \<and> tables d3 = tables d2"
  using assms(2) unfolding InsertBatch_def
proof (cases rule: in_tx_cases)
  case (committed rs' d')
  have "evidence_wf (tick d)" using assms(1) evidence_wf_tables [of "tick d" d] by simp
  note w = insert_all_wf [OF this committed(2)]
  have "evidence_wf (tick d2)" using assms(4) evidence_wf_tables [of "tick d2" d2] by simp
  moreover have "ir_Evidence ` set rs' \<subseteq> set (ed_rows (tick d2))"
  proof -
    have "ir_Evidence ` set rs' \<subseteq> set (ed_rows d')" using w by (elim conjE)
    also have "\<dots> \<subseteq> set (ed_rows (tick d2))" using assms(5) unfolding committed(3) tick_simps .
    finally show ?thesis .
  qed
  ultimately obtain d3 where d3: "insert_all fails' parse new_id' now' es (tick d2)
      = Inr (map (\<lambda>r. r\<lparr>ir_Created := False\<rparr>) rs', d3)" "tables d3 = tables (tick d2)"
    using insert_all_resent [of fails' "tick d2" parse es rs' new_id' now'] assms(3,6) w by auto
  have "in_tx fails' (insert_all fails' parse new_id' now' es) d2
      = (Inr (map (\<lambda>r. r\<lparr>ir_Created := False\<rparr>) rs'), tick d3)"
    using in_tx_no_failure [of fails' "insert_all fails' parse new_id' now' es" d2, OF _ d3(1)] assms(6) by blast
  then show "\<exists>d3. in_tx fails' (insert_all fails' parse new_id' now' es) d2
      = (Inr (map (\<lambda>r. r\<lparr>ir_Created := False\<rparr>) rs), d3) \<and> tables d3 = tables d2"
    using committed(1) d3(2) by simp
qed simp

subsection \<open>A small table\<close>

definition no_evidence :: evidence_db where
  "no_evidence = \<lparr>ed_rows = [], ed_blob_refs = [], ed_campaign_refs = [], ed_draft_refs = [],
     ed_inheritance = [], ed_stmt = 0\<rparr>"

definition demo_log :: raw_message where
  "demo_log = RawDoc (JObj [(''observations'',
     JStr (''seen '' @ Ref_Path \<lparr>br_Digest = demo_digest, br_Ext = ''png''\<rparr>))])"

definition demo_submission :: "string option \<Rightarrow> evidence_create" where
  "demo_submission tok = \<lparr>ec_ClientRecordID = tok, ec_Repo = ''org/fw'', ec_Branch = ''main'',
     ec_RCSRef = ''abc'', ec_ProcedureRef = ''//pkg:t'', ec_EvidenceType = TypeManualTest,
     ec_Source = ''ann'', ec_Result = ResultPass, ec_FinishedAt = 5000000, ec_Metadata = demo_log\<rparr>"

text \<open>Tokens of one character stand for identifiers.\<close>

definition demo_parse :: "string \<Rightarrow> uuid option" where
  "demo_parse s = (case s of [c] \<Rightarrow> Some (of_char c) | _ \<Rightarrow> None)"

lemma no_evidence_wf: "evidence_wf no_evidence"
  by (simp add: evidence_wf_def no_evidence_def)

theorem InsertBatch_atomic_witness:
  "\<exists>d. InsertBatch (\<lambda>n. n = 3) demo_parse (\<lambda>n. 100 + n) 7
       [demo_submission (Some ''a''), demo_submission None] no_evidence = (Inl StatementFailed, d)
     \<and> evidence_wf d \<and> tables d = tables no_evidence"
proof -
  let ?run = "InsertBatch (\<lambda>n. n = 3) demo_parse (\<lambda>n. 100 + n) 7
       [demo_submission (Some ''a''), demo_submission None] no_evidence"
  have "fst ?run = Inl StatementFailed" by code_simp
  then obtain d where d: "?run = (Inl StatementFailed, d)" by (cases ?run) auto
  show ?thesis using InsertBatch_atomic [OF no_evidence_wf d] d by auto
qed

theorem resent_batch_is_duplicate_witness:
  "\<exists>rs d d3. InsertBatch (\<lambda>n. False) demo_parse (\<lambda>n. 100 + n) 7 [demo_submission (Some ''a'')] no_evidence = (Inr rs, d)
     \<and> InsertBatch (\<lambda>n. False) demo_parse (\<lambda>n. 200 + n) 9 [demo_submission (Some ''a'')] d
         = (Inr (map (\<lambda>r. r\<lparr>ir_Created := False\<rparr>) rs), d3) \<and> tables d3 = tables d"
proof -
  let ?run = "InsertBatch (\<lambda>n. False) demo_parse (\<lambda>n. 100 + n) 7 [demo_submission (Some ''a'')] no_evidence"
  have "\<not> isl (fst ?run)" by code_simp
  then obtain rs d where run: "?run = (Inr rs, d)" by (cases ?run; cases "fst ?run") auto
  have "evidence_wf d" using InsertBatch_wf [OF no_evidence_wf] run by (metis snd_conv)
  with resent_batch_is_duplicate [OF no_evidence_wf run, of d "\<lambda>n. False" "\<lambda>n. 200 + n" 9] run
  show ?thesis by (auto simp: demo_submission_def)
qed

section \<open>Deleting keeps the tables well-formed\<close>

lemma DeleteBatch_wf:
  assumes "evidence_wf d"
  shows "evidence_wf (snd (DeleteBatch fails ids d))"
proof (cases "ids = [] \<or> fails (ed_stmt d)")
  case True
  then have "tables (snd (DeleteBatch fails ids d)) = tables d" by (auto simp: DeleteBatch_def)
  then show ?thesis using assms evidence_wf_tables by blast
next
  case False
  have "distinct (map ev_ID (filter (\<lambda>e. ev_ID e \<notin> set ids) (ed_rows d)))"
    using assms by (simp add: evidence_wf_def distinct_map_filter)
  moreover have "record_refs (filter (\<lambda>e. ev_ID e \<notin> set ids) (ed_rows d))
      \<subseteq> set (filter (\<lambda>(_, i). i \<notin> set ids) (ed_blob_refs d))"
    using assms by (auto simp: evidence_wf_def record_refs_def)
  moreover have "snd ` set (filter (\<lambda>(_, i). i \<notin> set ids) (ed_blob_refs d))
      \<subseteq> ev_ID ` set (filter (\<lambda>e. ev_ID e \<notin> set ids) (ed_rows d))"
    using assms by (force simp: evidence_wf_def)
  ultimately show ?thesis using assms False by (simp add: DeleteBatch_def evidence_wf_def) blast
qed

lemma DeleteBatch_rows:
  "\<not> fails (ed_stmt d) \<Longrightarrow>
     ed_rows (snd (DeleteBatch fails ids d)) = filter (\<lambda>e. ev_ID e \<notin> set ids) (ed_rows d)
     \<and> fst (DeleteBatch fails ids d) = Inr (length (filter (\<lambda>e. ev_ID e \<in> set ids) (ed_rows d)))"
  by (simp add: DeleteBatch_def)

end
