(* ===== verification/Evidence_Query.thy ===== *)
theory Evidence_Query
  imports Evidence_Store "HOL-Library.List_Lexorder"
begin

text \<open>
  Reading the evidence table: the filter of \<^verbatim>\<open>internal/store/filter.go\<close> as a list of SQL
  conditions over numbered arguments, the sort orders, the pages of
  \<^verbatim>\<open>EvidenceStore.List\<close>, \<^verbatim>\<open>Distinct\<close> and \<^verbatim>\<open>ScanAll\<close>. What the database brings of its own
  is an argument: regular expressions, the text of a JSON value, lower case and collation.
\<close>

record database =
  pg_regex :: "string \<Rightarrow> string \<Rightarrow> bool option"
  pg_text :: "json \<Rightarrow> string"
  pg_lower :: "string \<Rightarrow> string"
  pg_collate :: "string \<Rightarrow> nat list"

section \<open>Conditions\<close>

record evidence_filter =
  ef_Repo :: "string option"
  ef_RCSRef :: "string option"
  ef_Branch :: "string option"
  ef_Ref :: "string option"
  ef_EvidenceType :: "string option"
  ef_Result :: "string list"
  ef_Source :: "string option"
  ef_ProcedureRef :: "string option"
  ef_FinishedAfter :: "instant option"
  ef_FinishedBefore :: "instant option"
  ef_Tags :: "string list"
  ef_Notes :: "string option"

definition no_filter :: evidence_filter where
  "no_filter = \<lparr>ef_Repo = None, ef_RCSRef = None, ef_Branch = None, ef_Ref = None,
     ef_EvidenceType = None, ef_Result = [], ef_Source = None, ef_ProcedureRef = None,
     ef_FinishedAfter = None, ef_FinishedBefore = None, ef_Tags = [], ef_Notes = None\<rparr>"

text \<open>A bound argument, and a condition; the numbers in a condition are the placeholders
  \<^verbatim>\<open>$1\<close>, \<^verbatim>\<open>$2\<close> and so on.\<close>

datatype sql_value = VText string | VTime instant | VUuid uuid | VTexts "string list"

datatype sql_cond =
    Matches string nat
  | Equals string nat
  | Like string nat
  | EitherMatches nat
  | EitherRef nat nat
  | ResultIn "nat list"
  | FinishedFrom nat
  | FinishedUntil nat
  | SomeTagMatches nat
  | TagsContain nat
  | NotesMatch nat
  | NotesEqual nat
  | AfterPosition nat nat

record sql_filter =
  sf_where :: "sql_cond list"
  sf_args :: "sql_value list"

definition sql_arg :: "sql_value \<Rightarrow> sql_filter \<Rightarrow> nat \<times> sql_filter" where
  "sql_arg v f = (Suc (length (sf_args f)), f\<lparr>sf_args := sf_args f @ [v]\<rparr>)"

definition sql_add :: "sql_cond \<Rightarrow> sql_filter \<Rightarrow> sql_filter" where
  "sql_add c f = f\<lparr>sf_where := sf_where f @ [c]\<rparr>"

text \<open>A condition with one argument.\<close>

definition sql_bind :: "(nat \<Rightarrow> sql_cond) \<Rightarrow> sql_value \<Rightarrow> sql_filter \<Rightarrow> sql_filter" where
  "sql_bind c v f = (let (n, f') = sql_arg v f in sql_add (c n) f')"

definition textFilter :: "string \<Rightarrow> string option \<Rightarrow> sql_filter \<Rightarrow> sql_filter" where
  "textFilter column v f = (case v of
      None \<Rightarrow> f
    | Some val \<Rightarrow>
        if has_prefix val ''~'' then sql_bind (Matches column) (VText (drop 1 val)) f
        else sql_bind (Equals column) (VText val) f)"

definition procedureFilter :: "string option \<Rightarrow> sql_filter \<Rightarrow> sql_filter" where
  "procedureFilter v f = (case v of
      None \<Rightarrow> f
    | Some val \<Rightarrow>
        if has_prefix val ''~'' then sql_bind (Matches ''procedure_ref'') (VText (drop 1 val)) f
        else if has_suffix val ''*'' then sql_bind (Like ''procedure_ref'') (VText (butlast val @ ''%'')) f
        else sql_bind (Equals ''procedure_ref'') (VText val) f)"

definition refFilter :: "string option \<Rightarrow> sql_filter \<Rightarrow> sql_filter" where
  "refFilter v f = (case v of
      None \<Rightarrow> f
    | Some val \<Rightarrow>
        if has_prefix val ''~'' then sql_bind EitherMatches (VText (drop 1 val)) f
        else let (exact, f1) = sql_arg (VText val) f; (pre, f2) = sql_arg (VText (val @ ''%'')) f1
             in sql_add (EitherRef exact pre) f2)"

fun sql_args :: "sql_value list \<Rightarrow> sql_filter \<Rightarrow> nat list \<times> sql_filter" where
  "sql_args [] f = ([], f)"
| "sql_args (v # vs) f = (let (n, f1) = sql_arg v f; (ns, f2) = sql_args vs f1 in (n # ns, f2))"

definition resultFilter :: "string list \<Rightarrow> sql_filter \<Rightarrow> sql_filter" where
  "resultFilter rs f =
     (if rs = [] then f else let (ns, f') = sql_args (map VText rs) f in sql_add (ResultIn ns) f')"

definition timeFilter :: "(nat \<Rightarrow> sql_cond) \<Rightarrow> instant option \<Rightarrow> sql_filter \<Rightarrow> sql_filter" where
  "timeFilter c v f = (case v of None \<Rightarrow> f | Some t \<Rightarrow> sql_bind c (VTime t) f)"

definition trim_tilde :: "string \<Rightarrow> string" where
  "trim_tilde t = (if has_prefix t ''~'' then drop 1 t else t)"

definition tagsFilter :: "string list \<Rightarrow> sql_filter \<Rightarrow> sql_filter" where
  "tagsFilter tags f = (case tags of
      [] \<Rightarrow> f
    | t # _ \<Rightarrow>
        if has_prefix t ''~''
        then fold (\<lambda>t. sql_bind SomeTagMatches (VText (trim_tilde t))) tags f
        else sql_bind TagsContain (VTexts tags) f)"

definition notesFilter :: "string option \<Rightarrow> sql_filter \<Rightarrow> sql_filter" where
  "notesFilter v f = (case v of
      None \<Rightarrow> f
    | Some val \<Rightarrow>
        if has_prefix val ''~'' then sql_bind NotesMatch (VText (drop 1 val)) f
        else sql_bind NotesEqual (VText val) f)"

definition buildFilter :: "evidence_filter \<Rightarrow> sql_filter" where
  "buildFilter flt =
     (notesFilter (ef_Notes flt) \<circ> tagsFilter (ef_Tags flt)
      \<circ> timeFilter FinishedUntil (ef_FinishedBefore flt) \<circ> timeFilter FinishedFrom (ef_FinishedAfter flt)
      \<circ> resultFilter (ef_Result flt) \<circ> refFilter (ef_Ref flt) \<circ> procedureFilter (ef_ProcedureRef flt)
      \<circ> textFilter ''source'' (ef_Source flt) \<circ> textFilter ''evidence_type'' (ef_EvidenceType flt)
      \<circ> textFilter ''branch'' (ef_Branch flt) \<circ> textFilter ''rcs_ref'' (ef_RCSRef flt)
      \<circ> textFilter ''repo'' (ef_Repo flt)) \<lparr>sf_where = [], sf_args = []\<rparr>"

text \<open>The position a page continues from.\<close>

record cursor =
  cu_IngestedAt :: instant
  cu_ID :: uuid

definition cursorFilter :: "cursor option \<Rightarrow> sql_filter \<Rightarrow> sql_filter" where
  "cursorFilter c f = (case c of
      None \<Rightarrow> f
    | Some c \<Rightarrow>
        let (n, f1) = sql_arg (VTime (cu_IngestedAt c)) f; (m, f2) = sql_arg (VUuid (cu_ID c)) f1
        in sql_add (AfterPosition n m) f2)"

section \<open>What a condition means\<close>

text \<open>The pattern of \<^verbatim>\<open>LIKE\<close>, byte by byte: a percent sign is any text, an underscore any one
  character, a backslash takes the next character literally; a backslash at the end is an error.\<close>

fun like :: "string \<Rightarrow> string \<Rightarrow> bool option" where
  "like [] s = Some (s = [])"
| "like (p # ps) s =
     (if p = CHR ''%'' then
        (case like ps s of
           Some True \<Rightarrow> Some True
         | Some False \<Rightarrow> (case s of [] \<Rightarrow> Some False | _ # t \<Rightarrow> like (p # ps) t)
         | None \<Rightarrow> None)
      else if p = CHR ''_'' then (case s of [] \<Rightarrow> Some False | _ # t \<Rightarrow> like ps t)
      else if p = CHR 0x5C then
        (case ps of [] \<Rightarrow> None
         | q # qs \<Rightarrow> (case s of [] \<Rightarrow> Some False | c # t \<Rightarrow> if c = q then like qs t else Some False))
      else (case s of [] \<Rightarrow> Some False | c # t \<Rightarrow> if c = p then like ps t else Some False))"

definition text_column :: "string \<Rightarrow> evidence \<Rightarrow> string option" where
  "text_column column e = map_of
     [(''repo'', ev_Repo e), (''rcs_ref'', ev_RCSRef e), (''branch'', ev_Branch e),
      (''evidence_type'', ev_EvidenceType e), (''source'', ev_Source e),
      (''procedure_ref'', ev_ProcedureRef e)] column"

definition metadata_field :: "evidence \<Rightarrow> string \<Rightarrow> json option" where
  "metadata_field e k = (case ev_Metadata e of RawDoc (JObj fs) \<Rightarrow> json_field fs k | _ \<Rightarrow> None)"

text \<open>A field as text: SQL's null for a field that is absent or null.\<close>

definition field_text :: "database \<Rightarrow> json \<Rightarrow> string option" where
  "field_text pg j = (case j of JNull \<Rightarrow> None | JStr s \<Rightarrow> Some s | _ \<Rightarrow> Some (pg_text pg j))"

definition notes_text :: "database \<Rightarrow> evidence \<Rightarrow> string option" where
  "notes_text pg e = Option.bind (metadata_field e ''notes'') (field_text pg)"

definition bound_text :: "sql_value list \<Rightarrow> nat \<Rightarrow> string option" where
  "bound_text args n = (if 1 \<le> n \<and> n \<le> length args
     then (case args ! (n - 1) of VText s \<Rightarrow> Some s | _ \<Rightarrow> None) else None)"

definition bound_texts :: "sql_value list \<Rightarrow> nat \<Rightarrow> string list option" where
  "bound_texts args n = (if 1 \<le> n \<and> n \<le> length args
     then (case args ! (n - 1) of VTexts ss \<Rightarrow> Some ss | _ \<Rightarrow> None) else None)"

definition bound_time :: "sql_value list \<Rightarrow> nat \<Rightarrow> instant option" where
  "bound_time args n = (if 1 \<le> n \<and> n \<le> length args
     then (case args ! (n - 1) of VTime t \<Rightarrow> Some t | _ \<Rightarrow> None) else None)"

definition bound_uuid :: "sql_value list \<Rightarrow> nat \<Rightarrow> uuid option" where
  "bound_uuid args n = (if 1 \<le> n \<and> n \<le> length args
     then (case args ! (n - 1) of VUuid i \<Rightarrow> Some i | _ \<Rightarrow> None) else None)"

text \<open>Truth values of which one may be an error.\<close>

definition and3 :: "bool option \<Rightarrow> bool option \<Rightarrow> bool option" where
  "and3 a b = (case (a, b) of (Some x, Some y) \<Rightarrow> Some (x \<and> y) | _ \<Rightarrow> None)"

definition or3 :: "bool option \<Rightarrow> bool option \<Rightarrow> bool option" where
  "or3 a b = (case (a, b) of (Some x, Some y) \<Rightarrow> Some (x \<or> y) | _ \<Rightarrow> None)"

definition any3 :: "bool option list \<Rightarrow> bool option" where
  "any3 bs = foldr or3 bs (Some False)"

definition all3 :: "bool option list \<Rightarrow> bool option" where
  "all3 bs = foldr and3 bs (Some True)"

definition tag_matches :: "database \<Rightarrow> string \<Rightarrow> evidence \<Rightarrow> bool option" where
  "tag_matches pg p e = (case metadata_field e ''tags'' of
      None \<Rightarrow> Some False
    | Some (JArr js) \<Rightarrow> any3 (map (\<lambda>j. case field_text pg j of None \<Rightarrow> Some False | Some s \<Rightarrow> pg_regex pg p s) js)
    | Some _ \<Rightarrow> None)"

definition tags_contain :: "string list \<Rightarrow> evidence \<Rightarrow> bool" where
  "tags_contain ts e = (case metadata_field e ''tags'' of
      Some (JArr js) \<Rightarrow> (\<forall>t \<in> set ts. JStr t \<in> set js) | _ \<Rightarrow> False)"

text \<open>The column is an enumeration: comparing it with anything else is an error.\<close>

definition result_is :: "evidence \<Rightarrow> string \<Rightarrow> bool option" where
  "result_is e v = (if EvidenceResult_Valid v then Some (ev_Result e = v) else None)"

fun eval_cond :: "database \<Rightarrow> sql_value list \<Rightarrow> sql_cond \<Rightarrow> evidence \<Rightarrow> bool option" where
  "eval_cond pg args (Matches c n) e =
     (case (text_column c e, bound_text args n) of (Some s, Some p) \<Rightarrow> pg_regex pg p s | _ \<Rightarrow> None)"
| "eval_cond pg args (Equals c n) e =
     (case (text_column c e, bound_text args n) of (Some s, Some v) \<Rightarrow> Some (s = v) | _ \<Rightarrow> None)"
| "eval_cond pg args (Like c n) e =
     (case (text_column c e, bound_text args n) of (Some s, Some p) \<Rightarrow> like p s | _ \<Rightarrow> None)"
| "eval_cond pg args (EitherMatches n) e =
     (case bound_text args n of
        Some p \<Rightarrow> or3 (pg_regex pg p (ev_Branch e)) (pg_regex pg p (ev_RCSRef e)) | None \<Rightarrow> None)"
| "eval_cond pg args (EitherRef n m) e =
     (case (bound_text args n, bound_text args m) of
        (Some v, Some p) \<Rightarrow> or3 (Some (ev_Branch e = v)) (like p (ev_RCSRef e)) | _ \<Rightarrow> None)"
| "eval_cond pg args (ResultIn ns) e =
     any3 (map (\<lambda>n. Option.bind (bound_text args n) (result_is e)) ns)"
| "eval_cond pg args (FinishedFrom n) e = map_option (\<lambda>t. t \<le> ev_FinishedAt e) (bound_time args n)"
| "eval_cond pg args (FinishedUntil n) e = map_option (\<lambda>t. ev_FinishedAt e < t) (bound_time args n)"
| "eval_cond pg args (SomeTagMatches n) e =
     (case bound_text args n of Some p \<Rightarrow> tag_matches pg p e | None \<Rightarrow> None)"
| "eval_cond pg args (TagsContain n) e = map_option (\<lambda>ts. tags_contain ts e) (bound_texts args n)"
| "eval_cond pg args (NotesMatch n) e =
     (case bound_text args n of
        Some p \<Rightarrow> (case notes_text pg e of None \<Rightarrow> Some False | Some s \<Rightarrow> pg_regex pg p s) | None \<Rightarrow> None)"
| "eval_cond pg args (NotesEqual n) e = map_option (\<lambda>v. notes_text pg e = Some v) (bound_text args n)"
| "eval_cond pg args (AfterPosition n m) e =
     (case (bound_time args n, bound_uuid args m) of
        (Some t, Some i) \<Rightarrow> Some ((t, i) < (ev_IngestedAt e, ev_ID e)) | _ \<Rightarrow> None)"

definition eval_where :: "database \<Rightarrow> sql_filter \<Rightarrow> evidence \<Rightarrow> bool option" where
  "eval_where pg f e = all3 (map (\<lambda>c. eval_cond pg (sf_args f) c e) (sf_where f))"

text \<open>The rows a query selects; an error on a row is an error of the query.\<close>

definition select_rows :: "database \<Rightarrow> sql_filter \<Rightarrow> evidence list \<Rightarrow> evidence list option" where
  "select_rows pg f rows =
     (if \<exists>e \<in> set rows. eval_where pg f e = None then None
      else Some (filter (\<lambda>e. eval_where pg f e = Some True) rows))"

section \<open>The filter vocabulary\<close>

text \<open>What the filters mean, stated on a record without SQL and without placeholders.\<close>

definition text_matches :: "database \<Rightarrow> string option \<Rightarrow> string \<Rightarrow> bool option" where
  "text_matches pg v s = (case v of
      None \<Rightarrow> Some True
    | Some val \<Rightarrow> if has_prefix val ''~'' then pg_regex pg (drop 1 val) s else Some (s = val))"

definition procedure_matches :: "database \<Rightarrow> string option \<Rightarrow> string \<Rightarrow> bool option" where
  "procedure_matches pg v s = (case v of
      None \<Rightarrow> Some True
    | Some val \<Rightarrow>
        if has_prefix val ''~'' then pg_regex pg (drop 1 val) s
        else if has_suffix val ''*'' then like (butlast val @ ''%'') s
        else Some (s = val))"

definition ref_matches :: "database \<Rightarrow> string option \<Rightarrow> evidence \<Rightarrow> bool option" where
  "ref_matches pg v e = (case v of
      None \<Rightarrow> Some True
    | Some val \<Rightarrow>
        if has_prefix val ''~''
        then or3 (pg_regex pg (drop 1 val) (ev_Branch e)) (pg_regex pg (drop 1 val) (ev_RCSRef e))
        else or3 (Some (ev_Branch e = val)) (like (val @ ''%'') (ev_RCSRef e)))"

definition tags_match :: "database \<Rightarrow> string list \<Rightarrow> evidence \<Rightarrow> bool option" where
  "tags_match pg tags e = (case tags of
      [] \<Rightarrow> Some True
    | t # _ \<Rightarrow>
        if has_prefix t ''~'' then all3 (map (\<lambda>t. tag_matches pg (trim_tilde t) e) tags)
        else Some (tags_contain tags e))"

definition notes_match :: "database \<Rightarrow> string option \<Rightarrow> evidence \<Rightarrow> bool option" where
  "notes_match pg v e = (case v of
      None \<Rightarrow> Some True
    | Some val \<Rightarrow>
        if has_prefix val ''~''
        then (case notes_text pg e of None \<Rightarrow> Some False | Some s \<Rightarrow> pg_regex pg (drop 1 val) s)
        else Some (notes_text pg e = Some val))"

definition filter_matches :: "database \<Rightarrow> evidence_filter \<Rightarrow> evidence \<Rightarrow> bool option" where
  "filter_matches pg flt e = all3
     [text_matches pg (ef_Repo flt) (ev_Repo e), text_matches pg (ef_RCSRef flt) (ev_RCSRef e),
      text_matches pg (ef_Branch flt) (ev_Branch e),
      text_matches pg (ef_EvidenceType flt) (ev_EvidenceType e),
      text_matches pg (ef_Source flt) (ev_Source e),
      procedure_matches pg (ef_ProcedureRef flt) (ev_ProcedureRef e), ref_matches pg (ef_Ref flt) e,
      (if ef_Result flt = [] then Some True else any3 (map (result_is e) (ef_Result flt))),
      Some (case ef_FinishedAfter flt of None \<Rightarrow> True | Some t \<Rightarrow> t \<le> ev_FinishedAt e),
      Some (case ef_FinishedBefore flt of None \<Rightarrow> True | Some t \<Rightarrow> ev_FinishedAt e < t),
      tags_match pg (ef_Tags flt) e, notes_match pg (ef_Notes flt) e]"

subsection \<open>Placeholders\<close>

fun placeholders :: "sql_cond \<Rightarrow> nat list" where
  "placeholders (Matches _ n) = [n]"
| "placeholders (Equals _ n) = [n]"
| "placeholders (Like _ n) = [n]"
| "placeholders (EitherMatches n) = [n]"
| "placeholders (EitherRef n m) = [n, m]"
| "placeholders (ResultIn ns) = ns"
| "placeholders (FinishedFrom n) = [n]"
| "placeholders (FinishedUntil n) = [n]"
| "placeholders (SomeTagMatches n) = [n]"
| "placeholders (TagsContain n) = [n]"
| "placeholders (NotesMatch n) = [n]"
| "placeholders (NotesEqual n) = [n]"
| "placeholders (AfterPosition n m) = [n, m]"

definition bound_in :: "sql_value list \<Rightarrow> sql_cond \<Rightarrow> bool" where
  "bound_in args c \<longleftrightarrow> (\<forall>n \<in> set (placeholders c). 1 \<le> n \<and> n \<le> length args)"

definition filter_wf :: "sql_filter \<Rightarrow> bool" where
  "filter_wf f \<longleftrightarrow> (\<forall>c \<in> set (sf_where f). bound_in (sf_args f) c)"

lemma bound_append [simp]:
  assumes "1 \<le> n" and "n \<le> length args"
  shows "bound_text (args @ vs) n = bound_text args n" "bound_texts (args @ vs) n = bound_texts args n"
    "bound_time (args @ vs) n = bound_time args n" "bound_uuid (args @ vs) n = bound_uuid args n"
proof -
  have "n - 1 < length args" using assms by linarith
  then have "(args @ vs) ! (n - 1) = args ! (n - 1)" by (simp add: nth_append)
  then show "bound_text (args @ vs) n = bound_text args n" "bound_texts (args @ vs) n = bound_texts args n"
    "bound_time (args @ vs) n = bound_time args n" "bound_uuid (args @ vs) n = bound_uuid args n"
    using assms by (simp_all add: bound_text_def bound_texts_def bound_time_def bound_uuid_def)
qed

lemma bound_last [simp]:
  "bound_text (args @ VText s # vs) (Suc (length args)) = Some s"
  "bound_texts (args @ VTexts ss # vs) (Suc (length args)) = Some ss"
  "bound_time (args @ VTime t # vs) (Suc (length args)) = Some t"
  "bound_uuid (args @ VUuid i # vs) (Suc (length args)) = Some i"
  by (simp_all add: bound_text_def bound_texts_def bound_time_def bound_uuid_def)

text \<open>Arguments are only ever added, so a condition keeps its meaning.\<close>

lemma eval_cond_append:
  "bound_in args c \<Longrightarrow> eval_cond pg (args @ vs) c e = eval_cond pg args c e"
  by (cases c) (simp_all add: bound_in_def cong: map_cong)

lemma all3_simps [simp]: "all3 [] = Some True" "all3 (x # xs) = and3 x (all3 xs)"
  by (simp_all add: all3_def)

lemma and3_simps [simp]:
  "and3 (and3 a b) c = and3 a (and3 b c)" "and3 (Some True) b = b" "and3 a (Some True) = a"
  "and3 None b = None" "and3 a None = None" "and3 (Some x) (Some y) = Some (x \<and> y)"
  by (auto simp: and3_def split: option.splits)

lemma all3_append [simp]: "all3 (xs @ ys) = and3 (all3 xs) (all3 ys)"
  by (induction xs) simp_all

text \<open>\<open>adds pg step m\<close>: the step conjoins the meaning \<open>m\<close> to whatever was asked before.\<close>

definition adds :: "database \<Rightarrow> (sql_filter \<Rightarrow> sql_filter) \<Rightarrow> (evidence \<Rightarrow> bool option) \<Rightarrow> bool" where
  "adds pg step m \<longleftrightarrow>
     (\<forall>f. filter_wf f \<longrightarrow> filter_wf (step f)
        \<and> (\<forall>e. eval_where pg (step f) e = and3 (eval_where pg f e) (m e)))"

lemma adds_nothing: "(\<And>e. m e = Some True) \<Longrightarrow> adds pg (\<lambda>f. f) m"
  by (simp add: adds_def)

lemma adds_comp: "adds pg s m \<Longrightarrow> adds pg t k \<Longrightarrow> adds pg (t \<circ> s) (\<lambda>e. and3 (m e) (k e))"
  by (simp add: adds_def)

lemma adds_cond:
  assumes "\<And>f. sf_where (step f) = sf_where f @ [c f]"
    and "\<And>f. sf_args (step f) = sf_args f @ vs"
    and "\<And>f. bound_in (sf_args (step f)) (c f)"
    and "\<And>f e. eval_cond pg (sf_args (step f)) (c f) e = m e"
  shows "adds pg step m"
  unfolding adds_def
proof (intro allI impI conjI)
  fix f e
  assume wf: "filter_wf f"
  have old: "bound_in (sf_args (step f)) x" if "x \<in> set (sf_where f)" for x
    using wf that assms(2) [of f] by (fastforce simp: filter_wf_def bound_in_def)
  then show "filter_wf (step f)" using assms(1,3) by (auto simp: filter_wf_def)
  have "all3 (map (\<lambda>c. eval_cond pg (sf_args (step f)) c e) (sf_where f)) = eval_where pg f e"
    using wf assms(2) [of f] unfolding eval_where_def
    by (intro arg_cong [where f = all3] map_cong) (auto simp: filter_wf_def eval_cond_append)
  then show "eval_where pg (step f) e = and3 (eval_where pg f e) (m e)"
    by (simp add: eval_where_def [of pg "step f"] assms(1,4))
qed

lemma adds_bind:
  assumes "\<And>n. placeholders (c n) = [n]"
    and "\<And>args e. eval_cond pg (args @ [v]) (c (Suc (length args))) e = m e"
  shows "adds pg (sql_bind c v) m"
  by (rule adds_cond [where c = "\<lambda>f. c (Suc (length (sf_args f)))" and vs = "[v]"])
     (simp_all add: sql_bind_def sql_arg_def sql_add_def bound_in_def assms)

subsection \<open>The filters\<close>

lemmas filter_abs_defs = textFilter_def [abs_def] procedureFilter_def [abs_def] refFilter_def [abs_def]
  resultFilter_def [abs_def] timeFilter_def [abs_def] tagsFilter_def [abs_def] notesFilter_def [abs_def]

lemmas match_abs_defs = text_matches_def [abs_def] procedure_matches_def [abs_def]
  ref_matches_def [abs_def] tags_match_def [abs_def] notes_match_def [abs_def]

lemma adds_textFilter:
  assumes "\<And>e. text_column c e = Some (col e)"
  shows "adds pg (textFilter c v) (\<lambda>e. text_matches pg v (col e))"
proof (cases v)
  case None
  then show ?thesis by (simp add: filter_abs_defs match_abs_defs adds_nothing)
next
  case (Some val)
  then show ?thesis
    by (cases "has_prefix val ''~''") (simp_all add: filter_abs_defs match_abs_defs adds_bind assms)
qed

lemma adds_procedureFilter:
  "adds pg (procedureFilter v) (\<lambda>e. procedure_matches pg v (ev_ProcedureRef e))"
proof (cases v)
  case None
  then show ?thesis by (simp add: filter_abs_defs match_abs_defs adds_nothing)
next
  case (Some val)
  then show ?thesis
    by (cases "has_prefix val ''~''"; cases "has_suffix val ''*''")
       (simp_all add: filter_abs_defs match_abs_defs adds_bind text_column_def)
qed

lemma adds_refFilter: "adds pg (refFilter v) (ref_matches pg v)"
proof (cases v)
  case None
  then show ?thesis by (simp add: filter_abs_defs match_abs_defs adds_nothing)
next
  case (Some val)
  show ?thesis
  proof (cases "has_prefix val ''~''")
    case True
    then show ?thesis using Some by (simp add: filter_abs_defs match_abs_defs adds_bind)
  next
    case False
    let ?c = "\<lambda>f :: sql_filter. EitherRef (Suc (length (sf_args f))) (Suc (Suc (length (sf_args f))))"
    have two: "bound_text (args @ [VText a, VText b]) (Suc (Suc (length args))) = Some b" for args a b
      using bound_last(1) [of "args @ [VText a]" b "[]"] by simp
    show ?thesis using False Some
      by (intro adds_cond [where c = ?c and vs = "[VText val, VText (val @ ''%'')]"])
         (simp_all add: refFilter_def ref_matches_def sql_arg_def sql_add_def bound_in_def Let_def two)
  qed
qed

lemma sql_args_simp:
  "sql_args vs f = ([Suc (length (sf_args f))..<Suc (length (sf_args f) + length vs)],
     f\<lparr>sf_args := sf_args f @ vs\<rparr>)"
proof (induction vs arbitrary: f)
  case (Cons v vs)
  then show ?case by (simp add: sql_arg_def Let_def upt_conv_Cons del: upt_Suc)
qed simp

lemma bound_range:
  "map (bound_text (args @ map VText ss)) [Suc (length args)..<Suc (length args + length ss)] = map Some ss"
  by (rule nth_equalityI) (simp_all add: bound_text_def nth_append del: upt_Suc)

lemma adds_resultFilter:
  "adds pg (resultFilter rs) (\<lambda>e. if rs = [] then Some True else any3 (map (result_is e) rs))"
proof (cases "rs = []")
  case True
  then show ?thesis by (simp add: filter_abs_defs adds_nothing)
next
  case False
  let ?ns = "\<lambda>f :: sql_filter. [Suc (length (sf_args f))..<Suc (length (sf_args f) + length rs)]"
  have "map (\<lambda>n. Option.bind (bound_text (args @ map VText rs) n) (result_is e))
      [Suc (length args)..<Suc (length args + length rs)] = map (result_is e) rs" for args e
    using arg_cong [OF bound_range [of args rs], of "map (\<lambda>x. Option.bind x (result_is e))"]
    by (simp add: o_def)
  then show ?thesis using False
    by (intro adds_cond [where c = "\<lambda>f. ResultIn (?ns f)" and vs = "map VText rs"])
       (auto simp: resultFilter_def sql_args_simp sql_add_def bound_in_def simp del: upt_Suc)
qed

lemma adds_fold:
  assumes "\<And>x. adds pg (step x) (m x)"
  shows "adds pg (fold step xs) (\<lambda>e. all3 (map (\<lambda>x. m x e) xs))"
proof (induction xs)
  case Nil
  then show ?case by (auto simp: id_def intro: adds_nothing)
next
  case (Cons x xs)
  then show ?case using adds_comp [OF assms Cons.IH, of x] by (simp add: comp_def)
qed

lemma adds_tagsFilter: "adds pg (tagsFilter tags) (tags_match pg tags)"
proof (cases tags)
  case Nil
  then show ?thesis by (simp add: filter_abs_defs match_abs_defs adds_nothing)
next
  case (Cons t ts)
  have bind: "adds pg (sql_bind SomeTagMatches (VText p)) (tag_matches pg p)" for p
    by (rule adds_bind) simp_all
  show ?thesis
  proof (cases "has_prefix t ''~''")
    case True
    have "tagsFilter tags = fold (\<lambda>t. sql_bind SomeTagMatches (VText (trim_tilde t))) tags"
      using True Cons by (auto simp: tagsFilter_def fun_eq_iff)
    moreover have "tags_match pg tags = (\<lambda>e. all3 (map (\<lambda>t. tag_matches pg (trim_tilde t) e) tags))"
      using True Cons by (auto simp: tags_match_def fun_eq_iff)
    ultimately show ?thesis using adds_fold [OF bind] by simp
  next
    case False
    then show ?thesis using Cons by (simp add: filter_abs_defs match_abs_defs adds_bind)
  qed
qed

lemma adds_notesFilter: "adds pg (notesFilter v) (notes_match pg v)"
proof (cases v)
  case None
  then show ?thesis by (simp add: filter_abs_defs match_abs_defs adds_nothing)
next
  case (Some val)
  have "adds pg (sql_bind NotesMatch (VText p))
      (\<lambda>e. case notes_text pg e of None \<Rightarrow> Some False | Some s \<Rightarrow> pg_regex pg p s)" for p
    by (rule adds_bind) simp_all
  note regex = this [of "drop 1 val"]
  show ?thesis
  proof (cases "has_prefix val ''~''")
    case True
    then show ?thesis using regex Some by (simp add: filter_abs_defs match_abs_defs del: One_nat_def)
  qed (simp add: Some filter_abs_defs match_abs_defs adds_bind)
qed

lemma adds_timeFilter:
  "adds pg (timeFilter FinishedFrom v) (\<lambda>e. Some (case v of None \<Rightarrow> True | Some t \<Rightarrow> t \<le> ev_FinishedAt e))"
  "adds pg (timeFilter FinishedUntil v) (\<lambda>e. Some (case v of None \<Rightarrow> True | Some t \<Rightarrow> ev_FinishedAt e < t))"
  by (cases v; simp add: filter_abs_defs adds_bind adds_nothing)+

lemma buildFilter_matches:
  "filter_wf (buildFilter flt) \<and> eval_where pg (buildFilter flt) e = filter_matches pg flt e"
proof -
  note cols = adds_textFilter [of "''repo''" ev_Repo pg "ef_Repo flt"]
    adds_textFilter [of "''rcs_ref''" ev_RCSRef pg "ef_RCSRef flt"]
    adds_textFilter [of "''branch''" ev_Branch pg "ef_Branch flt"]
    adds_textFilter [of "''evidence_type''" ev_EvidenceType pg "ef_EvidenceType flt"]
    adds_textFilter [of "''source''" ev_Source pg "ef_Source flt"]
  note rest = adds_comp [OF adds_procedureFilter [of pg "ef_ProcedureRef flt"]
    adds_comp [OF adds_refFilter [of pg "ef_Ref flt"] adds_comp [OF adds_resultFilter [of pg "ef_Result flt"]
    adds_comp [OF adds_timeFilter(1) [of pg "ef_FinishedAfter flt"]
    adds_comp [OF adds_timeFilter(2) [of pg "ef_FinishedBefore flt"]
    adds_comp [OF adds_tagsFilter [of pg "ef_Tags flt"] adds_notesFilter [of pg "ef_Notes flt"]]]]]]]
  have all: "adds pg
      (notesFilter (ef_Notes flt) \<circ> tagsFilter (ef_Tags flt)
      \<circ> timeFilter FinishedUntil (ef_FinishedBefore flt) \<circ> timeFilter FinishedFrom (ef_FinishedAfter flt)
      \<circ> resultFilter (ef_Result flt) \<circ> refFilter (ef_Ref flt) \<circ> procedureFilter (ef_ProcedureRef flt)
      \<circ> textFilter ''source'' (ef_Source flt) \<circ> textFilter ''evidence_type'' (ef_EvidenceType flt)
      \<circ> textFilter ''branch'' (ef_Branch flt) \<circ> textFilter ''rcs_ref'' (ef_RCSRef flt)
      \<circ> textFilter ''repo'' (ef_Repo flt)) (filter_matches pg flt)"
    unfolding filter_matches_def [abs_def] all3_simps and3_simps(3)
    by (intro adds_comp [OF cols(1)] adds_comp [OF cols(2)] adds_comp [OF cols(3)]
        adds_comp [OF cols(4)] adds_comp [OF cols(5)] rest) (simp_all add: text_column_def)
  have "filter_wf \<lparr>sf_where = [], sf_args = []\<rparr>" by (simp add: filter_wf_def)
  moreover have "eval_where pg \<lparr>sf_where = [], sf_args = []\<rparr> e = Some True" by (simp add: eval_where_def)
  ultimately show ?thesis using all unfolding buildFilter_def adds_def by (metis and3_simps(2))
qed

text \<open>Whether a row lies after the position of a cursor.\<close>

definition after_cursor :: "cursor option \<Rightarrow> evidence \<Rightarrow> bool" where
  "after_cursor c e \<longleftrightarrow> (case c of
      None \<Rightarrow> True | Some c \<Rightarrow> (cu_IngestedAt c, cu_ID c) < (ev_IngestedAt e, ev_ID e))"

lemma adds_cursorFilter: "adds pg (cursorFilter c) (\<lambda>e. Some (after_cursor c e))"
proof (cases c)
  case None
  then show ?thesis by (simp add: cursorFilter_def [abs_def] after_cursor_def adds_nothing)
next
  case (Some c')
  let ?c = "\<lambda>f :: sql_filter. AfterPosition (Suc (length (sf_args f))) (Suc (Suc (length (sf_args f))))"
  have two: "bound_uuid (args @ [a, VUuid b]) (Suc (Suc (length args))) = Some b" for args a b
    using bound_last(4) [of "args @ [a]" b "[]"] by simp
  show ?thesis using Some
    by (intro adds_cond [where c = ?c and vs = "[VTime (cu_IngestedAt c'), VUuid (cu_ID c')]"])
       (simp_all add: cursorFilter_def after_cursor_def sql_arg_def sql_add_def bound_in_def Let_def two)
qed

lemma cursorFilter_matches:
  "eval_where pg (cursorFilter c (buildFilter flt)) e
     = and3 (filter_matches pg flt e) (Some (after_cursor c e))"
  using adds_cursorFilter [of pg c] buildFilter_matches [of flt pg e] unfolding adds_def by simp


subsection \<open>Prefixes\<close>

definition like_plain :: "char \<Rightarrow> bool" where
  "like_plain c \<longleftrightarrow> c \<noteq> CHR ''%'' \<and> c \<noteq> CHR ''_'' \<and> c \<noteq> CHR 0x5C"

lemma like_percent: "like ''%'' s = Some True"
  by (induction s) simp_all

text \<open>A star selects a prefix as long as what precedes it has no character that is special to
  \<^verbatim>\<open>LIKE\<close>.\<close>

lemma like_prefix:
  "list_all like_plain p \<Longrightarrow> like (p @ ''%'') s = Some (has_prefix s p)"
proof (induction p arbitrary: s)
  case Nil
  then show ?case using like_percent by (simp add: has_prefix_def)
next
  case (Cons c p)
  then show ?case by (cases s) (auto simp: like_plain_def has_prefix_def)
qed

text \<open>An underscore in the value is not escaped, so it stands for any character: a filter for one
  package also selects another, and a short commit with a percent sign selects everything.\<close>

lemma underscore_is_a_wildcard:
  "procedure_matches pg (Some ''//my_pkg:*'') ''//my-pkg:t'' = Some True
   \<and> \<not> has_prefix ''//my-pkg:t'' ''//my_pkg:''"
  by (simp add: procedure_matches_def has_prefix_def has_suffix_def)

section \<open>Orders\<close>

definition sortColumns :: "string list" where
  "sortColumns = [''repo'', ''branch'', ''rcs_ref'', ''procedure_ref'', ''evidence_type'', ''source'',
     ''result'', ''finished_at'', ''ingested_at'']"

definition IsSortable :: "string \<Rightarrow> bool" where
  "IsSortable column \<longleftrightarrow> List.member sortColumns column"

record sort_field =
  so_Column :: string
  so_Desc :: bool

datatype sort_error =
    OrderWithoutColumns
  | UnequalLengths
  | CannotSortBy string
  | DuplicateColumn string
  | BadDirection
  | SortWithCursor
  | BadListColumn string

fun parse_sorts :: "string list \<Rightarrow> (string \<times> string) list \<Rightarrow> sort_error + sort_field list" where
  "parse_sorts seen [] = Inr []"
| "parse_sorts seen ((name, direction) # rest) =
     (if \<not> IsSortable name then Inl (CannotSortBy name)
      else if name \<in> set seen then Inl (DuplicateColumn name)
      else if direction \<noteq> ''asc'' \<and> direction \<noteq> ''desc'' then Inl BadDirection
      else case parse_sorts (name # seen) rest of
          Inl err \<Rightarrow> Inl err
        | Inr fs \<Rightarrow> Inr (\<lparr>so_Column = name, so_Desc = (direction = ''desc'')\<rparr> # fs))"

definition ParseSort :: "string \<Rightarrow> string \<Rightarrow> sort_error + sort_field list" where
  "ParseSort columns orders =
     (if columns = '''' then
        (if orders \<noteq> '''' \<and> orders \<noteq> ''asc'' \<and> orders \<noteq> ''desc'' then Inl OrderWithoutColumns else Inr [])
      else
        let names = split_on (CHR '','') columns; directions = split_on (CHR '','') orders in
        if orders \<noteq> '''' \<and> length directions \<noteq> length names then Inl UnequalLengths
        else parse_sorts [] (zip names (if orders = '''' then replicate (length names) ''asc'' else directions)))"

record list_params =
  lp_Filter :: evidence_filter
  lp_Cursor :: "cursor option"
  lp_Limit :: int
  lp_Offset :: int
  lp_Sort :: string
  lp_Desc :: bool
  lp_Sorts :: "sort_field list"
  lp_WithTotal :: bool

fun order_parts :: "string list \<Rightarrow> sort_field list \<Rightarrow> sort_error + (string \<times> bool) list" where
  "order_parts seen [] = Inr []"
| "order_parts seen (f # fs) =
     (if \<not> IsSortable (so_Column f) \<or> so_Column f \<in> set seen then Inl (BadListColumn (so_Column f))
      else case order_parts (so_Column f # seen) fs of
          Inl err \<Rightarrow> Inl err
        | Inr parts \<Rightarrow> Inr ((so_Column f, so_Desc f) # parts))"

text \<open>The keys of the \<^verbatim>\<open>ORDER BY\<close> clause with their direction, true for descending.\<close>

definition listOrder :: "list_params \<Rightarrow> sort_error + (string \<times> bool) list" where
  "listOrder p =
     (let sorts = (if lp_Sorts p = [] \<and> lp_Sort p \<noteq> ''''
                   then [\<lparr>so_Column = lp_Sort p, so_Desc = lp_Desc p\<rparr>] else lp_Sorts p) in
      case sorts of
        [] \<Rightarrow> Inr [(''ingested_at'', False), (''id'', False)]
      | f # _ \<Rightarrow>
          if lp_Cursor p \<noteq> None then Inl SortWithCursor
          else case order_parts [] sorts of
              Inl err \<Rightarrow> Inl err
            | Inr parts \<Rightarrow> Inr (parts @ [(''id'', so_Desc f)]))"

text \<open>What a key compares: text by the database's collation, the result by the position of its
  value in the enumeration, times and identifiers by their number.\<close>

definition result_position :: "string \<Rightarrow> int" where
  "result_position r = (if r = ResultPass then 0 else if r = ResultFail then 1
     else if r = ResultError then 2 else 3)"

definition column_key :: "database \<Rightarrow> string \<Rightarrow> evidence \<Rightarrow> int list" where
  "column_key pg column e =
     (case text_column column e of
        Some s \<Rightarrow> map int (pg_collate pg s)
      | None \<Rightarrow>
          if column = ''result'' then [result_position (ev_Result e)]
          else if column = ''finished_at'' then [ev_FinishedAt e]
          else if column = ''ingested_at'' then [ev_IngestedAt e]
          else if column = ''id'' then [int (ev_ID e)]
          else [])"

definition order_by :: "database \<Rightarrow> string \<times> bool \<Rightarrow> evidence list \<Rightarrow> evidence list" where
  "order_by pg k xs =
     (if snd k then rev (sort_key (column_key pg (fst k)) (rev xs)) else sort_key (column_key pg (fst k)) xs)"

text \<open>Sorting by several keys: by the last one first, each sort keeping the order of equals.\<close>

definition order_rows :: "database \<Rightarrow> (string \<times> bool) list \<Rightarrow> evidence list \<Rightarrow> evidence list" where
  "order_rows pg ks xs = foldr (order_by pg) ks xs"

section \<open>Pages\<close>

record list_result =
  lr_Records :: "evidence list"
  lr_NextCursor :: "cursor option"
  lr_Total :: "nat option"

datatype list_error = ListSort sort_error | ListQuery | ListPanic

definition position :: "evidence \<Rightarrow> cursor" where
  "position e = \<lparr>cu_IngestedAt = ev_IngestedAt e, cu_ID = ev_ID e\<rparr>"

text \<open>
  \<^verbatim>\<open>List\<close>: a count where it is asked for, then one row more than the page, to know whether
  another follows. A cursor is passed on as the position it encodes. A limit that is not
  positive indexes the page before its first row, which panics.
\<close>

definition EvidenceStore_List ::
  "database \<Rightarrow> (nat \<Rightarrow> bool) \<Rightarrow> list_params \<Rightarrow> evidence_db \<Rightarrow> list_error + list_result" where
  "EvidenceStore_List pg fails p d =
     (case listOrder p of
        Inl err \<Rightarrow> Inl (ListSort err)
      | Inr order \<Rightarrow>
          let f = buildFilter (lp_Filter p) in
          case (if \<not> lp_WithTotal p then Inr None
                else if fails (ed_stmt d) then Inl ListQuery
                else case select_rows pg f (ed_rows d) of
                    None \<Rightarrow> Inl ListQuery | Some rows \<Rightarrow> Inr (Some (length rows))) of
            Inl err \<Rightarrow> Inl err
          | Inr cnt \<Rightarrow>
              if fails (ed_stmt d + (if lp_WithTotal p then 1 else 0)) \<or> lp_Limit p + 1 < 0 then Inl ListQuery
              else case select_rows pg (cursorFilter (lp_Cursor p) f) (ed_rows d) of
                  None \<Rightarrow> Inl ListQuery
                | Some rows \<Rightarrow>
                    let off = (if 0 < lp_Offset p \<and> lp_Cursor p = None then nat (lp_Offset p) else 0);
                        records = take (nat (lp_Limit p + 1)) (drop off (order_rows pg order rows));
                        dflt = (lp_Sort p = '''' \<and> lp_Sorts p = []) in
                    if lp_Limit p < int (length records)
                    then if lp_Limit p < 0 \<or> (lp_Limit p = 0 \<and> dflt) then Inl ListPanic
                         else Inr \<lparr>lr_Records = take (nat (lp_Limit p)) records,
                              lr_NextCursor = (if dflt then Some (position (records ! nat (lp_Limit p - 1))) else None),
                              lr_Total = cnt\<rparr>
                    else Inr \<lparr>lr_Records = records, lr_NextCursor = None, lr_Total = cnt\<rparr>)"

section \<open>Sorting by several keys\<close>

lemma sorted_pair:
  fixes f :: "'a \<Rightarrow> 'b::linorder" and g :: "'a \<Rightarrow> 'c::linorder"
  assumes "sorted (map f ys)" and "\<And>v. sorted (map g (filter (\<lambda>x. f x = v) ys))"
  shows "sorted (map (\<lambda>x. (f x, g x)) ys)"
  using assms
proof (induction ys)
  case (Cons y ys)
  have "sorted (map g (filter (\<lambda>x. f x = v) ys))" for v
    using Cons.prems(2) [of v] by (cases "f y = v") simp_all
  then have IH: "sorted (map (\<lambda>x. (f x, g x)) ys)" using Cons by simp
  have "(f y, g y) \<le> (f z, g z)" if "z \<in> set ys" for z
  proof (cases "f y = f z")
    case True
    then show ?thesis using Cons.prems(2) [of "f z"] that by (auto simp: less_eq_prod_def)
  next
    case False
    then show ?thesis using Cons.prems(1) that by (auto simp: less_eq_prod_def order_less_le)
  qed
  then show ?case using IH by simp
qed simp

text \<open>Sorting stably by one key after another sorts by the pair.\<close>

lemma sort_key_pair:
  fixes f :: "'a \<Rightarrow> 'b::linorder" and g :: "'a \<Rightarrow> 'c::linorder"
  shows "sort_key f (sort_key g xs) = sort_key (\<lambda>x. (f x, g x)) xs"
proof (rule sym, rule properties_for_sort_key)
  let ?ys = "sort_key f (sort_key g xs)"
  show "mset ?ys = mset xs" by simp
  have by_f: "filter (\<lambda>x. f x = v) ?ys = filter (\<lambda>x. f x = v) (sort_key g xs)" for v
    using sort_key_stable [of f v "sort_key g xs"] .
  have by_g: "filter (\<lambda>x. g x = v) (sort_key g xs) = filter (\<lambda>x. g x = v) xs" for v
    using sort_key_stable [of g v xs] .
  have split: "filter (\<lambda>x. (f k, g k) = (f x, g x)) zs
      = filter (\<lambda>x. g x = g k) (filter (\<lambda>x. f x = f k) zs)" for k zs
    unfolding filter_filter by (rule filter_cong) auto
  have swap: "filter (\<lambda>x. g x = v) (filter (\<lambda>x. f x = u) zs)
      = filter (\<lambda>x. f x = u) (filter (\<lambda>x. g x = v) zs)" for u v zs
    unfolding filter_filter by (rule filter_cong) auto
  show "filter (\<lambda>x. (f k, g k) = (f x, g x)) ?ys = filter (\<lambda>x. (f k, g k) = (f x, g x)) xs" for k
    unfolding split by_f swap [of _ _ "sort_key g xs"] swap [of _ _ xs] by_g ..
  have "sorted (map g (filter (\<lambda>x. f x = v) ?ys))" for v
    unfolding by_f by (rule sorted_filter) simp
  then show "sorted (map (\<lambda>x. (f x, g x)) ?ys)" by (intro sorted_pair) simp_all
qed

lemma sort_key_cong_order:
  fixes f :: "'a \<Rightarrow> 'b::linorder" and g :: "'a \<Rightarrow> 'c::linorder"
  assumes "\<And>x y. f x \<le> f y \<longleftrightarrow> g x \<le> g y"
  shows "sort_key f xs = sort_key g xs"
proof -
  have "insort_key f x ys = insort_key g x ys" for x ys
    by (induction ys) (simp_all add: assms)
  then show ?thesis by (induction xs) simp_all
qed

abbreviation pos :: "evidence \<Rightarrow> instant \<times> uuid" where
  "pos e \<equiv> (ev_IngestedAt e, ev_ID e)"

lemma default_order:
  "order_rows pg [(''ingested_at'', False), (''id'', False)] xs = sort_key pos xs"
proof -
  have "sort_key (column_key pg ''id'') xs = sort_key ev_ID xs"
    by (rule sort_key_cong_order) (auto simp: column_key_def text_column_def)
  moreover have "sort_key (column_key pg ''ingested_at'') ys = sort_key ev_IngestedAt ys" for ys
    by (rule sort_key_cong_order) (auto simp: column_key_def text_column_def)
  ultimately have "order_rows pg [(''ingested_at'', False), (''id'', False)] xs
      = sort_key ev_IngestedAt (sort_key ev_ID xs)" by (simp add: order_rows_def order_by_def)
  then show ?thesis by (simp only: sort_key_pair)
qed

section \<open>Walking the pages\<close>

lemma select_rows_Some:
  assumes "\<And>e. e \<in> set rows \<Longrightarrow> filter_matches pg flt e \<noteq> None"
  shows "select_rows pg (cursorFilter c (buildFilter flt)) rows
     = Some (filter (\<lambda>e. filter_matches pg flt e = Some True \<and> after_cursor c e) rows)"
proof -
  have ev: "eval_where pg (cursorFilter c (buildFilter flt)) e
      = Some (filter_matches pg flt e = Some True \<and> after_cursor c e)" if "e \<in> set rows" for e
    using assms [OF that] unfolding cursorFilter_matches by (cases "filter_matches pg flt e") auto
  then show ?thesis by (auto simp: select_rows_def intro: filter_cong)
qed

text \<open>The listing a filter selects, in the default order.\<close>

definition listing :: "database \<Rightarrow> evidence_filter \<Rightarrow> evidence_db \<Rightarrow> evidence list" where
  "listing pg flt d = sort_key pos (filter (\<lambda>e. filter_matches pg flt e = Some True) (ed_rows d))"

definition page_params :: "evidence_filter \<Rightarrow> int \<Rightarrow> cursor option \<Rightarrow> list_params" where
  "page_params flt limit c = \<lparr>lp_Filter = flt, lp_Cursor = c, lp_Limit = limit, lp_Offset = 0,
     lp_Sort = '''', lp_Desc = False, lp_Sorts = [], lp_WithTotal = False\<rparr>"

lemma List_page:
  assumes "\<And>e. e \<in> set (ed_rows d) \<Longrightarrow> filter_matches pg flt e \<noteq> None" and "0 < limit"
  shows "EvidenceStore_List pg (\<lambda>_. False) (page_params flt limit c) d =
    (let xs = filter (after_cursor c) (listing pg flt d) in
     Inr \<lparr>lr_Records = take (nat limit) xs,
          lr_NextCursor = (if nat limit < length xs then Some (position (xs ! (nat limit - 1))) else None),
          lr_Total = None\<rparr>)"
proof -
  let ?xs = "filter (after_cursor c) (listing pg flt d)"
  have rows: "order_rows pg [(''ingested_at'', False), (''id'', False)]
      (filter (\<lambda>e. filter_matches pg flt e = Some True \<and> after_cursor c e) (ed_rows d)) = ?xs"
    unfolding default_order listing_def filter_sort filter_filter
    by (rule arg_cong [where f = "sort_key pos"], rule filter_cong) auto
  obtain n where n: "limit = int n" "0 < n" using assms(2) zero_less_imp_eq_int by blast
  have "nat (int n + 1) = Suc n" "nat (int n - 1) = n - 1" by simp_all
  then show ?thesis
    using n(2)
    by (simp add: n(1) EvidenceStore_List_def page_params_def listOrder_def rows
        select_rows_Some [OF assms(1)] Let_def del: take_Suc)
qed

lemma strict_drop:
  fixes f :: "'a \<Rightarrow> 'b::linorder"
  assumes "sorted_wrt (\<lambda>x y. f x < f y) xs" and "i < length xs"
  shows "filter (\<lambda>x. f (xs ! i) < f x) xs = drop (Suc i) xs"
  using assms
proof (induction xs arbitrary: i)
  case (Cons y ys)
  show ?case
  proof (cases i)
    case 0
    then show ?thesis using Cons.prems(1) by (auto intro: filter_True)
  next
    case (Suc j)
    then have "f y < f (ys ! j)" using Cons.prems by auto
    then have "\<not> f (ys ! j) < f y" by (rule order_less_not_sym)
    then show ?thesis using Suc Cons by simp
  qed
qed simp

lemma listing_strict:
  assumes "evidence_wf d"
  shows "sorted_wrt (\<lambda>x y. pos x < pos y) (listing pg flt d)"
proof -
  have "distinct (map ev_ID (listing pg flt d))"
    using assms unfolding listing_def evidence_wf_def distinct_map
    by (auto intro: inj_on_subset)
  then have "distinct (map pos (listing pg flt d))"
    unfolding distinct_map by (auto simp: inj_on_def)
  moreover have "sorted (map pos (listing pg flt d))" by (simp add: listing_def)
  ultimately have "sorted_wrt (<) (map pos (listing pg flt d))" by (simp add: strict_sorted_iff)
  then show ?thesis by (simp add: sorted_wrt_map)
qed

text \<open>A client that follows the cursors until there is none, for at most so many pages.\<close>

fun walk :: "database \<Rightarrow> evidence_filter \<Rightarrow> int \<Rightarrow> evidence_db \<Rightarrow> nat \<Rightarrow> cursor option
    \<Rightarrow> evidence list list option" where
  "walk pg flt limit d 0 c = None"
| "walk pg flt limit d (Suc n) c =
     (case EvidenceStore_List pg (\<lambda>_. False) (page_params flt limit c) d of
        Inl _ \<Rightarrow> None
      | Inr r \<Rightarrow>
          (case lr_NextCursor r of
             None \<Rightarrow> Some [lr_Records r]
           | Some c' \<Rightarrow> map_option (\<lambda>pages. lr_Records r # pages) (walk pg flt limit d n (Some c'))))"

lemma after_position:
  "after_cursor (Some (position x)) e \<longleftrightarrow> pos x < pos e"
  by (simp add: after_cursor_def position_def)

lemma filter_position:
  assumes "sorted_wrt (\<lambda>x y. pos x < pos y) ys" and "filter (after_cursor c) ys = xs" and "i < length xs"
  shows "filter (after_cursor (Some (position (xs ! i)))) ys = drop (Suc i) xs"
proof -
  define x where "x = xs ! i"
  have "x \<in> set xs" using assms(3) x_def by simp
  then have x: "after_cursor c x" using assms(2) by auto
  have mono: "after_cursor c e" if "pos x < pos e" for e
  proof (cases c)
    case (Some c')
    then have "(cu_IngestedAt c', cu_ID c') < pos x" using x by (simp only: after_cursor_def option.case)
    then show ?thesis using that Some by (simp only: after_cursor_def option.case)
  qed (simp add: after_cursor_def)
  have "filter (\<lambda>e. pos x < pos e) xs = filter (\<lambda>e. after_cursor c e \<and> pos x < pos e) ys"
    unfolding assms(2) [symmetric] filter_filter ..
  also have "\<dots> = filter (\<lambda>e. pos x < pos e) ys" by (rule filter_cong) (use mono in blast)+
  finally have eq: "filter (\<lambda>e. pos x < pos e) xs = filter (\<lambda>e. pos x < pos e) ys" .
  have "sorted_wrt (\<lambda>x y. pos x < pos y) xs"
    using assms(1) unfolding assms(2) [symmetric] by (rule sorted_wrt_filter)
  from strict_drop [of pos xs i, OF this assms(3)] show ?thesis
    using eq unfolding x_def [symmetric] after_position by simp
qed

lemma walk_pages:
  assumes "evidence_wf d" and "\<And>e. e \<in> set (ed_rows d) \<Longrightarrow> filter_matches pg flt e \<noteq> None"
    and "0 < limit" and "length (filter (after_cursor c) (listing pg flt d)) < n"
  shows "\<exists>pages. walk pg flt limit d n c = Some pages
    \<and> concat pages = filter (after_cursor c) (listing pg flt d)
    \<and> (\<forall>page \<in> set (butlast pages). length page = nat limit) \<and> length (last pages) \<le> nat limit \<and> pages \<noteq> []"
  using assms(4)
proof (induction n arbitrary: c)
  case (Suc n)
  let ?xs = "filter (after_cursor c) (listing pg flt d)"
  note page = List_page [OF assms(2,3), where c = c]
  show ?case
  proof (cases "nat limit < length ?xs")
    case False
    then show ?thesis by (simp add: page Let_def)
  next
    case True
    let ?c = "Some (position (?xs ! (nat limit - 1)))"
    have "Suc (nat limit - 1) = nat limit" using assms(3) by simp
    then have rest: "filter (after_cursor ?c) (listing pg flt d) = drop (nat limit) ?xs"
      using filter_position [OF listing_strict [OF assms(1)] refl, of "nat limit - 1" c] True by simp
    then have "length (filter (after_cursor ?c) (listing pg flt d)) < n"
      using Suc.prems True assms(3) by simp
    from Suc.IH [OF this] obtain pages where pages: "walk pg flt limit d n ?c = Some pages"
      "concat pages = drop (nat limit) ?xs" "\<forall>page \<in> set (butlast pages). length page = nat limit"
      "length (last pages) \<le> nat limit" "pages \<noteq> []" unfolding rest by blast
    have "walk pg flt limit d (Suc n) c = Some (take (nat limit) ?xs # pages)"
      using True pages(1) by (simp add: page Let_def)
    then show ?thesis using pages True by (auto simp: min_def)
  qed
qed simp

text \<open>
  C2. Following the cursors shows every record once. For a filter that evaluates on every row and
  a positive page size, the client that asks for the next page until there is none gets an end
  after at most one page more than there are rows; its pages, one after another, are exactly the
  records that match, ordered by arrival and identifier, none missing and none repeated, and
  every page but the last is full.
\<close>

theorem paging_complete:
  assumes "evidence_wf d" and "\<forall>e \<in> set (ed_rows d). filter_matches pg flt e \<noteq> None" and "0 < limit"
  shows "\<exists>pages. walk pg flt limit d (Suc (length (ed_rows d))) None = Some pages
    \<and> concat pages = sort_key (\<lambda>e. (ev_IngestedAt e, ev_ID e))
        (filter (\<lambda>e. filter_matches pg flt e = Some True) (ed_rows d))
    \<and> (\<forall>page \<in> set (butlast pages). length page = nat limit) \<and> length (last pages) \<le> nat limit"
proof -
  have all: "filter (after_cursor None) (listing pg flt d) = listing pg flt d"
    by (simp add: after_cursor_def)
  have "length (listing pg flt d) < Suc (length (ed_rows d))" by (simp add: listing_def le_imp_less_Suc)
  then obtain pages where "walk pg flt limit d (Suc (length (ed_rows d))) None = Some pages"
      "concat pages = listing pg flt d" "\<forall>page \<in> set (butlast pages). length page = nat limit"
      "length (last pages) \<le> nat limit"
    using walk_pages [OF assms(1) _ assms(3), where c = None and n = "Suc (length (ed_rows d))" and pg = pg and flt = flt]
      assms(2) unfolding all by auto
  then show ?thesis unfolding listing_def by (intro exI [of _ pages] conjI)
qed

definition plain_database :: database where
  "plain_database = \<lparr>pg_regex = (\<lambda>p s. Some (p = s)), pg_text = (\<lambda>_. ''''), pg_lower = map ascii_lower,
     pg_collate = map of_char\<rparr>"

definition demo_row :: "uuid \<Rightarrow> instant \<Rightarrow> evidence" where
  "demo_row i t = evidence_row i t None (RawDoc (JObj [])) (demo_submission None)"

definition three_rows :: evidence_db where
  "three_rows = no_evidence\<lparr>ed_rows := [demo_row 3 20, demo_row 1 20, demo_row 2 10]\<rparr>"

lemma manual_test_valid: "ValidEvidenceType TypeManualTest"
  by code_simp

lemma three_rows_wf: "evidence_wf three_rows"
proof -
  have "mentions (RawDoc (JObj [])) = {}" using annotate_mentions [of RawNil]
    by (auto simp: annotateBlobRefs_def mentions_def unmarshal_map_def)
  then show ?thesis
    by (auto simp: evidence_wf_def record_refs_def three_rows_def no_evidence_def demo_row_def evidence_row_def
        demo_submission_def text_ok_def EvidenceResult_Valid_def manual_test_valid)
qed

theorem paging_complete_witness:
  "\<exists>pages. walk plain_database no_filter 2 three_rows 4 None = Some pages
    \<and> map (map ev_ID) pages = [[2, 1], [3]]
    \<and> concat pages = sort_key (\<lambda>e. (ev_IngestedAt e, ev_ID e)) (ed_rows three_rows)"
proof -
  have all: "filter_matches plain_database no_filter e = Some True" for e
    by (simp add: filter_matches_def no_filter_def text_matches_def procedure_matches_def
        ref_matches_def tags_match_def notes_match_def)
  have len: "Suc (length (ed_rows three_rows)) = 4" by (simp add: three_rows_def no_evidence_def)
  obtain pages where pages: "walk plain_database no_filter 2 three_rows 4 None = Some pages"
    "concat pages = sort_key (\<lambda>e. (ev_IngestedAt e, ev_ID e)) (ed_rows three_rows)"
    using paging_complete [OF three_rows_wf, of plain_database no_filter 2] unfolding all len by auto
  have "map_option (map (map ev_ID)) (walk plain_database no_filter 2 three_rows 4 None) = Some [[2, 1], [3]]"
    by code_simp
  then show ?thesis using pages by auto
qed

section \<open>Sort orders\<close>

definition flip :: "sort_field \<Rightarrow> sort_field" where
  "flip f = f\<lparr>so_Desc := \<not> so_Desc f\<rparr>"

lemma parse_sorts_columns: "parse_sorts seen nds = Inr fs \<Longrightarrow> map so_Column fs = map fst nds"
  by (induction seen nds arbitrary: fs rule: parse_sorts.induct) (auto split: if_splits sum.splits)

lemma parse_sorts_ok:
  "parse_sorts seen nds = Inr fs \<Longrightarrow>
     distinct (map so_Column fs) \<and> so_Column ` set fs \<inter> set seen = {} \<and> (\<forall>f \<in> set fs. IsSortable (so_Column f))"
proof (induction seen nds arbitrary: fs rule: parse_sorts.induct)
  case (2 seen name direction rest)
  then obtain fs' where ok: "IsSortable name" "name \<notin> set seen" "direction = ''asc'' \<or> direction = ''desc''"
    "parse_sorts (name # seen) rest = Inr fs'"
    "fs = \<lparr>so_Column = name, so_Desc = (direction = ''desc'')\<rparr> # fs'"
    by (auto split: if_splits sum.splits)
  then have "distinct (map so_Column fs') \<and> so_Column ` set fs' \<inter> set (name # seen) = {}
      \<and> (\<forall>f \<in> set fs'. IsSortable (so_Column f))"
    using "2.IH" by blast
  then show ?case using ok by auto
qed simp

lemma ParseSort_ok:
  assumes "ParseSort columns orders = Inr fs" and "fs \<noteq> []"
  shows "map so_Column fs = split_on (CHR '','') columns" "distinct (map so_Column fs)"
    "\<forall>f \<in> set fs. IsSortable (so_Column f)"
proof -
  let ?names = "split_on (CHR '','') columns"
  let ?dirs = "if orders = '''' then replicate (length ?names) ''asc'' else split_on (CHR '','') orders"
  have p: "parse_sorts [] (zip ?names ?dirs) = Inr fs" and len: "length ?dirs = length ?names"
    using assms by (auto simp: ParseSort_def Let_def split: if_splits)
  show "map so_Column fs = ?names" using parse_sorts_columns [OF p] len by (metis map_fst_zip)
  show "distinct (map so_Column fs)" "\<forall>f \<in> set fs. IsSortable (so_Column f)"
    using parse_sorts_ok [OF p] by auto
qed

lemma order_parts_ok:
  "distinct (map so_Column fs) \<Longrightarrow> so_Column ` set fs \<inter> set seen = {} \<Longrightarrow>
   \<forall>f \<in> set fs. IsSortable (so_Column f) \<Longrightarrow>
   order_parts seen fs = Inr (map (\<lambda>f. (so_Column f, so_Desc f)) fs)"
  by (induction fs arbitrary: seen) auto

lemma id_key_inj: "inj_on (column_key pg ''id'') (set xs) \<longleftrightarrow> inj_on ev_ID (set xs)"
  by (auto simp: inj_on_def column_key_def text_column_def)

lemma order_rows_flip:
  "order_rows pg (map (\<lambda>(c, b). (c, \<not> b)) ks) (rev xs) = rev (order_rows pg ks xs)"
  unfolding order_rows_def
  by (induction ks) (auto simp: order_by_def)

lemma order_by_id_unique:
  assumes "distinct (map ev_ID xs)"
  shows "order_by pg (''id'', b) (rev xs) = order_by pg (''id'', b) xs"
proof -
  let ?k = "column_key pg ''id''"
  have inj: "inj_on ?k (set xs)" using assms id_key_inj by (simp add: distinct_map)
  have "sort_key ?k (rev xs) = sort_key ?k xs"
  proof (rule map_sorted_distinct_set_unique [of ?k])
    show "inj_on ?k (set (sort_key ?k (rev xs)) \<union> set (sort_key ?k xs))" using inj by simp
    have "distinct xs" using assms by (simp add: distinct_map)
    then show "distinct (map ?k (sort_key ?k (rev xs)))" "distinct (map ?k (sort_key ?k xs))"
      using inj by (simp_all add: distinct_map)
  qed simp_all
  then show ?thesis by (simp add: order_by_def)
qed

text \<open>
  Sorting is confined to the listed columns, and turning it round turns the list round.
  What \<^verbatim>\<open>ParseSort\<close> accepts, \<^verbatim>\<open>List\<close> accepts too when there is no cursor, and the keys it
  orders by are the columns asked for, in that order, and then the identifier; each is one of the
  whitelisted columns. Over records with distinct identifiers, the listing with every direction
  reversed is exactly the listing backwards, ties included.
\<close>

theorem sort_orders:
  assumes "ParseSort columns orders = Inr fs" and "fs \<noteq> []" and "lp_Cursor p = None"
    and "distinct (map ev_ID rows)"
  shows "\<exists>ks. listOrder (p\<lparr>lp_Sorts := fs\<rparr>) = Inr (ks @ [(''id'', so_Desc (hd fs))])
    \<and> map fst ks = split_on (CHR '','') columns \<and> set (map fst ks) \<subseteq> set sortColumns
    \<and> (\<exists>ks'. listOrder (p\<lparr>lp_Sorts := map flip fs\<rparr>) = Inr ks'
         \<and> order_rows pg ks' rows = rev (order_rows pg (ks @ [(''id'', so_Desc (hd fs))]) rows))"
proof -
  note ok = ParseSort_ok [OF assms(1,2)]
  let ?ks = "map (\<lambda>f. (so_Column f, so_Desc f)) fs" and ?b = "so_Desc (hd fs)"
  obtain f fs' where fs: "fs = f # fs'" using assms(2) by (cases fs) auto
  have okf: "distinct (map so_Column (map flip fs))" "\<forall>f \<in> set (map flip fs). IsSortable (so_Column f)"
    using ok(2,3) by (simp_all add: flip_def comp_def)
  have order: "listOrder (p\<lparr>lp_Sorts := fs\<rparr>) = Inr (?ks @ [(''id'', ?b)])"
    using ok(2,3) order_parts_ok [of fs "[]"] assms(3) fs by (simp add: listOrder_def Let_def)
  have flipped: "map (\<lambda>f. (so_Column f, so_Desc f)) (map flip fs) = map (\<lambda>(c, b). (c, \<not> b)) ?ks"
    by (simp add: flip_def)
  have order': "listOrder (p\<lparr>lp_Sorts := map flip fs\<rparr>)
      = Inr (map (\<lambda>(c, b). (c, \<not> b)) (?ks @ [(''id'', ?b)]))"
    using okf order_parts_ok [of "map flip fs" "[]"] assms(3) flipped
    by (simp add: listOrder_def Let_def fs flip_def)
  have "order_rows pg (map (\<lambda>(c, b). (c, \<not> b)) (?ks @ [(''id'', ?b)])) rows
      = order_rows pg (map (\<lambda>(c, b). (c, \<not> b)) (?ks @ [(''id'', ?b)])) (rev rows)"
    using order_by_id_unique [OF assms(4)] by (simp add: order_rows_def)
  then have "order_rows pg (map (\<lambda>(c, b). (c, \<not> b)) (?ks @ [(''id'', ?b)])) rows
      = rev (order_rows pg (?ks @ [(''id'', ?b)]) rows)" unfolding order_rows_flip .
  moreover have "set (map fst ?ks) \<subseteq> set sortColumns"
    using ok(3) by (auto simp: IsSortable_def)
  moreover have "map fst ?ks = split_on (CHR '','') columns" using ok(1) by (simp add: comp_def)
  ultimately show ?thesis using order order' by blast
qed

theorem sort_orders_witness:
  "\<exists>ks. listOrder ((page_params no_filter 10 None)\<lparr>lp_Sorts := [\<lparr>so_Column = ''result'', so_Desc = True\<rparr>]\<rparr>)
      = Inr (ks @ [(''id'', True)]) \<and> map fst ks = [''result'']
    \<and> (\<exists>ks'. order_rows plain_database ks' (ed_rows three_rows)
          = rev (order_rows plain_database (ks @ [(''id'', True)]) (ed_rows three_rows)))"
proof -
  have "ParseSort ''result'' ''desc'' = Inr [\<lparr>so_Column = ''result'', so_Desc = True\<rparr>]" by code_simp
  moreover have "distinct (map ev_ID (ed_rows three_rows))" using three_rows_wf by (simp add: evidence_wf_def)
  ultimately show ?thesis
    using sort_orders [of "''result''" "''desc''" "[\<lparr>so_Column = ''result'', so_Desc = True\<rparr>]"
        "page_params no_filter 10 None" "ed_rows three_rows" plain_database]
    by (auto simp: page_params_def)
qed

section \<open>Distinct values\<close>

definition distinctFields :: "string list" where
  "distinctFields = [''repo'', ''evidence_type'', ''source'']"

datatype distinct_error = NotQueryable string | DistinctFailed

definition Distinct_values ::
  "database \<Rightarrow> (nat \<Rightarrow> bool) \<Rightarrow> string \<Rightarrow> string \<Rightarrow> int \<Rightarrow> evidence_db \<Rightarrow> distinct_error + string list" where
  "Distinct_values pg fails field q limit d =
     (if field \<notin> set distinctFields then Inl (NotQueryable field)
      else if fails (ed_stmt d) then Inl DistinctFailed
      else
        let limit' = (if limit \<le> 0 then 100 else limit);
            keep = (\<lambda>v. q = '''' \<or> like (pg_lower pg (''%'' @ q @ ''%'')) (pg_lower pg v) = Some True);
            values = remdups (filter keep (map (\<lambda>e. the (text_column field e)) (ed_rows d)))
        in Inr (take (nat limit') (sort_key (pg_collate pg) values)))"

section \<open>Scanning the table\<close>

text \<open>
  \<^verbatim>\<open>ScanAll\<close> with a consumer that may change the tables between two batches. The text of the
  last time read is exact to the microsecond, which is what the column holds, so the position is
  the pair of the last row. The loop has no bound of its own: not returning is \<open>None\<close>.
\<close>

definition scan_batch :: "nat \<Rightarrow> (instant \<times> uuid) option \<Rightarrow> evidence_db \<Rightarrow> evidence list" where
  "scan_batch batchSize last_pos d =
     take batchSize (sort_key (\<lambda>e. (ev_FinishedAt e, ev_ID e))
       (filter (\<lambda>e. case last_pos of None \<Rightarrow> True | Some p \<Rightarrow> p < (ev_FinishedAt e, ev_ID e)) (ed_rows d)))"

partial_function (option) ScanAll ::
  "(nat \<Rightarrow> bool) \<Rightarrow> nat \<Rightarrow> (evidence list \<Rightarrow> evidence_db \<Rightarrow> 'a \<Rightarrow> evidence_error option \<times> evidence_db \<times> 'a)
     \<Rightarrow> (instant \<times> uuid) option \<Rightarrow> evidence_db \<Rightarrow> 'a \<Rightarrow> (evidence_error option \<times> evidence_db \<times> 'a) option" where
  "ScanAll fails batchSize fn last_pos d acc =
     (if fails (ed_stmt d) then Some (Some StatementFailed, tick d, acc)
      else
        let batch = scan_batch batchSize last_pos d in
        if batch = [] then Some (None, tick d, acc)
        else case fn batch (tick d) acc of (err, d', acc') \<Rightarrow>
          if err \<noteq> None then Some (err, d', acc')
          else if length batch < batchSize then Some (None, d', acc')
          else ScanAll fails batchSize fn (Some (ev_FinishedAt (last batch), ev_ID (last batch))) d' acc')"

declare ScanAll.simps [code]

subsection \<open>A scan that deletes as it goes\<close>

abbreviation fpos :: "evidence \<Rightarrow> instant \<times> uuid" where
  "fpos e \<equiv> (ev_FinishedAt e, ev_ID e)"

definition after_pos :: "(instant \<times> uuid) option \<Rightarrow> evidence \<Rightarrow> bool" where
  "after_pos p e \<longleftrightarrow> (case p of None \<Rightarrow> True | Some p \<Rightarrow> p < fpos e)"

definition remaining :: "(instant \<times> uuid) option \<Rightarrow> evidence list \<Rightarrow> evidence list" where
  "remaining p rows = sort_key fpos (filter (after_pos p) rows)"

lemma scan_batch_remaining: "scan_batch b p d = take b (remaining p (ed_rows d))"
  by (simp add: scan_batch_def remaining_def after_pos_def [abs_def])

lemma remaining_strict:
  assumes "distinct (map ev_ID rows)"
  shows "sorted_wrt (\<lambda>x y. fpos x < fpos y) (remaining p rows)"
proof -
  have "distinct (map ev_ID (remaining p rows))"
    using assms unfolding remaining_def distinct_map by (auto intro: inj_on_subset)
  then have "distinct (map fpos (remaining p rows))" unfolding distinct_map by (auto simp: inj_on_def)
  moreover have "sorted (map fpos (remaining p rows))" by (simp add: remaining_def)
  ultimately have "sorted_wrt (<) (map fpos (remaining p rows))" by (simp add: strict_sorted_iff)
  then show ?thesis by (simp add: sorted_wrt_map)
qed

text \<open>A full batch splits what remains: the batch itself and what lies after its last row.\<close>

lemma remaining_split:
  assumes "distinct (map ev_ID rows)" and "0 < b" and "b \<le> length (remaining p rows)"
  defines "q \<equiv> fpos (last (take b (remaining p rows)))"
  shows "e \<in> set rows \<Longrightarrow> after_pos p e \<longleftrightarrow> e \<in> set (take b (remaining p rows)) \<or> after_pos (Some q) e"
    and "e \<in> set (take b (remaining p rows)) \<Longrightarrow> \<not> after_pos (Some q) e"
    and "length (remaining (Some q) rows) < length (remaining p rows)"
proof -
  let ?xs = "remaining p rows"
  have strict: "sorted_wrt (\<lambda>x y. fpos x < fpos y) ?xs" by (rule remaining_strict [OF assms(1)])
  have last: "last (take b ?xs) = ?xs ! (b - 1)"
    using assms(2,3) by (subst last_conv_nth) (auto simp: min_def)
  have drop: "filter (after_pos (Some q)) ?xs = drop b ?xs"
    using strict_drop [OF strict, of "b - 1"] assms(2,3) unfolding after_pos_def q_def last by simp
  have mem: "e \<in> set ?xs \<longleftrightarrow> e \<in> set rows \<and> after_pos p e" for e by (auto simp: remaining_def)
  have q: "?xs ! (b - 1) \<in> set ?xs" using assms(2,3) by simp
  have mono: "after_pos p e" if "after_pos (Some q) e" for e
  proof (cases p)
    case (Some p')
    then have "p' < q" using q mem unfolding q_def last after_pos_def by auto
    then show ?thesis using that Some order_less_trans unfolding after_pos_def by auto
  qed (simp add: after_pos_def)
  have parts: "set ?xs = set (take b ?xs) \<union> set (drop b ?xs)"
    by (metis append_take_drop_id set_append)
  have dropped: "e \<in> set (drop b ?xs) \<longleftrightarrow> e \<in> set ?xs \<and> after_pos (Some q) e" for e
    unfolding drop [symmetric] by auto
  show "after_pos p e \<longleftrightarrow> e \<in> set (take b ?xs) \<or> after_pos (Some q) e" if "e \<in> set rows"
    using that mono mem parts dropped by blast
  have "distinct ?xs" using assms(1) by (simp add: remaining_def distinct_map)
  then have "set (take b ?xs) \<inter> set (drop b ?xs) = {}" by (rule set_take_disj_set_drop_if_distinct) simp
  then show "\<not> after_pos (Some q) e" if "e \<in> set (take b ?xs)"
    using that dropped parts by blast
  have "filter (after_pos (Some q)) (filter (after_pos p) rows) = filter (after_pos (Some q)) rows"
    unfolding filter_filter by (rule filter_cong) (use mono in auto)
  then have "length (remaining (Some q) rows) = length (filter (after_pos (Some q)) ?xs)"
    by (simp add: remaining_def filter_sort)
  then show "length (remaining (Some q) rows) < length ?xs" unfolding drop using assms(2,3) by simp
qed

text \<open>What every statement and every batch keeps, the scan keeps.\<close>

lemma ScanAll_invariant:
  assumes "ScanAll fails b fn p d acc = Some res"
    and "\<And>d. I d \<Longrightarrow> I (tick d)" and "\<And>batch d acc. I d \<Longrightarrow> I (fst (snd (fn batch d acc)))" and "I d"
  shows "I (fst (snd res))"
proof -
  have "\<lbrakk>\<forall>d. I d \<longrightarrow> I (tick d); \<forall>batch d acc. I d \<longrightarrow> I (fst (snd (fn batch d acc))); I d\<rbrakk> \<Longrightarrow> I (fst (snd res))"
    using assms(1)
  proof (induction rule: ScanAll.raw_induct [rotated, consumes 1])
    case (1 scan fails b fn p d acc res)
    obtain err d1 acc1 where fn: "fn (scan_batch b p d) (tick d) acc = (err, d1, acc1)" by (metis prod_cases3)
    have d1: "I d1" using fn "1.prems" by (metis fst_conv snd_conv)
    show ?case
      using "1.hyps" "1.prems" "1.IH" [OF _ "1.prems"(1,2) d1]
      by (auto simp: Let_def fn d1 split: if_splits)
  qed
  then show ?thesis using assms(2-) by blast
qed

text \<open>
  What \<^verbatim>\<open>ScanAll\<close> needs of the function it calls: a batch that is accepted loses exactly the
  rows the function does not keep, and one that is refused loses nothing; other tables stay.
\<close>

locale scan_consumer =
  fixes fn :: "evidence list \<Rightarrow> evidence_db \<Rightarrow> 'a \<Rightarrow> evidence_error option \<times> evidence_db \<times> 'a"
    and keep :: "evidence \<Rightarrow> bool"
    and counts :: "'a \<Rightarrow> nat"
  assumes accepts: "fn batch d acc = (None, d', acc') \<Longrightarrow> distinct (map ev_ID (ed_rows d)) \<Longrightarrow>
      set batch \<subseteq> set (ed_rows d) \<Longrightarrow>
      ed_rows d' = filter (\<lambda>e. e \<in> set batch \<longrightarrow> keep e) (ed_rows d)"
    and refuses: "fn batch d acc = (Some err, d', acc') \<Longrightarrow> ed_rows d' = ed_rows d"
    and counted: "fn batch d acc = (e, d', acc') \<Longrightarrow> distinct (map ev_ID (ed_rows d)) \<Longrightarrow>
      set batch \<subseteq> set (ed_rows d) \<Longrightarrow>
      counts acc' + length (ed_rows d') = counts acc + length (ed_rows d)"
begin

lemma scan_returns:
  assumes "distinct (map ev_ID (ed_rows d))" and "0 < b"
  shows "\<exists>err d' acc'. ScanAll fails b fn p d acc = Some (err, d', acc')
    \<and> (err = None \<longrightarrow> ed_rows d' = filter (\<lambda>e. after_pos p e \<longrightarrow> keep e) (ed_rows d))
    \<and> (\<exists>S. ed_rows d' = filter (\<lambda>e. e \<in> S \<longrightarrow> keep e) (ed_rows d))
    \<and> counts acc' + length (ed_rows d') = counts acc + length (ed_rows d)"
  using assms(1)
proof (induction "length (remaining p (ed_rows d))" arbitrary: p d acc rule: less_induct)
  case less
  let ?rows = "ed_rows d" and ?xs = "remaining p (ed_rows d)"
  let ?batch = "scan_batch b p d"
  have same: "\<exists>S. ?rows = filter (\<lambda>e. e \<in> S \<longrightarrow> keep e) ?rows" by (rule exI [of _ "{}"]) simp
  have mem: "e \<in> set ?xs \<longleftrightarrow> e \<in> set ?rows \<and> after_pos p e" for e by (auto simp: remaining_def)
  have batch: "?batch = take b ?xs" by (rule scan_batch_remaining)
  have sub: "set ?batch \<subseteq> set (ed_rows (tick d))" 
    using mem in_set_takeD [of _ b ?xs] unfolding batch tick_simps by blast
  note step = ScanAll.simps [of fails b fn p d acc]
  show ?case
  proof (cases "fails (ed_stmt d) \<or> ?batch = []")
    case True
    show ?thesis
    proof (cases "fails (ed_stmt d)")
      case True
      then have scan: "ScanAll fails b fn p d acc = Some (Some StatementFailed, tick d, acc)"
        by (subst step) (simp only: if_True)
      show ?thesis unfolding scan using same by simp
    next
      case False
      then have nil: "?xs = []" using True batch assms(2) by simp
      then have "\<not> after_pos p e" if "e \<in> set ?rows" for e using mem that by auto
      then have "filter (\<lambda>e. after_pos p e \<longrightarrow> keep e) ?rows = ?rows" by simp
      moreover have scan: "ScanAll fails b fn p d acc = Some (None, tick d, acc)"
        using False True by (subst step) (simp add: Let_def)
      ultimately show ?thesis unfolding scan using same by simp
    qed
  next
    case False
    obtain err d1 acc1 where fn: "fn ?batch (tick d) acc = (err, d1, acc1)" by (metis prod_cases3)
    have dis: "distinct (map ev_ID (ed_rows (tick d)))" using less.prems by simp
    have cnt: "counts acc1 + length (ed_rows d1) = counts acc + length ?rows"
      using counted [OF fn dis sub] by simp
    show ?thesis
    proof (cases err)
      case (Some x)
      then have "ed_rows d1 = ?rows" using refuses fn by fastforce
      moreover have scan: "ScanAll fails b fn p d acc = Some (err, d1, acc1)"
        using False fn Some by (subst step) (simp add: Let_def)
      ultimately show ?thesis unfolding scan using same Some cnt by simp
    next
      case None
      have rows1: "ed_rows d1 = filter (\<lambda>e. e \<in> set ?batch \<longrightarrow> keep e) ?rows"
        using accepts [OF fn [unfolded None] dis sub] by simp
      show ?thesis
      proof (cases "length ?batch < b")
        case True
        then have "?batch = ?xs" unfolding batch by simp
        then have "ed_rows d1 = filter (\<lambda>e. after_pos p e \<longrightarrow> keep e) ?rows"
          unfolding rows1 using mem by (auto intro: filter_cong)
        moreover have scan: "ScanAll fails b fn p d acc = Some (None, d1, acc1)"
          using False True fn None by (subst step) (simp add: Let_def)
        moreover have "\<exists>S. ed_rows d1 = filter (\<lambda>e. e \<in> S \<longrightarrow> keep e) ?rows" using rows1 by blast
        ultimately show ?thesis using cnt by blast
      next
        case full: False
        let ?q = "Some (fpos (last ?batch))"
        have len: "b \<le> length ?xs" using full unfolding batch by (simp add: min_def split: if_splits)
        note split = remaining_split [OF less.prems assms(2) len, folded batch]
        have gone: "remaining ?q (ed_rows d1) = remaining ?q ?rows"
        proof -
          have "filter (after_pos ?q) (ed_rows d1) = filter (after_pos ?q) ?rows"
            unfolding rows1 filter_filter by (rule filter_cong) (use split(2) in auto)
          then show ?thesis by (simp add: remaining_def)
        qed
        have "length (remaining ?q (ed_rows d1)) < length ?xs" unfolding gone using split(3) by simp
        moreover have "distinct (map ev_ID (ed_rows d1))"
          unfolding rows1 using less.prems by (rule distinct_map_filter)
        ultimately obtain err' d' acc' where rec:
          "ScanAll fails b fn ?q d1 acc1 = Some (err', d', acc')"
          "err' = None \<longrightarrow> ed_rows d' = filter (\<lambda>e. after_pos ?q e \<longrightarrow> keep e) (ed_rows d1)"
          "\<exists>S. ed_rows d' = filter (\<lambda>e. e \<in> S \<longrightarrow> keep e) (ed_rows d1)"
          "counts acc' + length (ed_rows d') = counts acc1 + length (ed_rows d1)"
          using less.hyps [of ?q d1 acc1] by blast
        have scan: "ScanAll fails b fn p d acc = Some (err', d', acc')"
          using False full fn None rec(1) by (subst step) (simp add: Let_def)
        have "ed_rows d' = filter (\<lambda>e. after_pos p e \<longrightarrow> keep e) ?rows" if "err' = None"
        proof -
          have "filter (\<lambda>e. after_pos ?q e \<longrightarrow> keep e) (ed_rows d1) = filter (\<lambda>e. after_pos p e \<longrightarrow> keep e) ?rows"
            unfolding rows1 filter_filter by (rule filter_cong) (use split(1) in auto)
          then show ?thesis using rec(2) that by simp
        qed
        moreover have "\<exists>S. ed_rows d' = filter (\<lambda>e. e \<in> S \<longrightarrow> keep e) ?rows"
        proof -
          obtain S where "ed_rows d' = filter (\<lambda>e. e \<in> S \<longrightarrow> keep e) (ed_rows d1)" using rec(3) by blast
          then have "ed_rows d' = filter (\<lambda>e. e \<in> S \<union> set ?batch \<longrightarrow> keep e) ?rows"
            unfolding rows1 filter_filter by (auto intro: filter_cong)
          then show ?thesis by blast
        qed
        moreover have "counts acc' + length (ed_rows d') = counts acc + length ?rows" using rec(4) cnt by simp
        ultimately show ?thesis using scan by blast
      qed
    qed
  qed
qed

end

end
