(* ===== verification/Retention.thy ===== *)
theory Retention
  imports Evidence_Query
begin

text \<open>
  The retention worker: the rules of \<^verbatim>\<open>internal/retention/config.go\<close> and their evaluation
  (\<^verbatim>\<open>evaluator.go\<close>), the pass that deletes expired records (\<^verbatim>\<open>worker.go\<close>) and the sweep that
  collects blobs nothing refers to (\<^verbatim>\<open>sweep.go\<close>), with the reference queries of
  \<^verbatim>\<open>internal/store/blobref.go\<close> and \<^verbatim>\<open>internal/store/inheritance.go\<close> they call. The YAML
  decoder is an argument, and so are the regular expressions, which \<open>compile\<close> turns into a test.
\<close>

section \<open>Rules\<close>

record rule =
  ru_Name :: string
  ru_Match :: "(string \<times> string) list"
  ru_MaxAge :: duration
  ru_Priority :: int

record retention_config =
  rc_Interval :: duration
  rc_Rules :: "rule list"

datatype retention_error =
    BadYAML
  | NameRequired nat
  | NegativeMaxAge string
  | UnknownField string string
  | BadRegex string string

definition validFields :: "string list" where
  "validFields = [''repo'', ''branch'', ''rcs_ref'', ''procedure_ref'', ''evidence_type'', ''source'', ''result'']"

type_synonym regex = "string \<Rightarrow> bool"

fun check_match :: "(string \<Rightarrow> regex option) \<Rightarrow> string \<Rightarrow> (string \<times> string) list \<Rightarrow> retention_error option" where
  "check_match compile name [] = None"
| "check_match compile name ((field, pattern) # rest) =
     (if field \<notin> set validFields then Some (UnknownField name field)
      else if compile pattern = None then Some (BadRegex name field)
      else check_match compile name rest)"

fun check_rules :: "(string \<Rightarrow> regex option) \<Rightarrow> nat \<Rightarrow> rule list \<Rightarrow> retention_error option" where
  "check_rules compile i [] = None"
| "check_rules compile i (r # rs) =
     (if ru_Name r = '''' then Some (NameRequired i)
      else if ru_MaxAge r < 0 then Some (NegativeMaxAge (ru_Name r))
      else case check_match compile (ru_Name r) (ru_Match r) of
          Some err \<Rightarrow> Some err
        | None \<Rightarrow> check_rules compile (Suc i) rs)"

definition hour :: duration where
  "hour = 3600 * second"

text \<open>\<^verbatim>\<open>sort.Slice\<close> is not stable: it may order rules of equal priority in any way, so the sort is
  an argument.\<close>

definition ParseConfig ::
  "('y \<Rightarrow> retention_config option) \<Rightarrow> (string \<Rightarrow> regex option) \<Rightarrow> (rule list \<Rightarrow> rule list) \<Rightarrow> 'y
     \<Rightarrow> retention_error + retention_config" where
  "ParseConfig unmarshal compile sort_rules data =
     (case unmarshal data of
        None \<Rightarrow> Inl BadYAML
      | Some cfg \<Rightarrow>
          let cfg' = (if rc_Interval cfg \<le> 0 then cfg\<lparr>rc_Interval := 24 * hour\<rparr> else cfg) in
          case check_rules compile 0 (rc_Rules cfg') of
            Some err \<Rightarrow> Inl err
          | None \<Rightarrow> Inr (cfg'\<lparr>rc_Rules := sort_rules (rc_Rules cfg')\<rparr>))"

section \<open>Evaluation\<close>

record compiled_rule =
  cr_name :: string
  cr_matchers :: "(string \<times> regex) list"
  cr_maxAge :: duration

fun compile_match :: "(string \<Rightarrow> regex option) \<Rightarrow> (string \<times> string) list \<Rightarrow> (string \<times> regex) list option" where
  "compile_match compile [] = Some []"
| "compile_match compile ((field, pattern) # rest) =
     (case compile pattern of
        None \<Rightarrow> None
      | Some re \<Rightarrow> map_option (\<lambda>ms. (field, re) # ms) (compile_match compile rest))"

fun NewEvaluator :: "(string \<Rightarrow> regex option) \<Rightarrow> rule list \<Rightarrow> compiled_rule list option" where
  "NewEvaluator compile [] = Some []"
| "NewEvaluator compile (r # rs) =
     (case compile_match compile (ru_Match r) of
        None \<Rightarrow> None
      | Some ms \<Rightarrow> map_option (\<lambda>crs. \<lparr>cr_name = ru_Name r, cr_matchers = ms, cr_maxAge = ru_MaxAge r\<rparr> # crs)
                    (NewEvaluator compile rs))"

definition fieldValue :: "evidence \<Rightarrow> string \<Rightarrow> string" where
  "fieldValue e field =
     (if field = ''repo'' then ev_Repo e
      else if field = ''branch'' then ev_Branch e
      else if field = ''rcs_ref'' then ev_RCSRef e
      else if field = ''procedure_ref'' then ev_ProcedureRef e
      else if field = ''evidence_type'' then ev_EvidenceType e
      else if field = ''source'' then ev_Source e
      else if field = ''result'' then ev_Result e
      else '''')"

definition matchesRule :: "evidence \<Rightarrow> compiled_rule \<Rightarrow> bool" where
  "matchesRule e r \<longleftrightarrow> list_all (\<lambda>(field, re). re (fieldValue e field)) (cr_matchers r)"

definition MaxAge :: "compiled_rule list \<Rightarrow> evidence \<Rightarrow> duration" where
  "MaxAge rules e = (case find (matchesRule e) rules of Some r \<Rightarrow> cr_maxAge r | None \<Rightarrow> -1)"

section \<open>A retention pass\<close>

definition isPinned :: "evidence \<Rightarrow> bool" where
  "isPinned e = (case unmarshal_map (ev_Metadata e) of
      None \<Rightarrow> False
    | Some m \<Rightarrow> (case json_field m ''retain'' of
          None \<Rightarrow> False
        | Some j \<Rightarrow> (case unmarshal_bool j of None \<Rightarrow> False | Some b \<Rightarrow> b)))"

definition ref_key :: "string \<Rightarrow> string \<Rightarrow> string" where
  "ref_key repo rcs = repo @ CHR 0x00 # rcs"

definition AllSourceRefs :: "(nat \<Rightarrow> bool) \<Rightarrow> evidence_db \<Rightarrow> (evidence_error + string set) \<times> evidence_db" where
  "AllSourceRefs fails d =
     (if fails (ed_stmt d) then (Inl StatementFailed, tick d)
      else (Inr (set (map (\<lambda>i. ref_key (ih_Repo i) (ih_SourceRCSRef i)) (ed_inheritance d))), tick d))"

definition isInheritanceProtected :: "evidence \<Rightarrow> string set \<Rightarrow> bool" where
  "isInheritanceProtected e refs \<longleftrightarrow> ref_key (ev_Repo e) (ev_RCSRef e) \<in> refs"

definition defaultBatchSize :: nat where
  "defaultBatchSize = 1000"

definition to_delete :: "compiled_rule list \<Rightarrow> string set \<Rightarrow> instant \<Rightarrow> evidence \<Rightarrow> bool" where
  "to_delete rules refs now e =
     (if isPinned e then False
      else if isInheritanceProtected e refs then False
      else if MaxAge rules e < 0 then False
      else if MaxAge rules e = 0 then False
      else MaxAge rules e \<le> time_sub now (ev_FinishedAt e))"

definition expire_batch ::
  "(nat \<Rightarrow> bool) \<Rightarrow> compiled_rule list \<Rightarrow> string set \<Rightarrow> instant
     \<Rightarrow> evidence list \<Rightarrow> evidence_db \<Rightarrow> nat \<Rightarrow> evidence_error option \<times> evidence_db \<times> nat" where
  "expire_batch fails rules refs now batch d n =
     (let ids = map ev_ID (filter (to_delete rules refs now) batch) in
      if ids = [] then (None, d, n)
      else case DeleteBatch fails ids d of
          (Inl err, d') \<Rightarrow> (Some err, d', n)
        | (Inr deleted, d') \<Rightarrow> (None, d', n + deleted))"

definition Worker_RunOnce ::
  "(nat \<Rightarrow> bool) \<Rightarrow> compiled_rule list \<Rightarrow> instant \<Rightarrow> evidence_db
     \<Rightarrow> (evidence_error option \<times> evidence_db \<times> nat) option" where
  "Worker_RunOnce fails rules now d =
     (case AllSourceRefs fails d of
        (Inl err, d') \<Rightarrow> Some (Some err, d', 0)
      | (Inr refs, d') \<Rightarrow> ScanAll fails defaultBatchSize (expire_batch fails rules refs now) None d' 0)"

section \<open>Collecting blobs\<close>

text \<open>
  The sweep's state: the batch collected, what has been deleted, the object store and the
  statement counter. \<open>undeletable\<close> says for which digests the object store refuses a deletion.
\<close>

record sweep_state =
  sw_batch :: "digest list"
  sw_deleted :: nat
  sw_objects :: "blob_object list"
  sw_stmt :: nat

definition sweepBatch :: nat where
  "sweepBatch = 500"

text \<open>The three tables of references.\<close>

definition referencedBlobs :: "evidence_db \<Rightarrow> digest list \<Rightarrow> digest set" where
  "referencedBlobs d digests =
     {x \<in> set digests. x \<in> fst ` set (ed_blob_refs d) \<or> x \<in> fst ` set (ed_campaign_refs d)
                        \<or> x \<in> fst ` set (ed_draft_refs d)}"

definition Store_Delete :: "(digest \<Rightarrow> bool) \<Rightarrow> digest \<Rightarrow> blob_object list \<Rightarrow> blob_object list option" where
  "Store_Delete undeletable x objects =
     (if undeletable x \<or> x \<notin> bo_Digest ` set objects then None
      else Some (filter (\<lambda>b. bo_Digest b \<noteq> x) objects))"

definition delete_one :: "(digest \<Rightarrow> bool) \<Rightarrow> digest set \<Rightarrow> digest \<Rightarrow> sweep_state \<Rightarrow> sweep_state" where
  "delete_one undeletable referenced x s =
     (if x \<in> referenced then s
      else case Store_Delete undeletable x (sw_objects s) of
          None \<Rightarrow> s
        | Some objects \<Rightarrow> s\<lparr>sw_objects := objects, sw_deleted := Suc (sw_deleted s)\<rparr>)"

text \<open>
  \<^verbatim>\<open>flush\<close> inside \<^verbatim>\<open>WithSweepLock\<close>: begin, lock, query, deletions, commit. Deletions are not
  undone when the commit fails.
\<close>

definition flush ::
  "(nat \<Rightarrow> bool) \<Rightarrow> (digest \<Rightarrow> bool) \<Rightarrow> evidence_db \<Rightarrow> sweep_state \<Rightarrow> evidence_error option \<times> sweep_state" where
  "flush fails undeletable d s =
     (if sw_batch s = [] then (None, s)
      else if fails (sw_stmt s) \<or> fails (sw_stmt s + 1) \<or> fails (sw_stmt s + 2) then (Some StatementFailed, s)
      else
        let s' = fold (delete_one undeletable (referencedBlobs d (sw_batch s))) (sw_batch s) s;
            s'' = s'\<lparr>sw_batch := [], sw_stmt := sw_stmt s + 4\<rparr>
        in if fails (sw_stmt s + 3) then (Some StatementFailed, s'') else (None, s''))"

fun sweep_list ::
  "(nat \<Rightarrow> bool) \<Rightarrow> (digest \<Rightarrow> bool) \<Rightarrow> evidence_db \<Rightarrow> instant \<Rightarrow> blob_object list \<Rightarrow> sweep_state
     \<Rightarrow> evidence_error option \<times> sweep_state" where
  "sweep_list fails undeletable d cutoff [] s = (None, s)"
| "sweep_list fails undeletable d cutoff (b # bs) s =
     (if cutoff < bo_Created b then sweep_list fails undeletable d cutoff bs s
      else
        let s' = s\<lparr>sw_batch := sw_batch s @ [bo_Digest b]\<rparr> in
        if length (sw_batch s') < sweepBatch then sweep_list fails undeletable d cutoff bs s'
        else case flush fails undeletable d s' of
            (Some err, s'') \<Rightarrow> (Some err, s'')
          | (None, s'') \<Rightarrow> sweep_list fails undeletable d cutoff bs s'')"

text \<open>The walk over the object store sees the objects in some order \<open>listing\<close>; \<open>broken\<close> says that
  it ends with an error.\<close>

definition SweepBlobs ::
  "(nat \<Rightarrow> bool) \<Rightarrow> (digest \<Rightarrow> bool) \<Rightarrow> bool \<Rightarrow> instant \<Rightarrow> duration \<Rightarrow> evidence_db
     \<Rightarrow> blob_object list \<Rightarrow> blob_object list \<Rightarrow> evidence_error option \<times> sweep_state" where
  "SweepBlobs fails undeletable broken now orphanGrace d walked objects =
     (let s = \<lparr>sw_batch = [], sw_deleted = 0, sw_objects = objects, sw_stmt = ed_stmt d\<rparr> in
      case sweep_list fails undeletable d (now - orphanGrace) walked s of
        (Some err, s') \<Rightarrow> (Some err, s')
      | (None, s') \<Rightarrow> if broken then (Some StatementFailed, s') else flush fails undeletable d s')"

text \<open>One pass of the worker: records first, then the blobs that left unreachable.\<close>

definition runPass ::
  "(nat \<Rightarrow> bool) \<Rightarrow> (digest \<Rightarrow> bool) \<Rightarrow> bool \<Rightarrow> compiled_rule list \<Rightarrow> instant \<Rightarrow> instant \<Rightarrow> duration
     \<Rightarrow> (blob_object list \<Rightarrow> blob_object list) \<Rightarrow> evidence_db \<Rightarrow> blob_object list
     \<Rightarrow> (evidence_db \<times> blob_object list) option" where
  "runPass fails undeletable broken rules now now2 orphanGrace walk_order d objects =
     (case Worker_RunOnce fails rules now d of
        None \<Rightarrow> None
      | Some (_, d', _) \<Rightarrow>
          (case SweepBlobs fails undeletable broken now2 orphanGrace d' (walk_order objects) objects of
             (_, s) \<Rightarrow> Some (d', sw_objects s)))"

section \<open>Which rule decides\<close>

text \<open>What a rule says of a record, before any compilation.\<close>

definition rule_matches :: "(string \<Rightarrow> regex option) \<Rightarrow> rule \<Rightarrow> evidence \<Rightarrow> bool" where
  "rule_matches compile r e \<longleftrightarrow>
     (\<forall>(field, pattern) \<in> set (ru_Match r). the (compile pattern) (fieldValue e field))"

text \<open>What the code relies on of \<^verbatim>\<open>sort.Slice\<close>.\<close>

definition sorts_by_priority :: "(rule list \<Rightarrow> rule list) \<Rightarrow> bool" where
  "sorts_by_priority srt \<longleftrightarrow>
     (\<forall>rs. mset (srt rs) = mset rs \<and> sorted_wrt (\<lambda>a b. ru_Priority b \<le> ru_Priority a) (srt rs))"

lemma check_match_compiles:
  "check_match compile name m = None \<Longrightarrow>
     compile_match compile m = Some (map (\<lambda>(f, p). (f, the (compile p))) m) \<and> fst ` set m \<subseteq> set validFields"
  by (induction compile name m rule: check_match.induct) (auto split: if_splits)

lemma check_rules_each:
  "check_rules compile i rs = None \<Longrightarrow> r \<in> set rs \<Longrightarrow>
     ru_Name r \<noteq> '''' \<and> 0 \<le> ru_MaxAge r \<and> check_match compile (ru_Name r) (ru_Match r) = None"
  by (induction rs arbitrary: i) (auto split: if_splits option.splits)

lemma NewEvaluator_compiles:
  assumes "\<And>r. r \<in> set rs \<Longrightarrow> check_match compile (ru_Name r) (ru_Match r) = None"
  shows "NewEvaluator compile rs = Some (map (\<lambda>r. \<lparr>cr_name = ru_Name r,
     cr_matchers = map (\<lambda>(f, p). (f, the (compile p))) (ru_Match r), cr_maxAge = ru_MaxAge r\<rparr>) rs)"
  using assms
proof (induction rs)
  case (Cons r rs)
  have "compile_match compile (ru_Match r) = Some (map (\<lambda>(f, p). (f, the (compile p))) (ru_Match r))"
    using Cons.prems [of r] check_match_compiles by simp
  then show ?case using Cons by simp
qed simp

lemma find_map: "find P (map f xs) = map_option f (find (P \<circ> f) xs)"
  by (induction xs) simp_all

lemma MaxAge_compiled:
  "MaxAge (map (\<lambda>r. \<lparr>cr_name = ru_Name r, cr_matchers = map (\<lambda>(f, p). (f, the (compile p))) (ru_Match r),
     cr_maxAge = ru_MaxAge r\<rparr>) rs) e
   = (case find (\<lambda>r. rule_matches compile r e) rs of Some r \<Rightarrow> ru_MaxAge r | None \<Rightarrow> -1)"
proof -
  have "(matchesRule e \<circ> (\<lambda>r. \<lparr>cr_name = ru_Name r,
      cr_matchers = map (\<lambda>(f, p). (f, the (compile p))) (ru_Match r), cr_maxAge = ru_MaxAge r\<rparr>))
      = (\<lambda>r. rule_matches compile r e)"
    by (auto simp: matchesRule_def rule_matches_def list_all_iff fun_eq_iff)
  then show ?thesis unfolding MaxAge_def find_map by (simp split: option.splits)
qed

text \<open>
  The rule of the highest priority decides. A configuration that parses always compiles; its
  rules are those of the file, each with a name, an age that is not negative and only known
  fields; and the age limit of a record is the one of a rule that matches it and that no other
  matching rule outranks, or minus one when none matches. Between rules of equal priority the
  sort, which is not stable, decides.
\<close>

theorem highest_priority_decides:
  assumes "ParseConfig unmarshal compile srt data = Inr cfg" and "sorts_by_priority srt"
  shows "\<exists>file ev. unmarshal data = Some file \<and> NewEvaluator compile (rc_Rules cfg) = Some ev
    \<and> set (rc_Rules cfg) = set (rc_Rules file) \<and> 0 < rc_Interval cfg
    \<and> (\<forall>r \<in> set (rc_Rules cfg). ru_Name r \<noteq> '''' \<and> 0 \<le> ru_MaxAge r \<and> fst ` set (ru_Match r) \<subseteq> set validFields)
    \<and> (if \<exists>r \<in> set (rc_Rules file). rule_matches compile r e
       then \<exists>r \<in> set (rc_Rules file). rule_matches compile r e \<and> MaxAge ev e = ru_MaxAge r
              \<and> (\<forall>r' \<in> set (rc_Rules file). rule_matches compile r' e \<longrightarrow> ru_Priority r' \<le> ru_Priority r)
       else MaxAge ev e = -1)"
proof -
  from assms(1) obtain f0 where yml: "unmarshal data = Some f0"
    and check: "check_rules compile 0 (rc_Rules f0) = None"
    and rules: "rc_Rules cfg = srt (rc_Rules f0)"
    and int: "rc_Interval cfg = (if rc_Interval f0 \<le> 0 then 24 * hour else rc_Interval f0)"
    by (auto simp: ParseConfig_def Let_def split: option.splits if_splits)
  let ?rs = "srt (rc_Rules f0)"
  have perm: "mset ?rs = mset (rc_Rules f0)"
    and sorted: "sorted_wrt (\<lambda>a b. ru_Priority b \<le> ru_Priority a) ?rs"
    using assms(2) by (simp_all add: sorts_by_priority_def)
  have set: "set ?rs = set (rc_Rules f0)" using perm by (rule mset_eq_setD)
  have each: "ru_Name r \<noteq> '''' \<and> 0 \<le> ru_MaxAge r \<and> check_match compile (ru_Name r) (ru_Match r) = None"
    if "r \<in> set ?rs" for r using check_rules_each [OF check] that set by blast
  let ?ev = "map (\<lambda>r. \<lparr>cr_name = ru_Name r, cr_matchers = map (\<lambda>(f, p). (f, the (compile p))) (ru_Match r),
     cr_maxAge = ru_MaxAge r\<rparr>) ?rs"
  have ev: "NewEvaluator compile ?rs = Some ?ev" using NewEvaluator_compiles each by blast
  have best: "if \<exists>r \<in> set ?rs. rule_matches compile r e
       then \<exists>r \<in> set ?rs. rule_matches compile r e \<and> MaxAge ?ev e = ru_MaxAge r
              \<and> (\<forall>r' \<in> set ?rs. rule_matches compile r' e \<longrightarrow> ru_Priority r' \<le> ru_Priority r)
       else MaxAge ?ev e = -1"
  proof (cases "find (\<lambda>r. rule_matches compile r e) ?rs")
    case None
    then have "\<not> (\<exists>r \<in> set ?rs. rule_matches compile r e)" unfolding find_None_iff_list by blast
    then show ?thesis using None unfolding MaxAge_compiled by simp
  next
    case (Some r)
    then show ?thesis unfolding MaxAge_compiled
      using find_SomeD [OF Some] find_sorted_best [OF sorted Some] by auto
  qed
  have "0 < rc_Interval cfg" unfolding int by (simp add: hour_def second_def)
  moreover have "\<forall>r \<in> set ?rs. ru_Name r \<noteq> '''' \<and> 0 \<le> ru_MaxAge r \<and> fst ` set (ru_Match r) \<subseteq> set validFields"
    using each check_match_compiles by blast
  ultimately show ?thesis using yml ev best unfolding rules set by blast
qed

definition demo_rules :: "rule list" where
  "demo_rules = [\<lparr>ru_Name = ''default'', ru_Match = [], ru_MaxAge = 720 * hour, ru_Priority = 0\<rparr>,
     \<lparr>ru_Name = ''releases'', ru_Match = [(''branch'', ''main'')], ru_MaxAge = 0, ru_Priority = 100\<rparr>]"

definition stable_sort :: "rule list \<Rightarrow> rule list" where
  "stable_sort = sort_key (\<lambda>r. - ru_Priority r)"

lemma stable_sort_sorts: "sorts_by_priority stable_sort"
proof -
  have "sorted_wrt (\<lambda>a b. ru_Priority b \<le> ru_Priority a) (sort_key (\<lambda>r. - ru_Priority r) rs)" for rs
    using sorted_sort_key [of "\<lambda>r. - ru_Priority r" rs] by (simp add: sorted_map)
  then show ?thesis unfolding sorts_by_priority_def stable_sort_def by (intro allI conjI) simp_all
qed

theorem highest_priority_decides_witness:
  "\<exists>cfg ev. ParseConfig Some (\<lambda>p. Some (\<lambda>s. s = p)) stable_sort \<lparr>rc_Interval = 0, rc_Rules = demo_rules\<rparr> = Inr cfg
     \<and> NewEvaluator (\<lambda>p. Some (\<lambda>s. s = p)) (rc_Rules cfg) = Some ev \<and> MaxAge ev (demo_row 1 0) = 0"
proof -
  let ?re = "\<lambda>p :: string. Some (\<lambda>s. s = p)" and ?f = "\<lparr>rc_Interval = 0, rc_Rules = demo_rules\<rparr>"
  have "check_rules ?re 0 demo_rules = None"
    by (simp add: demo_rules_def validFields_def hour_def second_def)
  then obtain cfg where cfg: "ParseConfig Some ?re stable_sort ?f = Inr cfg"
    by (simp add: ParseConfig_def Let_def)
  have m: "rule_matches ?re r (demo_row 1 0)" if "r \<in> set demo_rules" for r
    using that by (auto simp: demo_rules_def rule_matches_def fieldValue_def demo_row_def evidence_row_def
        demo_submission_def)
  have ex: "\<exists>r \<in> set (rc_Rules ?f). rule_matches ?re r (demo_row 1 0)"
    using m [of "hd demo_rules"] by (auto simp: demo_rules_def)
  from highest_priority_decides [OF cfg stable_sort_sorts, of "demo_row 1 0"]
  obtain f0 ev where f0: "Some ?f = Some f0" and ev: "NewEvaluator ?re (rc_Rules cfg) = Some ev"
    and best: "if \<exists>r \<in> set (rc_Rules f0). rule_matches ?re r (demo_row 1 0)
       then \<exists>r \<in> set (rc_Rules f0). rule_matches ?re r (demo_row 1 0) \<and> MaxAge ev (demo_row 1 0) = ru_MaxAge r
              \<and> (\<forall>r' \<in> set (rc_Rules f0). rule_matches ?re r' (demo_row 1 0) \<longrightarrow> ru_Priority r' \<le> ru_Priority r)
       else MaxAge ev (demo_row 1 0) = -1" by (elim exE conjE)
  have eq: "f0 = ?f" using f0 by simp
  note best' = best [unfolded eq if_P [OF ex], unfolded retention_config.simps]
  then obtain r where r: "r \<in> set demo_rules" "MaxAge ev (demo_row 1 0) = ru_MaxAge r"
      "\<forall>r' \<in> set demo_rules. rule_matches ?re r' (demo_row 1 0) \<longrightarrow> ru_Priority r' \<le> ru_Priority r"
    by (elim bexE conjE)
  have "demo_rules ! 1 \<in> set demo_rules" by (simp add: demo_rules_def)
  then have "ru_Priority (demo_rules ! 1) \<le> ru_Priority r" using r(3) m by blast
  then have "ru_MaxAge r = 0" using r(1) by (auto simp: demo_rules_def)
  then show ?thesis using cfg ev r(2) by auto
qed

section \<open>What a pass deletes\<close>

lemma DeleteBatch_cases:
  assumes "DeleteBatch fails ids d = (res, d')"
  obtains (failed) "res = Inl StatementFailed" "ed_rows d' = ed_rows d" "tables d' = tables d"
  | (deleted) "res = Inr (length (filter (\<lambda>e. ev_ID e \<in> set ids) (ed_rows d)))"
      "ed_rows d' = filter (\<lambda>e. ev_ID e \<notin> set ids) (ed_rows d)"
  using assms unfolding DeleteBatch_def by (auto split: if_splits)

lemma length_filter_split: "length (filter P xs) + length (filter (\<lambda>x. \<not> P x) xs) = length xs"
  by (rule sum_length_filter_compl)

lemma ids_of_batch:
  assumes "distinct (map ev_ID rows)" and "set batch \<subseteq> set rows" and "e \<in> set rows"
  shows "ev_ID e \<in> ev_ID ` {x \<in> set batch. P x} \<longleftrightarrow> e \<in> set batch \<and> P e"
  using assms by (auto simp: distinct_map inj_on_def)

interpretation expiry_scan: scan_consumer "expire_batch fails rules refs now"
    "\<lambda>e. \<not> to_delete rules refs now e" "\<lambda>n. n" for fails rules refs now
proof
  fix batch :: "evidence list" and d d' :: evidence_db and acc acc' :: nat
  let ?ids = "map ev_ID (filter (to_delete rules refs now) batch)"
  have ids: "set ?ids = ev_ID ` {x \<in> set batch. to_delete rules refs now x}" by simp
  {
    assume run: "expire_batch fails rules refs now batch d acc = (None, d', acc')"
      and dis: "distinct (map ev_ID (ed_rows d))" and sub: "set batch \<subseteq> set (ed_rows d)"
    show "ed_rows d' = filter (\<lambda>e. e \<in> set batch \<longrightarrow> \<not> to_delete rules refs now e) (ed_rows d)"
    proof (cases "?ids = []")
      case True
      then have "\<not> to_delete rules refs now e" if "e \<in> set batch" for e
        using that by (simp add: filter_empty_conv)
      then have "filter (\<lambda>e. e \<in> set batch \<longrightarrow> \<not> to_delete rules refs now e) (ed_rows d) = ed_rows d" by simp
      then show ?thesis using run True by (simp add: expire_batch_def)
    next
      case False
      then obtain n where "DeleteBatch fails ?ids d = (Inr n, d')"
        using run by (auto simp: expire_batch_def Let_def split: prod.splits sum.splits)
      then have "ed_rows d' = filter (\<lambda>e. ev_ID e \<notin> set ?ids) (ed_rows d)"
        by (cases rule: DeleteBatch_cases) auto
      also have "\<dots> = filter (\<lambda>e. e \<in> set batch \<longrightarrow> \<not> to_delete rules refs now e) (ed_rows d)"
        unfolding ids by (rule filter_cong) (auto simp: ids_of_batch [OF dis sub])
      finally show ?thesis .
    qed
  }
  {
    fix err
    assume "expire_batch fails rules refs now batch d acc = (Some err, d', acc')"
    then obtain x where "DeleteBatch fails ?ids d = (Inl x, d')"
      by (auto simp: expire_batch_def Let_def split: if_splits prod.splits sum.splits)
    then show "ed_rows d' = ed_rows d" by (cases rule: DeleteBatch_cases) auto
  }
  {
    fix err
    assume run: "expire_batch fails rules refs now batch d acc = (err, d', acc')"
    show "acc' + length (ed_rows d') = acc + length (ed_rows d)"
    proof (cases "?ids = []")
      case True
      then show ?thesis using run by (simp add: expire_batch_def)
    next
      case False
      obtain res d1 where del: "DeleteBatch fails ?ids d = (res, d1)" by fastforce
      then show ?thesis
        using False run length_filter_split [of "\<lambda>e. ev_ID e \<in> set ?ids" "ed_rows d"]
        by (cases rule: DeleteBatch_cases) (auto simp: expire_batch_def Let_def del)
    qed
  }
qed

text \<open>The declarations that protect a record, told by their two columns.\<close>

definition inherited_from :: "evidence_db \<Rightarrow> evidence \<Rightarrow> bool" where
  "inherited_from d e \<longleftrightarrow>
     (\<exists>i \<in> set (ed_inheritance d). ih_Repo i = ev_Repo e \<and> ih_SourceRCSRef i = ev_RCSRef e)"

definition expired :: "compiled_rule list \<Rightarrow> instant \<Rightarrow> evidence_db \<Rightarrow> evidence \<Rightarrow> bool" where
  "expired rules now d e \<longleftrightarrow>
     \<not> isPinned e \<and> \<not> inherited_from d e
     \<and> (\<exists>r. find (matchesRule e) rules = Some r \<and> 0 < cr_maxAge r
            \<and> cr_maxAge r \<le> time_sub now (ev_FinishedAt e))"

text \<open>The separator is a byte no stored text holds, so a key names one pair.\<close>

lemma ref_key_inject:
  "text_ok a \<Longrightarrow> text_ok c \<Longrightarrow> ref_key a b = ref_key c d \<longleftrightarrow> a = c \<and> b = d"
proof (induction a arbitrary: c)
  case Nil
  then show ?case by (cases c) (auto simp: ref_key_def text_ok_def)
next
  case (Cons x a)
  then show ?case by (cases c) (auto simp: ref_key_def text_ok_def)
qed

lemma to_delete_expired:
  assumes "\<forall>i \<in> set (ed_inheritance d). text_ok (ih_Repo i)" and "text_ok (ev_Repo e)"
  shows "to_delete rules (set (map (\<lambda>i. ref_key (ih_Repo i) (ih_SourceRCSRef i)) (ed_inheritance d))) now e
    \<longleftrightarrow> expired rules now d e"
proof -
  have "isInheritanceProtected e (set (map (\<lambda>i. ref_key (ih_Repo i) (ih_SourceRCSRef i)) (ed_inheritance d)))
      \<longleftrightarrow> inherited_from d e"
    unfolding isInheritanceProtected_def inherited_from_def set_map image_iff
    by (rule bex_cong) (use assms ref_key_inject in auto)
  then show ?thesis
    by (auto simp: to_delete_def expired_def MaxAge_def split: option.splits)
qed

lemma DeleteBatch_others:
  "ed_inheritance (snd (DeleteBatch fails ids d)) = ed_inheritance d"
  "ed_campaign_refs (snd (DeleteBatch fails ids d)) = ed_campaign_refs d"
  "ed_draft_refs (snd (DeleteBatch fails ids d)) = ed_draft_refs d"
  by (simp_all add: DeleteBatch_def)

lemma expire_batch_db:
  "fst (snd (expire_batch fails rules refs now batch d n)) = d
   \<or> (\<exists>ids. fst (snd (expire_batch fails rules refs now batch d n)) = snd (DeleteBatch fails ids d))"
proof -
  let ?ids = "map ev_ID (filter (to_delete rules refs now) batch)"
  obtain res d' where "DeleteBatch fails ?ids d = (res, d')" by fastforce
  then show ?thesis
    by (cases res; cases "?ids = []") (auto simp: expire_batch_def Let_def intro!: exI [of _ ?ids])
qed

text \<open>Well-formed tables, and the tables a pass does not write.\<close>

definition same_protections :: "evidence_db \<Rightarrow> evidence_db \<Rightarrow> bool" where
  "same_protections d d' \<longleftrightarrow> evidence_wf d' \<and> ed_inheritance d' = ed_inheritance d
     \<and> ed_campaign_refs d' = ed_campaign_refs d \<and> ed_draft_refs d' = ed_draft_refs d"

lemma same_protections_tick: "same_protections d d' \<Longrightarrow> same_protections d (tick d')"
  by (simp add: same_protections_def)

lemma same_protections_expire:
  "same_protections d d' \<Longrightarrow> same_protections d (fst (snd (expire_batch fails rules refs now batch d' n)))"
  using expire_batch_db [of fails rules refs now batch d' n] DeleteBatch_wf DeleteBatch_others
  unfolding same_protections_def by metis

lemma RunOnce_spec:
  assumes "evidence_wf d" and "\<forall>i \<in> set (ed_inheritance d). text_ok (ih_Repo i)"
  shows "\<exists>err d' n. Worker_RunOnce fails rules now d = Some (err, d', n)
    \<and> same_protections d d'
    \<and> (err = None \<longrightarrow> ed_rows d' = filter (\<lambda>e. \<not> expired rules now d e) (ed_rows d))
    \<and> (\<exists>S. ed_rows d' = filter (\<lambda>e. \<not> (e \<in> S \<and> expired rules now d e)) (ed_rows d))
    \<and> n + length (ed_rows d') = length (ed_rows d)"
proof (cases "fails (ed_stmt d)")
  case True
  have "\<exists>S. ed_rows d = filter (\<lambda>e. \<not> (e \<in> S \<and> expired rules now d e)) (ed_rows d)"
    by (rule exI [of _ "{}"]) simp
  moreover have "same_protections d (tick d)" using assms(1) by (simp add: same_protections_def)
  ultimately show ?thesis using True by (simp add: Worker_RunOnce_def AllSourceRefs_def)
next
  case False
  let ?refs = "set (map (\<lambda>i. ref_key (ih_Repo i) (ih_SourceRCSRef i)) (ed_inheritance d))"
  let ?fn = "expire_batch fails rules ?refs now"
  have dis: "distinct (map ev_ID (ed_rows (tick d)))" using assms(1) by (simp add: evidence_wf_def)
  have "\<exists>err d' n. ScanAll fails defaultBatchSize ?fn None (tick d) 0 = Some (err, d', n)
    \<and> (err = None \<longrightarrow> ed_rows d' = filter (\<lambda>e. after_pos None e \<longrightarrow> \<not> to_delete rules ?refs now e) (ed_rows (tick d)))
    \<and> (\<exists>S. ed_rows d' = filter (\<lambda>e. e \<in> S \<longrightarrow> \<not> to_delete rules ?refs now e) (ed_rows (tick d)))
    \<and> n + length (ed_rows d') = 0 + length (ed_rows (tick d))"
    by (rule expiry_scan.scan_returns [OF dis]) (simp add: defaultBatchSize_def)
  then obtain err d' n S where scan: "ScanAll fails defaultBatchSize ?fn None (tick d) 0 = Some (err, d', n)"
    and ok: "err = None \<longrightarrow> ed_rows d' = filter (\<lambda>e. after_pos None e \<longrightarrow> \<not> to_delete rules ?refs now e) (ed_rows d)"
    and some: "ed_rows d' = filter (\<lambda>e. e \<in> S \<longrightarrow> \<not> to_delete rules ?refs now e) (ed_rows d)"
    and cnt: "n + length (ed_rows d') = length (ed_rows d)"
    unfolding tick_simps add_0 by (elim exE conjE)
  have exp: "to_delete rules ?refs now e \<longleftrightarrow> expired rules now d e" if "e \<in> set (ed_rows d)" for e
    using to_delete_expired [OF assms(2)] that assms(1) by (simp add: evidence_wf_def)
  have "same_protections d d'"
    using ScanAll_invariant [OF scan, of "same_protections d"] same_protections_tick same_protections_expire
      assms(1) by (simp add: same_protections_def)
  moreover have "err = None \<longrightarrow> ed_rows d' = filter (\<lambda>e. \<not> expired rules now d e) (ed_rows d)"
    using ok exp by (auto simp: after_pos_def intro: filter_cong)
  moreover have "ed_rows d' = filter (\<lambda>e. \<not> (e \<in> S \<and> expired rules now d e)) (ed_rows d)"
    unfolding some using exp by (auto intro: filter_cong)
  moreover have "Worker_RunOnce fails rules now d = Some (err, d', n)"
    using False scan by (simp add: Worker_RunOnce_def AllSourceRefs_def)
  ultimately show ?thesis using cnt by blast
qed

text \<open>
  C3. A retention pass deletes what has expired and nothing else. From well-formed tables it
  always returns, whatever statement fails. It leaves the declarations and the campaigns'
  references alone and the tables well-formed. Every record it removes is expired: not pinned,
  not inherited from, and older than the positive limit of the first rule that matches it. When
  it reports no error the records left are exactly those that are not expired; and the number it
  reports is the number of records that are gone, on an error too.
\<close>

theorem RunOnce_deletes_expired:
  assumes "evidence_wf d" and "\<forall>i \<in> set (ed_inheritance d). text_ok (ih_Repo i)"
  shows "\<exists>err d' n. Worker_RunOnce fails rules now d = Some (err, d', n)
    \<and> same_protections d d'
    \<and> (err = None \<longrightarrow> ed_rows d' = filter (\<lambda>e. \<not> expired rules now d e) (ed_rows d))
    \<and> (\<exists>S. ed_rows d' = filter (\<lambda>e. \<not> (e \<in> S \<and> expired rules now d e)) (ed_rows d))
    \<and> n + length (ed_rows d') = length (ed_rows d)"
  using assms by (rule RunOnce_spec)

definition demo_pass_db :: evidence_db where
  "demo_pass_db = no_evidence\<lparr>ed_rows := [demo_row 1 20, (demo_row 2 10)\<lparr>ev_Metadata := RawDoc (JObj [(''retain'', JBool True)])\<rparr>]\<rparr>"

lemma demo_pass_db_wf: "evidence_wf demo_pass_db"
proof -
  have "mentions (RawDoc (JObj [])) = {}" "mentions (RawDoc (JObj [(''retain'', JBool True)])) = {}"
    by (auto simp: mentions_def unmarshal_map_def mentioned_text field_mentions_def json_field_def
        unmarshal_string_def unmarshal_strings_def uri_fields_def)
  then show ?thesis
    by (auto simp: evidence_wf_def record_refs_def demo_pass_db_def no_evidence_def demo_row_def evidence_row_def
        demo_submission_def text_ok_def EvidenceResult_Valid_def manual_test_valid)
qed

theorem RunOnce_deletes_expired_witness:
  "\<exists>d'. Worker_RunOnce (\<lambda>_. False) [\<lparr>cr_name = ''all'', cr_matchers = [], cr_maxAge = 1000\<rparr>] 9000000 demo_pass_db
     = Some (None, d', 1) \<and> map ev_ID (ed_rows d') = [2]
     \<and> ed_rows d' = filter (\<lambda>e. \<not> expired [\<lparr>cr_name = ''all'', cr_matchers = [], cr_maxAge = 1000\<rparr>] 9000000
         demo_pass_db e) (ed_rows demo_pass_db)"
proof -
  let ?rules = "[\<lparr>cr_name = ''all'', cr_matchers = [], cr_maxAge = 1000\<rparr>]"
  let ?run = "Worker_RunOnce (\<lambda>_. False) ?rules 9000000 demo_pass_db"
  have val: "map_option (\<lambda>(err, d', n). (err, map ev_ID (ed_rows d'), n)) ?run = Some (None, [2], 1)"
    by code_simp
  have "\<forall>i \<in> set (ed_inheritance demo_pass_db). text_ok (ih_Repo i)" by (simp add: demo_pass_db_def no_evidence_def)
  from RunOnce_deletes_expired [OF demo_pass_db_wf this, of "\<lambda>_. False" ?rules 9000000]
  obtain err d' n where run: "?run = Some (err, d', n)"
    and rows: "err = None \<longrightarrow> ed_rows d' = filter (\<lambda>e. \<not> expired ?rules 9000000 demo_pass_db e) (ed_rows demo_pass_db)"
    by (elim exE conjE)
  show ?thesis using val rows unfolding run by auto
qed

section \<open>What a sweep collects\<close>

definition all_refs :: "evidence_db \<Rightarrow> digest set" where
  "all_refs d = fst ` set (ed_blob_refs d) \<union> fst ` set (ed_campaign_refs d) \<union> fst ` set (ed_draft_refs d)"

definition gone :: "(digest \<Rightarrow> bool) \<Rightarrow> evidence_db \<Rightarrow> digest set \<Rightarrow> digest set" where
  "gone undeletable d xs = {x \<in> xs. x \<notin> all_refs d \<and> \<not> undeletable x}"

text \<open>A state whose objects are those of another less some digests, with the deletions counted.\<close>

definition swept :: "digest set \<Rightarrow> sweep_state \<Rightarrow> sweep_state \<Rightarrow> bool" where
  "swept D s s' \<longleftrightarrow> sw_objects s' = filter (\<lambda>b. bo_Digest b \<notin> D) (sw_objects s)
     \<and> sw_deleted s' + length (sw_objects s') = sw_deleted s + length (sw_objects s)"

lemma swept_refl: "swept {} s s"
  by (simp add: swept_def)

lemma swept_trans: "swept D s s' \<Longrightarrow> swept E s' s'' \<Longrightarrow> swept (D \<union> E) s s''"
  by (auto simp: swept_def intro: filter_cong)

lemma swept_update [simp]:
  "swept D (s\<lparr>sw_batch := b\<rparr>) s' = swept D s s'" "swept D s (s'\<lparr>sw_batch := b, sw_stmt := k\<rparr>) = swept D s s'"
  by (simp_all add: swept_def)

lemma delete_one_swept:
  assumes "distinct (map bo_Digest (sw_objects s))"
  shows "swept (if x \<in> refs \<or> undeletable x then {} else {x}) s (delete_one undeletable refs x s)"
proof -
  have none: "filter (\<lambda>b. bo_Digest b \<noteq> x) bs = bs" if "x \<notin> bo_Digest ` set bs" for bs
    using that by (auto simp: filter_id_conv)
  have one: "length (filter (\<lambda>b. bo_Digest b \<noteq> x) bs) + 1 = length bs"
    if "distinct (map bo_Digest bs)" "x \<in> bo_Digest ` set bs" for bs
    using that
  proof (induction bs)
    case (Cons b bs)
    then show ?case using none [of bs] by (cases "bo_Digest b = x") auto
  qed simp
  show ?thesis using one [OF assms] none [of "sw_objects s"]
    by (auto simp: delete_one_def Store_Delete_def swept_def)
qed

lemma swept_distinct:
  "swept D s s' \<Longrightarrow> distinct (map bo_Digest (sw_objects s)) \<Longrightarrow> distinct (map bo_Digest (sw_objects s'))"
  by (simp add: swept_def distinct_map_filter)

lemma fold_delete_swept:
  "distinct (map bo_Digest (sw_objects s)) \<Longrightarrow>
   swept {x \<in> set xs. x \<notin> refs \<and> \<not> undeletable x} s (fold (delete_one undeletable refs) xs s)"
proof (induction xs arbitrary: s)
  case (Cons x xs)
  have one: "swept (if x \<in> refs \<or> undeletable x then {} else {x}) s (delete_one undeletable refs x s)"
    by (rule delete_one_swept [OF Cons.prems])
  have "{y \<in> set (x # xs). y \<notin> refs \<and> \<not> undeletable y}
      = (if x \<in> refs \<or> undeletable x then {} else {x}) \<union> {y \<in> set xs. y \<notin> refs \<and> \<not> undeletable y}" by auto
  then show ?case using swept_trans [OF one Cons.IH [OF swept_distinct [OF one Cons.prems]]] by simp
qed (simp add: swept_refl)

lemma flush_swept:
  assumes "distinct (map bo_Digest (sw_objects s))" and "flush fails undeletable d s = (err, s')"
  shows "(err = None \<longrightarrow> swept (gone undeletable d (set (sw_batch s))) s s' \<and> sw_batch s' = [])
    \<and> (\<exists>D \<subseteq> gone undeletable d (set (sw_batch s)). swept D s s')"
proof (cases "sw_batch s = [] \<or> fails (sw_stmt s) \<or> fails (sw_stmt s + 1) \<or> fails (sw_stmt s + 2)")
  case True
  then have "s' = s \<and> (sw_batch s = [] \<or> err \<noteq> None)"
    using assms(2) by (auto simp: flush_def split: if_splits)
  then show ?thesis using swept_refl by (auto simp: gone_def intro!: exI [of _ "{}"])
next
  case False
  have "{x \<in> set (sw_batch s). x \<notin> referencedBlobs d (sw_batch s) \<and> \<not> undeletable x}
      = gone undeletable d (set (sw_batch s))"
    by (auto simp: referencedBlobs_def gone_def all_refs_def)
  moreover define t where "t = fold (delete_one undeletable (referencedBlobs d (sw_batch s))) (sw_batch s) s"
  ultimately have t: "swept (gone undeletable d (set (sw_batch s))) s t"
    using fold_delete_swept [OF assms(1)] by metis
  have "s' = t\<lparr>sw_batch := [], sw_stmt := sw_stmt s + 4\<rparr>"
    using assms(2) False unfolding flush_def Let_def t_def [symmetric] by (auto split: if_splits)
  then have "swept (gone undeletable d (set (sw_batch s))) s s'" "sw_batch s' = []" using t by simp_all
  then show ?thesis by blast
qed

text \<open>The digests of the objects that are old enough.\<close>

definition old_enough :: "instant \<Rightarrow> blob_object list \<Rightarrow> digest set" where
  "old_enough cutoff bs = bo_Digest ` {b \<in> set bs. bo_Created b \<le> cutoff}"

lemma old_enough_simps [simp]:
  "old_enough cutoff [] = {}"
  "old_enough cutoff (b # bs) = (if bo_Created b \<le> cutoff then {bo_Digest b} else {}) \<union> old_enough cutoff bs"
  by (auto simp: old_enough_def)

lemma gone_Un: "gone undeletable d (xs \<union> ys) = gone undeletable d xs \<union> gone undeletable d ys"
  by (auto simp: gone_def)

lemma sweep_list_swept:
  assumes "distinct (map bo_Digest (sw_objects s))" and "sweep_list fails undeletable d cutoff bs s = (err, s')"
  shows "(err = None \<longrightarrow> (\<exists>done. swept (gone undeletable d done) s s'
            \<and> done \<union> set (sw_batch s') = set (sw_batch s) \<union> old_enough cutoff bs))
    \<and> (\<exists>D \<subseteq> gone undeletable d (set (sw_batch s) \<union> old_enough cutoff bs). swept D s s')"
  using assms
proof (induction bs arbitrary: s)
  case Nil
  then have "s' = s" by simp
  moreover have "swept (gone undeletable d {}) s s" by (simp add: gone_def swept_refl)
  ultimately show ?case using swept_refl by (auto intro!: exI [of _ "{}"])
next
  case (Cons b bs)
  let ?s = "s\<lparr>sw_batch := sw_batch s @ [bo_Digest b]\<rparr>"
  show ?case
  proof (cases "cutoff < bo_Created b")
    case True
    then have "sweep_list fails undeletable d cutoff bs s = (err, s')" using Cons.prems(2) by simp
    from Cons.IH [OF Cons.prems(1) this] show ?thesis using True by simp
  next
    case old: False
    have more: "set (sw_batch ?s) \<union> old_enough cutoff bs = set (sw_batch s) \<union> old_enough cutoff (b # bs)"
      using old by auto
    show ?thesis
    proof (cases "length (sw_batch ?s) < sweepBatch")
      case True
      then have "sweep_list fails undeletable d cutoff bs ?s = (err, s')" using Cons.prems(2) old by (simp add: Let_def)
      from Cons.IH [OF _ this] Cons.prems(1) show ?thesis unfolding more by simp
    next
      case False
      obtain e1 s1 where fl: "flush fails undeletable d ?s = (e1, s1)" by fastforce
      note fs = flush_swept [OF _ fl, simplified, OF Cons.prems(1)]
      show ?thesis
      proof (cases e1)
        case (Some x)
        then have "err = Some x" "s' = s1" using Cons.prems(2) old False fl by (simp_all add: Let_def)
        moreover obtain D where "D \<subseteq> gone undeletable d (set (sw_batch ?s))" "swept D s s1" using fs by auto
        ultimately show ?thesis unfolding more [symmetric] gone_Un by blast
      next
        case None
        then have rest: "sweep_list fails undeletable d cutoff bs s1 = (err, s')"
          using Cons.prems(2) old False fl by (simp add: Let_def)
        have s1: "swept (gone undeletable d (set (sw_batch ?s))) s s1" "sw_batch s1 = []" using fs None by simp_all
        have "distinct (map bo_Digest (sw_objects s1))" by (rule swept_distinct [OF s1(1) Cons.prems(1)])
        note IH = Cons.IH [OF this rest, unfolded s1(2) list.set Un_empty_left]
        have "\<exists>D \<subseteq> gone undeletable d (set (sw_batch ?s) \<union> old_enough cutoff bs). swept D s s'"
        proof -
          obtain D where "D \<subseteq> gone undeletable d (old_enough cutoff bs)" "swept D s1 s'" using IH by blast
          then show ?thesis using swept_trans [OF s1(1)] unfolding gone_Un by blast
        qed
        moreover have "\<exists>done. swept (gone undeletable d done) s s'
            \<and> done \<union> set (sw_batch s') = set (sw_batch ?s) \<union> old_enough cutoff bs" if none: "err = None"
        proof -
          obtain X where X: "swept (gone undeletable d X) s1 s'" "X \<union> set (sw_batch s') = old_enough cutoff bs"
            using IH none by blast
          have "swept (gone undeletable d (set (sw_batch ?s) \<union> X)) s s'"
            using swept_trans [OF s1(1) X(1)] unfolding gone_Un .
          then show ?thesis using X(2) by blast
        qed
        ultimately show ?thesis unfolding more by blast
      qed
    qed
  qed
qed

lemma SweepBlobs_swept:
  assumes "distinct (map bo_Digest objects)"
    and "SweepBlobs fails undeletable broken now grace d walked objects = (err, s')"
  defines "s \<equiv> \<lparr>sw_batch = [], sw_deleted = 0, sw_objects = objects, sw_stmt = ed_stmt d\<rparr>"
  shows "(err = None \<longrightarrow> swept (gone undeletable d (old_enough (now - grace) walked)) s s')
    \<and> (\<exists>D \<subseteq> gone undeletable d (old_enough (now - grace) walked). swept D s s')"
proof -
  obtain e1 s1 where l: "sweep_list fails undeletable d (now - grace) walked s = (e1, s1)" by fastforce
  have dist: "distinct (map bo_Digest (sw_objects s))" using assms(1) by (simp add: s_def)
  note ls = sweep_list_swept [OF dist l, unfolded s_def sweep_state.simps list.set Un_empty_left, folded s_def]
  obtain D1 where D1: "D1 \<subseteq> gone undeletable d (old_enough (now - grace) walked)" "swept D1 s s1" using ls by blast
  show ?thesis
  proof (cases "e1 \<noteq> None \<or> broken")
    case True
    then have "s' = s1" "err \<noteq> None"
      using assms(2) l unfolding SweepBlobs_def Let_def s_def [symmetric] by (auto split: option.splits)
    then show ?thesis using D1 by blast
  next
    case False
    then have e1: "e1 = None" and fl: "flush fails undeletable d s1 = (err, s')"
      using assms(2) l unfolding SweepBlobs_def Let_def s_def [symmetric] by auto
    obtain X where X: "swept (gone undeletable d X) s s1" "X \<union> set (sw_batch s1) = old_enough (now - grace) walked"
      using ls e1 by blast
    have parts: "gone undeletable d (old_enough (now - grace) walked)
        = gone undeletable d X \<union> gone undeletable d (set (sw_batch s1))"
      unfolding X(2) [symmetric] by (rule gone_Un)
    note fs = flush_swept [OF swept_distinct [OF X(1) dist] fl]
    have "err = None \<longrightarrow> swept (gone undeletable d (old_enough (now - grace) walked)) s s'"
      using fs swept_trans [OF X(1)] unfolding parts by blast
    moreover obtain D2 where "D2 \<subseteq> gone undeletable d (set (sw_batch s1))" "swept D2 s1 s'" using fs by blast
    ultimately show ?thesis using swept_trans [OF X(1)] unfolding parts by blast
  qed
qed

lemma sweep_removed:
  assumes "D \<subseteq> gone undeletable d (old_enough cutoff walked)" and "set walked \<subseteq> set objects"
    and "distinct (map bo_Digest objects)" and "b \<in> set objects" and "bo_Digest b \<in> D"
  shows "bo_Created b \<le> cutoff \<and> bo_Digest b \<notin> all_refs d \<and> \<not> undeletable (bo_Digest b)"
proof -
  from assms(1,5) have g: "bo_Digest b \<in> old_enough cutoff walked" "bo_Digest b \<notin> all_refs d"
    "\<not> undeletable (bo_Digest b)" by (auto simp: gone_def)
  then obtain b' where "b' \<in> set walked" "bo_Created b' \<le> cutoff" "bo_Digest b' = bo_Digest b"
    by (auto simp: old_enough_def)
  moreover from this have "b' = b" using assms(2-4) by (auto simp: distinct_map inj_on_def)
  ultimately show ?thesis using g by simp
qed

text \<open>
  C16. The sweep collects garbage and only garbage. Whatever statement or deletion fails, and even
  if the walk over the object store breaks off, every object that is gone was created no later
  than the grace period ago and is referred to by no record, campaign or draft; the number
  reported is the number of objects gone. When the sweep reports no error and the walk saw every
  object, what is left is exactly the objects that are young, referred to, or that the object
  store would not delete: the batches of five hundred make no difference.
\<close>

theorem SweepBlobs_collects_garbage:
  assumes "distinct (map bo_Digest objects)" and "set walked \<subseteq> set objects"
    and "SweepBlobs fails undeletable broken now grace d walked objects = (err, s)"
  shows "set (sw_objects s) \<subseteq> set objects
    \<and> (\<forall>b \<in> set objects - set (sw_objects s). bo_Created b \<le> now - grace \<and> bo_Digest b \<notin> all_refs d)
    \<and> sw_deleted s + length (sw_objects s) = length objects
    \<and> (err = None \<and> set walked = set objects \<longrightarrow>
         sw_objects s = filter (\<lambda>b. now - grace < bo_Created b \<or> bo_Digest b \<in> all_refs d
                                    \<or> undeletable (bo_Digest b)) objects)"
proof -
  note sw = SweepBlobs_swept [OF assms(1,3)]
  let ?G = "gone undeletable d (old_enough (now - grace) walked)"
  obtain D where D: "D \<subseteq> ?G" and rows: "sw_objects s = filter (\<lambda>b. bo_Digest b \<notin> D) objects"
    and cnt: "sw_deleted s + length (sw_objects s) = length objects"
    using sw by (auto simp: swept_def)
  have exact: "sw_objects s = filter (\<lambda>b. now - grace < bo_Created b \<or> bo_Digest b \<in> all_refs d
      \<or> undeletable (bo_Digest b)) objects" if "err = None" and all: "set walked = set objects"
  proof -
    have "sw_objects s = filter (\<lambda>b. bo_Digest b \<notin> ?G) objects" using sw that(1) by (simp add: swept_def)
    also have "\<dots> = filter (\<lambda>b. now - grace < bo_Created b \<or> bo_Digest b \<in> all_refs d
        \<or> undeletable (bo_Digest b)) objects"
    proof (rule filter_cong [OF refl])
      fix b
      assume b: "b \<in> set objects"
      show "bo_Digest b \<notin> ?G \<longleftrightarrow> now - grace < bo_Created b \<or> bo_Digest b \<in> all_refs d
          \<or> undeletable (bo_Digest b)"
      proof (cases "bo_Digest b \<in> ?G")
        case True
        then show ?thesis using sweep_removed [OF subset_refl assms(2,1) b True] by auto
      next
        case False
        then show ?thesis using b all by (auto simp: gone_def old_enough_def)
      qed
    qed
    finally show ?thesis .
  qed
  have "bo_Created b \<le> now - grace \<and> bo_Digest b \<notin> all_refs d" if "b \<in> set objects - set (sw_objects s)" for b
    using that sweep_removed [OF D assms(2,1), of b] by (auto simp: rows)
  then show ?thesis using rows cnt exact by auto
qed

theorem SweepBlobs_collects_garbage_witness:
  "\<exists>s. SweepBlobs (\<lambda>_. False) (\<lambda>_. False) False 100 10 no_evidence
        [\<lparr>bo_Digest = demo_digest, bo_Size = 3, bo_Created = 50\<rparr>] [\<lparr>bo_Digest = demo_digest, bo_Size = 3, bo_Created = 50\<rparr>]
      = (None, s) \<and> sw_objects s = [] \<and> sw_deleted s = 1"
proof -
  let ?b = "\<lparr>bo_Digest = demo_digest, bo_Size = 3, bo_Created = 50\<rparr>"
  let ?run = "SweepBlobs (\<lambda>_. False) (\<lambda>_. False) False 100 10 no_evidence [?b] [?b]"
  obtain s where run: "?run = (None, s)"
    by (simp add: SweepBlobs_def flush_def Let_def sweepBatch_def)
  have "all_refs no_evidence = {}" by (simp add: all_refs_def no_evidence_def)
  then show ?thesis
    using SweepBlobs_collects_garbage [OF _ _ run] run by auto
qed



end
