(* ===== verification/Evidence_API.thy ===== *)
theory Evidence_API
  imports Auth Retention
begin

text \<open>
  The handlers of \<^verbatim>\<open>internal/api/evidence.go\<close> and \<^verbatim>\<open>inheritance.go\<close>, the shared filter parser
  \<^verbatim>\<open>filter.go\<close>, the query budget, and the checks of \<^verbatim>\<open>internal/validate\<close> they call. A request
  body is what decoding it gave, an error text or the value; a query string is a list of
  parameters. Parsing a date and a UUID are arguments, as are the bytes the object store returns.
\<close>

section \<open>Validation\<close>

datatype field_error =
    Required string
  | TypeInvalid string
  | ResultInvalid string
  | TokenInvalid string
  | AttachmentUnavailable string
  | AttachmentUnreadable string
  | AttachmentMismatch string

text \<open>Go's zero time, the first of January of the year 1.\<close>

definition zero_time :: instant where
  "zero_time = - 62135596800 * second"

definition validate_EvidenceCreate :: "(string \<Rightarrow> uuid option) \<Rightarrow> evidence_create \<Rightarrow> field_error list" where
  "validate_EvidenceCreate parse e =
     (if ec_Repo e = '''' then [Required ''repo''] else [])
     @ (if ec_Branch e = '''' then [Required ''branch''] else [])
     @ (if ec_RCSRef e = '''' then [Required ''rcs_ref''] else [])
     @ (if ec_ProcedureRef e = '''' then [Required ''procedure_ref''] else [])
     @ (if ec_EvidenceType e = '''' then [Required ''evidence_type'']
        else if \<not> ValidEvidenceType (ec_EvidenceType e) then [TypeInvalid (ec_EvidenceType e)] else [])
     @ (if ec_Source e = '''' then [Required ''source''] else [])
     @ (if \<not> EvidenceResult_Valid (ec_Result e) then [ResultInvalid (ec_Result e)] else [])
     @ (if ec_FinishedAt e = zero_time then [Required ''finished_at''] else [])
     @ (case ec_ClientRecordID e of
          None \<Rightarrow> []
        | Some tok \<Rightarrow> if parse tok = None then [TokenInvalid tok] else [])"

text \<open>What reading an attachment gave: the object store's error, a read that broke off, or bytes.\<close>

datatype blob_read = GetFails | ReadFails | Bytes string

record handler_env =
  he_parse :: "string \<Rightarrow> uuid option"
  he_blobs :: "(digest \<Rightarrow> blob_read) option"
  he_sniff :: "string \<Rightarrow> string"
  he_DefaultPageSize :: int
  he_MaxPageSize :: int
  he_MaxBatchSize :: int
  he_fails :: "nat \<Rightarrow> bool"
  he_over_budget :: bool
  he_new_id :: "nat \<Rightarrow> uuid"
  he_now :: instant
  he_pg :: database
  he_time :: "string \<Rightarrow> instant option"

definition check_attachment :: "handler_env \<Rightarrow> (digest \<Rightarrow> blob_read) \<Rightarrow> blob_ref \<Rightarrow> field_error list" where
  "check_attachment env get r =
     (case get (br_Digest r) of
        GetFails \<Rightarrow> [AttachmentUnavailable (Ref_Path r)]
      | ReadFails \<Rightarrow> [AttachmentUnreadable (Ref_Path r)]
      | Bytes bs \<Rightarrow>
          (case DetectMedia (he_sniff env) (take SniffLen bs) of
             None \<Rightarrow> [AttachmentMismatch (Ref_Path r)]
           | Some (_, ext) \<Rightarrow>
               if (br_Ext r \<noteq> '''' \<and> br_Ext r \<noteq> ext) \<or> (br_Ext r = '''' \<and> (ext = ''mp4'' \<or> ext = ''webm''))
               then [AttachmentMismatch (Ref_Path r)] else []))"

definition validateCreate :: "handler_env \<Rightarrow> evidence_create \<Rightarrow> field_error list" where
  "validateCreate env e =
     (let errs = validate_EvidenceCreate (he_parse env) e in
      case he_blobs env of
        None \<Rightarrow> errs
      | Some get \<Rightarrow>
          if errs \<noteq> [] then errs
          else case unmarshal_map (ec_Metadata e) of
              None \<Rightarrow> errs
            | Some fs \<Rightarrow> errs @ concat (map (check_attachment env get) (Refs (referenced_text fs))))"

section \<open>Filing\<close>

record batch_status =
  bs_Index :: nat
  bs_ID :: "uuid option"
  bs_Status :: string
  bs_Error :: "field_error list"

datatype evidence_body =
    EError string
  | EErrors "field_error list"
  | ERecord evidence
  | EBatch "batch_status list"
  | EValues "string list"

definition handle_evidence_Create ::
  "handler_env \<Rightarrow> ctx \<Rightarrow> string + evidence_create \<Rightarrow> evidence_db \<Rightarrow> (nat \<times> evidence_body) \<times> evidence_db" where
  "handle_evidence_Create env c body d =
     (case body of
        Inl msg \<Rightarrow> ((400, EError (''invalid JSON: '' @ msg)), d)
      | Inr req \<Rightarrow>
          (case BindSource c (ec_Source req) of
             Inl err \<Rightarrow> ((403, EError ''source not owned''), d)
           | Inr src \<Rightarrow>
               let req' = req\<lparr>ec_Source := src\<rparr>; errs = validateCreate env req' in
               if errs \<noteq> [] then ((422, EErrors errs), d)
               else case EvidenceStore_Insert (he_fails env) (he_parse env) (he_new_id env) (he_now env) req' d of
                   (Inl _, d') \<Rightarrow> ((500, EError ''internal error''), d')
                 | (Inr res, d') \<Rightarrow> ((if ir_Created res then 201 else 200, ERecord (ir_Evidence res)), d')))"

fun bind_sources :: "ctx \<Rightarrow> evidence_create list \<Rightarrow> evidence_create list option" where
  "bind_sources c [] = Some []"
| "bind_sources c (r # rs) =
     (case BindSource c (ec_Source r) of
        Inl _ \<Rightarrow> None
      | Inr src \<Rightarrow> map_option (\<lambda>rs'. r\<lparr>ec_Source := src\<rparr> # rs') (bind_sources c rs))"

definition StatusCreated :: string where "StatusCreated = ''created''"

definition StatusDuplicate :: string where "StatusDuplicate = ''duplicate''"

definition StatusError :: string where "StatusError = ''error''"

text \<open>The statuses in the order of the records: an invalid one has its errors, the valid ones take
  the results of the store in turn.\<close>

fun batch_results :: "handler_env \<Rightarrow> nat \<Rightarrow> evidence_create list \<Rightarrow> insert_result list \<Rightarrow> batch_status list" where
  "batch_results env i [] rs = []"
| "batch_results env i (e # es) rs =
     (if validateCreate env e \<noteq> []
      then \<lparr>bs_Index = i, bs_ID = None, bs_Status = StatusError, bs_Error = validateCreate env e\<rparr>
           # batch_results env (Suc i) es rs
      else case rs of
          [] \<Rightarrow> \<lparr>bs_Index = 0, bs_ID = None, bs_Status = '''', bs_Error = []\<rparr> # batch_results env (Suc i) es rs
        | r # rs' \<Rightarrow>
            \<lparr>bs_Index = i, bs_ID = Some (ev_ID (ir_Evidence r)),
             bs_Status = (if ir_Created r then StatusCreated else StatusDuplicate), bs_Error = []\<rparr>
            # batch_results env (Suc i) es rs')"

definition handle_CreateBatch ::
  "handler_env \<Rightarrow> ctx \<Rightarrow> string + evidence_create list \<Rightarrow> evidence_db \<Rightarrow> (nat \<times> evidence_body) \<times> evidence_db" where
  "handle_CreateBatch env c body d =
     (case body of
        Inl msg \<Rightarrow> ((400, EError (''invalid JSON: '' @ msg)), d)
      | Inr records \<Rightarrow>
          if records = [] then ((400, EError ''records array is empty''), d)
          else if he_MaxBatchSize env < int (length records) then ((400, EError ''batch size exceeds maximum''), d)
          else case bind_sources c records of
              None \<Rightarrow> ((403, EError ''source not owned''), d)
            | Some recs \<Rightarrow>
                let valid = filter (\<lambda>e. validateCreate env e = []) recs;
                    status = (if length valid < length recs then 207 else 201) in
                if valid = [] then ((status, EBatch (batch_results env 0 recs [])), d)
                else case InsertBatch (he_fails env) (he_parse env) (he_new_id env) (he_now env) valid d of
                    (Inl _, d') \<Rightarrow> ((500, EError ''internal error''), d')
                  | (Inr rs, d') \<Rightarrow> ((status, EBatch (batch_results env 0 recs rs)), d'))"

section \<open>Reading\<close>

definition handle_evidence_Get :: "handler_env \<Rightarrow> string \<Rightarrow> evidence_db \<Rightarrow> nat \<times> evidence_body" where
  "handle_evidence_Get env idStr d =
     (case he_parse env idStr of
        None \<Rightarrow> (400, EError ''invalid id'')
      | Some i \<Rightarrow>
          (case GetByID (he_fails env) i d of
             Inl NoRow \<Rightarrow> (404, EError ''evidence not found'')
           | Inl _ \<Rightarrow> (500, EError ''internal error'')
           | Inr e \<Rightarrow> (200, ERecord e)))"

type_synonym query = "(string \<times> string) list"

definition q_get :: "query \<Rightarrow> string \<Rightarrow> string" where
  "q_get q k = (case map_of q k of None \<Rightarrow> '''' | Some v \<Rightarrow> v)"

definition q_opt :: "query \<Rightarrow> string \<Rightarrow> string option" where
  "q_opt q k = (if q_get q k = '''' then None else Some (q_get q k))"

datatype filter_error = BadResult string | BadAfter string | BadBefore string

fun parse_results :: "string list \<Rightarrow> filter_error + string list" where
  "parse_results [] = Inr []"
| "parse_results (s # ss) =
     (case ParseEvidenceResult (trim_space s) of
        None \<Rightarrow> Inl (BadResult (trim_space s))
      | Some r \<Rightarrow> (case parse_results ss of Inl err \<Rightarrow> Inl err | Inr rs \<Rightarrow> Inr (r # rs)))"

definition parse_time_param ::
  "(string \<Rightarrow> instant option) \<Rightarrow> (string \<Rightarrow> filter_error) \<Rightarrow> string \<Rightarrow> filter_error + instant option" where
  "parse_time_param parse err v =
     (if v = '''' then Inr None else case parse v of None \<Rightarrow> Inl (err v) | Some t \<Rightarrow> Inr (Some t))"

definition parseEvidenceFilter :: "(string \<Rightarrow> instant option) \<Rightarrow> query \<Rightarrow> filter_error + evidence_filter" where
  "parseEvidenceFilter parse q =
     (case (if q_get q ''result'' = '''' then Inr [] else parse_results (split_on (CHR '','') (q_get q ''result''))) of
        Inl err \<Rightarrow> Inl err
      | Inr results \<Rightarrow>
          (case parse_time_param parse BadAfter (q_get q ''finished_after'') of
             Inl err \<Rightarrow> Inl err
           | Inr t0 \<Rightarrow>
               (case parse_time_param parse BadBefore (q_get q ''finished_before'') of
                  Inl err \<Rightarrow> Inl err
                | Inr t1 \<Rightarrow> Inr
                    \<lparr>ef_Repo = q_opt q ''repo'', ef_RCSRef = q_opt q ''rcs_ref'', ef_Branch = q_opt q ''branch'',
                     ef_Ref = q_opt q ''ref'', ef_EvidenceType = q_opt q ''evidence_type'',
                     ef_Result = results, ef_Source = q_opt q ''source'',
                     ef_ProcedureRef = q_opt q ''procedure_ref'', ef_FinishedAfter = t0,
                     ef_FinishedBefore = t1,
                     ef_Tags = (if q_get q ''tags'' = '''' then [] else split_on (CHR '','') (q_get q ''tags'')),
                     ef_Notes = q_opt q ''notes''\<rparr>)))"

definition handle_Distinct :: "handler_env \<Rightarrow> query \<Rightarrow> evidence_db \<Rightarrow> nat \<times> evidence_body" where
  "handle_Distinct env q d =
     (if q_get q ''field'' = '''' then (400, EError ''field parameter is required'')
      else
        let limit = (case atoi (q_get q ''limit'') of Some n \<Rightarrow> if 0 < n \<and> n \<le> 1000 then n else 100 | None \<Rightarrow> 100) in
        case Distinct_values (he_pg env) (he_fails env) (q_get q ''field'') (q_get q ''q'') limit d of
          Inl DistinctFailed \<Rightarrow> if he_over_budget env then (422, EError ''query did not finish'') else (400, EError ''query distinct'')
        | Inl (NotQueryable f) \<Rightarrow> (400, EError ''not queryable'')
        | Inr vs \<Rightarrow> (200, EValues vs))"

section \<open>Listing, with what is inherited\<close>

record inheritance_filter =
  if_Repo :: "string option"
  if_SourceRCSRef :: "string option"
  if_TargetRCSRef :: "string option"

definition inheritance_matches :: "inheritance_filter \<Rightarrow> inheritance_declaration \<Rightarrow> bool" where
  "inheritance_matches f i \<longleftrightarrow>
     (case if_Repo f of None \<Rightarrow> True | Some v \<Rightarrow> ih_Repo i = v)
     \<and> (case if_SourceRCSRef f of None \<Rightarrow> True | Some v \<Rightarrow> ih_SourceRCSRef i = v)
     \<and> (case if_TargetRCSRef f of None \<Rightarrow> True | Some v \<Rightarrow> ih_TargetRCSRef i = v)"

text \<open>Newest first; declarations of one instant may come in any order, here the table's.\<close>

definition InheritanceStore_List ::
  "(nat \<Rightarrow> bool) \<Rightarrow> inheritance_filter \<Rightarrow> evidence_db \<Rightarrow> evidence_error + inheritance_declaration list" where
  "InheritanceStore_List fails f d =
     (if fails (ed_stmt d) then Inl StatementFailed
      else Inr (sort_key (\<lambda>i. - ih_CreatedAt i) (filter (inheritance_matches f) (ed_inheritance d))))"

definition FindForTarget ::
  "(nat \<Rightarrow> bool) \<Rightarrow> string \<Rightarrow> string \<Rightarrow> evidence_db \<Rightarrow> evidence_error + inheritance_declaration list" where
  "FindForTarget fails repo target d =
     InheritanceStore_List fails \<lparr>if_Repo = Some repo, if_SourceRCSRef = None, if_TargetRCSRef = Some target\<rparr> d"

record list_response =
  ls_Records :: "evidence list"
  ls_Inherited :: "(evidence \<times> uuid) list"
  ls_NextCursor :: "cursor option"
  ls_Total :: "nat option"

datatype list_reply =
    ListRefused nat string
  | ListPanics
  | Listed list_response

text \<open>The statements of a listing: the count, the page, the declarations, then one query for
  each declaration; each is told its place.\<close>

definition inherited_params :: "handler_env \<Rightarrow> evidence_filter \<Rightarrow> inheritance_declaration \<Rightarrow> list_params" where
  "inherited_params env flt i = \<lparr>lp_Filter = flt\<lparr>ef_RCSRef := Some (ih_SourceRCSRef i)\<rparr>, lp_Cursor = None,
     lp_Limit = he_MaxPageSize env, lp_Offset = 0, lp_Sort = '''', lp_Desc = False, lp_Sorts = [],
     lp_WithTotal = False\<rparr>"

fun resolve_inherited ::
  "handler_env \<Rightarrow> evidence_filter \<Rightarrow> inheritance_declaration list \<Rightarrow> evidence_db
     \<Rightarrow> (evidence \<times> uuid) list option" where
  "resolve_inherited env flt [] d = Some []"
| "resolve_inherited env flt (i # is) d =
     (case EvidenceStore_List (he_pg env) (he_fails env) (inherited_params env flt i) d of
        Inl ListPanic \<Rightarrow> None
      | Inl _ \<Rightarrow> resolve_inherited env flt is (tick d)
      | Inr r \<Rightarrow> map_option (\<lambda>rest. map (\<lambda>e. (e, ih_ID i)) (lr_Records r) @ rest)
                  (resolve_inherited env flt is (tick d)))"

definition list_limit :: "handler_env \<Rightarrow> query \<Rightarrow> int" where
  "list_limit env q = (case atoi (q_get q ''limit'') of
      Some n \<Rightarrow> if 0 < n \<and> n \<le> he_MaxPageSize env then n else he_DefaultPageSize env
    | None \<Rightarrow> he_DefaultPageSize env)"

text \<open>The cursor parameter is what decoding it gave: absent, undecodable or a position.\<close>

datatype cursor_param = NoCursor | BadCursor | At cursor

definition handle_evidence_List :: "handler_env \<Rightarrow> query \<Rightarrow> cursor_param \<Rightarrow> evidence_db \<Rightarrow> list_reply" where
  "handle_evidence_List env q cp d =
     (case parseEvidenceFilter (he_time env) q of
        Inl _ \<Rightarrow> ListRefused 400 ''invalid filter''
      | Inr flt \<Rightarrow>
          if cp = BadCursor then ListRefused 400 ''invalid cursor''
          else
            let cur = (case cp of At c \<Rightarrow> Some c | _ \<Rightarrow> None); off = atoi (q_get q ''offset'') in
            if q_get q ''offset'' \<noteq> '''' \<and> cur \<noteq> None then ListRefused 400 ''offset and cursor cannot be combined''
            else if q_get q ''offset'' \<noteq> '''' \<and> (case off of None \<Rightarrow> True | Some n \<Rightarrow> n < 0)
            then ListRefused 400 ''offset must be a non-negative integer''
            else case ParseSort (q_get q ''sort'') (q_get q ''order'') of
                Inl _ \<Rightarrow> ListRefused 400 ''invalid sort''
              | Inr sorts \<Rightarrow>
                  if sorts \<noteq> [] \<and> cur \<noteq> None then ListRefused 400 ''sort and cursor cannot be combined''
                  else
                    let withTotal = (cur = None \<and> q_get q ''include_total'' \<noteq> ''false'');
                        p = \<lparr>lp_Filter = flt, lp_Cursor = cur, lp_Limit = list_limit env q,
                             lp_Offset = (if q_get q ''offset'' = '''' then 0 else the off), lp_Sort = '''',
                             lp_Desc = False, lp_Sorts = sorts, lp_WithTotal = withTotal\<rparr>;
                        d2 = (if withTotal then tick (tick d) else tick d) in
                    case EvidenceStore_List (he_pg env) (he_fails env) p d of
                      Inl ListPanic \<Rightarrow> ListPanics
                    | Inl _ \<Rightarrow> if he_over_budget env then ListRefused 422 ''query did not finish''
                              else ListRefused 500 ''internal error''
                    | Inr r \<Rightarrow>
                        let reply = (\<lambda>inh. Listed \<lparr>ls_Records = lr_Records r, ls_Inherited = inh,
                                      ls_NextCursor = lr_NextCursor r, ls_Total = lr_Total r\<rparr>) in
                        if q_get q ''include_inherited'' = ''false'' \<or> ef_RCSRef flt = None \<or> ef_Repo flt = None
                        then reply []
                        else case FindForTarget (he_fails env) (the (ef_Repo flt)) (the (ef_RCSRef flt)) d2 of
                            Inl _ \<Rightarrow> reply []
                          | Inr is \<Rightarrow> (case resolve_inherited env flt is (tick d2) of
                                None \<Rightarrow> ListPanics | Some inh \<Rightarrow> reply inh))"

section \<open>Declaring inheritance\<close>

record inheritance_create =
  ic_Repo :: string
  ic_SourceRCSRef :: string
  ic_TargetRCSRef :: string
  ic_Scope :: raw_message
  ic_Justification :: string
  ic_CreatedBy :: string

definition validate_InheritanceCreate :: "inheritance_create \<Rightarrow> field_error list" where
  "validate_InheritanceCreate c =
     (if ic_Repo c = '''' then [Required ''repo''] else [])
     @ (if ic_SourceRCSRef c = '''' then [Required ''source_rcs_ref''] else [])
     @ (if ic_TargetRCSRef c = '''' then [Required ''target_rcs_ref''] else [])
     @ (if ic_Justification c = '''' then [Required ''justification''] else [])
     @ (if ic_CreatedBy c = '''' then [Required ''created_by''] else [])"

definition InheritanceStore_Insert ::
  "(nat \<Rightarrow> bool) \<Rightarrow> uuid \<Rightarrow> instant \<Rightarrow> inheritance_create \<Rightarrow> evidence_db
     \<Rightarrow> (evidence_error + inheritance_declaration) \<times> evidence_db" where
  "InheritanceStore_Insert fails i now c d =
     (let scope = (if ic_Scope c = RawNil then RawDoc (JArr []) else ic_Scope c);
          row = \<lparr>ih_ID = i, ih_CreatedAt = now, ih_Repo = ic_Repo c, ih_SourceRCSRef = ic_SourceRCSRef c,
                 ih_TargetRCSRef = ic_TargetRCSRef c, ih_Scope = scope, ih_Justification = ic_Justification c,
                 ih_CreatedBy = ic_CreatedBy c\<rparr> in
      if fails (ed_stmt d) then (Inl StatementFailed, tick d)
      else if \<not> list_all text_ok [ic_Repo c, ic_SourceRCSRef c, ic_TargetRCSRef c, ic_Justification c, ic_CreatedBy c]
      then (Inl (CheckFailed ''text''), tick d)
      else if \<not> (case scope of RawDoc j \<Rightarrow> json_ok j | _ \<Rightarrow> False) then (Inl NotJSON, tick d)
      else if i \<in> ih_ID ` set (ed_inheritance d) then (Inl (CheckFailed ''inheritance_declaration_pkey''), tick d)
      else (Inr row, (tick d)\<lparr>ed_inheritance := ed_inheritance d @ [row]\<rparr>))"

datatype inheritance_body =
    IError string
  | IErrors "field_error list"
  | IDeclaration inheritance_declaration
  | IDeclarations "inheritance_declaration list"

definition handle_inheritance_Create ::
  "handler_env \<Rightarrow> string + inheritance_create \<Rightarrow> evidence_db \<Rightarrow> (nat \<times> inheritance_body) \<times> evidence_db" where
  "handle_inheritance_Create env body d =
     (case body of
        Inl msg \<Rightarrow> ((400, IError (''invalid JSON: '' @ msg)), d)
      | Inr req \<Rightarrow>
          let errs = validate_InheritanceCreate req in
          if errs \<noteq> [] then ((422, IErrors errs), d)
          else case InheritanceStore_Insert (he_fails env) (he_new_id env (ed_stmt d)) (he_now env) req d of
              (Inl _, d') \<Rightarrow> ((500, IError ''internal error''), d')
            | (Inr i, d') \<Rightarrow> ((201, IDeclaration i), d'))"

definition handle_inheritance_List :: "handler_env \<Rightarrow> query \<Rightarrow> evidence_db \<Rightarrow> nat \<times> inheritance_body" where
  "handle_inheritance_List env q d =
     (case InheritanceStore_List (he_fails env)
             \<lparr>if_Repo = q_opt q ''repo'', if_SourceRCSRef = q_opt q ''source_rcs_ref'',
              if_TargetRCSRef = q_opt q ''target_rcs_ref''\<rparr> d of
        Inl _ \<Rightarrow> (500, IError ''internal error'')
      | Inr is \<Rightarrow> (200, IDeclarations is))"

section \<open>Filing one record\<close>

lemma EvidenceStore_Insert_cases:
  assumes "evidence_wf d" and "EvidenceStore_Insert fails parse new_id now e d = (res, d')"
  obtains (failed) err where "res = Inl err" "tables d' = tables d" "evidence_wf d'"
  | (stored) r where "res = Inr r" "evidence_wf d'" "answers parse e r"
      "ed_rows d' = ed_rows d @ (if ir_Created r then [ir_Evidence r] else [])"
      "\<not> ir_Created r \<Longrightarrow> tables d' = tables d" "ir_Evidence r \<in> set (ed_rows d')"
  using assms(2) unfolding EvidenceStore_Insert_def
proof (cases rule: in_tx_cases)
  case (rolled_back err)
  then show thesis using failed assms(1) by simp
next
  case (committed r d1)
  have "evidence_wf (tick d)" using assms(1) by simp
  note w = insertOne_wf [OF this committed(2), unfolded tick_simps tables_tick]
  show thesis by (rule stored [OF committed(1)]) (use w committed(3) in \<open>auto split: if_splits\<close>)
qed

lemma answers_contents:
  assumes "answers parse e r" and "ir_Created r"
  shows "ev_Source (ir_Evidence r) = ec_Source e" "ev_Result (ir_Evidence r) = ec_Result e"
proof -
  let ?row = "evidence_row (ev_ID (ir_Evidence r)) (ev_IngestedAt (ir_Evidence r))
    (ev_ClientRecordID (ir_Evidence r)) (fst (annotateBlobRefs (ec_Metadata e))) e"
  have eq: "ir_Evidence r = ?row" using assms unfolding answers_def by blast
  show "ev_Source (ir_Evidence r) = ec_Source e"
    using arg_cong [OF eq, of ev_Source] by (simp only: evidence_row_def evidence.simps)
  show "ev_Result (ir_Evidence r) = ec_Result e"
    using arg_cong [OF eq, of ev_Result] by (simp only: evidence_row_def evidence.simps)
qed

text \<open>What the columns accept beyond what validation checks.\<close>

definition storable :: "evidence_create \<Rightarrow> bool" where
  "storable e \<longleftrightarrow> list_all text_ok [ec_Repo e, ec_Branch e, ec_RCSRef e, ec_ProcedureRef e, ec_Source e]
     \<and> (case fst (annotateBlobRefs (ec_Metadata e)) of RawDoc j \<Rightarrow> json_ok j | _ \<Rightarrow> False)"

lemma valid_type_text: "ValidEvidenceType t \<Longrightarrow> text_ok t"
  by (auto simp: ValidEvidenceType_def EvidenceTypes_def TypeCI_def TypeManualTest_def
      TypeDemonstration_def text_ok_def)

lemma validated_columns:
  assumes "validate_EvidenceCreate parse e = []" and "storable e"
  shows "column_error e (fst (annotateBlobRefs (ec_Metadata e))) = None"
  using assms valid_type_text [of "ec_EvidenceType e"]
  by (auto simp: validate_EvidenceCreate_def column_error_def storable_def split: if_splits)

lemma recordBlobRefs_succeeds: "(\<And>n. \<not> fails n) \<Longrightarrow> \<exists>d'. recordBlobRefs fails i refs d = Inr d'"
  by (induction refs arbitrary: d) auto

lemma Insert_succeeds:
  assumes "\<And>n. \<not> fails n" and "validate_EvidenceCreate parse e = []" and "storable e"
    and "new_id (Suc (ed_stmt d)) \<notin> ev_ID ` set (ed_rows d)"
  shows "\<exists>r. fst (EvidenceStore_Insert fails parse new_id now e d) = Inr r"
proof -
  note col = validated_columns [OF assms(2,3)]
  obtain cid where cid: "(case ec_ClientRecordID e of None \<Rightarrow> Inr None
      | Some s \<Rightarrow> (case parse s of None \<Rightarrow> Inl (BadClientRecordID s) | Some u \<Rightarrow> Inr (Some u))) = Inr cid"
    using assms(2) by (auto simp: validate_EvidenceCreate_def split: option.splits if_splits)
  obtain m refs where a: "annotateBlobRefs (ec_Metadata e) = (m, refs)" by fastforce
  obtain d1 where "recordBlobRefs fails (new_id (Suc (ed_stmt d))) refs ((tick (tick d))\<lparr>ed_rows := ed_rows d @
      [evidence_row (new_id (Suc (ed_stmt d))) now cid m e]\<rparr>) = Inr d1"
    using recordBlobRefs_succeeds [of fails] assms(1) by blast
  then show ?thesis
    using assms(1,4) col a
    by (auto simp: EvidenceStore_Insert_def in_tx_def insertOne_def cid Let_def split: if_splits)
qed


subsection \<open>A small environment\<close>

definition demo_env :: handler_env where
  "demo_env = \<lparr>he_parse = demo_parse, he_blobs = Some (\<lambda>_. Bytes ''x''), he_sniff = (\<lambda>_. ''image/png''),
     he_DefaultPageSize = 100, he_MaxPageSize = 1000, he_MaxBatchSize = 3, he_fails = (\<lambda>_. False),
     he_over_budget = False, he_new_id = (\<lambda>n. 100 + n), he_now = 7, he_pg = plain_database,
     he_time = (\<lambda>_. None)\<rparr>"

text \<open>A contributor, who may write no source but her own.\<close>

definition contributor :: ctx where
  "contributor = WithPrincipal empty_ctx (NewPrincipal ''ann'' KindUser '''' [RoleContributor])"


text \<open>A NUL character is valid JSON and passes validation, but no text column stores it: the
  client's mistake is answered as an internal error.\<close>

lemma nul_text_is_internal_error:
  "validateCreate demo_env ((demo_submission None)\<lparr>ec_Branch := [CHR 0x00]\<rparr>) = []
   \<and> fst (handle_evidence_Create demo_env contributor (Inr ((demo_submission None)\<lparr>ec_Branch := [CHR 0x00]\<rparr>)) no_evidence)
     = (500, EError ''internal error'')"
  by code_simp

section \<open>Filing a batch\<close>

text \<open>What the status of a record says: its index; its errors where it is invalid, and otherwise
  a stored record that carries its token.\<close>

definition status_ok :: "handler_env \<Rightarrow> evidence list \<Rightarrow> nat \<Rightarrow> evidence_create \<Rightarrow> batch_status \<Rightarrow> bool" where
  "status_ok env rows i e st \<longleftrightarrow> bs_Index st = i \<and>
     (if validateCreate env e = []
      then \<exists>r. answers (he_parse env) e r \<and> ir_Evidence r \<in> set rows \<and> bs_ID st = Some (ev_ID (ir_Evidence r))
             \<and> bs_Status st = (if ir_Created r then StatusCreated else StatusDuplicate)
      else bs_Status st = StatusError \<and> bs_Error st = validateCreate env e)"

lemma status_distinct: "StatusCreated \<noteq> StatusDuplicate" "StatusCreated \<noteq> StatusError" "StatusDuplicate \<noteq> StatusError"
  by (simp_all add: StatusCreated_def StatusDuplicate_def StatusError_def)

lemma batch_results_ok:
  assumes "list_all2 (answers (he_parse env)) (filter (\<lambda>e. validateCreate env e = []) es) rs"
    and "ir_Evidence ` set rs \<subseteq> set rows"
  shows "length (batch_results env i es rs) = length es"
    and "k < length es \<Longrightarrow> status_ok env rows (i + k) (es ! k) (batch_results env i es rs ! k)"
    and "length (filter (\<lambda>st. bs_Status st = StatusCreated) (batch_results env i es rs)) = length (filter ir_Created rs)"
proof -
  have "length (batch_results env i es rs) = length es
    \<and> (\<forall>k < length es. status_ok env rows (i + k) (es ! k) (batch_results env i es rs ! k))
    \<and> length (filter (\<lambda>st. bs_Status st = StatusCreated) (batch_results env i es rs)) = length (filter ir_Created rs)"
    using assms
  proof (induction es arbitrary: i rs)
    case (Cons e es)
    show ?case
    proof (cases "validateCreate env e = []")
      case False
      have "list_all2 (answers (he_parse env)) (filter (\<lambda>e. validateCreate env e = []) es) rs"
        using Cons.prems(1) False by simp
      note IH = Cons.IH [OF this Cons.prems(2), of "Suc i"]
      have "status_ok env rows i e \<lparr>bs_Index = i, bs_ID = None, bs_Status = StatusError,
          bs_Error = validateCreate env e\<rparr>" using False by (simp add: status_ok_def)
      then show ?thesis using IH False status_distinct by (auto simp: less_Suc_eq_0_disj)
    next
      case True
      then obtain r rs' where rs: "rs = r # rs'" "answers (he_parse env) e r"
        and rest: "list_all2 (answers (he_parse env)) (filter (\<lambda>e. validateCreate env e = []) es) rs'"
        using Cons.prems(1) by (auto simp: list_all2_Cons1)
      have sub: "ir_Evidence ` set rs' \<subseteq> set rows" "ir_Evidence r \<in> set rows" using Cons.prems(2) rs(1) by auto
      note IH = Cons.IH [OF rest sub(1), of "Suc i"]
      have "status_ok env rows i e \<lparr>bs_Index = i, bs_ID = Some (ev_ID (ir_Evidence r)),
          bs_Status = (if ir_Created r then StatusCreated else StatusDuplicate), bs_Error = []\<rparr>"
        using True rs(2) sub(2) by (auto simp: status_ok_def)
      then show ?thesis using IH True rs status_distinct
        by (auto simp: less_Suc_eq_0_disj)
    qed
  qed simp
  then show "length (batch_results env i es rs) = length es"
    "k < length es \<Longrightarrow> status_ok env rows (i + k) (es ! k) (batch_results env i es rs ! k)"
    "length (filter (\<lambda>st. bs_Status st = StatusCreated) (batch_results env i es rs)) = length (filter ir_Created rs)"
    by blast+
qed

lemma bind_sources_Some:
  "bind_sources c rs = Some rs' \<longleftrightarrow>
     list_all2 (\<lambda>r r'. \<exists>src. BindSource c (ec_Source r) = Inr src \<and> r' = r\<lparr>ec_Source := src\<rparr>) rs rs'"
proof (induction rs arbitrary: rs')
  case (Cons r rs)
  show ?case by (cases "BindSource c (ec_Source r)") (auto simp: list_all2_Cons1 Cons.IH)
qed auto

text \<open>
  C14. A batch is answered record by record. From well-formed tables, which it keeps: a request
  that is refused or fails changes nothing, and one record with a source the caller may not
  write refuses the whole batch. Otherwise every record has a status under its own index: its
  errors if it was invalid, or the identifier of the stored record it became. The records
  reported as created are as many as were added, and 201 instead of 207 says that all were
  valid.
\<close>

theorem CreateBatch_answers_each:
  assumes "evidence_wf d" and "handle_CreateBatch env c (Inr records) d = ((status, body), d')"
  shows "evidence_wf d'
    \<and> (status \<noteq> 201 \<and> status \<noteq> 207 \<longrightarrow> tables d' = tables d)
    \<and> (status = 201 \<or> status = 207 \<longrightarrow>
        (\<exists>sts recs. body = EBatch sts \<and> length sts = length records
           \<and> list_all2 (\<lambda>r r'. \<exists>src. BindSource c (ec_Source r) = Inr src \<and> r' = r\<lparr>ec_Source := src\<rparr>) records recs
           \<and> (\<forall>k < length records. status_ok env (ed_rows d') k (recs ! k) (sts ! k))
           \<and> length (ed_rows d') = length (ed_rows d) + length (filter (\<lambda>st. bs_Status st = StatusCreated) sts)
           \<and> (status = 201 \<longleftrightarrow> (\<forall>e \<in> set recs. validateCreate env e = []))))"
proof (cases "records = [] \<or> he_MaxBatchSize env < int (length records) \<or> bind_sources c records = None")
  case True
  then show ?thesis using assms by (auto simp: handle_CreateBatch_def split: if_splits)
next
  case False
  then obtain recs where recs: "bind_sources c records = Some recs" by auto
  have bound: "list_all2 (\<lambda>r r'. \<exists>src. BindSource c (ec_Source r) = Inr src \<and> r' = r\<lparr>ec_Source := src\<rparr>) records recs"
    using recs bind_sources_Some by blast
  have len: "length recs = length records" using bound by (simp add: list_all2_lengthD)
  let ?valid = "filter (\<lambda>e. validateCreate env e = []) recs"
  let ?st = "if length ?valid < length recs then 207 else 201 :: nat"
  have all: "?st = 201 \<longleftrightarrow> (\<forall>e \<in> set recs. validateCreate env e = [])"
  proof (cases "\<forall>e \<in> set recs. validateCreate env e = []")
    case False
    then show ?thesis using length_filter_less [of _ recs "\<lambda>e. validateCreate env e = []"] by auto
  qed simp
  have reply: "?thesis" if run: "status = ?st" "body = EBatch (batch_results env 0 recs rs)"
    and wf: "evidence_wf d'" and ans: "list_all2 (answers (he_parse env)) ?valid rs"
    and stored: "ir_Evidence ` set rs \<subseteq> set (ed_rows d')"
    and rows: "length (ed_rows d') = length (ed_rows d) + length (filter ir_Created rs)" for rs
    using batch_results_ok(1,3) [OF ans stored, of 0] batch_results_ok(2) [OF ans stored, where i = 0]
      bound len all rows wf run by auto
  show ?thesis
  proof (cases "?valid = []")
    case True
    then have "status = ?st" "body = EBatch (batch_results env 0 recs [])" "d' = d"
      using assms(2) False recs by (simp_all add: handle_CreateBatch_def Let_def)
    then show ?thesis using reply [of "[]"] assms(1) True by simp
  next
    case ne: False
    obtain res d1 where ins: "InsertBatch (he_fails env) (he_parse env) (he_new_id env) (he_now env) ?valid d = (res, d1)"
      by fastforce
    have "d1 = d'" and run: "(case res of Inl _ \<Rightarrow> (500, EError ''internal error'')
        | Inr rs \<Rightarrow> (?st, EBatch (batch_results env 0 recs rs))) = (status, body)"
      using assms(2) False recs ne ins by (auto simp: handle_CreateBatch_def Let_def split: sum.splits)
    from ins have tx: "in_tx (he_fails env) (insert_all (he_fails env) (he_parse env) (he_new_id env) (he_now env) ?valid) d = (res, d')"
      using \<open>d1 = d'\<close> by (simp add: InsertBatch_def)
    then show ?thesis
    proof (cases rule: in_tx_cases)
      case (rolled_back err)
      then show ?thesis using run assms(1) by auto
    next
      case (committed rs d2)
      have "evidence_wf (tick d)" using assms(1) by simp
      note w = insert_all_wf [OF this committed(2), unfolded tick_simps]
      have "status = ?st" "body = EBatch (batch_results env 0 recs rs)" using run committed(1) by auto
      then show ?thesis
      proof (rule reply)
        show "evidence_wf d'" "list_all2 (answers (he_parse env)) ?valid rs" using w committed(3) by simp_all
        show "ir_Evidence ` set rs \<subseteq> set (ed_rows d')" using w unfolding committed(3) tick_simps by (elim conjE)
        show "length (ed_rows d') = length (ed_rows d) + length (filter ir_Created rs)" using w committed(3) by simp
      qed
    qed
  qed
qed

theorem CreateBatch_answers_each_witness:
  "\<exists>sts d'. handle_CreateBatch demo_env contributor
       (Inr [demo_submission (Some ''a''), (demo_submission None)\<lparr>ec_Repo := ''''\<rparr>]) no_evidence = ((207, EBatch sts), d')
     \<and> length sts = 2 \<and> bs_Index (sts ! 1) = 1 \<and> evidence_wf d'"
proof -
  let ?recs = "[demo_submission (Some ''a''), (demo_submission None)\<lparr>ec_Repo := ''''\<rparr>]"
  let ?run = "handle_CreateBatch demo_env contributor (Inr ?recs) no_evidence"
  obtain status body d' where run: "?run = ((status, body), d')" by (metis prod.collapse)
  have "fst (fst ?run) = 207" by code_simp
  then have s: "status = 207" using run by simp
  show ?thesis
    using CreateBatch_answers_each [OF no_evidence_wf run] run s by (auto simp: status_ok_def)
qed

section \<open>What a listing inherits\<close>

text \<open>The declarations with another scope. No listing reads the scope: what a declaration inherits
  is every record of its source reference, not the procedures or types its scope names.\<close>

definition with_scope :: "raw_message \<Rightarrow> inheritance_declaration \<Rightarrow> inheritance_declaration" where
  "with_scope sc i = i\<lparr>ih_Scope := sc\<rparr>"

definition rescoped :: "raw_message \<Rightarrow> evidence_db \<Rightarrow> evidence_db" where
  "rescoped sc d = d\<lparr>ed_inheritance := map (with_scope sc) (ed_inheritance d)\<rparr>"

lemma rescoped_simps [simp]:
  "ed_rows (rescoped sc d) = ed_rows d" "ed_stmt (rescoped sc d) = ed_stmt d"
  "tick (rescoped sc d) = rescoped sc (tick d)"
  by (simp_all add: rescoped_def tick_def)

lemma List_rescoped: "EvidenceStore_List pg fails p (rescoped sc d) = EvidenceStore_List pg fails p d"
  unfolding EvidenceStore_List_def rescoped_simps ..

lemma insort_key_map: "insort_key f (g x) (map g xs) = map g (insort_key (\<lambda>y. f (g y)) x xs)"
  by (induction xs) simp_all

lemma sort_key_map: "sort_key f (map g xs) = map g (sort_key (\<lambda>y. f (g y)) xs)"
  by (induction xs) (simp_all add: insort_key_map)

lemma FindForTarget_rescoped:
  "FindForTarget fails repo target (rescoped sc d) = map_sum id (map (with_scope sc)) (FindForTarget fails repo target d)"
proof -
  have sel: "inheritance_matches f (with_scope sc i) = inheritance_matches f i"
    "ih_CreatedAt (with_scope sc i) = ih_CreatedAt i" for f i
    by (auto simp: inheritance_matches_def with_scope_def split: option.splits)
  have "filter (inheritance_matches f) (map (with_scope sc) is) = map (with_scope sc) (filter (inheritance_matches f) is)" for f "is"
    by (induction "is") (simp_all add: sel)
  then show ?thesis
    by (simp add: FindForTarget_def InheritanceStore_List_def sort_key_map sel)
       (simp add: rescoped_def sort_key_map sel)
qed

lemma resolve_rescoped:
  "resolve_inherited env flt (map (with_scope sc) is) (rescoped sc d) = resolve_inherited env flt is d"
proof (induction "is" arbitrary: d)
  case (Cons i "is")
  have p: "inherited_params env flt (with_scope sc i) = inherited_params env flt i" "ih_ID (with_scope sc i) = ih_ID i"
    by (simp_all add: inherited_params_def with_scope_def)
  show ?case by (simp add: p List_rescoped Cons.IH split: sum.splits list_error.splits)
qed simp

lemma inheritance_scope_ignored:
  "handle_evidence_List env q cp (rescoped sc d) = handle_evidence_List env q cp d"
proof -
  have "(case FindForTarget (he_fails env) repo target (rescoped sc d2) of
            Inl _ \<Rightarrow> x | Inr is \<Rightarrow> (case resolve_inherited env flt is (rescoped sc d3) of None \<Rightarrow> y | Some inh \<Rightarrow> g inh))
      = (case FindForTarget (he_fails env) repo target d2 of
            Inl _ \<Rightarrow> x | Inr is \<Rightarrow> (case resolve_inherited env flt is d3 of None \<Rightarrow> y | Some inh \<Rightarrow> g inh))"
    for repo target d2 d3 flt and x y :: list_reply and g
    by (cases "FindForTarget (he_fails env) repo target d2") (simp_all add: FindForTarget_rescoped resolve_rescoped)
  note inner = this
  have two: "(if b then rescoped sc x else rescoped sc y) = rescoped sc (if b then x else y)" for b x y by simp
  show ?thesis
    unfolding handle_evidence_List_def List_rescoped Let_def rescoped_simps two inner ..
qed

text \<open>A page size of zero, which the configuration accepts, makes the default listing panic.\<close>

lemma zero_page_size_panics:
  "handle_evidence_List (demo_env\<lparr>he_DefaultPageSize := 0\<rparr>) [] NoCursor three_rows = ListPanics"
  by code_simp

end
