(* ===== verification/Metrics.thy ===== *)
theory Metrics
  imports Model "HOL-Library.Char_ord" "HOL-Library.List_Lexorder" "HOL-Library.Product_Lexorder"
    "HOL-Library.Multiset"
begin

text \<open>
  The reliability metrics of \<^verbatim>\<open>internal/analytics/metrics.go\<close> and the table of
  \<^verbatim>\<open>internal/analytics/stats.go\<close>: rates, the Wilson bound, labels, sorting.
  A \<^verbatim>\<open>float64\<close> that is a number is the rational it denotes, and every operation rounds its
  exact result to 53 significant bits, ties to even, as IEEE 754 and Go on amd64 do; no value here
  comes near the smallest or the largest exponent. NaN can enter only through a threshold a client
  sends, so thresholds have it and rates do not.
\<close>

section \<open>Floating-point numbers\<close>

fun bit_len :: "nat \<Rightarrow> nat" where
  "bit_len n = (if n = 0 then 0 else Suc (bit_len (n div 2)))"

declare bit_len.simps [simp del]

definition pow2 :: "int \<Rightarrow> rat" where
  "pow2 k = (if 0 \<le> k then 2 ^ nat k else 1 / 2 ^ nat (- k))"

text \<open>The exponent of the leading bit of a positive rational.\<close>

definition exponent2 :: "rat \<Rightarrow> int" where
  "exponent2 x =
     (let pq = quotient_of x; k = int (bit_len (nat (fst pq))) - int (bit_len (nat (snd pq)))
      in if pow2 k \<le> x then k else k - 1)"

definition round_even :: "rat \<Rightarrow> int" where
  "round_even m =
     (let f = \<lfloor>m\<rfloor>; r = m - of_int f in
      if r < 1 / 2 then f else if 1 / 2 < r then f + 1 else if even f then f else f + 1)"

definition fl_pos :: "rat \<Rightarrow> rat" where
  "fl_pos x = (let s = 52 - exponent2 x in of_int (round_even (x * pow2 s)) * pow2 (- s))"

definition fl :: "rat \<Rightarrow> rat" where
  "fl x = (if x = 0 then 0 else if x < 0 then - fl_pos (- x) else fl_pos x)"

fun isqrt :: "nat \<Rightarrow> nat" where
  "isqrt n = (if n = 0 then 0 else let r = 2 * isqrt (n div 4) in if (r + 1) * (r + 1) \<le> n then r + 1 else r)"

declare isqrt.simps [simp del]

text \<open>The square root, rounded: sixty bits of it, and half a unit more when it is not exact, so that
  rounding sees on which side of a tie the root lies. Negative arguments give NaN.\<close>

definition Sqrt :: "rat \<Rightarrow> rat option" where
  "Sqrt x =
     (if x < 0 then None else if x = 0 then Some 0
      else let k = 60 - exponent2 x div 2; y = x * pow2 (2 * k); s = isqrt (nat \<lfloor>y\<rfloor>);
               t = (if of_nat (s * s) = y then of_nat s else of_nat s + 1 / 2)
           in Some (fl (t * pow2 (- k))))"

definition ratio :: "int \<Rightarrow> int \<Rightarrow> rat" where
  "ratio numerator denominator =
     (if denominator \<le> 0 then 0 else fl (fl (of_int numerator) / fl (of_int denominator)))"

definition clamp01 :: "rat option \<Rightarrow> rat" where
  "clamp01 v = (case v of None \<Rightarrow> 0 | Some x \<Rightarrow> max 0 (min 1 x))"

section \<open>Rates and labels\<close>

record counts =
  c_Pass :: int
  c_Fail :: int
  c_Error :: int
  c_Skipped :: int
  c_Flips :: int
  c_Transitions :: int
  c_FlakyCommits :: int

definition Runs :: "counts \<Rightarrow> int" where
  "Runs c = c_Pass c + c_Fail c + c_Error c + c_Skipped c"

definition VerdictRuns :: "counts \<Rightarrow> int" where
  "VerdictRuns c = c_Pass c + c_Fail c"

definition FailRate :: "counts \<Rightarrow> rat" where
  "FailRate c = ratio (c_Fail c) (VerdictRuns c)"

definition ErrorRate :: "counts \<Rightarrow> rat" where
  "ErrorRate c = ratio (c_Error c) (c_Pass c + c_Fail c + c_Error c)"

definition FlipRate :: "counts \<Rightarrow> rat" where
  "FlipRate c = ratio (c_Flips c) (c_Transitions c)"

definition z95 :: rat where
  "z95 = 1959963984540054 / 1000000000000000"

definition WilsonLower :: "int \<Rightarrow> int \<Rightarrow> rat" where
  "WilsonLower successes total_runs =
     (if total_runs \<le> 0 \<or> successes < 0 then 0
      else
        let n = fl (of_int total_runs); p = fl (fl (of_int successes) / n); zz = fl (z95 * z95);
            denominator = fl (1 + fl (zz / n));
            center = fl (p + fl (zz / fl (2 * n)));
            spread = fl (fl (fl (p * fl (1 - p)) / n) + fl (zz / fl (fl (4 * n) * n)))
        in clamp01 (map_option (\<lambda>s. fl (fl (center - fl (fl z95 * s)) / denominator)) (Sqrt spread)))"

definition PassRateLower :: "counts \<Rightarrow> rat" where
  "PassRateLower c = WilsonLower (c_Pass c) (VerdictRuns c)"

definition LabelStable :: string where "LabelStable = ''stable''"
definition LabelAlwaysFailing :: string where "LabelAlwaysFailing = ''always_failing''"
definition LabelFlaky :: string where "LabelFlaky = ''flaky''"
definition LabelInfraHeavy :: string where "LabelInfraHeavy = ''infra_heavy''"
definition LabelSparse :: string where "LabelSparse = ''sparse''"

lemmas label_defs = LabelStable_def LabelAlwaysFailing_def LabelFlaky_def LabelInfraHeavy_def LabelSparse_def

datatype float64 = NaN | Num rat

text \<open>\<^verbatim>\<open>x >= t\<close>: no number is at or above NaN.\<close>

fun at_least :: "rat \<Rightarrow> float64 \<Rightarrow> bool" where
  "at_least x NaN = False"
| "at_least x (Num t) = (t \<le> x)"

record thresholds =
  th_MinRuns :: int
  th_AlwaysFailingRate :: float64
  th_FlipRate :: float64
  th_ErrorRate :: float64
  th_MinErrors :: int

definition DefaultThresholds :: thresholds where
  "DefaultThresholds = \<lparr>th_MinRuns = 10, th_AlwaysFailingRate = Num (fl (9 / 10)), th_FlipRate = Num (fl (1 / 5)),
     th_ErrorRate = Num (fl (1 / 10)), th_MinErrors = 3\<rparr>"

definition Labels :: "thresholds \<Rightarrow> counts \<Rightarrow> string list" where
  "Labels t c =
     (if \<not> th_MinRuns t \<le> VerdictRuns c then [LabelSparse]
      else if c_Fail c = 0 \<and> c_Error c = 0 then [LabelStable]
      else if at_least (FailRate c) (th_AlwaysFailingRate t) then [LabelAlwaysFailing] else [])
     @ (if 0 < c_FlakyCommits c \<or> at_least (FlipRate c) (th_FlipRate t) then [LabelFlaky] else [])
     @ (if th_MinErrors t \<le> c_Error c \<and> at_least (ErrorRate c) (th_ErrorRate t) then [LabelInfraHeavy] else [])"

definition IsLabel :: "string \<Rightarrow> bool" where
  "IsLabel name \<longleftrightarrow> name \<in> set [LabelStable, LabelAlwaysFailing, LabelFlaky, LabelInfraHeavy, LabelSparse]"

section \<open>The table\<close>

record test_stats =
  ts_Repo :: string
  ts_ProcedureRef :: string
  ts_EvidenceType :: string
  ts_Counts :: counts
  ts_Runs :: int
  ts_VerdictRuns :: int
  ts_FailRate :: rat
  ts_ErrorRate :: rat
  ts_FlipRate :: rat
  ts_PassRateLower :: rat
  ts_FirstSeen :: instant
  ts_LastSeen :: instant
  ts_LastPassAt :: "instant option"
  ts_LastFailAt :: "instant option"
  ts_LastResult :: string
  ts_Labels :: "string list"

definition finalize_one :: "thresholds \<Rightarrow> test_stats \<Rightarrow> test_stats" where
  "finalize_one th s = (let c = ts_Counts s in
     s\<lparr>ts_Runs := Runs c, ts_VerdictRuns := VerdictRuns c, ts_FailRate := FailRate c, ts_ErrorRate := ErrorRate c,
       ts_FlipRate := FlipRate c, ts_PassRateLower := PassRateLower c, ts_Labels := Labels th c\<rparr>)"

definition Finalize :: "thresholds \<Rightarrow> test_stats list \<Rightarrow> test_stats list" where
  "Finalize th stats = map (finalize_one th) stats"

definition WithLabel :: "test_stats list \<Rightarrow> string \<Rightarrow> test_stats list" where
  "WithLabel stats label = filter (\<lambda>s. label \<in> set (ts_Labels s)) stats"

definition DefaultSortKey :: string where
  "DefaultSortKey = ''procedure_ref''"

text \<open>\<^verbatim>\<open>cmp.Compare\<close> and \<^verbatim>\<open>cmp.Or\<close>, the first argument that is not zero.\<close>

definition Compare :: "'a::linorder \<Rightarrow> 'a \<Rightarrow> int" where
  "Compare a b = (if a < b then - 1 else if b < a then 1 else 0)"

definition first_nonzero :: "int \<Rightarrow> int \<Rightarrow> int" where
  "first_nonzero c d = (if c \<noteq> 0 then c else d)"

definition by_key :: "('a \<Rightarrow> 'k::linorder) \<Rightarrow> 'a \<Rightarrow> 'a \<Rightarrow> int" where
  "by_key f a b = Compare (f a) (f b)"

definition sortKeys :: "string \<Rightarrow> (test_stats \<Rightarrow> test_stats \<Rightarrow> int) option" where
  "sortKeys = map_of
     [(''procedure_ref'', by_key ts_ProcedureRef), (''repo'', by_key ts_Repo), (''runs'', by_key ts_Runs),
      (''verdict_runs'', by_key ts_VerdictRuns), (''pass'', by_key (\<lambda>s. c_Pass (ts_Counts s))),
      (''fail'', by_key (\<lambda>s. c_Fail (ts_Counts s))), (''error'', by_key (\<lambda>s. c_Error (ts_Counts s))),
      (''skipped'', by_key (\<lambda>s. c_Skipped (ts_Counts s))),
      (''flaky_commits'', by_key (\<lambda>s. c_FlakyCommits (ts_Counts s))), (''fail_rate'', by_key ts_FailRate),
      (''error_rate'', by_key ts_ErrorRate), (''flip_rate'', by_key ts_FlipRate),
      (''pass_rate_lower'', by_key ts_PassRateLower), (''first_seen'', by_key ts_FirstSeen),
      (''last_seen'', by_key ts_LastSeen)]"

definition stats_IsSortable :: "string \<Rightarrow> bool" where
  "stats_IsSortable key \<longleftrightarrow> sortKeys key \<noteq> None"

text \<open>\<^verbatim>\<open>slices.SortStableFunc\<close>: for a comparison that orders the elements, as every one below does,
  the stable result is unique, so any stable algorithm models it.\<close>

fun insert_stable :: "('a \<Rightarrow> 'a \<Rightarrow> int) \<Rightarrow> 'a \<Rightarrow> 'a list \<Rightarrow> 'a list" where
  "insert_stable cmp x [] = [x]"
| "insert_stable cmp x (y # ys) = (if cmp x y \<le> 0 then x # y # ys else y # insert_stable cmp x ys)"

definition SortStableFunc :: "('a \<Rightarrow> 'a \<Rightarrow> int) \<Rightarrow> 'a list \<Rightarrow> 'a list" where
  "SortStableFunc cmp xs = foldr (insert_stable cmp) xs []"

definition row_order :: "(test_stats \<Rightarrow> test_stats \<Rightarrow> int) \<Rightarrow> bool \<Rightarrow> test_stats \<Rightarrow> test_stats \<Rightarrow> int" where
  "row_order compare desc a b =
     first_nonzero (if desc then - compare a b else compare a b)
       (first_nonzero (by_key ts_ProcedureRef a b)
         (first_nonzero (by_key ts_Repo a b) (by_key ts_EvidenceType a b)))"

definition Sort :: "test_stats list \<Rightarrow> string \<Rightarrow> bool \<Rightarrow> string + test_stats list" where
  "Sort stats key desc =
     (let key' = (if key = '''' then DefaultSortKey else key) in
      case sortKeys key' of
        None \<Rightarrow> Inl (''cannot sort by '' @ key')
      | Some compare \<Rightarrow> Inr (SortStableFunc (row_order compare desc) stats))"


section \<open>Rounding is accurate\<close>

lemma bit_len_bounds: "0 < n \<Longrightarrow> 2 ^ (bit_len n - 1) \<le> n \<and> n < 2 ^ bit_len n \<and> 0 < bit_len n"
proof (induction n rule: bit_len.induct)
  case (1 n)
  show ?case
  proof (cases "n div 2 = 0")
    case True
    then have "n = 1" using \<open>0 < n\<close> by linarith
    then show ?thesis by (simp add: bit_len.simps)
  next
    case False
    then have IH: "2 ^ (bit_len (n div 2) - 1) \<le> n div 2" "n div 2 < 2 ^ bit_len (n div 2)" "0 < bit_len (n div 2)"
      using 1 by simp_all
    have b: "bit_len n = Suc (bit_len (n div 2))" using \<open>0 < n\<close> by (subst bit_len.simps) simp
    have "(2::nat) ^ bit_len (n div 2) = 2 * 2 ^ (bit_len (n div 2) - 1)" using IH(3) by (cases "bit_len (n div 2)") simp_all
    then have "2 ^ (bit_len n - 1) \<le> n" "n < 2 ^ bit_len n" using IH b by (simp_all, linarith+)
    then show ?thesis using b by simp
  qed
qed

lemma pow2_pos [simp]: "0 < pow2 k"
  by (simp add: pow2_def)

lemma pow2_powi: "pow2 k = 2 powi k"
  by (simp add: pow2_def power_int_def inverse_eq_divide power_one_over)

lemma pow2_add: "pow2 (a + b) = pow2 a * pow2 b"
  by (simp add: pow2_powi power_int_add)

lemma pow2_mono: "a \<le> b \<Longrightarrow> pow2 a \<le> pow2 b"
  by (simp add: pow2_powi power_int_increasing)

lemma pow2_simps [simp]: "pow2 0 = 1" "pow2 1 = 2" "pow2 (- 1) = 1 / 2"
  by (simp_all add: pow2_def)

lemma pow2_inverse: "pow2 (- s) * pow2 s = 1"
  using pow2_add [of "- s" s] by simp

lemma exponent2_bounds:
  assumes "0 < x"
  shows "pow2 (exponent2 x) \<le> x \<and> x < pow2 (exponent2 x + 1)"
proof -
  obtain p q where pq: "quotient_of x = (p, q)" by fastforce
  have q: "0 < q" using pq quotient_of_denom_pos by blast
  have x: "x = of_int p / of_int q" using pq quotient_of_div by blast
  have p: "0 < p" using assms q x by (simp add: zero_less_divide_iff)
  let ?a = "bit_len (nat p)" and ?b = "bit_len (nat q)"
  let ?k = "int ?a - int ?b"
  have a: "2 ^ (?a - 1) \<le> nat p" "nat p < 2 ^ ?a" "0 < ?a" using bit_len_bounds [of "nat p"] p by simp_all
  have b: "2 ^ (?b - 1) \<le> nat q" "nat q < 2 ^ ?b" "0 < ?b" using bit_len_bounds [of "nat q"] q by simp_all
  have r: "(of_int p :: rat) = of_nat (nat p)" "(of_int q :: rat) = of_nat (nat q)" using p q by simp_all
  have pa: "pow2 (int ?a - 1) \<le> of_int p" "of_int p < pow2 (int ?a)"
  proof -
    have "(of_nat (2 ^ (?a - 1)) :: rat) \<le> of_nat (nat p)" "(of_nat (nat p) :: rat) < of_nat (2 ^ ?a)"
      using a by (simp_all only: of_nat_le_iff of_nat_less_iff)
    moreover have "nat (int ?a - 1) = ?a - 1" using a(3) by simp
    ultimately show "pow2 (int ?a - 1) \<le> of_int p" "of_int p < pow2 (int ?a)" using a(3) p by (simp_all add: pow2_def)
  qed
  have qb: "pow2 (int ?b - 1) \<le> of_int q" "of_int q < pow2 (int ?b)"
  proof -
    have "(of_nat (2 ^ (?b - 1)) :: rat) \<le> of_nat (nat q)" "(of_nat (nat q) :: rat) < of_nat (2 ^ ?b)"
      using b by (simp_all only: of_nat_le_iff of_nat_less_iff)
    moreover have "nat (int ?b - 1) = ?b - 1" using b(3) by simp
    ultimately show "pow2 (int ?b - 1) \<le> of_int q" "of_int q < pow2 (int ?b)" using b(3) q by (simp_all add: pow2_def)
  qed
  have "x < pow2 (?k + 1)"
  proof -
    have "x * pow2 (int ?b - 1) \<le> x * of_int q" using qb(1) assms by (simp add: mult_left_mono)
    also have "\<dots> = of_int p" using x q by simp
    also have "\<dots> < pow2 (int ?a)" by (rule pa(2))
    also have "\<dots> = pow2 (?k + 1) * pow2 (int ?b - 1)" by (simp add: pow2_add [symmetric])
    finally show ?thesis by simp
  qed
  moreover have "pow2 (?k - 1) \<le> x"
  proof -
    have "pow2 (?k - 1) * of_int q \<le> pow2 (?k - 1) * pow2 (int ?b)" using qb(2) by simp
    also have "\<dots> = pow2 (int ?a - 1)" by (simp add: pow2_add [symmetric])
    also have "\<dots> \<le> x * of_int q" using pa(1) x q by simp
    finally show ?thesis using q by simp
  qed
  moreover have "exponent2 x = (if pow2 ?k \<le> x then ?k else ?k - 1)" by (simp add: exponent2_def pq Let_def)
  ultimately show ?thesis by (cases "pow2 ?k \<le> x") simp_all
qed

lemma round_even_error: "\<bar>of_int (round_even m) - m\<bar> \<le> 1 / 2"
proof -
  have "of_int \<lfloor>m\<rfloor> \<le> m" "m < of_int \<lfloor>m\<rfloor> + 1" by linarith+
  then show ?thesis unfolding round_even_def Let_def by (simp add: abs_if) linarith
qed

lemma round_even_int [simp]: "round_even (of_int i) = i"
  by (simp add: round_even_def)

lemma fl_pos_error:
  assumes "0 < x"
  shows "\<bar>fl_pos x - x\<bar> \<le> x * pow2 (- 53)"
proof -
  let ?e = "exponent2 x"
  let ?m = "x * pow2 (52 - ?e)"
  have "fl_pos x - x = (of_int (round_even ?m) - ?m) * pow2 (?e - 52)"
    using pow2_inverse [of "52 - ?e"] by (simp add: fl_pos_def algebra_simps)
  then have "\<bar>fl_pos x - x\<bar> = \<bar>of_int (round_even ?m) - ?m\<bar> * pow2 (?e - 52)"
    by (simp add: abs_mult abs_of_pos)
  also have "\<dots> \<le> 1 / 2 * pow2 (?e - 52)"
    by (rule mult_right_mono [OF round_even_error]) (simp add: less_imp_le)
  finally have "\<bar>fl_pos x - x\<bar> \<le> 1 / 2 * pow2 (?e - 52)" .
  also have "\<dots> = pow2 ?e * pow2 (- 53)" using pow2_add [of "- 1" "?e - 52"] pow2_add [of ?e "- 53"] by simp
  also have "\<dots> \<le> x * pow2 (- 53)" using exponent2_bounds [OF assms] by simp
  finally show ?thesis .
qed

lemma fl_0 [simp]: "fl 0 = 0" and fl_minus: "fl (- x) = - fl x"
  by (auto simp: fl_def)

text \<open>Half a unit in the last place: the relative error of one rounding.\<close>

lemma fl_error: "\<bar>fl x - x\<bar> \<le> \<bar>x\<bar> * pow2 (- 53)"
  using fl_pos_error [of x] fl_pos_error [of "- x"] by (auto simp: fl_def)

lemma fl_nonneg: "0 \<le> x \<Longrightarrow> 0 \<le> fl x"
proof -
  assume "0 \<le> x"
  moreover have "x * pow2 (- 53) \<le> x * pow2 0" using \<open>0 \<le> x\<close> pow2_mono [of "- 53" 0] by (rule mult_left_mono [rotated]) simp
  ultimately show ?thesis using fl_error [of x] by simp
qed

lemma fl_pos_positive: "0 < x \<Longrightarrow> 0 < fl x"
proof -
  assume "0 < x"
  moreover have "x * pow2 (- 53) < x" using \<open>0 < x\<close> by (simp add: pow2_def)
  ultimately show ?thesis using fl_error [of x] by linarith
qed

text \<open>Integers of up to 53 bits, and in particular counts, are represented exactly.\<close>

lemma fl_int:
  assumes "\<bar>i\<bar> < 2 ^ 53"
  shows "fl (of_int i) = of_int i"
proof -
  have pos: "fl_pos (of_int j) = of_int j" if "0 < j" "j < 2 ^ 53" for j
  proof -
    let ?e = "exponent2 (of_int j)"
    have b: "pow2 ?e \<le> of_int j" using exponent2_bounds [of "of_int j"] that by simp
    have j: "(of_int j :: rat) < pow2 53"
    proof -
      have "(of_int j :: rat) < of_int (2 ^ 53)" using that by (simp only: of_int_less_iff)
      then show ?thesis by (simp add: pow2_def)
    qed
    have "?e < 53" using b j pow2_mono [of 53 ?e] by force
    then have "pow2 (52 - ?e) = of_int (2 ^ nat (52 - ?e))" by (simp add: pow2_def)
    then have "of_int j * pow2 (52 - ?e) = of_int (j * 2 ^ nat (52 - ?e))" by simp
    then have "of_int (round_even (of_int j * pow2 (52 - ?e))) = (of_int j * pow2 (52 - ?e) :: rat)"
      by (metis round_even_int)
    then show ?thesis using pow2_inverse [of "52 - ?e"] by (simp add: fl_pos_def algebra_simps)
  qed
  show ?thesis using pos [of i] pos [of "- i"] assms by (auto simp: fl_def)
qed

lemma fl_le_1:
  assumes "x \<le> 1"
  shows "fl x \<le> 1"
proof (cases "x = 1 \<or> x \<le> 0")
  case True
  then show ?thesis using fl_int [of 1] fl_nonneg [of "- x"] by (auto simp: fl_minus)
next
  case False
  let ?e = "exponent2 x"
  have e: "pow2 ?e \<le> x" "x < pow2 (?e + 1)" using exponent2_bounds [of x] False by simp_all
  have neg: "?e < 0" using e(1) False assms pow2_mono [of 0 ?e] by force
  have "x * pow2 (52 - ?e) < pow2 (?e + 1) * pow2 (52 - ?e)" using e(2) by simp
  also have "\<dots> = 2 ^ 53" by (simp add: pow2_add [symmetric]) (simp add: pow2_def)
  finally have "of_int (round_even (x * pow2 (52 - ?e))) \<le> (2 ^ 53 + 1 / 2 :: rat)"
    using round_even_error [of "x * pow2 (52 - ?e)"] by linarith
  then have "(of_int (round_even (x * pow2 (52 - ?e))) :: rat) < of_int (2 ^ 53 + 1)" by simp
  then have "round_even (x * pow2 (52 - ?e)) \<le> 2 ^ 53" by (simp only: of_int_less_iff)
  then have "(of_int (round_even (x * pow2 (52 - ?e))) :: rat) \<le> of_int (2 ^ 53)" by (simp only: of_int_le_iff)
  then have "fl_pos x \<le> of_int (2 ^ 53) * pow2 (?e - 52)"
    unfolding fl_pos_def Let_def by (simp add: mult_right_mono)
  also have "\<dots> = pow2 (53 + (?e - 52))" unfolding pow2_add by (simp add: pow2_def)
  also have "\<dots> \<le> pow2 0" using neg by (intro pow2_mono) simp
  finally show ?thesis using False by (simp add: fl_def)
qed


lemma isqrt_correct: "isqrt n * isqrt n \<le> n \<and> n < (isqrt n + 1) * (isqrt n + 1)"
proof (induction n rule: isqrt.induct)
  case (1 n)
  show ?case
  proof (cases "n = 0")
    case False
    let ?q = "isqrt (n div 4)"
    have IH: "?q * ?q \<le> n div 4" "n div 4 < (?q + 1) * (?q + 1)" using 1 False by simp_all
    have "4 * (?q * ?q) \<le> n" using IH(1) by linarith
    moreover have "n < 4 * ((?q + 1) * (?q + 1))" using IH(2) by linarith
    moreover have "isqrt n = (if (2 * ?q + 1) * (2 * ?q + 1) \<le> n then 2 * ?q + 1 else 2 * ?q)"
      using False by (subst isqrt.simps) (simp add: Let_def)
    ultimately show ?thesis by (simp add: algebra_simps)
  qed (simp add: isqrt.simps)
qed

section \<open>Rates are rates\<close>

lemma ratio_nonneg: "0 \<le> n \<Longrightarrow> 0 \<le> ratio n d"
  by (simp add: ratio_def fl_nonneg)

text \<open>A rate of counts lies between 0 and 1, is 0 exactly when nothing was counted, and differs from
  the exact quotient by one rounding.\<close>

lemma ratio_counts:
  assumes "0 \<le> n" and "n \<le> d" and "d < 2 ^ 53"
  shows "0 \<le> ratio n d" and "ratio n d \<le> 1" and "ratio n d = 0 \<longleftrightarrow> n = 0"
    and "0 < d \<Longrightarrow> ratio n d = fl (of_int n / of_int d)"
proof -
  have "\<bar>n\<bar> < 2 ^ 53" "\<bar>d\<bar> < 2 ^ 53" using assms by simp_all
  then have r: "ratio n d = fl (of_int n / of_int d)" if "0 < d"
    using that by (simp add: ratio_def fl_int)
  then show "0 < d \<Longrightarrow> ratio n d = fl (of_int n / of_int d)" .
  show "0 \<le> ratio n d" by (rule ratio_nonneg [OF assms(1)])
  show "ratio n d \<le> 1"
  proof (cases "0 < d")
    case True
    then show ?thesis using assms r by (simp add: fl_le_1)
  qed (simp add: ratio_def)
  show "ratio n d = 0 \<longleftrightarrow> n = 0"
  proof (cases "0 < d \<and> n \<noteq> 0")
    case True
    then show ?thesis using assms r fl_pos_positive [of "of_int n / of_int d"] by simp
  next
    case False
    then show ?thesis using assms by (auto simp: ratio_def)
  qed
qed

text \<open>A rate is 1 only when everything counted, as long as the counts have at most 52 bits: the nearest
  smaller quotient is farther from 1 than a rounding reaches.\<close>

lemma ratio_one:
  assumes "0 \<le> n" and "n \<le> d" and "0 < d" and "d < 2 ^ 52"
  shows "ratio n d = 1 \<longleftrightarrow> n = d"
proof
  assume one: "ratio n d = 1"
  let ?x = "of_int n / of_int d :: rat"
  have "ratio n d = fl ?x" using assms by (intro ratio_counts(4)) simp_all
  then have "\<bar>1 - ?x\<bar> \<le> \<bar>?x\<bar> * pow2 (- 53)" using fl_error [of ?x] one by argo
  moreover have "\<bar>?x\<bar> = ?x" using assms by simp
  ultimately have "1 - ?x \<le> ?x * pow2 (- 53)" by linarith
  also have "\<dots> \<le> 1 * pow2 (- 53)"
    using assms by (intro mult_right_mono) (simp_all add: less_imp_le)
  finally have "(of_int d - of_int n) / (of_int d :: rat) \<le> pow2 (- 53)"
    using assms by (simp add: diff_divide_distrib)
  then have "(of_int d - of_int n :: rat) \<le> of_int d * pow2 (- 53)"
    using assms by (simp add: divide_le_eq mult.commute)
  also have "\<dots> < 2 ^ 52 * pow2 (- 53)"
  proof -
    have "(of_int d :: rat) < of_int (2 ^ 52)" using assms(4) by (simp only: of_int_less_iff)
    then show ?thesis by simp
  qed
  also have "\<dots> < 1" by (simp add: pow2_def)
  finally have "(of_int (d - n) :: rat) < of_int 1" by simp
  then have "d - n < 1" by (simp only: of_int_less_iff)
  then show "n = d" using assms by simp
next
  assume "n = d"
  moreover have "ratio d d = fl 1" using ratio_counts(4) [of d d] assms by simp
  ultimately show "ratio n d = 1" using fl_int [of 1] by simp
qed

lemma WilsonLower_bounds: "0 \<le> WilsonLower s n \<and> WilsonLower s n \<le> 1"
  by (auto simp: WilsonLower_def Let_def clamp01_def split: option.splits)

section \<open>Sorting the table\<close>

text \<open>What a comparison function must satisfy for sorting by it to mean anything.\<close>

locale comparison =
  fixes cmp :: "'a \<Rightarrow> 'a \<Rightarrow> int"
  assumes flip: "cmp x y = - cmp y x"
    and le_trans: "cmp x y \<le> 0 \<Longrightarrow> cmp y z \<le> 0 \<Longrightarrow> cmp x z \<le> 0"
begin

lemma self [simp]: "cmp x x = 0"
  using flip [of x x] by simp

lemma eq_cong: "cmp x y = 0 \<Longrightarrow> cmp x z \<le> 0 \<longleftrightarrow> cmp y z \<le> 0"
  using flip [of x y] le_trans by (metis neg_equal_0_iff_equal order_refl)

lemma eq_trans: "cmp x y = 0 \<Longrightarrow> cmp y z = 0 \<Longrightarrow> cmp x z = 0"
proof -
  assume "cmp x y = 0" "cmp y z = 0"
  then have "cmp x z \<le> 0" "cmp z x \<le> 0"
    using le_trans [of x y z] le_trans [of z y x] flip [of x y] flip [of y z] by simp_all
  then show ?thesis using flip [of x z] by simp
qed

lemma less_le_trans: "cmp x y < 0 \<Longrightarrow> cmp y z \<le> 0 \<Longrightarrow> cmp x z < 0"
proof (rule ccontr)
  assume a: "cmp x y < 0" "cmp y z \<le> 0" and "\<not> cmp x z < 0"
  then have "cmp z x \<le> 0" using flip [of x z] by simp
  then have "cmp y x \<le> 0" using a(2) le_trans by blast
  then show False using a(1) flip [of x y] by simp
qed

lemma le_less_trans: "cmp x y \<le> 0 \<Longrightarrow> cmp y z < 0 \<Longrightarrow> cmp x z < 0"
proof (rule ccontr)
  assume a: "cmp x y \<le> 0" "cmp y z < 0" and "\<not> cmp x z < 0"
  then have "cmp z x \<le> 0" using flip [of x z] by simp
  then have "cmp z y \<le> 0" using a(1) le_trans by blast
  then show False using a(2) flip [of y z] by simp
qed

lemma mset_insert_stable [simp]: "mset (insert_stable cmp x xs) = add_mset x (mset xs)"
  by (induction xs) simp_all

lemma mset_SortStableFunc [simp]: "mset (SortStableFunc cmp xs) = mset xs"
  by (induction xs) (simp_all add: SortStableFunc_def)

lemma set_insert_stable [simp]: "set (insert_stable cmp x xs) = insert x (set xs)"
  by (induction xs) auto

lemma sorted_insert_stable:
  "sorted_wrt (\<lambda>x y. cmp x y \<le> 0) xs \<Longrightarrow> sorted_wrt (\<lambda>x y. cmp x y \<le> 0) (insert_stable cmp x xs)"
proof (induction xs)
  case (Cons y ys)
  show ?case
  proof (cases "cmp x y \<le> 0")
    case True
    then show ?thesis using Cons.prems le_trans by auto
  next
    case False
    then have "cmp y x \<le> 0" using flip [of x y] by simp
    then show ?thesis using False Cons by simp
  qed
qed simp

lemma sorted_SortStableFunc: "sorted_wrt (\<lambda>x y. cmp x y \<le> 0) (SortStableFunc cmp xs)"
  by (induction xs) (simp_all add: SortStableFunc_def sorted_insert_stable)

lemma stable_insert:
  "filter (\<lambda>y. cmp k y = 0) (insert_stable cmp x xs) = filter (\<lambda>y. cmp k y = 0) (x # xs)"
proof (induction xs)
  case (Cons y ys)
  show ?case
  proof (cases "cmp x y \<le> 0 \<or> cmp k x \<noteq> 0 \<or> cmp k y \<noteq> 0")
    case True
    then show ?thesis using Cons by auto
  next
    case False
    then have "cmp x y = 0" using eq_trans [of x k y] flip [of k x] by simp
    then show ?thesis using False by simp
  qed
qed simp

lemma stable_SortStableFunc: "filter (\<lambda>y. cmp k y = 0) (SortStableFunc cmp xs) = filter (\<lambda>y. cmp k y = 0) xs"
proof (induction xs)
  case (Cons x xs)
  then show ?case by (simp add: SortStableFunc_def stable_insert)
qed (simp add: SortStableFunc_def)

end

lemma comparison_by_key: "comparison (by_key f)"
  by unfold_locales (auto simp: by_key_def Compare_def split: if_splits)

lemma comparison_reverse: "comparison c \<Longrightarrow> comparison (\<lambda>a b. - c a b)"
proof -
  assume "comparison c"
  then have c: "c x y = - c y x" "c x y \<le> 0 \<Longrightarrow> c y z \<le> 0 \<Longrightarrow> c x z \<le> 0" for x y z
    by (rule comparison.flip, rule comparison.le_trans)
  show ?thesis
  proof
    show "- c x y = - (- c y x)" for x y using c(1) [of x y] by simp
    show "- c x y \<le> 0 \<Longrightarrow> - c y z \<le> 0 \<Longrightarrow> - c x z \<le> 0" for x y z
      using c(1) [of x y] c(1) [of y z] c(1) [of x z] c(2) [of z y x] by simp
  qed
qed

lemma comparison_first_nonzero:
  assumes "comparison c" and "comparison d"
  shows "comparison (\<lambda>a b. first_nonzero (c a b) (d a b))"
proof
  show "first_nonzero (c x y) (d x y) = - first_nonzero (c y x) (d y x)" for x y
    using comparison.flip [OF assms(1), of x y] comparison.flip [OF assms(2), of x y] by (simp add: first_nonzero_def)
  show "first_nonzero (c x z) (d x z) \<le> 0"
    if "first_nonzero (c x y) (d x y) \<le> 0" and "first_nonzero (c y z) (d y z) \<le> 0" for x y z
  proof (cases "c x y = 0 \<and> c y z = 0")
    case True
    then have "c x z = 0" using comparison.eq_trans [OF assms(1)] by blast
    then show ?thesis using True that comparison.le_trans [OF assms(2)] by (simp add: first_nonzero_def)
  next
    case False
    then have "c x y \<le> 0" "c y z \<le> 0" "c x y < 0 \<or> c y z < 0"
      using that by (auto simp: first_nonzero_def split: if_splits)
    then have "c x z < 0" using comparison.less_le_trans [OF assms(1)] comparison.le_less_trans [OF assms(1)] by blast
    then show ?thesis by (simp add: first_nonzero_def)
  qed
qed

definition key_compare :: "string \<Rightarrow> test_stats \<Rightarrow> test_stats \<Rightarrow> int" where
  "key_compare key = (case sortKeys key of None \<Rightarrow> by_key ts_ProcedureRef | Some c \<Rightarrow> c)"

lemma comparison_key: "comparison (key_compare key)"
  unfolding key_compare_def sortKeys_def
  by (simp add: comparison_by_key)

interpretation rows: comparison "row_order (key_compare key) desc" for key desc
proof -
  have "comparison (\<lambda>a b. first_nonzero (by_key ts_ProcedureRef a b)
     (first_nonzero (by_key ts_Repo a b) (by_key ts_EvidenceType a b)))"
    by (intro comparison_first_nonzero comparison_by_key)
  moreover have "comparison (\<lambda>a b. if desc then - key_compare key a b else key_compare key a b)"
    using comparison_key comparison_reverse [OF comparison_key] by (cases desc) simp_all
  ultimately show "comparison (row_order (key_compare key) desc)"
    unfolding row_order_def [abs_def] by (rule comparison_first_nonzero [rotated])
qed

end
