(* ===== verification/Cofailure.thy ===== *)
theory Cofailure
  imports Metrics "HOL-Library.Word"
begin

unbundle bit_operations_syntax

text \<open>
  Tests that fail together, \<^verbatim>\<open>internal/analytics/cluster.go\<close>: the incidence matrix of failing
  tests and runs as rows of 64-bit words, similarity, single-link clusters by union-find with path
  halving, and the greedy cover. Everything is shown against sets: the runs a test failed in.
  The iteration order of a Go map is a parameter of the clustering, which does not depend on it.
\<close>

section \<open>The matrix\<close>

record test_id =
  ti_Repo :: string
  ti_ProcedureRef :: string

definition test_key :: "test_id \<Rightarrow> string \<times> string" where
  "test_key t = (ti_ProcedureRef t, ti_Repo t)"

definition compareTestID :: "test_id \<Rightarrow> test_id \<Rightarrow> int" where
  "compareTestID a b = first_nonzero (by_key ti_ProcedureRef a b) (by_key ti_Repo a b)"

record occurrence =
  oc_Test :: test_id
  oc_Run :: string

record matrix =
  mx_tests :: "test_id list"
  mx_runs :: nat
  mx_words :: nat
  mx_bits :: "64 word list list"

text \<open>The elements in the order of their first occurrence, and the index of an element.\<close>

definition firsts :: "'a list \<Rightarrow> 'a list" where
  "firsts xs = rev (remdups (rev xs))"

fun index_in :: "'a \<Rightarrow> 'a list \<Rightarrow> nat" where
  "index_in x [] = 0"
| "index_in x (y # ys) = (if x = y then 0 else Suc (index_in x ys))"

definition tests_of :: "occurrence list \<Rightarrow> test_id list" where
  "tests_of occs = sort_key test_key (firsts (map oc_Test occs))"

definition runs_of :: "occurrence list \<Rightarrow> string list" where
  "runs_of occs = sort (firsts (map oc_Run occs))"

definition mark :: "test_id list \<Rightarrow> string list \<Rightarrow> occurrence \<Rightarrow> 64 word list list \<Rightarrow> 64 word list list" where
  "mark tests runs oc bts =
     (let r = index_in (oc_Run oc) runs; t = index_in (oc_Test oc) tests in
      bts[t := (bts ! t)[r div 64 := (bts ! t ! (r div 64)) OR push_bit (r mod 64) 1]])"

definition NewMatrix :: "occurrence list \<Rightarrow> matrix" where
  "NewMatrix occs =
     (let tests = tests_of occs; runs = runs_of occs; words = (length runs + 63) div 64 in
      \<lparr>mx_tests = tests, mx_runs = length runs, mx_words = words,
       mx_bits = fold (mark tests runs) occs (replicate (length tests) (replicate words 0))\<rparr>)"

definition Matrix_Tests :: "matrix \<Rightarrow> nat" where
  "Matrix_Tests m = length (mx_tests m)"

definition Matrix_Runs :: "matrix \<Rightarrow> nat" where
  "Matrix_Runs m = mx_runs m"

definition FailingRuns :: "matrix \<Rightarrow> nat" where
  "FailingRuns m = mx_runs m"

definition OnesCount64 :: "64 word \<Rightarrow> nat" where
  "OnesCount64 w = length (filter (bit w) [0..<64])"

definition Jaccard :: "matrix \<Rightarrow> nat \<Rightarrow> nat \<Rightarrow> rat" where
  "Jaccard m i j =
     (let a = (\<lambda>w. mx_bits m ! i ! w); b = (\<lambda>w. mx_bits m ! j ! w);
          intersection = sum_list (map (\<lambda>w. OnesCount64 (a w AND b w)) [0..<mx_words m]);
          union = sum_list (map (\<lambda>w. OnesCount64 (a w OR b w)) [0..<mx_words m])
      in ratio (int intersection) (int union))"

section \<open>Clusters\<close>

record cluster =
  cl_ID :: nat
  cl_Size :: nat
  cl_Members :: "test_id list"
  cl_CoversRuns :: nat
  cl_Cohesion :: rat

text \<open>The representative of an element, with path halving. The parents may form a cycle only if the
  loop below them went wrong, so that it ends is a theorem.\<close>

partial_function (option) uf_find :: "nat list \<Rightarrow> nat \<Rightarrow> (nat list \<times> nat) option" where
  "uf_find parent x =
     (if parent ! x = x then Some (parent, x)
      else let parent' = parent[x := parent ! (parent ! x)] in uf_find parent' (parent' ! x))"

declare uf_find.simps [code]

definition link :: "matrix \<Rightarrow> float64 \<Rightarrow> nat list \<Rightarrow> nat \<Rightarrow> nat \<Rightarrow> nat list option" where
  "link m threshold parent i j =
     (if at_least (Jaccard m i j) threshold
      then case uf_find parent i of
          None \<Rightarrow> None
        | Some (p1, ri) \<Rightarrow>
            (case uf_find p1 j of
               None \<Rightarrow> None
             | Some (p2, rj) \<Rightarrow> Some (if ri \<noteq> rj then p2[ri := rj] else p2))
      else Some parent)"

fun link_all :: "matrix \<Rightarrow> float64 \<Rightarrow> nat list \<Rightarrow> (nat \<times> nat) list \<Rightarrow> nat list option" where
  "link_all m threshold parent [] = Some parent"
| "link_all m threshold parent ((i, j) # ps) =
     (case link m threshold parent i j of None \<Rightarrow> None | Some p' \<Rightarrow> link_all m threshold p' ps)"

definition pairs_of :: "nat \<Rightarrow> (nat \<times> nat) list" where
  "pairs_of n = concat (map (\<lambda>i. map (\<lambda>j. (i, j)) [Suc i..<n]) [0..<n])"

fun find_all :: "nat list \<Rightarrow> nat list \<Rightarrow> (nat \<times> nat) list option" where
  "find_all parent [] = Some []"
| "find_all parent (i # is) =
     (case uf_find parent i of
        None \<Rightarrow> None
      | Some (p', rt) \<Rightarrow> map_option ((#) (i, rt)) (find_all p' is))"

definition ratioFloat :: "rat \<Rightarrow> int \<Rightarrow> rat" where
  "ratioFloat numerator denominator =
     (if denominator \<le> 0 then 0 else fl (numerator / fl (of_int denominator)))"

definition make_cluster :: "matrix \<Rightarrow> nat list \<Rightarrow> cluster" where
  "make_cluster m members =
     (let union = map (\<lambda>w. fold (\<lambda>i u. u OR mx_bits m ! i ! w) members 0) [0..<mx_words m];
          covers = sum_list (map OnesCount64 union);
          pairs = pairs_of (length members);
          similarity = fold (\<lambda>(a, b) s. fl (s + Jaccard m (members ! a) (members ! b))) pairs 0;
          ids = sort_key test_key (map ((!) (mx_tests m)) members)
      in \<lparr>cl_ID = 0, cl_Size = length ids, cl_Members = ids, cl_CoversRuns = covers,
          cl_Cohesion = ratioFloat similarity (int (length pairs))\<rparr>)"

definition cluster_key :: "cluster \<Rightarrow> int \<times> (string \<times> string)" where
  "cluster_key c = (- int (cl_CoversRuns c), test_key (hd (cl_Members c)))"

definition number_clusters :: "cluster list \<Rightarrow> cluster list" where
  "number_clusters cs = map (\<lambda>(i, c). c\<lparr>cl_ID := i + 1\<rparr>) (enumerate 0 cs)"

definition group_members :: "(nat \<times> nat) list \<Rightarrow> nat \<Rightarrow> nat list" where
  "group_members found rt = map fst (filter (\<lambda>(i, r). r = rt) found)"

definition Cluster :: "(nat list \<Rightarrow> nat list) \<Rightarrow> matrix \<Rightarrow> float64 \<Rightarrow> cluster list option" where
  "Cluster map_order m threshold =
     (let n = length (mx_tests m) in
      case link_all m threshold [0..<n] (pairs_of n) of
        None \<Rightarrow> None
      | Some parent \<Rightarrow>
          (case find_all parent [0..<n] of
             None \<Rightarrow> None
           | Some found \<Rightarrow>
               let groups = map (group_members found) (map_order (firsts (map snd found)));
                   clusters = map (make_cluster m) (filter (\<lambda>g. \<not> length g < 2) groups)
               in Some (number_clusters (sort_key cluster_key clusters))))"

section \<open>The greedy cover\<close>

record cover_step =
  cs_Test :: test_id
  cs_NewRuns :: nat
  cs_Cumulative :: nat
  cs_Coverage :: rat

definition gain :: "matrix \<Rightarrow> 64 word list \<Rightarrow> nat \<Rightarrow> nat" where
  "gain m covered i = sum_list (map (\<lambda>w. OnesCount64 ((mx_bits m ! i ! w) AND NOT (covered ! w))) [0..<mx_words m])"

definition best_gain :: "(nat \<times> nat) list \<Rightarrow> nat option \<times> nat" where
  "best_gain gs = fold (\<lambda>(i, g) (best, bestGain). if bestGain < g then (Some i, g) else (best, bestGain)) gs (None, 0)"

partial_function (option) greedy ::
  "matrix \<Rightarrow> cover_step list \<Rightarrow> 64 word list \<Rightarrow> nat list \<Rightarrow> nat \<Rightarrow> cover_step list option" where
  "greedy m steps covered active cumulative =
     (if active = [] then Some steps
      else
        let gains = filter (\<lambda>(i, g). g \<noteq> 0) (map (\<lambda>i. (i, gain m covered i)) active);
            remaining = map fst gains
        in case best_gain gains of
            (None, _) \<Rightarrow> Some steps
          | (Some best, bestGain) \<Rightarrow>
              let covered' = map (\<lambda>w. covered ! w OR mx_bits m ! best ! w) [0..<mx_words m];
                  step = \<lparr>cs_Test = mx_tests m ! best, cs_NewRuns = bestGain, cs_Cumulative = cumulative + bestGain,
                    cs_Coverage = ratio (int (cumulative + bestGain)) (int (mx_runs m))\<rparr>
              in greedy m (steps @ [step]) covered' remaining (cumulative + bestGain))"

declare greedy.simps [code]

definition GreedyCover :: "matrix \<Rightarrow> cover_step list option" where
  "GreedyCover m =
     (if mx_tests m = [] then Some []
      else greedy m [] (replicate (mx_words m) 0) [0..<length (mx_tests m)] 0)"


section \<open>Words as sets\<close>

text \<open>The set a function from word numbers to words stands for.\<close>

definition wset :: "nat \<Rightarrow> (nat \<Rightarrow> 64 word) \<Rightarrow> nat set" where
  "wset n f = {r. r < 64 * n \<and> bit (f (r div 64)) (r mod 64)}"

lemma finite_wset [simp]: "finite (wset n f)"
  by (simp add: wset_def)

lemma wset_and: "wset n (\<lambda>w. f w AND g w) = wset n f \<inter> wset n g"
  and wset_or: "wset n (\<lambda>w. f w OR g w) = wset n f \<union> wset n g"
  and wset_diff: "wset n (\<lambda>w. f w AND NOT (g w)) = wset n f - wset n g"
  and wset_0 [simp]: "wset n (\<lambda>w. 0) = {}"
  by (auto simp: wset_def bit_simps)

lemma wset_cong: "(\<And>w. w < n \<Longrightarrow> f w = g w) \<Longrightarrow> wset n f = wset n g"
  by (auto simp: wset_def less_mult_imp_div_less mult.commute)

lemma OnesCount64_card: "OnesCount64 w = card {b. b < 64 \<and> bit w b}"
proof -
  have "length (filter (bit w) [0..<64]) = card (set (filter (bit w) [0..<64]))"
    by (rule distinct_card [symmetric]) simp
  moreover have "set (filter (bit w) [0..<64]) = {b. b < 64 \<and> bit w b}" by auto
  ultimately show ?thesis by (simp only: OnesCount64_def)
qed

lemma card_wset: "card (wset n f) = sum_list (map (\<lambda>w. OnesCount64 (f w)) [0..<n])"
proof (induction n)
  case (Suc n)
  let ?new = "(+) (64 * n) ` {b. b < 64 \<and> bit (f n) b}"
  have "wset (Suc n) f = wset n f \<union> ?new"
  proof (rule set_eqI)
    fix r
    show "r \<in> wset (Suc n) f \<longleftrightarrow> r \<in> wset n f \<union> ?new"
    proof (cases "r < 64 * n")
      case True
      then show ?thesis by (auto simp: wset_def)
    next
      case False
      then obtain b where r: "r = 64 * n + b" using le_Suc_ex [of "64 * n" r] by auto
      show ?thesis
      proof (cases "b < 64")
        case True
        then show ?thesis using r by (auto simp: wset_def)
      next
        case False
        then show ?thesis using r by (auto simp: wset_def)
      qed
    qed
  qed
  moreover have "wset n f \<inter> ?new = {}" by (auto simp: wset_def)
  moreover have "card ?new = OnesCount64 (f n)" unfolding OnesCount64_card by (rule card_image) (simp add: inj_on_def)
  ultimately show ?case using Suc.IH by (simp add: card_Un_disjoint)
qed (simp add: wset_def)

lemma wset_fold_or: "wset n (\<lambda>w. fold (\<lambda>i u. u OR g i w) xs 0) = (\<Union>i \<in> set xs. wset n (g i))"
proof -
  have "wset n (\<lambda>w. fold (\<lambda>i u. u OR g i w) xs (h w)) = wset n h \<union> (\<Union>i \<in> set xs. wset n (g i))" for h
  proof (induction xs arbitrary: h)
    case (Cons x xs)
    have "wset n (\<lambda>w. fold (\<lambda>i u. u OR g i w) (x # xs) (h w)) = wset n (\<lambda>w. fold (\<lambda>i u. u OR g i w) xs (h w OR g x w))"
      by simp
    also have "\<dots> = wset n (\<lambda>w. h w OR g x w) \<union> (\<Union>i \<in> set xs. wset n (g i))" by (rule Cons.IH)
    finally show ?case by (auto simp: wset_or)
  qed simp
  from this [of "\<lambda>w. 0"] show ?thesis by simp
qed

section \<open>What the matrix holds\<close>

text \<open>The specification: the runs a test failed in, read off the occurrences.\<close>

definition failed_runs :: "occurrence list \<Rightarrow> test_id \<Rightarrow> string set" where
  "failed_runs occs t = {oc_Run oc | oc. oc \<in> set occs \<and> oc_Test oc = t}"

definition row :: "matrix \<Rightarrow> nat \<Rightarrow> nat set" where
  "row m i = wset (mx_words m) (\<lambda>w. mx_bits m ! i ! w)"

lemma finite_row [simp]: "finite (row m i)"
  by (simp add: row_def)

lemma set_firsts [simp]: "set (firsts xs) = set xs" and distinct_firsts [simp]: "distinct (firsts xs)"
  by (simp_all add: firsts_def)

lemma index_in_less: "x \<in> set xs \<Longrightarrow> index_in x xs < length xs"
  by (induction xs) auto

lemma nth_index_in [simp]: "x \<in> set xs \<Longrightarrow> xs ! index_in x xs = x"
  by (induction xs) auto

lemma index_in_nth: "distinct xs \<Longrightarrow> i < length xs \<Longrightarrow> index_in (xs ! i) xs = i"
  by (metis index_in_less nth_eq_iff_index_eq nth_index_in nth_mem)

lemma tests_of_simps [simp]: "set (tests_of occs) = oc_Test ` set occs" "distinct (tests_of occs)"
  by (simp_all add: tests_of_def)

lemma runs_of_simps [simp]: "set (runs_of occs) = oc_Run ` set occs" "distinct (runs_of occs)"
  by (simp_all add: runs_of_def)

lemma NewMatrix_simps [simp]:
  "mx_tests (NewMatrix occs) = tests_of occs" "mx_runs (NewMatrix occs) = length (runs_of occs)"
  "mx_words (NewMatrix occs) = (length (runs_of occs) + 63) div 64"
  by (simp_all add: NewMatrix_def Let_def)

lemma runs_in_words: "r < n \<Longrightarrow> r < 64 * ((n + 63) div 64)" for r n :: nat
  by presburger

text \<open>Marking occurrences sets exactly their bits.\<close>

definition shaped :: "nat \<Rightarrow> nat \<Rightarrow> 64 word list list \<Rightarrow> bool" where
  "shaped nt nw bts \<longleftrightarrow> length bts = nt \<and> (\<forall>i < nt. length (bts ! i) = nw)"

lemma mark_shaped: "shaped nt nw bts \<Longrightarrow> shaped nt nw (mark tests runs oc bts)"
  by (cases "index_in (oc_Test oc) tests < length bts")
     (auto simp: shaped_def mark_def Let_def nth_list_update list_update_beyond)

lemma mark_row:
  assumes "shaped nt nw bts" and "index_in (oc_Test oc) tests < nt" and "index_in (oc_Run oc) runs < 64 * nw" and "i < nt"
  shows "wset nw (\<lambda>w. mark tests runs oc bts ! i ! w)
    = wset nw (\<lambda>w. bts ! i ! w) \<union> (if i = index_in (oc_Test oc) tests then {index_in (oc_Run oc) runs} else {})"
proof (cases "i = index_in (oc_Test oc) tests")
  case True
  let ?r = "index_in (oc_Run oc) runs"
  have w: "?r div 64 < nw" using assms(3) by (simp add: less_mult_imp_div_less mult.commute)
  have len: "length (bts ! i) = nw" "i < length bts" using assms by (simp_all add: shaped_def)
  have "mark tests runs oc bts ! i = (bts ! i)[?r div 64 := (bts ! i ! (?r div 64)) OR push_bit (?r mod 64) 1]"
    using True len by (simp add: mark_def Let_def)
  moreover have "wset nw (\<lambda>w. (bts ! i)[?r div 64 := (bts ! i ! (?r div 64)) OR push_bit (?r mod 64) 1] ! w)
      = insert ?r (wset nw (\<lambda>w. bts ! i ! w))"
  proof (rule set_eqI)
    fix x
    have same: "x div 64 = ?r div 64 \<Longrightarrow> x mod 64 = ?r mod 64 \<longleftrightarrow> x = ?r"
      by (metis div_mult_mod_eq)
    show "x \<in> wset nw (\<lambda>w. (bts ! i)[?r div 64 := (bts ! i ! (?r div 64)) OR push_bit (?r mod 64) 1] ! w)
        \<longleftrightarrow> x \<in> insert ?r (wset nw (\<lambda>w. bts ! i ! w))"
    proof (cases "x div 64 = ?r div 64")
      case True
      have "bit (push_bit (?r mod 64) 1 :: 64 word) (x mod 64) \<longleftrightarrow> x mod 64 = ?r mod 64"
        by (auto simp: bit_simps)
      then show ?thesis using True same assms(3) w len by (auto simp: wset_def bit_or_iff)
    next
      case False
      then have "x \<noteq> ?r" by auto
      then show ?thesis using False by (simp add: wset_def)
    qed
  qed
  ultimately show ?thesis using True by simp
next
  case False
  then show ?thesis by (simp add: mark_def Let_def)
qed

lemma fold_mark:
  assumes "shaped nt nw bts" and "i < nt"
    and "\<And>oc. oc \<in> set occs \<Longrightarrow> index_in (oc_Test oc) tests < nt \<and> index_in (oc_Run oc) runs < 64 * nw"
  shows "wset nw (\<lambda>w. fold (mark tests runs) occs bts ! i ! w)
    = wset nw (\<lambda>w. bts ! i ! w) \<union> {index_in (oc_Run oc) runs | oc. oc \<in> set occs \<and> index_in (oc_Test oc) tests = i}"
  using assms
proof (induction occs arbitrary: bts)
  case (Cons oc occs)
  have "wset nw (\<lambda>w. fold (mark tests runs) occs (mark tests runs oc bts) ! i ! w)
      = wset nw (\<lambda>w. mark tests runs oc bts ! i ! w)
        \<union> {index_in (oc_Run oc) runs | oc. oc \<in> set occs \<and> index_in (oc_Test oc) tests = i}"
    using Cons.prems mark_shaped by (intro Cons.IH) auto
  moreover have "wset nw (\<lambda>w. mark tests runs oc bts ! i ! w)
      = wset nw (\<lambda>w. bts ! i ! w) \<union> (if i = index_in (oc_Test oc) tests then {index_in (oc_Run oc) runs} else {})"
    using Cons.prems by (intro mark_row) auto
  ultimately show ?case by auto
qed simp


lemma row_NewMatrix:
  assumes "i < length (tests_of occs)"
  shows "row (NewMatrix occs) i = (\<lambda>r. index_in r (runs_of occs)) ` failed_runs occs (tests_of occs ! i)"
proof -
  let ?nt = "length (tests_of occs)" and ?nw = "(length (runs_of occs) + 63) div 64"
  have range: "index_in (oc_Test oc) (tests_of occs) < ?nt \<and> index_in (oc_Run oc) (runs_of occs) < 64 * ?nw"
    if "oc \<in> set occs" for oc
    using that by (intro conjI runs_in_words index_in_less) simp_all
  have blank: "shaped ?nt ?nw (replicate ?nt (replicate ?nw 0))" by (simp add: shaped_def)
  have zero: "wset ?nw (\<lambda>w. replicate ?nt (replicate ?nw 0) ! i ! w) = {}"
    using wset_cong [of ?nw "\<lambda>w. replicate ?nt (replicate ?nw 0) ! i ! w" "\<lambda>w. 0"] assms by simp
  have idx: "index_in (oc_Test oc) (tests_of occs) = i \<longleftrightarrow> oc_Test oc = tests_of occs ! i" if "oc \<in> set occs" for oc
    using that assms index_in_nth [of "tests_of occs" i] nth_index_in [of "oc_Test oc" "tests_of occs"] by auto
  have "row (NewMatrix occs) i = wset ?nw (\<lambda>w. fold (mark (tests_of occs) (runs_of occs)) occs
      (replicate ?nt (replicate ?nw 0)) ! i ! w)"
    by (simp add: row_def) (simp add: NewMatrix_def Let_def)
  also have "\<dots> = {index_in (oc_Run oc) (runs_of occs) | oc. oc \<in> set occs \<and> index_in (oc_Test oc) (tests_of occs) = i}"
    using fold_mark [OF blank assms range] zero by simp
  finally show ?thesis using idx by (auto simp: failed_runs_def)
qed

lemma failed_runs_subset: "failed_runs occs t \<subseteq> set (runs_of occs)"
  by (auto simp: failed_runs_def)

lemma inj_on_index: "inj_on (\<lambda>r. index_in r xs) (set xs)"
  by (rule inj_onI) (metis nth_index_in)

lemmas inj_on_run = inj_on_subset [OF inj_on_index]

lemma finite_failed_runs [simp]: "finite (failed_runs occs t)"
  using failed_runs_subset finite_subset by blast

text \<open>Counting in the matrix is counting in the sets.\<close>

lemma card_image_runs: "A \<subseteq> set (runs_of occs) \<Longrightarrow> card ((\<lambda>r. index_in r (runs_of occs)) ` A) = card A"
  using card_image inj_on_run by blast

lemma image_index_Int:
  "A \<subseteq> set xs \<Longrightarrow> B \<subseteq> set xs \<Longrightarrow>
    (\<lambda>r. index_in r xs) ` A \<inter> (\<lambda>r. index_in r xs) ` B = (\<lambda>r. index_in r xs) ` (A \<inter> B)"
  using inj_on_image_Int [OF inj_on_index] by metis

lemma image_index_Diff:
  "A \<subseteq> set xs \<Longrightarrow> B \<subseteq> set xs \<Longrightarrow>
    (\<lambda>r. index_in r xs) ` A - (\<lambda>r. index_in r xs) ` B = (\<lambda>r. index_in r xs) ` (A - B)"
  using inj_on_image_set_diff [OF inj_on_index] by (metis Diff_subset dual_order.trans)

definition similarity :: "occurrence list \<Rightarrow> test_id \<Rightarrow> test_id \<Rightarrow> rat" where
  "similarity occs s t = ratio (int (card (failed_runs occs s \<inter> failed_runs occs t)))
     (int (card (failed_runs occs s \<union> failed_runs occs t)))"

lemma Jaccard_row: "Jaccard m i j = ratio (int (card (row m i \<inter> row m j))) (int (card (row m i \<union> row m j)))"
  unfolding Jaccard_def Let_def row_def wset_and [symmetric] wset_or [symmetric] card_wset ..

lemma Jaccard_similarity:
  assumes "i < length (tests_of occs)" and "j < length (tests_of occs)"
  shows "Jaccard (NewMatrix occs) i j = similarity occs (tests_of occs ! i) (tests_of occs ! j)"
  using assms failed_runs_subset
  by (simp add: Jaccard_row row_NewMatrix similarity_def image_index_Int image_Un [symmetric] card_image_runs
      le_infI1)

lemma similarity_commute: "similarity occs s t = similarity occs t s"
  by (simp add: similarity_def Int_commute Un_commute)


section \<open>Union-find\<close>

text \<open>An element leads to its root in some number of steps.\<close>

inductive leads :: "nat list \<Rightarrow> nat \<Rightarrow> nat \<Rightarrow> nat \<Rightarrow> bool" for p where
  at_root: "p ! r = r \<Longrightarrow> leads p r 0 r"
| up: "p ! x \<noteq> x \<Longrightarrow> leads p (p ! x) k r \<Longrightarrow> leads p x (Suc k) r"

inductive_cases leads_upE: "leads p x (Suc k) r"
inductive_cases leads_0E: "leads p x 0 r"
inductive_cases leadsE: "leads p x k r"

definition rep :: "nat list \<Rightarrow> nat \<Rightarrow> nat \<Rightarrow> bool" where
  "rep p x r \<longleftrightarrow> (\<exists>k. leads p x k r)"

definition forest :: "nat \<Rightarrow> nat list \<Rightarrow> bool" where
  "forest n p \<longleftrightarrow> length p = n \<and> (\<forall>x < n. p ! x < n \<and> (\<exists>r. rep p x r))"

lemma leads_root: "leads p x k r \<Longrightarrow> p ! r = r"
  by (induction rule: leads.induct) simp_all

lemma leads_unique: "leads p x k r \<Longrightarrow> leads p x k' r' \<Longrightarrow> r' = r"
proof (induction arbitrary: k' rule: leads.induct)
  case (at_root r)
  then show ?case by (auto elim: leadsE)
next
  case (up x k r)
  then show ?case by (auto elim: leadsE)
qed

lemma rep_unique: "rep p x r \<Longrightarrow> rep p x r' \<Longrightarrow> r' = r"
  unfolding rep_def using leads_unique by blast

lemma rep_root: "rep p x r \<Longrightarrow> p ! r = r"
  unfolding rep_def using leads_root by blast

lemma rep_step: "p ! x \<noteq> x \<Longrightarrow> rep p (p ! x) r \<Longrightarrow> rep p x r"
  unfolding rep_def using leads.up by blast

lemma rep_self: "p ! r = r \<Longrightarrow> rep p r r"
  unfolding rep_def using leads.at_root by blast

lemma leads_less: "leads p x k r \<Longrightarrow> forest n p \<Longrightarrow> x < n \<Longrightarrow> r < n"
  by (induction rule: leads.induct) (simp_all add: forest_def)

lemma rep_less: "forest n p \<Longrightarrow> x < n \<Longrightarrow> rep p x r \<Longrightarrow> r < n"
  unfolding rep_def using leads_less by blast

text \<open>Halving a path shortens it and changes no root.\<close>

lemma halve_leads:
  assumes "x < length p" and "p ! x \<noteq> x"
  shows "leads p y k r \<Longrightarrow> \<exists>l \<le> k. leads (p[x := p ! (p ! x)]) y l r"
proof (induction rule: leads.induct)
  case (at_root r)
  then have "p[x := p ! (p ! x)] ! r = r" using assms(2) by (cases "r = x") simp_all
  then show ?case using leads.at_root by blast
next
  case (up y k r)
  let ?q = "p[x := p ! (p ! x)]"
  obtain l where l: "l \<le> k" "leads ?q (p ! y) l r" using up.IH by blast
  show ?case
  proof (cases "y = x")
    case False
    then have "leads ?q y (Suc l) r" using l(2) up.hyps(1) by (intro leads.up) simp_all
    then show ?thesis using l(1) Suc_le_mono by blast
  next
    case True
    let ?w = "p ! x"
    have qx: "?q ! x = p ! ?w" using assms(1) by simp
    have qw: "?q ! ?w = p ! ?w" using assms(2) by simp
    show ?thesis
    proof (cases l)
      case 0
      then have "r = ?w" "?q ! ?w = ?w" using l(2) True by (auto elim: leads_0E)
      then have "leads ?q x (Suc 0) r" using qx qw assms(2) leads.at_root by (intro leads.up) auto
      then show ?thesis using True by (intro exI [of _ "Suc 0"]) simp
    next
      case (Suc l')
      then have "leads ?q (p ! ?w) l' r" using l(2) True qw by (auto elim: leads_upE)
      then have "\<exists>m \<le> Suc l'. leads ?q x m r" using qx leads.up [of ?q x l' r]
        by (cases "p ! ?w = x") (auto intro: le_SucI)
      then show ?thesis using True Suc l(1) by (meson le_SucI le_trans)
    qed
  qed
qed

lemma halve_forest:
  assumes "forest n p" and "x < n" and "p ! x \<noteq> x"
  shows "forest n (p[x := p ! (p ! x)])" and "rep p y r \<Longrightarrow> rep (p[x := p ! (p ! x)]) y r"
proof -
  have x: "x < length p" using assms by (simp add: forest_def)
  show keep: "rep p y r \<Longrightarrow> rep (p[x := p ! (p ! x)]) y r" for y r
    using halve_leads [OF x assms(3)] unfolding rep_def by blast
  have "p[x := p ! (p ! x)] ! y < n \<and> (\<exists>r. rep (p[x := p ! (p ! x)]) y r)" if "y < n" for y
    using assms(1,2) that keep unfolding forest_def by (cases "y = x") (force simp: nth_list_update)+
  then show "forest n (p[x := p ! (p ! x)])" using assms(1) by (simp add: forest_def)
qed

text \<open>Finding ends, answers the root and keeps the roots of all.\<close>

lemma find_leads:
  "leads p x k r \<Longrightarrow> forest n p \<Longrightarrow> x < n \<Longrightarrow>
     \<exists>p'. uf_find p x = Some (p', r) \<and> forest n p' \<and> (\<forall>y s. rep p y s \<longrightarrow> rep p' y s)"
proof (induction k arbitrary: p x rule: less_induct)
  case (less k)
  show ?case
  proof (cases "p ! x = x")
    case True
    then have "r = x" using less.prems(1) by (auto elim: leadsE)
    then show ?thesis using True less.prems(2) by (simp add: uf_find.simps)
  next
    case False
    let ?q = "p[x := p ! (p ! x)]"
    have x: "x < length p" using less.prems by (simp add: forest_def)
    obtain l where l: "l \<le> k" "leads ?q x l r" using halve_leads [OF x False less.prems(1)] by blast
    have qf: "forest n ?q" and keep: "\<And>y s. rep p y s \<Longrightarrow> rep ?q y s"
      using halve_forest [OF less.prems(2,3) False] by blast+
    have qx: "?q ! x = p ! (p ! x)" using x by simp
    have "\<exists>m < k. leads ?q (?q ! x) m r"
    proof (cases "?q ! x = x")
      case True
      then have "leads ?q (?q ! x) 0 r" using l(2) by (auto elim: leadsE intro: leads.intros)
      moreover have "0 < k" using less.prems(1) False by (cases k) (auto elim: leads_0E)
      ultimately show ?thesis by blast
    next
      case False
      then obtain l' where "l = Suc l'" "leads ?q (?q ! x) l' r" using l(2) by (cases rule: leadsE) blast+
      then show ?thesis using l(1) Suc_le_lessD by blast
    qed
    then obtain m where m: "m < k" "leads ?q (?q ! x) m r" by blast
    have "?q ! x < n" using qf less.prems(3) unfolding forest_def by blast
    then obtain p' where p': "uf_find ?q (?q ! x) = Some (p', r)" "forest n p'" "\<And>y s. rep ?q y s \<Longrightarrow> rep p' y s"
      using less.IH [OF m qf] by blast
    moreover have "uf_find p x = uf_find ?q (?q ! x)" using False by (subst uf_find.simps) (simp add: Let_def)
    ultimately show ?thesis using keep by auto
  qed
qed

lemma find_total:
  assumes "forest n p" and "x < n"
  shows "\<exists>p' r. uf_find p x = Some (p', r) \<and> rep p x r \<and> forest n p' \<and> (\<forall>y s. rep p y s \<longrightarrow> rep p' y s)"
proof -
  obtain k r where k: "leads p x k r" using assms unfolding forest_def rep_def by blast
  moreover have "rep p x r" using k unfolding rep_def by blast
  ultimately show ?thesis using find_leads [OF _ assms] by blast
qed

text \<open>Joining two roots joins their trees and nothing else.\<close>

lemma join_rep:
  assumes "ri < length p" and "p ! ri = ri" and "p ! rj = rj" and "ri \<noteq> rj"
  shows "leads p y k s \<Longrightarrow> rep (p[ri := rj]) y (if s = ri then rj else s)"
proof (induction rule: leads.induct)
  case (at_root r)
  then show ?case
  proof (cases "r = ri")
    case True
    then show ?thesis using assms by (simp add: rep_step rep_self)
  next
    case False
    then show ?thesis using at_root by (simp add: rep_self)
  qed
next
  case (up y k r)
  then have "y \<noteq> ri" using assms(2) by auto
  then show ?case using up rep_step [of "p[ri := rj]" y] by simp
qed

lemma join_forest:
  assumes "forest n p" and "ri < n" and "rj < n" and "p ! ri = ri" and "p ! rj = rj" and "ri \<noteq> rj"
  shows "forest n (p[ri := rj])" and "rep p y s \<Longrightarrow> rep (p[ri := rj]) y (if s = ri then rj else s)"
proof -
  have ri: "ri < length p" using assms by (simp add: forest_def)
  show join: "rep p y s \<Longrightarrow> rep (p[ri := rj]) y (if s = ri then rj else s)" for y s
    using join_rep [OF ri assms(4,5,6)] unfolding rep_def by blast
  have "p[ri := rj] ! y < n \<and> (\<exists>r. rep (p[ri := rj]) y r)" if "y < n" for y
    using assms(1,3) that join unfolding forest_def by (cases "y = ri") (force simp: nth_list_update)+
  then show "forest n (p[ri := rj])" using assms(1) by (simp add: forest_def)
qed


section \<open>Clusters are connected components\<close>

definition joined :: "('a \<times> 'a) set \<Rightarrow> ('a \<times> 'a) set" where
  "joined E = (E \<union> E\<inverse>)\<^sup>*"

lemma joined_refl [simp]: "(x, x) \<in> joined E"
  by (simp add: joined_def)

lemma joined_empty [simp]: "(x, y) \<in> joined {} \<longleftrightarrow> x = y"
  by (simp add: joined_def)

lemma joined_trans: "(x, y) \<in> joined E \<Longrightarrow> (y, z) \<in> joined E \<Longrightarrow> (x, z) \<in> joined E"
  unfolding joined_def by (rule rtrancl_trans)

lemma joined_sym: "(x, y) \<in> joined E \<Longrightarrow> (y, x) \<in> joined E"
proof -
  have "sym (E \<union> E\<inverse>)" by (rule sym_Un_converse)
  then show "(x, y) \<in> joined E \<Longrightarrow> (y, x) \<in> joined E"
    unfolding joined_def using sym_rtrancl symD by metis
qed

lemma joined_mono: "E \<subseteq> F \<Longrightarrow> (x, y) \<in> joined E \<Longrightarrow> (x, y) \<in> joined F"
  unfolding joined_def using rtrancl_mono [of "E \<union> E\<inverse>" "F \<union> F\<inverse>"] by blast

lemma joined_edge: "(x, y) \<in> E \<Longrightarrow> (x, y) \<in> joined E"
  by (auto simp: joined_def)

lemma joined_insert:
  "(x, y) \<in> joined (insert (i, j) E) \<longleftrightarrow>
     (x, y) \<in> joined E \<or> (x, i) \<in> joined E \<and> (j, y) \<in> joined E \<or> (x, j) \<in> joined E \<and> (i, y) \<in> joined E"
  (is "_ \<longleftrightarrow> ?R x y")
proof
  assume "(x, y) \<in> joined (insert (i, j) E)"
  then have "(x, y) \<in> (insert (i, j) E \<union> (insert (i, j) E)\<inverse>)\<^sup>*" by (simp add: joined_def)
  then show "?R x y"
  proof (induction rule: rtrancl_induct)
    case (step y z)
    consider "(y, z) \<in> joined E" | "y = i" "z = j" | "y = j" "z = i"
      using step.hyps(2) joined_edge joined_sym by fastforce
    then show ?case
    proof cases
      case 1
      then show ?thesis using step.IH joined_trans [OF _ 1] by blast
    next
      case 2
      have "(x, i) \<in> joined E \<or> (x, j) \<in> joined E" using step.IH 2(1) by auto
      then show ?thesis using 2(2) by auto
    next
      case 3
      have "(x, i) \<in> joined E \<or> (x, j) \<in> joined E" using step.IH 3(1) by auto
      then show ?thesis using 3(2) by auto
    qed
  qed simp
next
  have "(i, j) \<in> joined (insert (i, j) E)" by (rule joined_edge) simp
  moreover have up: "(a, b) \<in> joined E \<Longrightarrow> (a, b) \<in> joined (insert (i, j) E)" for a b
    by (rule joined_mono [rotated]) auto
  moreover assume "?R x y"
  ultimately show "(x, y) \<in> joined (insert (i, j) E)"
    using joined_trans joined_sym by metis
qed

text \<open>The parents describe the components of the pairs linked so far.\<close>

definition describes :: "nat \<Rightarrow> nat list \<Rightarrow> (nat \<times> nat) set \<Rightarrow> bool" where
  "describes n p E \<longleftrightarrow> forest n p \<and> (\<forall>x < n. \<forall>y < n. (\<exists>r. rep p x r \<and> rep p y r) \<longleftrightarrow> (x, y) \<in> joined E)"

lemma describes_rep:
  assumes "describes n p E" and "x < n" and "y < n" and "rep p x r" and "rep p y s"
  shows "r = s \<longleftrightarrow> (x, y) \<in> joined E"
proof -
  have "(\<exists>q. rep p x q \<and> rep p y q) \<longleftrightarrow> (x, y) \<in> joined E" using assms(1-3) unfolding describes_def by blast
  then show ?thesis using assms(4,5) rep_unique by metis
qed

lemma describesI:
  assumes "forest n p"
    and "\<And>x y r s. x < n \<Longrightarrow> y < n \<Longrightarrow> rep p x r \<Longrightarrow> rep p y s \<Longrightarrow> r = s \<longleftrightarrow> (x, y) \<in> joined E"
  shows "describes n p E"
  unfolding describes_def
proof (intro conjI allI impI)
  fix x y
  assume "x < n" "y < n"
  then obtain r s where rs: "rep p x r" "rep p y s" using assms(1) unfolding forest_def by blast
  have "(\<exists>q. rep p x q \<and> rep p y q) \<longleftrightarrow> r = s" using rs rep_unique by metis
  then show "(\<exists>r. rep p x r \<and> rep p y r) \<longleftrightarrow> (x, y) \<in> joined E"
    using assms(2) [OF \<open>x < n\<close> \<open>y < n\<close> rs] by simp
qed (rule assms(1))

lemma describes_forest: "describes n p E \<Longrightarrow> forest n p"
  by (simp add: describes_def)

lemma forest_rep: "forest n p \<Longrightarrow> x < n \<Longrightarrow> \<exists>r. rep p x r"
  by (simp add: forest_def)

lemma describes_keep:
  assumes "describes n p E" and "forest n p'" and "\<And>y s. rep p y s \<Longrightarrow> rep p' y s"
  shows "describes n p' E"
proof (rule describesI [OF assms(2)])
  fix x y r s
  assume xy: "x < n" "y < n" and r: "rep p' x r" "rep p' y s"
  note f = forest_rep [OF describes_forest [OF assms(1)]]
  obtain r' where r': "rep p x r'" using f [OF xy(1)] by blast
  obtain s' where s': "rep p y s'" using f [OF xy(2)] by blast
  have "r' = r" by (rule rep_unique [OF r(1) assms(3) [OF r']])
  moreover have "s' = s" by (rule rep_unique [OF r(2) assms(3) [OF s']])
  ultimately show "r = s \<longleftrightarrow> (x, y) \<in> joined E" using describes_rep [OF assms(1) xy r' s'] by simp
qed

lemma describes_init: "describes n [0..<n] {}"
proof (rule describesI)
  have self: "rep [0..<n] x x" if "x < n" for x using that by (intro rep_self) simp
  show "forest n [0..<n]" using self by (auto simp: forest_def)
  show "r = s \<longleftrightarrow> (x, y) \<in> joined {}" if "x < n" "y < n" "rep [0..<n] x r" "rep [0..<n] y s" for x y r s
  proof -
    have "r = x" by (rule rep_unique [OF self [OF that(1)] that(3)])
    moreover have "s = y" by (rule rep_unique [OF self [OF that(2)] that(4)])
    ultimately show ?thesis by simp
  qed
qed

lemma describes_join:
  assumes d: "describes n p E" and "i < n" and "j < n" and ri: "rep p i ri" and rj: "rep p j rj"
  shows "describes n (if ri \<noteq> rj then p[ri := rj] else p) (insert (i, j) E)"
proof (cases "ri = rj")
  case True
  then have "(i, j) \<in> joined E" using describes_rep [OF d assms(2,3) ri rj] by simp
  then have "(x, y) \<in> joined (insert (i, j) E) \<longleftrightarrow> (x, y) \<in> joined E" for x y
    unfolding joined_insert using joined_trans joined_sym by metis
  then show ?thesis using d True unfolding describes_def by simp
next
  case False
  have f: "forest n p" using d unfolding describes_def by simp
  have less: "ri < n" "rj < n" using rep_less [OF f] assms by blast+
  note join = join_forest [OF f less rep_root [OF ri] rep_root [OF rj] False]
  have "describes n (p[ri := rj]) (insert (i, j) E)"
  proof (rule describesI [OF join(1)])
    fix x y r s
    assume xy: "x < n" "y < n" and r: "rep (p[ri := rj]) x r" "rep (p[ri := rj]) y s"
    obtain r' s' where old: "rep p x r'" "rep p y s'" using xy f unfolding forest_def by blast
    have new: "r = (if r' = ri then rj else r')" "s = (if s' = ri then rj else s')"
      using join(2) [OF old(1)] join(2) [OF old(2)] r rep_unique by metis+
    have "r' = s' \<longleftrightarrow> (x, y) \<in> joined E" "r' = ri \<longleftrightarrow> (x, i) \<in> joined E" "r' = rj \<longleftrightarrow> (x, j) \<in> joined E"
      "rj = s' \<longleftrightarrow> (j, y) \<in> joined E" "ri = s' \<longleftrightarrow> (i, y) \<in> joined E"
      using describes_rep [OF d] xy old assms by blast+
    then show "r = s \<longleftrightarrow> (x, y) \<in> joined (insert (i, j) E)"
      unfolding joined_insert new using False by auto
  qed
  then show ?thesis using False by simp
qed

lemma link_describes:
  assumes "describes n p E" and "i < n" and "j < n"
  shows "\<exists>p'. link m th p i j = Some p' \<and> describes n p' (if at_least (Jaccard m i j) th then insert (i, j) E else E)"
proof (cases "at_least (Jaccard m i j) th")
  case True
  have f: "forest n p" using assms(1) unfolding describes_def by simp
  obtain p1 ri where p1: "uf_find p i = Some (p1, ri)" "rep p i ri" "forest n p1" "\<And>y s. rep p y s \<Longrightarrow> rep p1 y s"
    using find_total [OF f assms(2)] by blast
  obtain p2 rj where p2: "uf_find p1 j = Some (p2, rj)" "rep p1 j rj" "forest n p2" "\<And>y s. rep p1 y s \<Longrightarrow> rep p2 y s"
    using find_total [OF p1(3) assms(3)] by blast
  have d2: "describes n p2 E" using describes_keep [OF describes_keep [OF assms(1) p1(3,4)] p2(3,4)] .
  have "describes n (if ri \<noteq> rj then p2[ri := rj] else p2) (insert (i, j) E)"
    using p1(2,4) p2(2,4) by (intro describes_join [OF d2 assms(2,3)]) blast+
  then show ?thesis using True p1(1) p2(1) by (simp add: link_def)
qed (use assms in \<open>simp add: link_def\<close>)

lemma link_all_describes:
  assumes "describes n p E" and "\<And>i j. (i, j) \<in> set ps \<Longrightarrow> i < n \<and> j < n"
  shows "\<exists>p'. link_all m th p ps = Some p' \<and> describes n p' (E \<union> {(i, j) \<in> set ps. at_least (Jaccard m i j) th})"
  using assms
proof (induction ps arbitrary: p E)
  case (Cons ij ps)
  obtain i j where ij: "ij = (i, j)" by fastforce
  let ?E = "if at_least (Jaccard m i j) th then insert (i, j) E else E"
  obtain p1 where p1: "link m th p i j = Some p1" "describes n p1 ?E"
    using link_describes [OF Cons.prems(1), of i j m th] Cons.prems(2) [of i j] ij by auto
  obtain p2 where p2: "link_all m th p1 ps = Some p2" "describes n p2 (?E \<union> {(i, j) \<in> set ps. at_least (Jaccard m i j) th})"
    using Cons.IH [OF p1(2)] Cons.prems(2) by auto
  have "?E \<union> {(i, j) \<in> set ps. at_least (Jaccard m i j) th} = E \<union> {(i, j) \<in> set (ij # ps). at_least (Jaccard m i j) th}"
    using ij by auto
  then show ?case using p1(1) p2 ij by simp
qed simp

lemma find_all_describes:
  assumes "describes n p E" and "\<And>i. i \<in> set is \<Longrightarrow> i < n"
  shows "\<exists>found. find_all p is = Some found \<and> map fst found = is \<and> (\<forall>(i, r) \<in> set found. rep p i r)"
  using assms
proof (induction "is" arbitrary: p)
  case (Cons i "is")
  have f: "forest n p" using Cons.prems(1) unfolding describes_def by simp
  obtain p1 r where p1: "uf_find p i = Some (p1, r)" "rep p i r" "forest n p1" "\<And>y s. rep p y s \<Longrightarrow> rep p1 y s"
    using find_total [OF f, of i] Cons.prems(2) [of i] by auto
  obtain found where found: "find_all p1 is = Some found" "map fst found = is" "\<forall>(i, r) \<in> set found. rep p1 i r"
    using Cons.IH [OF describes_keep [OF Cons.prems(1) p1(3,4)]] Cons.prems(2) by auto
  have "rep p k s" if "(k, s) \<in> set found" for k s
  proof -
    have "k \<in> set (map fst found)" using that by force
    then have "k < n" using found(2) Cons.prems(2) by simp
    then obtain s' where "rep p k s'" using f unfolding forest_def by blast
    moreover have "rep p1 k s" using that found(3) by blast
    ultimately show ?thesis using p1(4) rep_unique by metis
  qed
  then show ?case using p1(1,2) found(1,2) by auto
qed simp


lemma set_pairs_of: "set (pairs_of n) = {(i, j). i < j \<and> j < n}"
proof (rule set_eqI)
  fix ij
  show "ij \<in> set (pairs_of n) \<longleftrightarrow> ij \<in> {(i, j). i < j \<and> j < n}" by (cases ij) (auto simp: pairs_of_def image_iff)
qed

lemma joined_map:
  assumes "\<And>a b. (a, b) \<in> E \<Longrightarrow> (f a, f b) \<in> joined F" and "(x, y) \<in> joined E"
  shows "(f x, f y) \<in> joined F"
proof -
  have "(x, y) \<in> (E \<union> E\<inverse>)\<^sup>*" using assms(2) by (simp add: joined_def)
  then show ?thesis
  proof (induction rule: rtrancl_induct)
    case (step y z)
    consider "(y, z) \<in> E" | "(z, y) \<in> E" using step.hyps(2) by blast
    then have "(f y, f z) \<in> joined F" by cases (rule assms(1) joined_sym [OF assms(1)], assumption)+
    with step.IH show ?case by (rule joined_trans)
  qed simp
qed

text \<open>The specification of the clusters: tests that are similar, and the components they form.\<close>

definition similar_tests :: "occurrence list \<Rightarrow> float64 \<Rightarrow> (test_id \<times> test_id) set" where
  "similar_tests occs th = {(s, t). s \<in> oc_Test ` set occs \<and> t \<in> oc_Test ` set occs \<and> at_least (similarity occs s t) th}"

definition linked_pairs :: "occurrence list \<Rightarrow> float64 \<Rightarrow> (nat \<times> nat) set" where
  "linked_pairs occs th =
     {(i, j). i < j \<and> j < length (tests_of occs) \<and> at_least (Jaccard (NewMatrix occs) i j) th}"

lemma linked_pairs_similar:
  assumes "i < length (tests_of occs)" and "j < length (tests_of occs)"
  shows "(i, j) \<in> joined (linked_pairs occs th)
    \<longleftrightarrow> (tests_of occs ! i, tests_of occs ! j) \<in> joined (similar_tests occs th)"
proof
  let ?T = "tests_of occs"
  have mem: "k < length ?T \<Longrightarrow> ?T ! k \<in> oc_Test ` set occs" for k using nth_mem [of k ?T] by simp
  show "(?T ! i, ?T ! j) \<in> joined (similar_tests occs th)" if "(i, j) \<in> joined (linked_pairs occs th)"
  proof (rule joined_map [where f = "(!) ?T", OF _ that])
    fix a b
    assume "(a, b) \<in> linked_pairs occs th"
    then have "(?T ! a, ?T ! b) \<in> similar_tests occs th"
      using mem by (auto simp: linked_pairs_def similar_tests_def Jaccard_similarity)
    then show "(?T ! a, ?T ! b) \<in> joined (similar_tests occs th)" by (rule joined_edge)
  qed
  assume "(?T ! i, ?T ! j) \<in> joined (similar_tests occs th)"
  then have "(index_in (?T ! i) ?T, index_in (?T ! j) ?T) \<in> joined (linked_pairs occs th)"
  proof (rule joined_map [where f = "\<lambda>t. index_in t ?T", rotated])
    fix s t
    assume st: "(s, t) \<in> similar_tests occs th"
    let ?a = "index_in s ?T" and ?b = "index_in t ?T"
    have ab: "?a < length ?T" "?b < length ?T" "?T ! ?a = s" "?T ! ?b = t"
      using st by (auto simp: similar_tests_def intro!: index_in_less)
    have near: "at_least (similarity occs s t) th" using st by (simp add: similar_tests_def)
    consider "?a = ?b" | "?a < ?b" | "?b < ?a" by linarith
    then show "(?a, ?b) \<in> joined (linked_pairs occs th)"
    proof cases
      case 2
      then show ?thesis using ab near by (intro joined_edge) (simp add: linked_pairs_def Jaccard_similarity)
    next
      case 3
      then show ?thesis using ab near similarity_commute [of occs s t]
        by (intro joined_sym [OF joined_edge]) (simp add: linked_pairs_def Jaccard_similarity)
    qed simp
  qed
  then show "(i, j) \<in> joined (linked_pairs occs th)" using assms by (simp add: index_in_nth)
qed

text \<open>The groups before they become clusters: the classes of a function that is constant exactly on
  the connected components.\<close>

definition classes :: "nat \<Rightarrow> (nat \<Rightarrow> nat) \<Rightarrow> nat list \<Rightarrow> nat list list" where
  "classes n \<rho> roots = filter (\<lambda>g. \<not> length g < 2) (map (\<lambda>rt. filter (\<lambda>i. \<rho> i = rt) [0..<n]) roots)"

lemma Cluster_classes:
  "\<exists>\<rho>. (\<forall>i < length (tests_of occs). \<forall>j < length (tests_of occs). \<rho> i = \<rho> j \<longleftrightarrow> (i, j) \<in> joined (linked_pairs occs th))
     \<and> (\<forall>map_order. Cluster map_order (NewMatrix occs) th = Some (number_clusters (sort_key cluster_key
         (map (make_cluster (NewMatrix occs))
           (classes (length (tests_of occs)) \<rho> (map_order (firsts (map \<rho> [0..<length (tests_of occs)]))))))))"
proof -
  let ?n = "length (tests_of occs)" and ?m = "NewMatrix occs"
  obtain p where p: "link_all ?m th [0..<?n] (pairs_of ?n) = Some p"
      "describes ?n p ({} \<union> {(i, j) \<in> set (pairs_of ?n). at_least (Jaccard ?m i j) th})"
    using link_all_describes [OF describes_init, of "pairs_of ?n" ?n ?m th] by (auto simp: set_pairs_of)
  have "{} \<union> {(i, j) \<in> set (pairs_of ?n). at_least (Jaccard ?m i j) th} = linked_pairs occs th"
    by (auto simp: set_pairs_of linked_pairs_def)
  then have d: "describes ?n p (linked_pairs occs th)" using p(2) by simp
  obtain found where found: "find_all p [0..<?n] = Some found" "map fst found = [0..<?n]"
      "\<forall>(i, r) \<in> set found. rep p i r"
    using find_all_describes [OF d, of "[0..<?n]"] by auto
  define \<rho> where "\<rho> = (\<lambda>i. snd (found ! i))"
  have len: "length found = ?n" using found(2) by (metis length_map length_upt minus_nat.diff_0)
  have nth: "found ! i = (i, \<rho> i)" if "i < ?n" for i
    using that found(2) len nth_map [of i found fst] by (simp add: \<rho>_def prod_eq_iff)
  have eq: "found = map (\<lambda>i. (i, \<rho> i)) [0..<?n]" by (rule nth_equalityI) (simp_all add: len nth)
  have rep: "rep p i (\<rho> i)" if "i < ?n" for i using that found(3) unfolding eq by auto
  have "group_members found rt = filter (\<lambda>i. \<rho> i = rt) [0..<?n]" for rt
    by (simp add: eq group_members_def filter_map o_def map_idI)
  then have "group_members found = (\<lambda>rt. filter (\<lambda>i. \<rho> i = rt) [0..<?n])" by blast
  moreover have "map snd found = map \<rho> [0..<?n]" by (simp add: eq o_def)
  ultimately have "Cluster map_order ?m th = Some (number_clusters (sort_key cluster_key
         (map (make_cluster ?m) (classes ?n \<rho> (map_order (firsts (map \<rho> [0..<?n])))))))" for map_order
    using p(1) found(1) by (simp add: Cluster_def classes_def Let_def)
  moreover have "\<rho> i = \<rho> j \<longleftrightarrow> (i, j) \<in> joined (linked_pairs occs th)" if "i < ?n" "j < ?n" for i j
    using describes_rep [OF d that rep [OF that(1)] rep [OF that(2)]] .
  ultimately show ?thesis by blast
qed


text \<open>Sorting by \<^verbatim>\<open>compareTestID\<close> is sorting by the pair it compares.\<close>

lemma compareTestID_key: "compareTestID s t \<le> 0 \<longleftrightarrow> test_key s \<le> test_key t"
  by (auto simp: compareTestID_def test_key_def first_nonzero_def by_key_def Compare_def less_eq_prod_def)

lemma test_key_inj: "test_key s = test_key t \<longleftrightarrow> s = t"
  by (cases s; cases t) (auto simp: test_key_def)

lemma sort_key_unique:
  assumes "mset xs = mset ys" and "inj_on f (set xs)"
  shows "sort_key f xs = sort_key f ys"
proof -
  have "mset (map f (sort_key f xs)) = mset (map f (sort_key f ys))" using assms(1) by simp
  moreover have "sorted (map f (sort_key f xs))" "sorted (map f (sort_key f ys))" by simp_all
  ultimately have "map f (sort_key f xs) = map f (sort_key f ys)" by (metis properties_for_sort)
  moreover have "set ys = set xs" using assms(1) mset_eq_setD by blast
  ultimately show ?thesis using assms(2) by (simp add: inj_on_map_eq_map)
qed

lemma make_cluster_simps:
  "cl_Members (make_cluster m g) = sort_key test_key (map ((!) (mx_tests m)) g)"
  "cl_Size (make_cluster m g) = length g" "cl_CoversRuns (make_cluster m g) = card (\<Union>i \<in> set g. row m i)"
proof -
  have "cl_CoversRuns (make_cluster m g) = card (wset (mx_words m) (\<lambda>w. fold (\<lambda>i u. u OR mx_bits m ! i ! w) g 0))"
    by (simp add: make_cluster_def Let_def card_wset o_def)
  then show "cl_CoversRuns (make_cluster m g) = card (\<Union>i \<in> set g. row m i)"
    by (simp only: wset_fold_or [of _ "\<lambda>i w. mx_bits m ! i ! w"] row_def)
qed (simp_all add: make_cluster_def Let_def)

lemma number_clusters_simps:
  "map cl_ID (number_clusters cs) = [1..<Suc (length cs)]" "map cl_Members (number_clusters cs) = map cl_Members cs"
  "map cl_CoversRuns (number_clusters cs) = map cl_CoversRuns cs" "map cl_Size (number_clusters cs) = map cl_Size cs"
  "map cluster_key (number_clusters cs) = map cluster_key cs" "length (number_clusters cs) = length cs"
  by (auto simp: number_clusters_def cluster_key_def nth_enumerate_eq intro!: nth_equalityI simp del: upt_Suc)


lemma in_classes: "g \<in> set (classes n \<rho> roots) \<longleftrightarrow> (\<exists>rt \<in> set roots. g = filter (\<lambda>i. \<rho> i = rt) [0..<n]) \<and> \<not> length g < 2"
  by (auto simp: classes_def)

lemma mset_classes: "mset roots = mset roots' \<Longrightarrow> mset (classes n \<rho> roots) = mset (classes n \<rho> roots')"
  by (simp add: classes_def)

lemma two_members: "x \<in> set g \<Longrightarrow> y \<in> set g \<Longrightarrow> x \<noteq> y \<Longrightarrow> \<not> length g < 2"
  by (cases g; cases "tl g") auto

lemma members_of_class:
  assumes "g \<in> set (classes (length (tests_of occs)) \<rho> roots)"
  shows "set (cl_Members (make_cluster (NewMatrix occs) g)) = (!) (tests_of occs) ` set g"
    and "distinct (cl_Members (make_cluster (NewMatrix occs) g))"
    and "cl_CoversRuns (make_cluster (NewMatrix occs) g)
      = card (\<Union>t \<in> set (cl_Members (make_cluster (NewMatrix occs) g)). failed_runs occs t)"
proof -
  have g: "distinct g" "set g \<subseteq> {..<length (tests_of occs)}" using assms by (auto simp: in_classes)
  show mem: "set (cl_Members (make_cluster (NewMatrix occs) g)) = (!) (tests_of occs) ` set g"
    by (simp add: make_cluster_simps)
  have "inj_on ((!) (tests_of occs)) (set g)" by (rule inj_on_subset [OF inj_on_nth [of _ "{..<length (tests_of occs)}"]]) (use g(2) in auto)
  then show "distinct (cl_Members (make_cluster (NewMatrix occs) g))" using g(1) by (simp add: make_cluster_simps distinct_map)
  have "(\<Union>i \<in> set g. row (NewMatrix occs) i)
      = (\<lambda>r. index_in r (runs_of occs)) ` (\<Union>i \<in> set g. failed_runs occs (tests_of occs ! i))"
    unfolding image_UN using g(2) row_NewMatrix [of _ occs] by (intro SUP_cong refl) blast
  moreover have "(\<Union>i \<in> set g. failed_runs occs (tests_of occs ! i)) \<subseteq> set (runs_of occs)"
    using failed_runs_subset by blast
  ultimately show "cl_CoversRuns (make_cluster (NewMatrix occs) g)
      = card (\<Union>t \<in> set (cl_Members (make_cluster (NewMatrix occs) g)). failed_runs occs t)"
    unfolding make_cluster_simps(3) mem by (simp add: card_image_runs)
qed

text \<open>Two classes that share a member are one.\<close>

lemma same_class:
  assumes "g \<in> set (classes (length (tests_of occs)) \<rho> roots)" and "g' \<in> set (classes (length (tests_of occs)) \<rho> roots')"
    and "t \<in> set (cl_Members (make_cluster (NewMatrix occs) g))" and "t \<in> set (cl_Members (make_cluster (NewMatrix occs) g'))"
  shows "g = g'"
proof -
  obtain rt rt' where rt: "g = filter (\<lambda>i. \<rho> i = rt) [0..<length (tests_of occs)]"
      "g' = filter (\<lambda>i. \<rho> i = rt') [0..<length (tests_of occs)]"
    using assms(1,2) unfolding in_classes by blast
  obtain i j where ij: "i \<in> set g" "j \<in> set g'" "tests_of occs ! i = t" "tests_of occs ! j = t"
    using assms(3,4) unfolding members_of_class(1) [OF assms(1)] members_of_class(1) [OF assms(2)] by (elim imageE) simp
  then have "i < length (tests_of occs)" "j < length (tests_of occs)" using rt by simp_all
  then have "i = j" using ij(3,4) nth_eq_iff_index_eq [OF tests_of_simps(2)] by metis
  then show ?thesis using ij(1,2) rt by auto
qed

lemma cluster_key_inj:
  "inj_on cluster_key (make_cluster (NewMatrix occs) ` set (classes (length (tests_of occs)) \<rho> roots))"
proof (rule inj_onI, clarify)
  fix g g'
  assume g: "g \<in> set (classes (length (tests_of occs)) \<rho> roots)" "g' \<in> set (classes (length (tests_of occs)) \<rho> roots)"
    and key: "cluster_key (make_cluster (NewMatrix occs) g) = cluster_key (make_cluster (NewMatrix occs) g')"
  let ?M = "\<lambda>g. cl_Members (make_cluster (NewMatrix occs) g)"
  have ne: "?M h \<noteq> []" if "h \<in> set (classes (length (tests_of occs)) \<rho> roots)" for h
  proof -
    have "length (?M h) = length h" by (simp add: make_cluster_simps)
    then show ?thesis using that by (auto simp: in_classes)
  qed
  have "hd (?M g) = hd (?M g')" using key by (simp add: cluster_key_def test_key_inj)
  then have "hd (?M g) \<in> set (?M g)" "hd (?M g) \<in> set (?M g')" using ne [OF g(1)] ne [OF g(2)] by (metis hd_in_set)+
  then have "g = g'" by (rule same_class [OF g])
  then show "make_cluster (NewMatrix occs) g = make_cluster (NewMatrix occs) g'" by simp
qed


text \<open>A numbered cluster is a class with a number.\<close>

lemma numbered:
  assumes "c \<in> set (number_clusters cs)"
  shows "\<exists>c' \<in> set cs. cl_Members c = cl_Members c' \<and> cl_Size c = cl_Size c' \<and> cl_CoversRuns c = cl_CoversRuns c'"
proof -
  obtain i where i: "i < length cs" "c = number_clusters cs ! i"
    using assms by (metis in_set_conv_nth number_clusters_simps(6))
  then have "c = (cs ! i)\<lparr>cl_ID := i + 1\<rparr>" by (simp add: number_clusters_def nth_enumerate_eq)
  then show ?thesis using i(1) by (intro bexI [of _ "cs ! i"]) simp_all
qed

definition sorted_clusters :: "occurrence list \<Rightarrow> (nat \<Rightarrow> nat) \<Rightarrow> cluster list" where
  "sorted_clusters occs \<rho> = (let n = length (tests_of occs) in
     number_clusters (sort_key cluster_key (map (make_cluster (NewMatrix occs)) (classes n \<rho> (firsts (map \<rho> [0..<n]))))))"

lemma sorted_clusters_class:
  assumes "c \<in> set (sorted_clusters occs \<rho>)"
  shows "\<exists>g \<in> set (classes (length (tests_of occs)) \<rho> (firsts (map \<rho> [0..<length (tests_of occs)]))).
    cl_Members c = cl_Members (make_cluster (NewMatrix occs) g) \<and> cl_Size c = cl_Size (make_cluster (NewMatrix occs) g)
    \<and> cl_CoversRuns c = cl_CoversRuns (make_cluster (NewMatrix occs) g)"
  (is "\<exists>g \<in> set ?G. ?same g")
proof -
  obtain c' where c': "c' \<in> set (sort_key cluster_key (map (make_cluster (NewMatrix occs)) ?G))"
      "cl_Members c = cl_Members c'" "cl_Size c = cl_Size c'" "cl_CoversRuns c = cl_CoversRuns c'"
    using numbered [OF assms [unfolded sorted_clusters_def Let_def]] by blast
  then obtain g where "g \<in> set ?G" "c' = make_cluster (NewMatrix occs) g" by auto
  then show ?thesis using c' by blast
qed

lemma class_in_sorted_clusters:
  assumes "g \<in> set (classes (length (tests_of occs)) \<rho> (firsts (map \<rho> [0..<length (tests_of occs)])))"
  shows "\<exists>c \<in> set (sorted_clusters occs \<rho>). cl_Members c = cl_Members (make_cluster (NewMatrix occs) g)"
proof -
  let ?s = "sort_key cluster_key (map (make_cluster (NewMatrix occs))
    (classes (length (tests_of occs)) \<rho> (firsts (map \<rho> [0..<length (tests_of occs)]))))"
  have "cl_Members (make_cluster (NewMatrix occs) g) \<in> cl_Members ` set ?s" using assms by simp
  also have "\<dots> = cl_Members ` set (number_clusters ?s)"
    using number_clusters_simps(2) [of ?s] by (metis list.set_map)
  finally show ?thesis unfolding sorted_clusters_def Let_def by (metis (no_types, lifting) imageE)
qed

lemma cluster_shape:
  assumes "c \<in> set (sorted_clusters occs \<rho>)"
  shows "2 \<le> cl_Size c \<and> cl_Size c = length (cl_Members c) \<and> distinct (cl_Members c)
    \<and> set (cl_Members c) \<subseteq> oc_Test ` set occs \<and> cl_CoversRuns c = card (\<Union>t \<in> set (cl_Members c). failed_runs occs t)"
proof -
  obtain g where g: "g \<in> set (classes (length (tests_of occs)) \<rho> (firsts (map \<rho> [0..<length (tests_of occs)])))"
    and c: "cl_Members c = cl_Members (make_cluster (NewMatrix occs) g)" "cl_Size c = cl_Size (make_cluster (NewMatrix occs) g)"
      "cl_CoversRuns c = cl_CoversRuns (make_cluster (NewMatrix occs) g)"
    using sorted_clusters_class [OF assms] by blast
  have "2 \<le> length g" "set g \<subseteq> {..<length (tests_of occs)}" using g by (auto simp: in_classes)
  moreover from this have "(!) (tests_of occs) ` set g \<subseteq> oc_Test ` set occs"
    using nth_mem [of _ "tests_of occs"] by (metis (no_types, lifting) image_subset_iff lessThan_iff subset_iff tests_of_simps(1))
  ultimately show ?thesis
    unfolding c members_of_class(3) [OF g] using members_of_class(1,2) [OF g] by (simp add: make_cluster_simps(1,2))
qed

lemma clusters_disjoint:
  assumes "c \<in> set (sorted_clusters occs \<rho>)" and "c' \<in> set (sorted_clusters occs \<rho>)"
    and "set (cl_Members c) \<inter> set (cl_Members c') \<noteq> {}"
  shows "cl_Members c = cl_Members c'"
proof -
  obtain g where g: "g \<in> set (classes (length (tests_of occs)) \<rho> (firsts (map \<rho> [0..<length (tests_of occs)])))"
      "cl_Members c = cl_Members (make_cluster (NewMatrix occs) g)"
    using sorted_clusters_class [OF assms(1)] by blast
  obtain g' where g': "g' \<in> set (classes (length (tests_of occs)) \<rho> (firsts (map \<rho> [0..<length (tests_of occs)])))"
      "cl_Members c' = cl_Members (make_cluster (NewMatrix occs) g')"
    using sorted_clusters_class [OF assms(2)] by blast
  show ?thesis using assms(3) same_class [OF g(1) g'(1)] unfolding g(2) g'(2) by blast
qed

lemma cluster_of_pair:
  assumes "\<And>i j. i < length (tests_of occs) \<Longrightarrow> j < length (tests_of occs) \<Longrightarrow> \<rho> i = \<rho> j \<longleftrightarrow> (i, j) \<in> joined (linked_pairs occs th)"
    and "s \<in> oc_Test ` set occs" and "t \<in> oc_Test ` set occs" and "s \<noteq> t"
  shows "(\<exists>c \<in> set (sorted_clusters occs \<rho>). s \<in> set (cl_Members c) \<and> t \<in> set (cl_Members c))
    \<longleftrightarrow> (s, t) \<in> joined (similar_tests occs th)"
proof -
  let ?T = "tests_of occs" and ?i = "index_in s (tests_of occs)" and ?j = "index_in t (tests_of occs)"
  let ?G = "classes (length ?T) \<rho> (firsts (map \<rho> [0..<length ?T]))"
  have i: "?i < length ?T" "?T ! ?i = s" using assms(2) by (simp_all add: index_in_less)
  have j: "?j < length ?T" "?T ! ?j = t" using assms(3) by (simp_all add: index_in_less)
  have link: "\<rho> ?i = \<rho> ?j \<longleftrightarrow> (s, t) \<in> joined (similar_tests occs th)"
    using assms(1) [OF i(1) j(1)] linked_pairs_similar [OF i(1) j(1)] i j by simp
  have "\<rho> ?i = \<rho> ?j" if c: "c \<in> set (sorted_clusters occs \<rho>)" "s \<in> set (cl_Members c)" "t \<in> set (cl_Members c)" for c
  proof -
    obtain g where g: "g \<in> set ?G" "cl_Members c = cl_Members (make_cluster (NewMatrix occs) g)"
      using sorted_clusters_class [OF c(1)] by blast
    obtain rt where rt: "g = filter (\<lambda>i. \<rho> i = rt) [0..<length ?T]" using g(1) unfolding in_classes by blast
    have "x \<in> (!) ?T ` set g \<Longrightarrow> \<rho> (index_in x ?T) = rt" for x
      using rt by (auto simp: index_in_nth)
    then show ?thesis using c(2,3) unfolding g(2) members_of_class(1) [OF g(1)] by metis
  qed
  moreover have "\<exists>c \<in> set (sorted_clusters occs \<rho>). s \<in> set (cl_Members c) \<and> t \<in> set (cl_Members c)" if "\<rho> ?i = \<rho> ?j"
  proof -
    let ?g = "filter (\<lambda>i. \<rho> i = \<rho> ?i) [0..<length ?T]"
    have mem: "?i \<in> set ?g" "?j \<in> set ?g" using i j that by simp_all
    moreover have "?i \<noteq> ?j" using i(2) j(2) assms(4) by metis
    ultimately have "\<not> length ?g < 2" by (rule two_members)
    then have "?g \<in> set ?G" using i(1) by (auto simp: in_classes)
    then obtain c where c: "c \<in> set (sorted_clusters occs \<rho>)" "set (cl_Members c) = (!) ?T ` set ?g"
      using class_in_sorted_clusters members_of_class(1) by metis
    then show ?thesis using mem i(2) j(2) by (metis imageI)
  qed
  ultimately show ?thesis using link by blast
qed

lemma Cluster_sorted:
  assumes "\<And>xs. mset (map_order xs) = mset xs"
  shows "\<exists>\<rho>. (\<forall>i < length (tests_of occs). \<forall>j < length (tests_of occs). \<rho> i = \<rho> j \<longleftrightarrow> (i, j) \<in> joined (linked_pairs occs th))
    \<and> Cluster map_order (NewMatrix occs) th = Some (sorted_clusters occs \<rho>)
    \<and> Cluster id (NewMatrix occs) th = Some (sorted_clusters occs \<rho>)"
proof -
  let ?n = "length (tests_of occs)" and ?m = "NewMatrix occs"
  obtain \<rho> where \<rho>: "\<forall>i < ?n. \<forall>j < ?n. \<rho> i = \<rho> j \<longleftrightarrow> (i, j) \<in> joined (linked_pairs occs th)"
    and run: "\<And>map_order. Cluster map_order ?m th = Some (number_clusters (sort_key cluster_key
         (map (make_cluster ?m) (classes ?n \<rho> (map_order (firsts (map \<rho> [0..<?n])))))))"
    using Cluster_classes [of occs th] by blast
  let ?G = "classes ?n \<rho> (firsts (map \<rho> [0..<?n]))"
  let ?H = "classes ?n \<rho> (map_order (firsts (map \<rho> [0..<?n])))"
  have "mset (map (make_cluster ?m) ?H) = mset (map (make_cluster ?m) ?G)"
    using mset_classes [OF assms, of ?n \<rho> "firsts (map \<rho> [0..<?n])"] by simp
  moreover have "inj_on cluster_key (set (map (make_cluster ?m) ?H))" using cluster_key_inj by simp
  ultimately have "sort_key cluster_key (map (make_cluster ?m) ?H) = sort_key cluster_key (map (make_cluster ?m) ?G)"
    by (rule sort_key_unique)
  then have "Cluster map_order ?m th = Some (sorted_clusters occs \<rho>)" "Cluster id ?m th = Some (sorted_clusters occs \<rho>)"
    unfolding run by (simp_all add: sorted_clusters_def Let_def)
  then show ?thesis using \<rho> by blast
qed

lemma sorted_clusters_order:
  "map cl_ID (sorted_clusters occs \<rho>) = [1..<Suc (length (sorted_clusters occs \<rho>))]"
  "sorted_wrt (\<ge>) (map cl_CoversRuns (sorted_clusters occs \<rho>))"
proof -
  have "sorted (map cluster_key (sorted_clusters occs \<rho>))"
    unfolding sorted_clusters_def Let_def by (simp only: number_clusters_simps sorted_sort_key)
  then show "sorted_wrt (\<ge>) (map cl_CoversRuns (sorted_clusters occs \<rho>))"
    unfolding sorted_map sorted_wrt_map
    by (rule sorted_wrt_mono_rel [rotated]) (auto simp: cluster_key_def less_eq_prod_def)
  show "map cl_ID (sorted_clusters occs \<rho>) = [1..<Suc (length (sorted_clusters occs \<rho>))]"
    unfolding sorted_clusters_def Let_def by (simp only: number_clusters_simps)
qed

text \<open>
  C21. Clustering finds the connected components of similarity. For every list of failures and
  every threshold, and in whatever order the groups are taken from the map, \<^verbatim>\<open>Cluster\<close> returns,
  and with the same clusters: two different failing tests are in one cluster exactly if a chain of
  tests joins them, each similar to the next at the threshold, similarity being the share of
  common runs among the runs either failed in. No test is in two clusters, no cluster has fewer
  than two members or a repeated one, \<^verbatim>\<open>CoversRuns\<close> counts the runs in which some member failed,
  the clusters stand by falling coverage and are numbered from 1.
\<close>

theorem Cluster_components:
  assumes "\<And>xs. mset (map_order xs) = mset xs"
  shows "\<exists>cs. Cluster map_order (NewMatrix occs) th = Some cs \<and> Cluster id (NewMatrix occs) th = Some cs
    \<and> (\<forall>s \<in> oc_Test ` set occs. \<forall>t \<in> oc_Test ` set occs. s \<noteq> t \<longrightarrow>
         ((\<exists>c \<in> set cs. s \<in> set (cl_Members c) \<and> t \<in> set (cl_Members c)) \<longleftrightarrow> (s, t) \<in> joined (similar_tests occs th)))
    \<and> (\<forall>c \<in> set cs. 2 \<le> cl_Size c \<and> cl_Size c = length (cl_Members c) \<and> distinct (cl_Members c)
         \<and> set (cl_Members c) \<subseteq> oc_Test ` set occs
         \<and> cl_CoversRuns c = card (\<Union>t \<in> set (cl_Members c). failed_runs occs t))
    \<and> (\<forall>c \<in> set cs. \<forall>c' \<in> set cs. set (cl_Members c) \<inter> set (cl_Members c') \<noteq> {} \<longrightarrow> cl_Members c = cl_Members c')
    \<and> map cl_ID cs = [1..<Suc (length cs)] \<and> sorted_wrt (\<ge>) (map cl_CoversRuns cs)"
proof -
  obtain \<rho> where \<rho>: "\<forall>i < length (tests_of occs). \<forall>j < length (tests_of occs). \<rho> i = \<rho> j \<longleftrightarrow> (i, j) \<in> joined (linked_pairs occs th)"
    and run: "Cluster map_order (NewMatrix occs) th = Some (sorted_clusters occs \<rho>)"
      "Cluster id (NewMatrix occs) th = Some (sorted_clusters occs \<rho>)"
    using Cluster_sorted [OF assms, of occs th] by blast
  have pair: "\<forall>s \<in> oc_Test ` set occs. \<forall>t \<in> oc_Test ` set occs. s \<noteq> t \<longrightarrow>
      ((\<exists>c \<in> set (sorted_clusters occs \<rho>). s \<in> set (cl_Members c) \<and> t \<in> set (cl_Members c))
        \<longleftrightarrow> (s, t) \<in> joined (similar_tests occs th))"
    using cluster_of_pair [of occs \<rho> th] \<rho> by blast
  have shape: "\<forall>c \<in> set (sorted_clusters occs \<rho>). 2 \<le> cl_Size c \<and> cl_Size c = length (cl_Members c) \<and> distinct (cl_Members c)
      \<and> set (cl_Members c) \<subseteq> oc_Test ` set occs \<and> cl_CoversRuns c = card (\<Union>t \<in> set (cl_Members c). failed_runs occs t)"
    by (rule ballI) (rule cluster_shape)
  have disjoint: "\<forall>c \<in> set (sorted_clusters occs \<rho>). \<forall>c' \<in> set (sorted_clusters occs \<rho>).
      set (cl_Members c) \<inter> set (cl_Members c') \<noteq> {} \<longrightarrow> cl_Members c = cl_Members c'"
    by (intro ballI impI) (rule clusters_disjoint)
  show ?thesis by (rule exI [of _ "sorted_clusters occs \<rho>"]) (intro conjI run pair shape disjoint sorted_clusters_order)
qed


definition demo_test :: "string \<Rightarrow> test_id" where
  "demo_test p = \<lparr>ti_Repo = ''r'', ti_ProcedureRef = p\<rparr>"

definition demo_failures :: "occurrence list" where
  "demo_failures = map (\<lambda>(p, r). \<lparr>oc_Test = demo_test p, oc_Run = r\<rparr>) [(''b'', ''1''), (''a'', ''1''), (''c'', ''2'')]"

lemma demo_clusters:
  "map_option (map cl_Members) (Cluster rev (NewMatrix demo_failures) (Num (1 / 2))) = Some [[demo_test ''a'', demo_test ''b'']]"
  by code_simp

theorem Cluster_components_witness:
  "(demo_test ''a'', demo_test ''b'') \<in> joined (similar_tests demo_failures (Num (1 / 2)))
    \<and> (demo_test ''a'', demo_test ''c'') \<notin> joined (similar_tests demo_failures (Num (1 / 2)))"
proof -
  obtain cs where cs: "Cluster rev (NewMatrix demo_failures) (Num (1 / 2)) = Some cs"
    and pair: "\<forall>s \<in> oc_Test ` set demo_failures. \<forall>t \<in> oc_Test ` set demo_failures. s \<noteq> t \<longrightarrow>
         ((\<exists>c \<in> set cs. s \<in> set (cl_Members c) \<and> t \<in> set (cl_Members c))
           \<longleftrightarrow> (s, t) \<in> joined (similar_tests demo_failures (Num (1 / 2))))"
    using Cluster_components [of rev demo_failures "Num (1 / 2)", OF mset_rev] by (elim exE conjE) (rule that)
  have members: "map cl_Members cs = [[demo_test ''a'', demo_test ''b'']]" using demo_clusters unfolding cs by simp
  then obtain c where c: "cs = [c]" "cl_Members c = [demo_test ''a'', demo_test ''b'']" by auto
  have tests: "demo_test ''a'' \<in> oc_Test ` set demo_failures" "demo_test ''b'' \<in> oc_Test ` set demo_failures"
      "demo_test ''c'' \<in> oc_Test ` set demo_failures"
    by (simp_all add: demo_failures_def)
  have diff: "demo_test ''a'' \<noteq> demo_test ''b''" "demo_test ''a'' \<noteq> demo_test ''c''" "demo_test ''b'' \<noteq> demo_test ''c''"
    by (simp_all add: demo_test_def)
  show ?thesis
    using pair [rule_format, OF tests(1,2) diff(1)] pair [rule_format, OF tests(1,3) diff(2)] diff by (simp add: c)
qed

section \<open>The greedy cover catches every failing run\<close>

definition covered_by :: "occurrence list \<Rightarrow> cover_step list \<Rightarrow> string set" where
  "covered_by occs steps = (\<Union>s \<in> set steps. failed_runs occs (cs_Test s))"

text \<open>The specification of one step after some runs are covered: a test that catches the most of the
  others, how many it catches, and how many are caught with it.\<close>

definition greedy_step :: "occurrence list \<Rightarrow> string set \<Rightarrow> cover_step \<Rightarrow> bool" where
  "greedy_step occs prev s \<longleftrightarrow>
     cs_Test s \<in> oc_Test ` set occs \<and> cs_NewRuns s = card (failed_runs occs (cs_Test s) - prev) \<and> 0 < cs_NewRuns s
     \<and> (\<forall>t \<in> oc_Test ` set occs. card (failed_runs occs t - prev) \<le> cs_NewRuns s)
     \<and> cs_Cumulative s = card (prev \<union> failed_runs occs (cs_Test s))
     \<and> cs_Coverage s = ratio (int (cs_Cumulative s)) (int (card (oc_Run ` set occs)))"

fun greedy_steps :: "occurrence list \<Rightarrow> string set \<Rightarrow> cover_step list \<Rightarrow> bool" where
  "greedy_steps occs prev [] = True"
| "greedy_steps occs prev (s # steps) =
     (greedy_step occs prev s \<and> greedy_steps occs (prev \<union> failed_runs occs (cs_Test s)) steps)"

lemma covered_by_snoc [simp]: "covered_by occs (steps @ [s]) = covered_by occs steps \<union> failed_runs occs (cs_Test s)"
  by (auto simp: covered_by_def)

lemma greedy_steps_snoc:
  "greedy_steps occs prev (steps @ [s]) \<longleftrightarrow> greedy_steps occs prev steps \<and> greedy_step occs (prev \<union> covered_by occs steps) s"
  by (induction steps arbitrary: prev) (auto simp: covered_by_def Un_assoc)

lemma gain_card: "gain m covered i = card (row m i - wset (mx_words m) ((!) covered))"
  unfolding gain_def row_def wset_diff [symmetric] card_wset ..

lemma best_gain_fold:
  fixes g :: nat
  shows "fold (\<lambda>(i, g) (best, bestGain). if bestGain < g then (Some i, g) else (best, bestGain)) gs (b0, g0) = (b, g) \<Longrightarrow>
     g0 \<le> g \<and> (\<forall>(i, h) \<in> set gs. h \<le> g) \<and> (b = b0 \<and> g = g0 \<or> (\<exists>i. b = Some i \<and> (i, g) \<in> set gs \<and> g0 < g))"
proof (induction gs arbitrary: b0 g0)
  case (Cons x gs)
  obtain i h where x: "x = (i, h)" by fastforce
  show ?case
  proof (cases "g0 < h")
    case True
    then have "h \<le> g \<and> (\<forall>(i, h) \<in> set gs. h \<le> g) \<and> (b = Some i \<and> g = h \<or> (\<exists>i. b = Some i \<and> (i, g) \<in> set gs \<and> h < g))"
      using Cons.prems x by (intro Cons.IH) simp
    then show ?thesis using True x by auto
  next
    case False
    then have "g0 \<le> g \<and> (\<forall>(i, h) \<in> set gs. h \<le> g) \<and> (b = b0 \<and> g = g0 \<or> (\<exists>i. b = Some i \<and> (i, g) \<in> set gs \<and> g0 < g))"
      using Cons.prems x by (intro Cons.IH) simp
    then show ?thesis using False x by auto
  qed
qed simp

lemma best_gain_None: "best_gain gs = (None, g) \<Longrightarrow> (i, h) \<in> set gs \<Longrightarrow> h = 0"
  using best_gain_fold [of gs None 0 None g] by (fastforce simp: best_gain_def)

lemma best_gain_Some:
  assumes "best_gain gs = (Some b, g)"
  shows "(b, g) \<in> set gs" and "0 < g" and "(i, h) \<in> set gs \<Longrightarrow> h \<le> g"
  using best_gain_fold [of gs None 0 "Some b" g] assms by (auto simp: best_gain_def)

text \<open>What the loop knows: the covered words are the runs of the chosen tests, and no test it dropped
  has anything to add.\<close>

definition cover_invariant :: "occurrence list \<Rightarrow> cover_step list \<Rightarrow> 64 word list \<Rightarrow> nat list \<Rightarrow> nat \<Rightarrow> bool" where
  "cover_invariant occs steps covered active cumulative \<longleftrightarrow>
     wset (mx_words (NewMatrix occs)) ((!) covered) = (\<lambda>r. index_in r (runs_of occs)) ` covered_by occs steps
     \<and> set active \<subseteq> {..<length (tests_of occs)}
     \<and> (\<forall>i < length (tests_of occs). i \<notin> set active \<longrightarrow> failed_runs occs (tests_of occs ! i) \<subseteq> covered_by occs steps)
     \<and> cumulative = card (covered_by occs steps) \<and> greedy_steps occs {} steps"

lemma covered_by_subset: "covered_by occs steps \<subseteq> oc_Run ` set occs"
  using failed_runs_subset by (fastforce simp: covered_by_def)

lemma finite_covered_by [simp]: "finite (covered_by occs steps)"
  by (simp add: covered_by_def)

lemma gain_failed_runs:
  assumes "cover_invariant occs steps covered active cumulative" and "i < length (tests_of occs)"
  shows "gain (NewMatrix occs) covered i = card (failed_runs occs (tests_of occs ! i) - covered_by occs steps)"
proof -
  have sub: "failed_runs occs (tests_of occs ! i) \<subseteq> set (runs_of occs)" "covered_by occs steps \<subseteq> set (runs_of occs)"
    using failed_runs_subset covered_by_subset by simp_all
  have "gain (NewMatrix occs) covered i
      = card ((\<lambda>r. index_in r (runs_of occs)) ` (failed_runs occs (tests_of occs ! i) - covered_by occs steps))"
    using assms unfolding gain_card cover_invariant_def by (simp only: row_NewMatrix image_index_Diff [OF sub])
  also have "\<dots> = card (failed_runs occs (tests_of occs ! i) - covered_by occs steps)"
    using sub by (intro card_image_runs) blast
  finally show ?thesis .
qed

lemma uncovered_decreases:
  assumes "finite U" and "C \<subseteq> U" and "F \<subseteq> U" and "0 < card (F - C)"
  shows "card (U - (C \<union> F)) < card (U - C)"
proof (rule psubset_card_mono)
  obtain x where "x \<in> F - C" using assms(4) by (metis all_not_in_conv card.empty less_numeral_extra(3))
  then have "x \<in> U - C" "x \<notin> U - (C \<union> F)" using assms(3) by auto
  then show "U - (C \<union> F) \<subset> U - C" by blast
qed (use assms in simp)


text \<open>One round of the loop keeps the invariant.\<close>

lemma cover_round:
  assumes inv: "cover_invariant occs steps covered active cumulative"
    and gains: "gains = filter (\<lambda>(i, g). g \<noteq> 0) (map (\<lambda>i. (i, gain (NewMatrix occs) covered i)) active)"
    and best: "best_gain gains = (Some b, g)"
    and step: "s = \<lparr>cs_Test = tests_of occs ! b, cs_NewRuns = g, cs_Cumulative = cumulative + g,
      cs_Coverage = ratio (int (cumulative + g)) (int (length (runs_of occs)))\<rparr>"
  shows "cover_invariant occs (steps @ [s])
      (map (\<lambda>w. covered ! w OR mx_bits (NewMatrix occs) ! b ! w) [0..<mx_words (NewMatrix occs)])
      (map fst gains) (cumulative + g)"
    and "0 < card (failed_runs occs (cs_Test s) - covered_by occs steps)"
proof -
  let ?T = "tests_of occs" and ?nw = "mx_words (NewMatrix occs)" and ?C = "covered_by occs steps"
  let ?F = "\<lambda>i. failed_runs occs (?T ! i)"
  have act: "set active \<subseteq> {..<length ?T}" and C: "wset ?nw ((!) covered) = (\<lambda>r. index_in r (runs_of occs)) ` ?C"
    and dropped: "\<And>i. i < length ?T \<Longrightarrow> i \<notin> set active \<Longrightarrow> ?F i \<subseteq> ?C"
    and cum: "cumulative = card ?C" and steps: "greedy_steps occs {} steps"
    using inv unfolding cover_invariant_def by blast+
  note gain = gain_failed_runs [OF inv]
  have mem: "(b, g) \<in> set gains" and "0 < g" and most: "\<And>i h. (i, h) \<in> set gains \<Longrightarrow> h \<le> g"
    using best_gain_Some [OF best] by blast+
  have b: "b < length ?T" "g = card (?F b - ?C)" using mem act gain by (auto simp: gains)
  have below: "card (?F i - ?C) \<le> g" if "i < length ?T" for i
  proof (cases "i \<in> set active \<and> card (?F i - ?C) \<noteq> 0")
    case True
    then have "i \<in> set active" "gain (NewMatrix occs) covered i \<noteq> 0" using gain [OF that] by simp_all
    then have "(i, gain (NewMatrix occs) covered i) \<in> set gains" by (auto simp: gains)
    then show ?thesis using most gain [OF that] by simp
  next
    case False
    then have "card (?F i - ?C) = 0"
    proof (cases "i \<in> set active")
      case outside: False
      then have "?F i - ?C = {}" using dropped [OF that] by blast
      then show ?thesis by simp
    qed (use False in simp)
    then show ?thesis by linarith
  qed
  have all: "card (failed_runs occs t - ?C) \<le> g" if "t \<in> oc_Test ` set occs" for t
    using that below [of "index_in t ?T"] by (simp add: index_in_less)
  have cum': "cumulative + g = card (?C \<union> ?F b)"
    using card_Un_disjoint [of ?C "?F b - ?C"] by (simp add: cum b(2))
  have runs: "length (runs_of occs) = card (oc_Run ` set occs)"
    using distinct_card [OF runs_of_simps(2), of occs] by simp
  have test: "?T ! b \<in> oc_Test ` set occs" using nth_mem [OF b(1)] by simp
  have "greedy_step occs ?C s"
    unfolding greedy_step_def step using \<open>0 < g\<close> b(2) cum' runs test all by simp
  then have "greedy_steps occs {} (steps @ [s])" using steps by (simp add: greedy_steps_snoc)
  moreover have "wset ?nw ((!) (map (\<lambda>w. covered ! w OR mx_bits (NewMatrix occs) ! b ! w) [0..<?nw]))
      = (\<lambda>r. index_in r (runs_of occs)) ` covered_by occs (steps @ [s])"
  proof -
    have "wset ?nw ((!) (map (\<lambda>w. covered ! w OR mx_bits (NewMatrix occs) ! b ! w) [0..<?nw]))
        = wset ?nw (\<lambda>w. covered ! w OR mx_bits (NewMatrix occs) ! b ! w)"
      by (rule wset_cong) simp
    also have "\<dots> = wset ?nw ((!) covered) \<union> row (NewMatrix occs) b" by (simp only: wset_or row_def)
    finally show ?thesis using C row_NewMatrix [OF b(1)] by (simp add: step image_Un)
  qed
  moreover have "?F i \<subseteq> covered_by occs (steps @ [s])" if "i < length ?T" "i \<notin> set (map fst gains)" for i
  proof (cases "i \<in> set active")
    case True
    then have "gain (NewMatrix occs) covered i = 0" using that(2) by (force simp: gains)
    then have "?F i - ?C = {}" using gain [OF that(1)] by simp
    then show ?thesis by auto
  next
    case False
    then show ?thesis using dropped [OF that(1)] by auto
  qed
  moreover have "set (map fst gains) \<subseteq> {..<length ?T}" using act by (auto simp: gains)
  moreover have "cumulative + g = card (covered_by occs (steps @ [s]))" using cum' by (simp add: step)
  ultimately show "cover_invariant occs (steps @ [s])
      (map (\<lambda>w. covered ! w OR mx_bits (NewMatrix occs) ! b ! w) [0..<?nw]) (map fst gains) (cumulative + g)"
    unfolding cover_invariant_def by blast
  show "0 < card (failed_runs occs (cs_Test s) - ?C)" using \<open>0 < g\<close> b(2) by (simp add: step)
qed

text \<open>When no test has anything to add, every run is covered.\<close>

lemma covers_all:
  assumes "\<And>i. i < length (tests_of occs) \<Longrightarrow> failed_runs occs (tests_of occs ! i) \<subseteq> covered_by occs steps"
  shows "covered_by occs steps = oc_Run ` set occs"
proof (rule antisym [OF covered_by_subset], clarify)
  fix oc
  assume "oc \<in> set occs"
  then have t: "oc_Test oc \<in> set (tests_of occs)" "oc_Run oc \<in> failed_runs occs (oc_Test oc)"
    by (auto simp: failed_runs_def)
  then show "oc_Run oc \<in> covered_by occs steps"
    using assms [OF index_in_less [OF t(1)]] nth_index_in [OF t(1)] by auto
qed

lemma greedy_covers:
  "cover_invariant occs steps covered active cumulative \<Longrightarrow>
     \<exists>result. greedy (NewMatrix occs) steps covered active cumulative = Some result
       \<and> covered_by occs result = oc_Run ` set occs \<and> greedy_steps occs {} result"
proof (induction "card (oc_Run ` set occs - covered_by occs steps)" arbitrary: steps covered active cumulative rule: less_induct)
  case less
  let ?m = "NewMatrix occs"
  define gains where "gains = filter (\<lambda>(i, g). g \<noteq> 0) (map (\<lambda>i. (i, gain ?m covered i)) active)"
  have stop: "covered_by occs steps = oc_Run ` set occs \<and> greedy_steps occs {} steps" if empty: "gains = []"
  proof -
    have "failed_runs occs (tests_of occs ! i) \<subseteq> covered_by occs steps" if i: "i < length (tests_of occs)" for i
    proof (cases "i \<in> set active")
      case True
      then have "gain ?m covered i = 0" using empty by (auto simp: gains_def filter_empty_conv)
      then show ?thesis using gain_failed_runs [OF less.prems i] by simp
    qed (use less.prems i in \<open>simp add: cover_invariant_def\<close>)
    then have "covered_by occs steps = oc_Run ` set occs" by (rule covers_all)
    then show ?thesis using less.prems by (simp add: cover_invariant_def)
  qed
  show ?case
  proof (cases "best_gain gains")
    case (Pair best g)
    show ?thesis
    proof (cases best)
      case None
      have "gains = []"
      proof (rule ccontr)
        assume "gains \<noteq> []"
        then obtain i h where "(i, h) \<in> set gains" by (metis hd_in_set surj_pair)
        moreover from this have "h \<noteq> 0" by (auto simp: gains_def)
        ultimately show False using best_gain_None Pair None by blast
      qed
      moreover have "greedy ?m steps covered active cumulative = Some steps"
        by (subst greedy.simps)
           (simp only: Let_def gains_def [symmetric] Pair None prod.case option.case if_cancel)
      ultimately show ?thesis using stop by blast
    next
      case (Some b)
      define s where "s = \<lparr>cs_Test = tests_of occs ! b, cs_NewRuns = g, cs_Cumulative = cumulative + g,
        cs_Coverage = ratio (int (cumulative + g)) (int (length (runs_of occs)))\<rparr>"
      note round = cover_round [OF less.prems gains_def Pair [unfolded Some] s_def]
      have "active \<noteq> []" using best_gain_Some(1) [OF Pair [unfolded Some]] by (auto simp: gains_def)
      then have "greedy ?m steps covered active cumulative
          = greedy ?m (steps @ [s]) (map (\<lambda>w. covered ! w OR mx_bits ?m ! b ! w) [0..<mx_words ?m]) (map fst gains) (cumulative + g)"
        by (subst greedy.simps)
           (simp only: Let_def gains_def [symmetric] Pair Some prod.case option.case if_False s_def NewMatrix_simps)
      moreover have "card (oc_Run ` set occs - covered_by occs (steps @ [s])) < card (oc_Run ` set occs - covered_by occs steps)"
        unfolding covered_by_snoc using covered_by_subset failed_runs_subset round(2)
        by (intro uncovered_decreases) (simp_all flip: runs_of_simps)
      ultimately show ?thesis using less.hyps [OF _ round(1)] by simp
    qed
  qed
qed


lemma greedy_steps_distinct:
  "greedy_steps occs prev steps \<Longrightarrow> distinct (map cs_Test steps)
     \<and> (\<forall>s \<in> set steps. cs_Test s \<in> oc_Test ` set occs \<and> \<not> failed_runs occs (cs_Test s) \<subseteq> prev)"
proof (induction steps arbitrary: prev)
  case (Cons s steps)
  have step: "greedy_step occs prev s" and rest: "greedy_steps occs (prev \<union> failed_runs occs (cs_Test s)) steps"
    using Cons.prems by simp_all
  have "0 < card (failed_runs occs (cs_Test s) - prev)" using step unfolding greedy_step_def by metis
  then have "failed_runs occs (cs_Test s) - prev \<noteq> {}" by (metis card.empty less_irrefl)
  moreover have "cs_Test s \<in> oc_Test ` set occs" using step by (simp add: greedy_step_def)
  ultimately show ?case using Cons.IH [OF rest] by auto
qed simp

text \<open>
  C22. The greedy cover ends and covers. For every list of failures \<^verbatim>\<open>GreedyCover\<close> returns a list
  of steps that between them catch every failing run; each step names a failing test that catches
  at least as many of the runs not yet caught as any other, and at least one, with the counts and
  the coverage it reports being those of the runs; no test is named twice.
\<close>

theorem GreedyCover_covers:
  "\<exists>steps. GreedyCover (NewMatrix occs) = Some steps \<and> covered_by occs steps = oc_Run ` set occs
     \<and> greedy_steps occs {} steps \<and> distinct (map cs_Test steps) \<and> length steps \<le> card (oc_Test ` set occs)"
proof (cases "tests_of occs = []")
  case True
  then have "occs = []" using tests_of_simps(1) [of occs] by simp
  then show ?thesis by (simp add: GreedyCover_def covered_by_def firsts_def tests_of_def)
next
  case False
  have "wset n ((!) (replicate n (0 :: 64 word))) = {}" for n
    using wset_cong [of n "(!) (replicate n 0)" "\<lambda>w. 0"] by simp
  then have "cover_invariant occs [] (replicate (mx_words (NewMatrix occs)) 0) [0..<length (tests_of occs)] 0"
    by (auto simp: cover_invariant_def covered_by_def)
  then obtain steps where steps: "GreedyCover (NewMatrix occs) = Some steps" "covered_by occs steps = oc_Run ` set occs"
      "greedy_steps occs {} steps"
    using greedy_covers False unfolding GreedyCover_def NewMatrix_simps(1) by (metis (no_types, lifting))
  have d: "distinct (map cs_Test steps)" "set (map cs_Test steps) \<subseteq> oc_Test ` set occs"
    using greedy_steps_distinct [OF steps(3)] by auto
  then have "length steps \<le> card (oc_Test ` set occs)"
    using card_mono [OF _ d(2)] distinct_card [OF d(1)] by simp
  then show ?thesis using steps d(1) by blast
qed

end
