(* ===== verification/Analytics.thy ===== *)
theory Analytics
  imports Evidence_API Cofailure
begin

text \<open>
  Analytics over the evidence table: the aggregations of \<^verbatim>\<open>internal/store/analytics.go\<close>, the cache
  in front of them (\<^verbatim>\<open>internal/store/cache.go\<close>) and the handlers of \<^verbatim>\<open>internal/api/analytics.go\<close>.
  SQL leaves the order of groups and of distinct rows open, so the order is an argument, \<open>plan\<close>.
  The key of a cached aggregation is the hash of the encoded parameters, an argument as well. A
  response is the value that is encoded; the text of the CSV export is its rows.
\<close>

section \<open>One row per test\<close>

definition DefaultMaxAnalyticsGroups :: int where "DefaultMaxAnalyticsGroups = 50000"

record stats_params =
  tp_Filter :: evidence_filter
  tp_GroupByEvidenceType :: bool
  tp_MaxGroups :: int

datatype stats_error = StatsQuery | TooManyGroups int

text \<open>The group columns; the third is empty when the caller does not group by type.\<close>

type_synonym group_cols = "string \<times> string \<times> string"

definition group_cols :: "bool \<Rightarrow> evidence \<Rightarrow> group_cols" where
  "group_cols by_type e = (ev_Repo e, ev_ProcedureRef e, if by_type then ev_EvidenceType e else '''')"

definition count_result :: "string \<Rightarrow> evidence list \<Rightarrow> int" where
  "count_result r rows = int (length (filter (\<lambda>e. ev_Result e = r) rows))"

definition in_time_order :: "evidence list \<Rightarrow> evidence list" where
  "in_time_order rows = sort_key (\<lambda>e. (ev_FinishedAt e, ev_ID e)) rows"

text \<open>The branch \<^verbatim>\<open>sequenced\<close>: the verdicts in order, each with the one before it.\<close>

definition sequenced :: "evidence list \<Rightarrow> (string option \<times> string) list" where
  "sequenced rows =
     (let rs = map ev_Result (in_time_order (filter (\<lambda>e. ev_Result e \<in> {ResultPass, ResultFail}) rows))
      in zip (None # map Some rs) rs)"

definition flips :: "evidence list \<Rightarrow> int" where
  "flips rows = int (length (filter (\<lambda>(prev, r). prev \<noteq> None \<and> r \<noteq> the prev) (sequenced rows)))"

definition transitions :: "evidence list \<Rightarrow> int" where
  "transitions rows = int (length (filter (\<lambda>(prev, r). prev \<noteq> None) (sequenced rows)))"

definition disagreements :: "evidence list \<Rightarrow> int" where
  "disagreements rows = int (length (filter
     (\<lambda>c. 0 < count_result ResultPass (filter (\<lambda>e. ev_RCSRef e = c) rows)
        \<and> 0 < count_result ResultFail (filter (\<lambda>e. ev_RCSRef e = c) rows))
     (remdups (map ev_RCSRef rows))))"

definition latest_at :: "evidence list \<Rightarrow> instant option" where
  "latest_at rows = (if rows = [] then None else Some (Max (ev_FinishedAt ` set rows)))"

definition aggregate :: "evidence list \<Rightarrow> group_cols \<Rightarrow> test_stats" where
  "aggregate rows k = (case k of (repo, proc, ty) \<Rightarrow>
     \<lparr>ts_Repo = repo, ts_ProcedureRef = proc, ts_EvidenceType = ty,
      ts_Counts = \<lparr>c_Pass = count_result ResultPass rows, c_Fail = count_result ResultFail rows,
        c_Error = count_result ResultError rows, c_Skipped = count_result ResultSkipped rows,
        c_Flips = flips rows, c_Transitions = transitions rows, c_FlakyCommits = disagreements rows\<rparr>,
      ts_Runs = 0, ts_VerdictRuns = 0, ts_FailRate = 0, ts_ErrorRate = 0, ts_FlipRate = 0, ts_PassRateLower = 0,
      ts_FirstSeen = Min (ev_FinishedAt ` set rows), ts_LastSeen = Max (ev_FinishedAt ` set rows),
      ts_LastPassAt = latest_at (filter (\<lambda>e. ev_Result e = ResultPass) rows),
      ts_LastFailAt = latest_at (filter (\<lambda>e. ev_Result e = ResultFail) rows),
      ts_LastResult = ev_Result (last (in_time_order rows)), ts_Labels = []\<rparr>)"

definition query_stats ::
  "database \<Rightarrow> (group_cols list \<Rightarrow> group_cols list) \<Rightarrow> (nat \<Rightarrow> bool) \<Rightarrow> stats_params \<Rightarrow> evidence_db
     \<Rightarrow> stats_error + test_stats list" where
  "query_stats pg plan fails p d =
     (let maxGroups = (if tp_MaxGroups p \<le> 0 then DefaultMaxAnalyticsGroups else tp_MaxGroups p);
          by_type = tp_GroupByEvidenceType p in
      if fails (ed_stmt d) then Inl StatsQuery
      else case select_rows pg (buildFilter (tp_Filter p)) (ed_rows d) of
          None \<Rightarrow> Inl StatsQuery
        | Some filtered \<Rightarrow>
            let groups = take (nat (maxGroups + 1)) (plan (remdups (map (group_cols by_type) filtered)));
                stats = map (\<lambda>k. aggregate (filter (\<lambda>e. group_cols by_type e = k) filtered) k) groups
            in if maxGroups < int (length stats) then Inl (TooManyGroups maxGroups) else Inr stats)"

section \<open>The cache\<close>

record stats_entry =
  se_stats :: "test_stats list"
  se_expires :: instant

record stats_cache =
  ca_ttl :: duration
  ca_max :: int
  ca_entries :: "(string \<times> stats_entry) list"

definition newStatsCache :: "duration \<Rightarrow> int \<Rightarrow> stats_cache" where
  "newStatsCache ttl mx = \<lparr>ca_ttl = ttl, ca_max = mx, ca_entries = []\<rparr>"

definition cache_enabled :: "stats_cache \<Rightarrow> bool" where
  "cache_enabled c \<longleftrightarrow> 0 < ca_ttl c"

definition drop_key :: "string \<Rightarrow> (string \<times> 'a) list \<Rightarrow> (string \<times> 'a) list" where
  "drop_key k m = filter (\<lambda>(k', _). k' \<noteq> k) m"

definition cache_get :: "instant \<Rightarrow> string \<Rightarrow> stats_cache \<Rightarrow> test_stats list option \<times> stats_cache" where
  "cache_get now key c =
     (if \<not> cache_enabled c then (None, c)
      else case map_of (ca_entries c) key of
          None \<Rightarrow> (None, c)
        | Some e \<Rightarrow>
            if se_expires e < now then (None, c\<lparr>ca_entries := drop_key key (ca_entries c)\<rparr>)
            else (Some (se_stats e), c))"

text \<open>The clock is read when the full cache is cleaned and again for the new entry.\<close>

definition cache_put :: "instant \<Rightarrow> instant \<Rightarrow> string \<Rightarrow> test_stats list \<Rightarrow> stats_cache \<Rightarrow> stats_cache" where
  "cache_put t1 t2 key stats c =
     (if \<not> cache_enabled c then c
      else
        let c' = (if ca_max c \<le> int (length (ca_entries c))
                  then c\<lparr>ca_entries := filter (\<lambda>(_, e). \<not> se_expires e < t1) (ca_entries c)\<rparr> else c) in
        if ca_max c \<le> int (length (ca_entries c')) then c'
        else c'\<lparr>ca_entries := (key, \<lparr>se_stats = stats, se_expires = t2 + ca_ttl c\<rparr>) # drop_key key (ca_entries c')\<rparr>)"

definition statsCacheKey :: "(evidence_filter \<times> bool \<times> int \<Rightarrow> string) \<Rightarrow> stats_params \<Rightarrow> string" where
  "statsCacheKey hash p = hash (tp_Filter p, tp_GroupByEvidenceType p, tp_MaxGroups p)"

text \<open>When the cache is read, cleaned and written.\<close>

type_synonym clock = "instant \<times> instant \<times> instant"

definition EvidenceStore_TestStats ::
  "(evidence_filter \<times> bool \<times> int \<Rightarrow> string) \<Rightarrow> database \<Rightarrow> (group_cols list \<Rightarrow> group_cols list) \<Rightarrow> (nat \<Rightarrow> bool)
     \<Rightarrow> clock \<Rightarrow> stats_params \<Rightarrow> evidence_db \<Rightarrow> stats_cache \<Rightarrow> (stats_error + test_stats list) \<times> stats_cache" where
  "EvidenceStore_TestStats hash pg plan fails clk p d c =
     (case clk of (t0, t1, t2) \<Rightarrow>
      let key = statsCacheKey hash p in
      case cache_get t0 key c of
        (Some cached, c') \<Rightarrow> (Inr cached, c')
      | (None, c') \<Rightarrow>
          (case query_stats pg plan fails p d of
             Inl err \<Rightarrow> (Inl err, c')
           | Inr stats \<Rightarrow> (Inr stats, cache_put t1 t2 key stats c')))"

section \<open>Failures for clustering\<close>

definition DefaultMaxFailureRows :: int where "DefaultMaxFailureRows = 200000"

definition RunKeyAuto :: string where "RunKeyAuto = ''auto''"
definition RunKeyInvocation :: string where "RunKeyInvocation = ''invocation''"
definition RunKeyCommit :: string where "RunKeyCommit = ''commit''"

definition RunKey_Valid :: "string \<Rightarrow> bool" where
  "RunKey_Valid k \<longleftrightarrow> k = RunKeyAuto \<or> k = RunKeyInvocation \<or> k = RunKeyCommit"

definition invocation_id :: "database \<Rightarrow> evidence \<Rightarrow> string option" where
  "invocation_id pg e = Option.bind (metadata_field e ''invocation_id'') (field_text pg)"

definition run_expr :: "database \<Rightarrow> string \<Rightarrow> evidence \<Rightarrow> string option" where
  "run_expr pg k e =
     (if k = RunKeyInvocation then invocation_id pg e
      else if k = RunKeyCommit then Some (ev_RCSRef e)
      else case invocation_id pg e of None \<Rightarrow> Some (ev_RCSRef e) | Some i \<Rightarrow> Some i)"

record failure_params =
  fp_Filter :: evidence_filter
  fp_RunKey :: string
  fp_IncludeErrors :: bool
  fp_MaxRows :: int

datatype failure_error = UnknownRunKey string | FailureQuery | TooManyRows int

definition failureFilter :: "failure_params \<Rightarrow> sql_filter" where
  "failureFilter p =
     (let (n, f) = sql_arg (VText ResultFail) (buildFilter (fp_Filter p)) in
      if fp_IncludeErrors p then (let (m, f') = sql_arg (VText ResultError) f in sql_add (ResultIn [n, m]) f')
      else sql_add (ResultIn [n]) f)"

definition FailureOccurrences ::
  "database \<Rightarrow> ((string \<times> string \<times> string) list \<Rightarrow> (string \<times> string \<times> string) list) \<Rightarrow> (nat \<Rightarrow> bool) \<Rightarrow> failure_params
     \<Rightarrow> evidence_db \<Rightarrow> failure_error + occurrence list" where
  "FailureOccurrences pg plan fails p d =
     (let key = (if fp_RunKey p = '''' then RunKeyAuto else fp_RunKey p) in
      if \<not> RunKey_Valid key then Inl (UnknownRunKey key)
      else
        let maxRows = (if fp_MaxRows p \<le> 0 then DefaultMaxFailureRows else fp_MaxRows p) in
        if fails (ed_stmt d) then Inl FailureQuery
        else case select_rows pg (failureFilter p) (ed_rows d) of
            None \<Rightarrow> Inl FailureQuery
          | Some rows \<Rightarrow>
              let keyed = filter (\<lambda>e. run_expr pg key e \<noteq> None) rows;
                  triples = take (nat (maxRows + 1))
                    (plan (remdups (map (\<lambda>e. (ev_Repo e, ev_ProcedureRef e, the (run_expr pg key e))) keyed)));
                  occs = map (\<lambda>(repo, proc, run). \<lparr>oc_Test = \<lparr>ti_Repo = repo, ti_ProcedureRef = proc\<rparr>,
                    oc_Run = repo @ [CHR 0x00] @ run\<rparr>) triples
              in if maxRows < int (length occs) then Inl (TooManyRows maxRows) else Inr occs)"

section \<open>The headline counts\<close>

record window_summary =
  ws_Runs :: int
  ws_Pass :: int
  ws_Fail :: int
  ws_Error :: int
  ws_Skipped :: int
  ws_Tests :: int
  ws_Repos :: int
  ws_Commits :: int
  ws_FirstSeen :: "instant option"
  ws_LastSeen :: "instant option"

definition EvidenceStore_Summary ::
  "database \<Rightarrow> (nat \<Rightarrow> bool) \<Rightarrow> evidence_filter \<Rightarrow> evidence_db \<Rightarrow> window_summary option" where
  "EvidenceStore_Summary pg fails flt d =
     (if fails (ed_stmt d) then None
      else case select_rows pg (buildFilter flt) (ed_rows d) of
          None \<Rightarrow> None
        | Some rows \<Rightarrow> Some
            \<lparr>ws_Runs = int (length rows), ws_Pass = count_result ResultPass rows, ws_Fail = count_result ResultFail rows,
             ws_Error = count_result ResultError rows, ws_Skipped = count_result ResultSkipped rows,
             ws_Tests = int (length (remdups (map (\<lambda>e. (ev_Repo e, ev_ProcedureRef e)) rows))),
             ws_Repos = int (length (remdups (map ev_Repo rows))),
             ws_Commits = int (length (remdups (map ev_RCSRef rows))),
             ws_FirstSeen = (if rows = [] then None else Some (Min (ev_FinishedAt ` set rows))),
             ws_LastSeen = latest_at rows\<rparr>)"


section \<open>The handlers\<close>

text \<open>What \<^verbatim>\<open>strconv.ParseFloat\<close> can give.\<close>

datatype parsed_float = NoFloat | Infinite | Float float64

record analytics_env = handler_env +
  ae_plan :: "group_cols list \<Rightarrow> group_cols list"
  ae_hash :: "evidence_filter \<times> bool \<times> int \<Rightarrow> string"
  ae_float :: "string \<Rightarrow> parsed_float"

definition parseIntParam :: "query \<Rightarrow> string \<Rightarrow> int \<Rightarrow> int \<Rightarrow> string + int" where
  "parseIntParam q name target mn =
     (if q_get q name = '''' then Inr target
      else case atoi (q_get q name) of
          None \<Rightarrow> Inl name
        | Some n \<Rightarrow> if n < mn then Inl name else Inr n)"

text \<open>The check \<^verbatim>\<open>f < 0 || f > 1\<close> is false for NaN.\<close>

fun out_of_range :: "float64 \<Rightarrow> bool" where
  "out_of_range NaN = False"
| "out_of_range (Num x) = (x < 0 \<or> 1 < x)"

definition parseRateParam :: "(string \<Rightarrow> parsed_float) \<Rightarrow> query \<Rightarrow> string \<Rightarrow> float64 \<Rightarrow> string + float64" where
  "parseRateParam parse q name target =
     (if q_get q name = '''' then Inr target
      else case parse (q_get q name) of
          NoFloat \<Rightarrow> Inl name
        | Infinite \<Rightarrow> Inl name
        | Float f \<Rightarrow> if out_of_range f then Inl name else Inr f)"

definition parseThresholds :: "(string \<Rightarrow> parsed_float) \<Rightarrow> query \<Rightarrow> string + thresholds" where
  "parseThresholds parse q =
     (let th = DefaultThresholds in
      case parseIntParam q ''min_runs'' (th_MinRuns th) 0 of Inl e \<Rightarrow> Inl e | Inr minRuns \<Rightarrow>
      (case parseIntParam q ''min_errors'' (th_MinErrors th) 0 of Inl e \<Rightarrow> Inl e | Inr minErrors \<Rightarrow>
       (case parseRateParam parse q ''always_failing_rate'' (th_AlwaysFailingRate th) of Inl e \<Rightarrow> Inl e | Inr failing \<Rightarrow>
        (case parseRateParam parse q ''flip_rate'' (th_FlipRate th) of Inl e \<Rightarrow> Inl e | Inr flipRate \<Rightarrow>
         (case parseRateParam parse q ''error_rate'' (th_ErrorRate th) of Inl e \<Rightarrow> Inl e | Inr errs \<Rightarrow>
            Inr \<lparr>th_MinRuns = minRuns, th_AlwaysFailingRate = failing, th_FlipRate = flipRate, th_ErrorRate = errs,
                 th_MinErrors = minErrors\<rparr>)))))"

record analytics_window =
  aw_From :: "instant option"
  aw_To :: "instant option"
  aw_Runs :: int
  aw_Tests :: nat

definition widen :: "test_stats \<Rightarrow> analytics_window \<Rightarrow> analytics_window" where
  "widen s w = w\<lparr>aw_Runs := aw_Runs w + ts_Runs s,
     aw_From := (if aw_From w = None \<or> ts_FirstSeen s < the (aw_From w) then Some (ts_FirstSeen s) else aw_From w),
     aw_To := (if aw_To w = None \<or> the (aw_To w) < ts_LastSeen s then Some (ts_LastSeen s) else aw_To w)\<rparr>"

definition summarizeWindow :: "test_stats list \<Rightarrow> analytics_window" where
  "summarizeWindow stats = fold widen stats \<lparr>aw_From = None, aw_To = None, aw_Runs = 0, aw_Tests = length stats\<rparr>"

text \<open>The rows of the export; numbers and times are formatted on writing.\<close>

datatype csv_field = CText string | CInt int | CRate rat | CTime "instant option"

definition csvColumns :: "string list" where
  "csvColumns = [''repo'', ''procedure_ref'', ''evidence_type'', ''runs'', ''verdict_runs'', ''pass'', ''fail'', ''error'', ''skipped'',
     ''fail_rate'', ''error_rate'', ''flip_rate'', ''pass_rate_lower'', ''flips'', ''transitions'', ''flaky_commits'',
     ''first_seen'', ''last_seen'', ''last_pass_at'', ''last_fail_at'', ''last_result'', ''labels'']"

fun join_words :: "string list \<Rightarrow> string" where
  "join_words [] = ''''"
| "join_words [w] = w"
| "join_words (w # ws) = w @ '' '' @ join_words ws"

definition csv_row :: "test_stats \<Rightarrow> csv_field list" where
  "csv_row t =
     [CText (ts_Repo t), CText (ts_ProcedureRef t), CText (ts_EvidenceType t), CInt (ts_Runs t), CInt (ts_VerdictRuns t),
      CInt (c_Pass (ts_Counts t)), CInt (c_Fail (ts_Counts t)), CInt (c_Error (ts_Counts t)), CInt (c_Skipped (ts_Counts t)),
      CRate (ts_FailRate t), CRate (ts_ErrorRate t), CRate (ts_FlipRate t), CRate (ts_PassRateLower t),
      CInt (c_Flips (ts_Counts t)), CInt (c_Transitions (ts_Counts t)), CInt (c_FlakyCommits (ts_Counts t)),
      CTime (Some (ts_FirstSeen t)), CTime (Some (ts_LastSeen t)), CTime (ts_LastPassAt t), CTime (ts_LastFailAt t),
      CText (ts_LastResult t), CText (join_words (ts_Labels t))]"

definition writeTestStatsCSV :: "test_stats list \<Rightarrow> csv_field list list" where
  "writeTestStatsCSV stats = map CText csvColumns # map csv_row stats"

record tests_response =
  tr_Window :: analytics_window
  tr_Thresholds :: thresholds
  tr_Tests :: "test_stats list"
  tr_Total :: nat

record clusters_response =
  cr_RunKey :: string
  cr_IncludeErrors :: bool
  cr_Threshold :: float64
  cr_Tests :: nat
  cr_FailingRuns :: nat
  cr_Clusters :: "cluster list option"
  cr_MinimalSet :: "cover_step list option"

datatype analytics_reply =
    Refused nat string
  | Tests_OK tests_response
  | Tests_CSV "csv_field list list"
  | Clusters_OK clusters_response
  | Summary_OK window_summary rat rat
  | Slice_Panics

text \<open>The checks of a request for the table, in their order.\<close>

record tests_request =
  tq_Filter :: evidence_filter
  tq_Thresholds :: thresholds
  tq_Desc :: bool
  tq_Limit :: int
  tq_Offset :: int

definition parse_tests_request :: "analytics_env \<Rightarrow> query \<Rightarrow> string + tests_request" where
  "parse_tests_request env q =
     (case parseEvidenceFilter (he_time env) q of
        Inl _ \<Rightarrow> Inl ''invalid filter''
      | Inr flt \<Rightarrow>
        (case parseThresholds (ae_float env) q of
           Inl name \<Rightarrow> Inl name
         | Inr th \<Rightarrow>
           if q_get q ''sort'' \<noteq> '''' \<and> \<not> stats_IsSortable (q_get q ''sort'') then Inl ''cannot sort''
           else if q_get q ''order'' \<notin> {'''', ''asc'', ''desc''} then Inl ''order''
           else
             let l = atoi (q_get q ''limit''); f = atoi (q_get q ''offset'') in
             if q_get q ''limit'' \<noteq> '''' \<and> (case l of None \<Rightarrow> True | Some n \<Rightarrow> n \<le> 0 \<or> he_MaxPageSize env < n) then Inl ''limit''
             else if q_get q ''offset'' \<noteq> '''' \<and> (case f of None \<Rightarrow> True | Some n \<Rightarrow> n < 0) then Inl ''offset''
             else Inr \<lparr>tq_Filter = flt, tq_Thresholds = th, tq_Desc = (q_get q ''order'' = ''desc''),
                       tq_Limit = (if q_get q ''limit'' = '''' then he_DefaultPageSize env else the l),
                       tq_Offset = (if q_get q ''offset'' = '''' then 0 else the f)\<rparr>))"

definition page_of :: "int \<Rightarrow> int \<Rightarrow> 'a list \<Rightarrow> 'a list option" where
  "page_of limit offset xs =
     (let rest = (if int (length xs) \<le> offset then [] else drop (nat offset) xs) in
      if limit < int (length rest) then (if limit < 0 then None else Some (take (nat limit) rest)) else Some rest)"

definition handle_Tests ::
  "analytics_env \<Rightarrow> query \<Rightarrow> clock \<Rightarrow> evidence_db \<Rightarrow> stats_cache \<Rightarrow> analytics_reply \<times> stats_cache" where
  "handle_Tests env q clk d c =
     (case parse_tests_request env q of
        Inl msg \<Rightarrow> (Refused 400 msg, c)
      | Inr tq \<Rightarrow>
        (case EvidenceStore_TestStats (ae_hash env) (he_pg env) (ae_plan env) (he_fails env) clk
               \<lparr>tp_Filter = tq_Filter tq, tp_GroupByEvidenceType = (q_get q ''group_by'' = ''evidence_type''), tp_MaxGroups = 0\<rparr> d c of
           (Inl StatsQuery, c') \<Rightarrow>
             (if he_over_budget env then Refused 422 ''query did not finish'' else Refused 500 ''internal error'', c')
         | (Inl (TooManyGroups n), c') \<Rightarrow> (Refused 422 ''too many groups'', c')
         | (Inr raw, c') \<Rightarrow>
             let stats = Finalize (tq_Thresholds tq) raw; label = q_get q ''label'' in
             if label \<noteq> '''' \<and> \<not> IsLabel label then (Refused 400 (''unknown label '' @ label), c')
             else
               case Sort (if label = '''' then stats else WithLabel stats label) (q_get q ''sort'') (tq_Desc tq) of
                 Inl msg \<Rightarrow> (Refused 400 msg, c')
               | Inr sorted_stats \<Rightarrow>
                   if q_get q ''format'' = ''csv'' then (Tests_CSV (writeTestStatsCSV sorted_stats), c')
                   else case page_of (tq_Limit tq) (tq_Offset tq) sorted_stats of
                       None \<Rightarrow> (Slice_Panics, c')
                     | Some page \<Rightarrow> (Tests_OK \<lparr>tr_Window = summarizeWindow sorted_stats, tr_Thresholds = tq_Thresholds tq,
                         tr_Tests = page, tr_Total = length sorted_stats\<rparr>, c')))"

definition MaxClusterTests :: nat where "MaxClusterTests = 2000"
definition MaxClusterRuns :: nat where "MaxClusterRuns = 20000"

definition DefaultClusterThreshold :: float64 where "DefaultClusterThreshold = Num (fl (3 / 5))"

definition handle_Clusters :: "analytics_env \<Rightarrow> (nat list \<Rightarrow> nat list) \<Rightarrow> query \<Rightarrow> evidence_db \<Rightarrow> analytics_reply" where
  "handle_Clusters env map_order q d =
     (case parseEvidenceFilter (he_time env) q of
        Inl _ \<Rightarrow> Refused 400 ''invalid filter''
      | Inr flt \<Rightarrow>
        let runKey = (if q_get q ''run_key'' = '''' then RunKeyAuto else q_get q ''run_key'');
            includeErrors = (q_get q ''include_errors'' = ''true'') in
        if \<not> RunKey_Valid runKey then Refused 400 ''run_key''
        else case parseRateParam (ae_float env) q ''threshold'' DefaultClusterThreshold of
            Inl name \<Rightarrow> Refused 400 name
          | Inr threshold \<Rightarrow>
            (case FailureOccurrences (he_pg env) (ae_plan env) (he_fails env)
                   \<lparr>fp_Filter = flt, fp_RunKey = runKey, fp_IncludeErrors = includeErrors, fp_MaxRows = 0\<rparr> d of
               Inl (TooManyRows n) \<Rightarrow> Refused 422 ''too many rows''
             | Inl _ \<Rightarrow> if he_over_budget env then Refused 422 ''query did not finish'' else Refused 500 ''internal error''
             | Inr occs \<Rightarrow>
                 let m = NewMatrix occs in
                 if MaxClusterTests < Matrix_Tests m then Refused 422 ''too many tests''
                 else if MaxClusterRuns < Matrix_Runs m then Refused 422 ''too many runs''
                 else Clusters_OK \<lparr>cr_RunKey = runKey, cr_IncludeErrors = includeErrors, cr_Threshold = threshold,
                   cr_Tests = Matrix_Tests m, cr_FailingRuns = FailingRuns m,
                   cr_Clusters = Cluster map_order m threshold, cr_MinimalSet = GreedyCover m\<rparr>))"

definition handle_Summary :: "analytics_env \<Rightarrow> query \<Rightarrow> evidence_db \<Rightarrow> analytics_reply" where
  "handle_Summary env q d =
     (case parseEvidenceFilter (he_time env) q of
        Inl _ \<Rightarrow> Refused 400 ''invalid filter''
      | Inr flt \<Rightarrow>
        (case EvidenceStore_Summary (he_pg env) (he_fails env) flt d of
           None \<Rightarrow> if he_over_budget env then Refused 422 ''query did not finish'' else Refused 500 ''internal error''
         | Some sm \<Rightarrow>
             let c = \<lparr>c_Pass = ws_Pass sm, c_Fail = ws_Fail sm, c_Error = ws_Error sm, c_Skipped = ws_Skipped sm,
                      c_Flips = 0, c_Transitions = 0, c_FlakyCommits = 0\<rparr>
             in Summary_OK sm (FailRate c) (ErrorRate c)))"


section \<open>What the cache may answer\<close>

text \<open>One call of \<^verbatim>\<open>TestStats\<close>: when, for what, and on which tables.\<close>

record stats_call =
  sq_clock :: clock
  sq_params :: stats_params
  sq_plan :: "group_cols list \<Rightarrow> group_cols list"
  sq_fails :: "nat \<Rightarrow> bool"
  sq_db :: evidence_db

definition answer :: "(evidence_filter \<times> bool \<times> int \<Rightarrow> string) \<Rightarrow> database \<Rightarrow> stats_call \<Rightarrow> stats_cache
    \<Rightarrow> (stats_error + test_stats list) \<times> stats_cache" where
  "answer hash pg q c = EvidenceStore_TestStats hash pg (sq_plan q) (sq_fails q) (sq_clock q) (sq_params q) (sq_db q) c"

definition computed :: "database \<Rightarrow> stats_call \<Rightarrow> stats_error + test_stats list" where
  "computed pg q = query_stats pg (sq_plan q) (sq_fails q) (sq_params q) (sq_db q)"

fun after_calls :: "(evidence_filter \<times> bool \<times> int \<Rightarrow> string) \<Rightarrow> database \<Rightarrow> stats_call list \<Rightarrow> stats_cache \<Rightarrow> stats_cache" where
  "after_calls hash pg [] c = c"
| "after_calls hash pg (q # qs) c = after_calls hash pg qs (snd (answer hash pg q c))"

lemma after_calls_snoc: "after_calls hash pg (qs @ [q]) c = snd (answer hash pg q (after_calls hash pg qs c))"
  by (induction qs arbitrary: c) simp_all

text \<open>Every entry is what some call computed, until its time is over.\<close>

definition cache_wf :: "(evidence_filter \<times> bool \<times> int \<Rightarrow> string) \<Rightarrow> database \<Rightarrow> duration \<Rightarrow> int \<Rightarrow> stats_call list \<Rightarrow> stats_cache \<Rightarrow> bool" where
  "cache_wf hash pg ttl mx qs c \<longleftrightarrow>
     ca_ttl c = ttl \<and> ca_max c = mx \<and> length (ca_entries c) \<le> nat mx
     \<and> (\<forall>(k, e) \<in> set (ca_entries c). \<exists>q \<in> set qs.
          statsCacheKey hash (sq_params q) = k \<and> computed pg q = Inr (se_stats e)
          \<and> se_expires e = snd (snd (sq_clock q)) + ttl)"

lemma cache_wfI:
  assumes "ca_ttl c = ttl" and "ca_max c = mx" and "length (ca_entries c) \<le> nat mx"
    and "\<And>k e. (k, e) \<in> set (ca_entries c) \<Longrightarrow> \<exists>q \<in> set qs. statsCacheKey hash (sq_params q) = k
      \<and> computed pg q = Inr (se_stats e) \<and> se_expires e = snd (snd (sq_clock q)) + ttl"
  shows "cache_wf hash pg ttl mx qs c"
  unfolding cache_wf_def using assms by blast

lemma cache_wf_new: "cache_wf hash pg ttl mx [] (newStatsCache ttl mx)"
  by (simp add: cache_wf_def newStatsCache_def)

lemma cache_wf_mono: "cache_wf hash pg ttl mx qs c \<Longrightarrow> set qs \<subseteq> set qs' \<Longrightarrow> cache_wf hash pg ttl mx qs' c"
  unfolding cache_wf_def by fastforce

lemma cache_wf_subset:
  assumes "cache_wf hash pg ttl mx qs c" and "set es \<subseteq> set (ca_entries c)" and "length es \<le> length (ca_entries c)"
  shows "cache_wf hash pg ttl mx qs (c\<lparr>ca_entries := es\<rparr>)"
proof -
  have "length es \<le> nat mx" using assms(1,3) unfolding cache_wf_def by simp
  then show ?thesis using assms(1,2) unfolding cache_wf_def by fastforce
qed

lemma drop_key_subset: "set (drop_key k m) \<subseteq> set m" and drop_key_length: "length (drop_key k m) \<le> length m"
  by (auto simp: drop_key_def)

lemma cache_get_wf:
  assumes "cache_wf hash pg ttl mx qs c"
  shows "cache_wf hash pg ttl mx qs (snd (cache_get t k c))"
proof -
  have "cache_wf hash pg ttl mx qs (c\<lparr>ca_entries := drop_key k (ca_entries c)\<rparr>)"
    by (rule cache_wf_subset [OF assms drop_key_subset drop_key_length])
  then show ?thesis using assms by (simp add: cache_get_def split: option.split)
qed

text \<open>A hit was computed by a call with the same key and has not expired.\<close>

lemma cache_get_hit:
  assumes "cache_wf hash pg ttl mx qs c" and "cache_get t k c = (Some stats, c')"
  shows "0 < ttl \<and> (\<exists>q \<in> set qs. statsCacheKey hash (sq_params q) = k \<and> computed pg q = Inr stats
    \<and> t \<le> snd (snd (sq_clock q)) + ttl)"
proof -
  obtain e where e: "map_of (ca_entries c) k = Some e" "\<not> se_expires e < t" "se_stats e = stats" and on: "cache_enabled c"
    using assms(2) by (auto simp: cache_get_def split: if_splits option.splits)
  have "(k, e) \<in> set (ca_entries c)" using e(1) by (rule map_of_SomeD)
  then obtain q where "q \<in> set qs" "statsCacheKey hash (sq_params q) = k" "computed pg q = Inr (se_stats e)"
      "se_expires e = snd (snd (sq_clock q)) + ttl"
    using assms(1) unfolding cache_wf_def by blast
  moreover have "0 < ttl" using on assms(1) by (simp add: cache_enabled_def cache_wf_def)
  ultimately show ?thesis using e(2,3) by auto
qed

lemma cache_put_wf:
  assumes "cache_wf hash pg ttl mx qs c" and "q \<in> set qs" and "computed pg q = Inr stats"
  shows "cache_wf hash pg ttl mx qs (cache_put t (snd (snd (sq_clock q))) (statsCacheKey hash (sq_params q)) stats c)"
proof -
  define c' where "c' = (if ca_max c \<le> int (length (ca_entries c))
    then c\<lparr>ca_entries := filter (\<lambda>(_, e). \<not> se_expires e < t) (ca_entries c)\<rparr> else c)"
  have c': "cache_wf hash pg ttl mx qs c'"
    unfolding c'_def using assms(1) cache_wf_subset [OF assms(1), of "filter (\<lambda>(_, e). \<not> se_expires e < t) (ca_entries c)"]
    by auto
  let ?es = "(statsCacheKey hash (sq_params q), \<lparr>se_stats = stats, se_expires = snd (snd (sq_clock q)) + ttl\<rparr>)
    # drop_key (statsCacheKey hash (sq_params q)) (ca_entries c')"
  have "cache_wf hash pg ttl mx qs (c'\<lparr>ca_entries := ?es\<rparr>)" if "int (length (ca_entries c')) < mx"
  proof -
    have "length ?es \<le> nat mx" 
      using that drop_key_length [of "statsCacheKey hash (sq_params q)" "ca_entries c'"] by simp
    moreover have "\<exists>q \<in> set qs. statsCacheKey hash (sq_params q) = k \<and> computed pg q = Inr (se_stats e)
        \<and> se_expires e = snd (snd (sq_clock q)) + ttl" if "(k, e) \<in> set ?es" for k e
      using that assms(2,3) c' drop_key_subset unfolding cache_wf_def by fastforce
    moreover have "ca_ttl c' = ttl" "ca_max c' = mx" using c' by (simp_all add: cache_wf_def)
    ultimately show ?thesis by (intro cache_wfI) simp_all
  qed
  moreover have "ca_max c = mx" "ca_ttl c = ttl" using assms(1) by (simp_all add: cache_wf_def)
  moreover from this have "cache_put t (snd (snd (sq_clock q))) (statsCacheKey hash (sq_params q)) stats c
      = (if \<not> cache_enabled c then c
         else if mx \<le> int (length (ca_entries c')) then c' else c'\<lparr>ca_entries := ?es\<rparr>)"
    unfolding cache_put_def Let_def c'_def by simp
  ultimately show ?thesis using assms(1) c' by simp
qed


lemma answer_cases:
  "answer hash pg q c =
     (case cache_get (fst (sq_clock q)) (statsCacheKey hash (sq_params q)) c of
        (Some cached, c') \<Rightarrow> (Inr cached, c')
      | (None, c') \<Rightarrow>
          (case computed pg q of
             Inl err \<Rightarrow> (Inl err, c')
           | Inr stats \<Rightarrow> (Inr stats, cache_put (fst (snd (sq_clock q))) (snd (snd (sq_clock q)))
               (statsCacheKey hash (sq_params q)) stats c')))"
  unfolding answer_def EvidenceStore_TestStats_def computed_def case_prod_unfold Let_def ..

lemma answer_wf:
  assumes "cache_wf hash pg ttl mx qs c"
  shows "cache_wf hash pg ttl mx (qs @ [q]) (snd (answer hash pg q c))"
proof -
  let ?g = "cache_get (fst (sq_clock q)) (statsCacheKey hash (sq_params q)) c"
  have g: "cache_wf hash pg ttl mx (qs @ [q]) (snd ?g)"
    by (rule cache_wf_mono [OF cache_get_wf [OF assms]]) auto
  then have "cache_wf hash pg ttl mx (qs @ [q]) (cache_put (fst (snd (sq_clock q))) (snd (snd (sq_clock q)))
      (statsCacheKey hash (sq_params q)) stats (snd ?g))" if "computed pg q = Inr stats" for stats
    using that by (intro cache_put_wf) simp_all
  with g show ?thesis unfolding answer_cases by (auto split: prod.splits option.splits sum.splits)
qed

lemma after_calls_wf: "cache_wf hash pg ttl mx qs (after_calls hash pg qs (newStatsCache ttl mx))"
proof (induction qs rule: rev_induct)
  case (snoc q qs)
  then show ?case unfolding after_calls_snoc by (rule answer_wf)
qed (simp add: cache_wf_new)

text \<open>
  C23. The cache answers nothing older than its lifetime, and only what was asked. After any
  sequence of calls on changing tables, if the key of a call collides with no other, an
  aggregation answered with success is either the one its own tables have now, or one that an
  earlier call with the same filter, grouping and limit computed and stored less than the lifetime
  ago; an error is an error of its own query. With a lifetime of zero or less every answer is its
  own. The cache never holds more entries than its limit.
\<close>

theorem cached_stats_recent:
  assumes "inj_on hash ((\<lambda>q. (tp_Filter (sq_params q), tp_GroupByEvidenceType (sq_params q), tp_MaxGroups (sq_params q))) ` set (q # qs))"
    and "answer hash pg q (after_calls hash pg qs (newStatsCache ttl mx)) = (result, c')"
  shows "(result = computed pg q
      \<or> 0 < ttl \<and> (\<exists>old \<in> set qs. sq_params old = sq_params q \<and> computed pg old = result
          \<and> (\<exists>stats. result = Inr stats) \<and> fst (sq_clock q) \<le> snd (snd (sq_clock old)) + ttl))
    \<and> length (ca_entries c') \<le> nat mx"
proof -
  let ?c = "after_calls hash pg qs (newStatsCache ttl mx)"
  let ?k = "statsCacheKey hash (sq_params q)"
  have wf: "cache_wf hash pg ttl mx qs ?c" by (rule after_calls_wf)
  have same: "sq_params old = sq_params q" if "old \<in> set qs" "statsCacheKey hash (sq_params old) = ?k" for old
  proof -
    have "(tp_Filter (sq_params old), tp_GroupByEvidenceType (sq_params old), tp_MaxGroups (sq_params old))
        = (tp_Filter (sq_params q), tp_GroupByEvidenceType (sq_params q), tp_MaxGroups (sq_params q))"
      using that by (intro inj_onD [OF assms(1)]) (auto simp: statsCacheKey_def)
    then show ?thesis by simp
  qed
  have "cache_wf hash pg ttl mx (qs @ [q]) c'" using answer_wf [OF wf, of q] assms(2) by simp
  then have "length (ca_entries c') \<le> nat mx" by (simp add: cache_wf_def)
  moreover have "result = computed pg q
      \<or> 0 < ttl \<and> (\<exists>old \<in> set qs. sq_params old = sq_params q \<and> computed pg old = result
          \<and> (\<exists>stats. result = Inr stats) \<and> fst (sq_clock q) \<le> snd (snd (sq_clock old)) + ttl)"
  proof (cases "cache_get (fst (sq_clock q)) ?k ?c")
    case (Pair hit c1)
    show ?thesis
    proof (cases hit)
      case None
      then have "result = computed pg q" using assms(2) Pair unfolding answer_cases by (simp split: sum.splits)
      then show ?thesis ..
    next
      case (Some stats)
      then have "result = Inr stats" using assms(2) Pair unfolding answer_cases by simp
      then show ?thesis using cache_get_hit [OF wf Pair [unfolded Some]] same by blast
    qed
  qed
  ultimately show ?thesis by blast
qed

text \<open>Within the lifetime a repeated call is answered from the cache.\<close>

lemma cached_hit:
  assumes "computed pg old = Inr s" and "sq_params q = sq_params old" and "0 < ttl" and "0 < mx"
    and "fst (sq_clock q) \<le> snd (snd (sq_clock old)) + ttl"
  shows "fst (answer hash pg q (after_calls hash pg [old] (newStatsCache ttl mx))) = Inr s"
  using assms by (simp add: answer_cases cache_get_def cache_put_def newStatsCache_def cache_enabled_def drop_key_def)

definition demo_call :: "clock \<Rightarrow> evidence_db \<Rightarrow> stats_call" where
  "demo_call t d = \<lparr>sq_clock = t, sq_params = \<lparr>tp_Filter = no_filter, tp_GroupByEvidenceType = False, tp_MaxGroups = 0\<rparr>,
     sq_plan = (\<lambda>ks. ks), sq_fails = (\<lambda>_. False), sq_db = d\<rparr>"

text \<open>The second call still sees the empty table, ten units later; after another hundred it does not.\<close>

theorem cached_stats_recent_witness:
  "fst (answer (\<lambda>_. ''k'') plain_database (demo_call (20, 20, 20) three_rows)
      (after_calls (\<lambda>_. ''k'') plain_database [demo_call (10, 10, 10) no_evidence] (newStatsCache 50 4)))
    = computed plain_database (demo_call (10, 10, 10) no_evidence)
   \<and> fst (answer (\<lambda>_. ''k'') plain_database (demo_call (120, 120, 120) three_rows)
      (after_calls (\<lambda>_. ''k'') plain_database [demo_call (10, 10, 10) no_evidence] (newStatsCache 50 4)))
    = computed plain_database (demo_call (120, 120, 120) three_rows)"
proof -
  let ?hash = "\<lambda>_. ''k''"
  let ?old = "demo_call (10, 10, 10) no_evidence" and ?c = "newStatsCache 50 4"
  have inj: "inj_on ?hash ((\<lambda>q. (tp_Filter (sq_params q), tp_GroupByEvidenceType (sq_params q), tp_MaxGroups (sq_params q)))
      ` set [demo_call t d, ?old])" for t d
    by (simp add: demo_call_def)
  have hit: "fst (answer ?hash plain_database (demo_call (20, 20, 20) three_rows) (after_calls ?hash plain_database [?old] ?c))
      = computed plain_database ?old"
  proof -
    have empty: "computed plain_database ?old = Inr []"
      by (simp add: computed_def query_stats_def demo_call_def no_evidence_def select_rows_def DefaultMaxAnalyticsGroups_def)
    show ?thesis unfolding empty by (rule cached_hit [OF empty]) (simp_all add: demo_call_def)
  qed
  moreover have "fst (answer ?hash plain_database (demo_call (120, 120, 120) three_rows)
        (after_calls ?hash plain_database [?old] ?c)) = computed plain_database (demo_call (120, 120, 120) three_rows)"
    (is "fst ?a = ?now")
  proof -
    have "(fst ?a = ?now \<or> 0 < (50 :: int) \<and> (\<exists>old \<in> set [?old]. sq_params old = sq_params (demo_call (120, 120, 120) three_rows)
        \<and> computed plain_database old = fst ?a \<and> (\<exists>stats. fst ?a = Inr stats)
        \<and> fst (sq_clock (demo_call (120, 120, 120) three_rows)) \<le> snd (snd (sq_clock old)) + 50))
      \<and> length (ca_entries (snd ?a)) \<le> nat 4"
      by (rule cached_stats_recent [OF inj surjective_pairing])
    moreover have "\<not> fst (sq_clock (demo_call (120, 120, 120) three_rows)) \<le> snd (snd (sq_clock ?old)) + 50"
      by (simp add: demo_call_def)
    ultimately show ?thesis by simp
  qed
  ultimately show ?thesis by blast
qed


section \<open>The table and the headline agree\<close>

lemma sum_one_key: "distinct ks \<Longrightarrow> sum_list (map (\<lambda>k. if x = k then (1::nat) else 0) ks) = (if x \<in> set ks then 1 else 0)"
  by (induction ks) auto

text \<open>Groups partition the rows.\<close>

lemma sum_groups:
  assumes "distinct ks" and "f ` set rows \<subseteq> set ks"
  shows "sum_list (map (\<lambda>k. length (filter (\<lambda>e. f e = k) rows)) ks) = length rows"
  using assms(2)
proof (induction rows)
  case (Cons e rows)
  have "(\<lambda>k. length (filter (\<lambda>e. f e = k) (e # rows)))
      = (\<lambda>k. (if f e = k then 1 else 0) + length (filter (\<lambda>e. f e = k) rows))" by auto
  then show ?case using Cons sum_one_key [OF assms(1), of "f e"] by (simp add: sum_list_addf)
qed simp

lemma sum_list_int: "sum_list (map (\<lambda>k. int (g k)) ks) = int (sum_list (map g ks))"
  by (induction ks) simp_all

lemma count_result_groups:
  assumes "distinct ks" and "f ` set rows \<subseteq> set ks"
  shows "sum_list (map (\<lambda>k. count_result r (filter (\<lambda>e. f e = k) rows)) ks) = count_result r rows"
proof -
  have "filter (\<lambda>e. ev_Result e = r) (filter (\<lambda>e. f e = k) rows)
      = filter (\<lambda>e. f e = k) (filter (\<lambda>e. ev_Result e = r) rows)" for k by (simp add: conj_commute)
  moreover have "f ` set (filter (\<lambda>e. ev_Result e = r) rows) \<subseteq> set ks" using assms(2) by auto
  ultimately show ?thesis
    using sum_groups [OF assms(1), of f "filter (\<lambda>e. ev_Result e = r) rows"] by (simp add: count_result_def sum_list_int)
qed

lemma counts_partition:
  "\<forall>e \<in> set rows. EvidenceResult_Valid (ev_Result e) \<Longrightarrow>
     count_result ResultPass rows + count_result ResultFail rows + count_result ResultError rows
       + count_result ResultSkipped rows = int (length rows)"
  by (induction rows) (auto simp: count_result_def EvidenceResult_Valid_def result_defs)

text \<open>The runs of a row of the table are the records of its group.\<close>

lemma aggregate_runs:
  "\<forall>e \<in> set rows. EvidenceResult_Valid (ev_Result e) \<Longrightarrow> Runs (ts_Counts (aggregate rows k)) = int (length rows)"
  using counts_partition by (simp add: aggregate_def Runs_def split: prod.split)

lemma window_runs: "aw_Runs (fold widen stats w) = aw_Runs w + sum_list (map ts_Runs stats)"
  by (induction stats arbitrary: w) (simp_all add: widen_def)

lemma window_tests: "aw_Tests (fold widen stats w) = aw_Tests w"
  by (induction stats arbitrary: w) (simp_all add: widen_def)

lemma widen_span:
  "aw_From (widen s w) = Some (case aw_From w of None \<Rightarrow> ts_FirstSeen s | Some t \<Rightarrow> min t (ts_FirstSeen s))"
  "aw_To (widen s w) = Some (case aw_To w of None \<Rightarrow> ts_LastSeen s | Some t \<Rightarrow> max t (ts_LastSeen s))"
  by (auto simp: widen_def min_def max_def split: option.split)

lemma window_span:
  assumes "aw_From w = None" and "aw_To w = None"
  shows "aw_From (fold widen stats w) = (if stats = [] then None else Some (Min (ts_FirstSeen ` set stats)))"
    and "aw_To (fold widen stats w) = (if stats = [] then None else Some (Max (ts_LastSeen ` set stats)))"
proof -
  show "aw_From (fold widen stats w) = (if stats = [] then None else Some (Min (ts_FirstSeen ` set stats)))"
    by (induction stats rule: rev_induct) (use assms in \<open>simp_all add: widen_span min.commute\<close>)
  show "aw_To (fold widen stats w) = (if stats = [] then None else Some (Max (ts_LastSeen ` set stats)))"
    by (induction stats rule: rev_induct) (use assms in \<open>simp_all add: widen_span max.commute\<close>)
qed

lemma Min_groups:
  fixes F :: "'a \<Rightarrow> instant"
  assumes "set ks = f ` set rows" and "rows \<noteq> []"
  shows "Min ((\<lambda>k. Min (F ` set (filter (\<lambda>e. f e = k) rows))) ` set ks) = Min (F ` set rows)"
    and "Max ((\<lambda>k. Max (F ` set (filter (\<lambda>e. f e = k) rows))) ` set ks) = Max (F ` set rows)"
proof -
  have group: "F ` set (filter (\<lambda>e. f e = k) rows) \<noteq> {}" if "k \<in> set ks" for k
    using that assms(1) by auto
  have sub: "F ` set (filter (\<lambda>e. f e = k) rows) \<subseteq> F ` set rows" for k by auto
  have "Min (F ` set rows) \<in> F ` set rows" using assms(2) by (intro Min_in) simp_all
  then obtain e where e: "e \<in> set rows" "F e = Min (F ` set rows)" by (metis imageE)
  show "Min ((\<lambda>k. Min (F ` set (filter (\<lambda>e. f e = k) rows))) ` set ks) = Min (F ` set rows)"
  proof (rule Min_eqI)
    show "Min (F ` set rows) \<le> y" if y: "y \<in> (\<lambda>k. Min (F ` set (filter (\<lambda>e. f e = k) rows))) ` set ks" for y
    proof -
      obtain k where k: "k \<in> set ks" "y = Min (F ` set (filter (\<lambda>e. f e = k) rows))" using y by blast
      show ?thesis unfolding k(2) by (rule Min_antimono [OF sub group [OF k(1)]]) simp
    qed
    have "Min (F ` set (filter (\<lambda>e'. f e' = f e) rows)) = Min (F ` set rows)"
      using e by (intro Min_eqI) (auto intro: rev_image_eqI)
    then show "Min (F ` set rows) \<in> (\<lambda>k. Min (F ` set (filter (\<lambda>e. f e = k) rows))) ` set ks"
      using e(1) assms(1) by force
  qed simp
  have "Max (F ` set rows) \<in> F ` set rows" using assms(2) by (intro Max_in) simp_all
  then obtain e where e: "e \<in> set rows" "F e = Max (F ` set rows)" by (metis imageE)
  show "Max ((\<lambda>k. Max (F ` set (filter (\<lambda>e. f e = k) rows))) ` set ks) = Max (F ` set rows)"
  proof (rule Max_eqI)
    show "y \<le> Max (F ` set rows)" if y: "y \<in> (\<lambda>k. Max (F ` set (filter (\<lambda>e. f e = k) rows))) ` set ks" for y
    proof -
      obtain k where k: "k \<in> set ks" "y = Max (F ` set (filter (\<lambda>e. f e = k) rows))" using y by blast
      show ?thesis unfolding k(2) by (rule Max_mono [OF sub group [OF k(1)]]) simp
    qed
    have "Max (F ` set (filter (\<lambda>e'. f e' = f e) rows)) = Max (F ` set rows)"
      using e by (intro Max_eqI) (auto intro: rev_image_eqI)
    then show "Max (F ` set rows) \<in> (\<lambda>k. Max (F ` set (filter (\<lambda>e. f e = k) rows))) ` set ks"
      using e(1) assms(1) by force
  qed simp
qed

text \<open>What a successful aggregation consists of.\<close>

lemma query_stats_rows:
  assumes "\<And>ks. mset (plan ks) = mset ks" and "query_stats pg plan fails p d = Inr stats"
  shows "\<exists>rows ks. select_rows pg (buildFilter (tp_Filter p)) (ed_rows d) = Some rows
    \<and> set ks = group_cols (tp_GroupByEvidenceType p) ` set rows \<and> distinct ks \<and> \<not> fails (ed_stmt d)
    \<and> stats = map (\<lambda>k. aggregate (filter (\<lambda>e. group_cols (tp_GroupByEvidenceType p) e = k) rows) k) ks"
proof -
  obtain rows where rows: "select_rows pg (buildFilter (tp_Filter p)) (ed_rows d) = Some rows" and up: "\<not> fails (ed_stmt d)"
    using assms(2) by (auto simp: query_stats_def Let_def split: if_splits option.splits)
  let ?mx = "if tp_MaxGroups p \<le> 0 then DefaultMaxAnalyticsGroups else tp_MaxGroups p"
  let ?ks = "plan (remdups (map (group_cols (tp_GroupByEvidenceType p)) rows))"
  have stats: "stats = map (\<lambda>k. aggregate (filter (\<lambda>e. group_cols (tp_GroupByEvidenceType p) e = k) rows) k) (take (nat (?mx + 1)) ?ks)"
    and few: "int (length stats) \<le> ?mx"
    using assms(2) rows up unfolding query_stats_def Let_def by (auto split: if_splits)
  have "take (nat (?mx + 1)) ?ks = ?ks"
  proof (rule ccontr)
    assume "take (nat (?mx + 1)) ?ks \<noteq> ?ks"
    then have "nat (?mx + 1) < length ?ks" by (metis not_less take_all)
    then have "length stats = nat (?mx + 1)" using stats by simp
    then show False using few by linarith
  qed
  moreover have "mset ?ks = mset (remdups (map (group_cols (tp_GroupByEvidenceType p)) rows))" by (rule assms(1))
  then have "set ?ks = set (map (group_cols (tp_GroupByEvidenceType p)) rows)" "distinct ?ks"
    by (metis mset_eq_setD set_remdups, metis distinct_remdups mset_eq_imp_distinct_iff)
  ultimately show ?thesis using rows up stats by (intro exI [of _ rows] exI [of _ ?ks]) simp
qed


lemma Finalize_simps:
  "map ts_Runs (Finalize th stats) = map (\<lambda>s. Runs (ts_Counts s)) stats"
  "map ts_FirstSeen (Finalize th stats) = map ts_FirstSeen stats" "map ts_LastSeen (Finalize th stats) = map ts_LastSeen stats"
  "length (Finalize th stats) = length stats"
  by (simp_all add: Finalize_def finalize_one_def Let_def)

lemma Sort_mset:
  assumes "Sort stats key desc = Inr xs"
  shows "mset xs = mset stats" and "sorted_wrt (\<lambda>a b. row_order (key_compare (if key = '''' then DefaultSortKey else key)) desc a b \<le> 0) xs"
proof -
  let ?k = "if key = '''' then DefaultSortKey else key"
  have "xs = SortStableFunc (row_order (key_compare ?k) desc) stats"
    using assms by (cases "sortKeys ?k") (simp_all add: Sort_def key_compare_def Let_def)
  then show "mset xs = mset stats" "sorted_wrt (\<lambda>a b. row_order (key_compare ?k) desc a b \<le> 0) xs"
    using rows.mset_SortStableFunc rows.sorted_SortStableFunc by simp_all
qed

lemma summarizeWindow_mset:
  assumes "mset xs = mset ys"
  shows "summarizeWindow xs = summarizeWindow ys"
proof -
  have s: "set xs = set ys" "length xs = length ys" using assms mset_eq_setD mset_eq_length by blast+
  have "mset (map ts_Runs xs) = mset (map ts_Runs ys)" using assms by simp
  then have "sum_list (map ts_Runs xs) = sum_list (map ts_Runs ys)" by (metis sum_mset_sum_list)
  moreover have "xs = [] \<longleftrightarrow> ys = []" using s(2) by auto
  ultimately show ?thesis
    unfolding summarizeWindow_def
    by (intro analytics_window.equality) (simp_all add: window_runs window_tests window_span s)
qed

text \<open>The window over the rows of an aggregation is the span and the number of the records.\<close>

lemma summarizeWindow_stats:
  assumes "\<And>ks. mset (plan ks) = mset ks" and "query_stats pg plan fails p d = Inr stats" and "evidence_wf d"
    and "EvidenceStore_Summary pg fails (tp_Filter p) d = Some sm"
  shows "summarizeWindow (Finalize th stats) = \<lparr>aw_From = ws_FirstSeen sm, aw_To = ws_LastSeen sm, aw_Runs = ws_Runs sm,
      aw_Tests = length stats\<rparr>"
    and "\<not> tp_GroupByEvidenceType p \<Longrightarrow> int (length stats) = ws_Tests sm"
proof -
  obtain rows ks where rows: "select_rows pg (buildFilter (tp_Filter p)) (ed_rows d) = Some rows"
    and ks: "set ks = group_cols (tp_GroupByEvidenceType p) ` set rows" "distinct ks"
    and stats: "stats = map (\<lambda>k. aggregate (filter (\<lambda>e. group_cols (tp_GroupByEvidenceType p) e = k) rows) k) ks"
    using query_stats_rows [OF assms(1,2)] by blast
  let ?f = "group_cols (tp_GroupByEvidenceType p)"
  let ?g = "\<lambda>k. filter (\<lambda>e. ?f e = k) rows"
  have valid: "\<forall>e \<in> set rows. EvidenceResult_Valid (ev_Result e)"
    using rows assms(3) by (auto simp: select_rows_def evidence_wf_def split: if_splits)
  have "sum_list (map (\<lambda>s. Runs (ts_Counts s)) stats) = sum_list (map (\<lambda>k. int (length (?g k))) ks)"
    using valid by (simp add: stats o_def aggregate_runs)
  also have "\<dots> = int (length rows)" using sum_groups [OF ks(2), of ?f rows] ks(1) by (simp add: sum_list_int)
  finally have runs: "sum_list (map (\<lambda>s. Runs (ts_Counts s)) stats) = int (length rows)" .
  have span: "ts_FirstSeen ` set stats = (\<lambda>k. Min (ev_FinishedAt ` set (?g k))) ` set ks"
      "ts_LastSeen ` set stats = (\<lambda>k. Max (ev_FinishedAt ` set (?g k))) ` set ks"
    by (force simp: stats aggregate_def split: prod.split)+
  have empty: "stats = [] \<longleftrightarrow> rows = []" using ks(1) stats by auto
  have seen: "ts_FirstSeen ` set (Finalize th stats) = ts_FirstSeen ` set stats"
      "ts_LastSeen ` set (Finalize th stats) = ts_LastSeen ` set stats"
    using arg_cong [OF Finalize_simps(2), of set th stats] arg_cong [OF Finalize_simps(3), of set th stats] by simp_all
  have sm: "ws_Runs sm = int (length rows)" "ws_FirstSeen sm = (if rows = [] then None else Some (Min (ev_FinishedAt ` set rows)))"
      "ws_LastSeen sm = latest_at rows" "ws_Tests sm = int (length (remdups (map (\<lambda>e. (ev_Repo e, ev_ProcedureRef e)) rows)))"
    using assms(4) rows by (auto simp: EvidenceStore_Summary_def split: if_splits)
  have "Finalize th stats = [] \<longleftrightarrow> rows = []" using empty Finalize_simps(4) [of th stats] by auto
  then show "summarizeWindow (Finalize th stats) = \<lparr>aw_From = ws_FirstSeen sm, aw_To = ws_LastSeen sm, aw_Runs = ws_Runs sm,
      aw_Tests = length stats\<rparr>"
    unfolding summarizeWindow_def using Min_groups [OF ks(1), of ev_FinishedAt]
    by (intro analytics_window.equality)
       (simp_all add: window_runs window_tests window_span seen span sm latest_at_def Finalize_simps runs)
  show "int (length stats) = ws_Tests sm" if "\<not> tp_GroupByEvidenceType p"
  proof -
    have "?f = (\<lambda>(r, q). (r, q, '''')) \<circ> (\<lambda>e. (ev_Repo e, ev_ProcedureRef e))" using that by (auto simp: group_cols_def)
    then have "set ks = (\<lambda>(r, q). (r, q, '''')) ` (\<lambda>e. (ev_Repo e, ev_ProcedureRef e)) ` set rows"
      unfolding ks(1) by (simp add: image_comp)
    moreover have "inj (\<lambda>(r, q). (r :: string, q :: string, '''' :: string))" by (auto simp: inj_def)
    ultimately have "card (set ks) = card ((\<lambda>e. (ev_Repo e, ev_ProcedureRef e)) ` set rows)"
      by (simp add: card_image inj_on_subset)
    then show ?thesis using ks(2) stats by (simp add: sm distinct_card length_remdups_card_conv)
  qed
qed


text \<open>Without a cache, a table that was answered was computed from the tables at hand.\<close>

lemma handle_Tests_OK:
  assumes "handle_Tests env q clk d c = (Tests_OK r, c')" and "ca_ttl c \<le> 0" and "q_get q ''label'' = ''''"
  shows "\<exists>tq stats xs. parse_tests_request env q = Inr tq
    \<and> query_stats (he_pg env) (ae_plan env) (he_fails env)
        \<lparr>tp_Filter = tq_Filter tq, tp_GroupByEvidenceType = (q_get q ''group_by'' = ''evidence_type''), tp_MaxGroups = 0\<rparr> d = Inr stats
    \<and> Sort (Finalize (tq_Thresholds tq) stats) (q_get q ''sort'') (tq_Desc tq) = Inr xs
    \<and> tr_Window r = summarizeWindow xs \<and> tr_Total r = length xs \<and> page_of (tq_Limit tq) (tq_Offset tq) xs = Some (tr_Tests r)"
proof -
  obtain tq where tq: "parse_tests_request env q = Inr tq"
    using assms(1) by (auto simp: handle_Tests_def split: sum.splits)
  let ?p = "\<lparr>tp_Filter = tq_Filter tq, tp_GroupByEvidenceType = (q_get q ''group_by'' = ''evidence_type''), tp_MaxGroups = 0\<rparr>"
  have "fst (EvidenceStore_TestStats (ae_hash env) (he_pg env) (ae_plan env) (he_fails env) clk ?p d c)
      = query_stats (he_pg env) (ae_plan env) (he_fails env) ?p d"
    using assms(2) by (simp add: EvidenceStore_TestStats_def cache_get_def cache_enabled_def Let_def split: prod.split sum.split)
  then obtain c1 where answered: "EvidenceStore_TestStats (ae_hash env) (he_pg env) (ae_plan env) (he_fails env) clk ?p d c
      = (query_stats (he_pg env) (ae_plan env) (he_fails env) ?p d, c1)"
    by (metis prod.collapse)
  obtain stats where stats: "query_stats (he_pg env) (ae_plan env) (he_fails env) ?p d = Inr stats"
  proof (cases "query_stats (he_pg env) (ae_plan env) (he_fails env) ?p d")
    case (Inl err)
    then show ?thesis using assms(1) tq answered by (cases err) (simp_all add: handle_Tests_def split: if_splits)
  qed (rule that)
  have run: "handle_Tests env q clk d c = (case Sort (Finalize (tq_Thresholds tq) stats) (q_get q ''sort'') (tq_Desc tq) of
      Inl msg \<Rightarrow> (Refused 400 msg, c1)
    | Inr xs \<Rightarrow> if q_get q ''format'' = ''csv'' then (Tests_CSV (writeTestStatsCSV xs), c1)
        else case page_of (tq_Limit tq) (tq_Offset tq) xs of
            None \<Rightarrow> (Slice_Panics, c1)
          | Some page \<Rightarrow> (Tests_OK \<lparr>tr_Window = summarizeWindow xs, tr_Thresholds = tq_Thresholds tq,
              tr_Tests = page, tr_Total = length xs\<rparr>, c1))"
    using tq answered stats assms(3) by (simp add: handle_Tests_def Let_def)
  obtain xs where xs: "Sort (Finalize (tq_Thresholds tq) stats) (q_get q ''sort'') (tq_Desc tq) = Inr xs"
    using run assms(1) by (auto split: sum.splits)
  then have "tr_Window r = summarizeWindow xs \<and> tr_Total r = length xs \<and> page_of (tq_Limit tq) (tq_Offset tq) xs = Some (tr_Tests r)"
    using run assms(1) by (auto split: if_splits option.splits)
  then show ?thesis using tq stats xs by blast
qed

lemma parse_tests_filter: "parse_tests_request env q = Inr tq \<Longrightarrow> parseEvidenceFilter (he_time env) q = Inr (tq_Filter tq)"
  by (auto simp: parse_tests_request_def Let_def split: sum.splits if_splits)

text \<open>
  C24. The table and the headline tell the same story. When the table of tests and the summary are
  asked with the same query, on well-formed tables, without a label and without a cache, and
  whatever order the database returns the groups in, the window of the table has exactly the runs
  and the first and last instants of the summary, and unless the caller groups by type the table
  has as many rows in all as the summary counts tests. No row is invented and none is lost between
  filtering, grouping, labelling, sorting and counting.
\<close>

theorem table_and_summary_agree:
  assumes "evidence_wf d" and "\<And>ks. mset (ae_plan env ks) = mset ks" and "ca_ttl c \<le> 0" and "q_get q ''label'' = ''''"
    and "handle_Tests env q clk d c = (Tests_OK r, c')" and "handle_Summary env q d = Summary_OK sm failRate errorRate"
  shows "aw_Runs (tr_Window r) = ws_Runs sm \<and> aw_From (tr_Window r) = ws_FirstSeen sm \<and> aw_To (tr_Window r) = ws_LastSeen sm
    \<and> aw_Tests (tr_Window r) = tr_Total r
    \<and> (q_get q ''group_by'' \<noteq> ''evidence_type'' \<longrightarrow> int (tr_Total r) = ws_Tests sm)"
proof -
  obtain tq stats xs where tq: "parse_tests_request env q = Inr tq"
    and stats: "query_stats (he_pg env) (ae_plan env) (he_fails env)
        \<lparr>tp_Filter = tq_Filter tq, tp_GroupByEvidenceType = (q_get q ''group_by'' = ''evidence_type''), tp_MaxGroups = 0\<rparr> d = Inr stats"
    and xs: "Sort (Finalize (tq_Thresholds tq) stats) (q_get q ''sort'') (tq_Desc tq) = Inr xs"
    and r: "tr_Window r = summarizeWindow xs" "tr_Total r = length xs"
    using handle_Tests_OK [OF assms(5,3,4)] by blast
  have "EvidenceStore_Summary (he_pg env) (he_fails env) (tq_Filter tq) d = Some sm"
    using assms(6) parse_tests_filter [OF tq] by (auto simp: handle_Summary_def Let_def split: option.splits if_splits)
  then have window: "summarizeWindow (Finalize (tq_Thresholds tq) stats)
      = \<lparr>aw_From = ws_FirstSeen sm, aw_To = ws_LastSeen sm, aw_Runs = ws_Runs sm, aw_Tests = length stats\<rparr>"
    and tests: "q_get q ''group_by'' \<noteq> ''evidence_type'' \<Longrightarrow> int (length stats) = ws_Tests sm"
    using summarizeWindow_stats [OF assms(2) stats assms(1)] by simp_all
  note same = Sort_mset(1) [OF xs]
  have "tr_Total r = length stats" using r(2) mset_eq_length [OF same] by (simp add: Finalize_simps)
  then show ?thesis using r(1) summarizeWindow_mset [OF same] window tests by simp
qed


definition demo_analytics :: analytics_env where
  "demo_analytics = handler_env.extend demo_env \<lparr>ae_plan = (\<lambda>ks. ks), ae_hash = (\<lambda>_. ''''), ae_float = (\<lambda>_. NoFloat)\<rparr>"

lemma demo_analytics_simps [simp]:
  "ae_plan demo_analytics = (\<lambda>ks. ks)" "he_pg demo_analytics = plain_database" "he_fails demo_analytics = (\<lambda>_. False)"
  by (simp_all add: demo_analytics_def demo_env_def handler_env.defs)

lemma demo_select: "select_rows plain_database (buildFilter no_filter) (ed_rows three_rows) = Some (ed_rows three_rows)"
  by code_simp

lemma demo_request:
  "parse_tests_request demo_analytics [] = Inr \<lparr>tq_Filter = no_filter, tq_Thresholds = DefaultThresholds, tq_Desc = False,
     tq_Limit = 100, tq_Offset = 0\<rparr>"
  by code_simp

lemma demo_stats:
  assumes "\<And>ks. length (plan ks) = length ks"
  shows "\<exists>stats. query_stats plain_database plan (\<lambda>_. False)
    \<lparr>tp_Filter = no_filter, tp_GroupByEvidenceType = False, tp_MaxGroups = 0\<rparr> three_rows = Inr stats \<and> length stats \<le> 3"
proof -
  have "length (remdups (map (group_cols False) (ed_rows three_rows))) \<le> length (ed_rows three_rows)"
    using length_remdups_leq [of "map (group_cols False) (ed_rows three_rows)"] by simp
  also have "\<dots> = 3" by (simp add: three_rows_def)
  finally show ?thesis by (simp add: query_stats_def demo_select DefaultMaxAnalyticsGroups_def assms)
qed

lemma demo_table: "\<exists>r c'. handle_Tests demo_analytics [] (0, 0, 0) three_rows (newStatsCache 0 0) = (Tests_OK r, c')"
proof -
  let ?p = "\<lparr>tp_Filter = no_filter, tp_GroupByEvidenceType = False, tp_MaxGroups = 0\<rparr>"
  obtain stats where stats: "query_stats plain_database (\<lambda>ks. ks) (\<lambda>_. False) ?p three_rows = Inr stats"
    using demo_stats [of "\<lambda>ks. ks"] by auto
  have sorted: "\<exists>xs. Sort ys '''' False = Inr xs" for ys by (simp add: Sort_def DefaultSortKey_def sortKeys_def)
  then obtain xs where "Sort (Finalize DefaultThresholds stats) '''' False = Inr xs" by blast
  moreover have "\<exists>page. page_of 100 0 xs = Some page" by (simp add: page_of_def)
  moreover have "q_get [] k = ''''" for k by (simp add: q_get_def)
  ultimately show ?thesis
    by (auto simp: handle_Tests_def demo_request EvidenceStore_TestStats_def cache_get_def cache_enabled_def
        newStatsCache_def stats Let_def)
qed

lemma demo_summary:
  "handle_Summary demo_analytics [] three_rows = Summary_OK
     \<lparr>ws_Runs = 3, ws_Pass = 3, ws_Fail = 0, ws_Error = 0, ws_Skipped = 0, ws_Tests = 1, ws_Repos = 1, ws_Commits = 1,
      ws_FirstSeen = Some 5000000, ws_LastSeen = Some 5000000\<rparr> 0 0"
  by code_simp

theorem table_and_summary_agree_witness:
  "\<exists>r c'. handle_Tests demo_analytics [] (0, 0, 0) three_rows (newStatsCache 0 0) = (Tests_OK r, c')
     \<and> aw_Runs (tr_Window r) = 3 \<and> tr_Total r = 1"
proof -
  obtain r c' where r: "handle_Tests demo_analytics [] (0, 0, 0) three_rows (newStatsCache 0 0) = (Tests_OK r, c')"
    using demo_table by blast
  have "mset (ae_plan demo_analytics ks) = mset ks" for ks by simp
  moreover have "ca_ttl (newStatsCache 0 0) \<le> 0" by (simp add: newStatsCache_def)
  moreover have no: "q_get [] k = ''''" for k by (simp add: q_get_def)
  ultimately have "aw_Runs (tr_Window r) = 3 \<and> tr_Total r = 1"
    using table_and_summary_agree [OF three_rows_wf _ _ _ r demo_summary] by simp
  then show ?thesis using r by blast
qed


section \<open>Paging through the table\<close>

definition row_identity :: "test_stats \<Rightarrow> string \<times> string \<times> string" where
  "row_identity s = (ts_ProcedureRef s, ts_Repo s, ts_EvidenceType s)"

lemma row_order_zero: "row_order cmp desc a b = 0 \<Longrightarrow> row_identity a = row_identity b"
  by (auto simp: row_order_def first_nonzero_def by_key_def Compare_def row_identity_def split: if_splits)

text \<open>A list sorted by a comparison that tells all its elements apart is determined by its elements.\<close>

lemma sorted_rows_unique:
  assumes "mset xs = mset ys" and "sorted_wrt (\<lambda>a b. row_order (key_compare k) desc a b \<le> 0) xs"
    and "sorted_wrt (\<lambda>a b. row_order (key_compare k) desc a b \<le> 0) ys" and "inj_on row_identity (set xs)"
  shows "xs = ys"
  using assms
proof (induction xs arbitrary: ys)
  case (Cons x xs)
  let ?le = "\<lambda>a b. row_order (key_compare k) desc a b \<le> 0"
  obtain y ys' where ys: "ys = y # ys'" using Cons.prems(1) by (cases ys) simp_all
  have "x \<in> set ys" "y \<in> set (x # xs)" using mset_eq_setD [OF Cons.prems(1)] ys by auto
  then have "?le y x" "?le x y"
    using Cons.prems(2,3) ys rows.self [of k desc] by auto
  then have "row_order (key_compare k) desc x y = 0" using rows.flip [of k desc x y] by simp
  then have "x = y" using inj_onD [OF Cons.prems(4) row_order_zero] \<open>y \<in> set (x # xs)\<close> by simp
  moreover have "xs = ys'"
    using Cons.prems ys calculation by (intro Cons.IH) (auto intro: inj_on_subset)
  ultimately show ?case using ys by simp
qed simp

lemma aggregate_identity: "row_identity (finalize_one th (aggregate rows k)) = (fst (snd k), fst k, snd (snd k))"
  by (simp add: row_identity_def finalize_one_def aggregate_def Let_def split: prod.split)

lemma Finalize_identity:
  assumes "\<And>ks. mset (plan ks) = mset ks" and "query_stats pg plan fails p d = Inr stats"
  shows "inj_on row_identity (set (Finalize th stats))"
proof -
  obtain rows ks where stats: "stats = map (\<lambda>k. aggregate (filter (\<lambda>e. group_cols (tp_GroupByEvidenceType p) e = k) rows) k) ks"
    using query_stats_rows [OF assms] by blast
  show ?thesis
    unfolding stats Finalize_def by (rule inj_onI) (auto simp: aggregate_identity prod_eq_iff)
qed

lemma query_stats_plans:
  assumes "\<And>ks. mset (plan ks) = mset ks" and "\<And>ks. mset (plan' ks) = mset ks"
    and "query_stats pg plan fails p d = Inr stats" and "query_stats pg plan' fails p d = Inr stats'"
  shows "mset stats = mset stats'"
proof -
  obtain rows ks where 1: "select_rows pg (buildFilter (tp_Filter p)) (ed_rows d) = Some rows"
      "set ks = group_cols (tp_GroupByEvidenceType p) ` set rows" "distinct ks"
      "stats = map (\<lambda>k. aggregate (filter (\<lambda>e. group_cols (tp_GroupByEvidenceType p) e = k) rows) k) ks"
    using query_stats_rows [OF assms(1,3)] by blast
  obtain rows' ks' where 2: "select_rows pg (buildFilter (tp_Filter p)) (ed_rows d) = Some rows'"
      "set ks' = group_cols (tp_GroupByEvidenceType p) ` set rows'" "distinct ks'"
      "stats' = map (\<lambda>k. aggregate (filter (\<lambda>e. group_cols (tp_GroupByEvidenceType p) e = k) rows') k) ks'"
    using query_stats_rows [OF assms(2,4)] by blast
  have "rows' = rows" using 1(1) 2(1) by simp
  then have "mset ks = mset ks'" using 1(2,3) 2(2,3) by (simp add: set_eq_iff_mset_eq_distinct [symmetric])
  then show ?thesis using 1(4) 2(4) \<open>rows' = rows\<close> by simp
qed

lemma page_of_pages:
  "0 < n \<Longrightarrow> page_of (int n) (int j) xs = Some (take n (drop j xs))"
  by (auto simp: page_of_def Let_def)

lemma concat_pages: "concat (map (\<lambda>k. take n (drop (k * n) xs)) [0..<m]) = take (m * n) xs"
proof (induction m)
  case (Suc m)
  have "take (Suc m * n) xs = take (m * n) xs @ take n (drop (m * n) xs)"
    using take_add [of "m * n" n xs] by (simp add: add.commute)
  then show ?case using Suc.IH by simp
qed simp

text \<open>
  The order of the table is one order. Sorting what an aggregation returned, by any key and
  in either direction, gives the same list in whatever order the database returned the groups:
  a permutation of its rows, ordered by the key and, among equal values, by identity. Hence pages
  fetched one after the other at multiples of any positive limit neither repeat nor skip a row:
  together they are that list.
\<close>

theorem table_pages_complete:
  assumes "\<And>ks. mset (plan ks) = mset ks" and "\<And>ks. mset (plan' ks) = mset ks"
    and "query_stats pg plan fails p d = Inr stats" and "query_stats pg plan' fails p d = Inr stats'"
    and "Sort (Finalize th stats) key desc = Inr xs" and "0 < n" and "length xs \<le> m * n"
  shows "Sort (Finalize th stats') key desc = Inr xs \<and> mset xs = mset (Finalize th stats)
    \<and> sorted_wrt (\<lambda>a b. row_order (key_compare (if key = '''' then DefaultSortKey else key)) desc a b \<le> 0) xs
    \<and> concat (map (\<lambda>k. the (page_of (int n) (int (k * n)) xs)) [0..<m]) = xs"
proof -
  have "\<exists>ys. Sort (Finalize th stats') key desc = Inr ys"
    using assms(5) by (cases "sortKeys (if key = '''' then DefaultSortKey else key)") (simp_all add: Sort_def Let_def)
  then obtain ys where ys: "Sort (Finalize th stats') key desc = Inr ys" by blast
  have "mset (Finalize th stats) = mset (Finalize th stats')"
    using query_stats_plans [OF assms(1-4)] by (simp add: Finalize_def)
  then have "mset xs = mset ys" using Sort_mset(1) [OF assms(5)] Sort_mset(1) [OF ys] by simp
  moreover have "inj_on row_identity (set xs)"
    using Finalize_identity [OF assms(1,3)] mset_eq_setD [OF Sort_mset(1) [OF assms(5)]] by simp
  ultimately have "xs = ys" by (rule sorted_rows_unique [OF _ Sort_mset(2) [OF assms(5)] Sort_mset(2) [OF ys]])
  moreover have "concat (map (\<lambda>k. the (page_of (int n) (int (k * n)) xs)) [0..<m]) = xs"
    using assms(7) by (simp only: page_of_pages [OF assms(6)] option.sel concat_pages) simp
  ultimately show ?thesis using ys Sort_mset [OF assms(5)] by blast
qed


theorem table_pages_complete_witness:
  "\<exists>stats stats' xs. query_stats plain_database (\<lambda>ks. ks) (\<lambda>_. False)
       \<lparr>tp_Filter = no_filter, tp_GroupByEvidenceType = False, tp_MaxGroups = 0\<rparr> three_rows = Inr stats
     \<and> query_stats plain_database rev (\<lambda>_. False)
       \<lparr>tp_Filter = no_filter, tp_GroupByEvidenceType = False, tp_MaxGroups = 0\<rparr> three_rows = Inr stats'
     \<and> Sort (Finalize DefaultThresholds stats) ''fail_rate'' True = Inr xs
     \<and> Sort (Finalize DefaultThresholds stats') ''fail_rate'' True = Inr xs
     \<and> concat (map (\<lambda>k. the (page_of (int 2) (int (k * 2)) xs)) [0..<2]) = xs"
proof -
  let ?p = "\<lparr>tp_Filter = no_filter, tp_GroupByEvidenceType = False, tp_MaxGroups = 0\<rparr>"
  obtain stats where stats: "query_stats plain_database (\<lambda>ks. ks) (\<lambda>_. False) ?p three_rows = Inr stats" "length stats \<le> 3"
    using demo_stats [of "\<lambda>ks. ks"] by auto
  obtain stats' where stats': "query_stats plain_database rev (\<lambda>_. False) ?p three_rows = Inr stats'"
    using demo_stats [of rev] by auto
  have "\<exists>xs. Sort (Finalize DefaultThresholds stats) ''fail_rate'' True = Inr xs" by (simp add: Sort_def sortKeys_def)
  then obtain xs where xs: "Sort (Finalize DefaultThresholds stats) ''fail_rate'' True = Inr xs" by blast
  have few: "length xs \<le> 2 * 2" using mset_eq_length [OF Sort_mset(1) [OF xs]] stats(2) by (simp add: Finalize_simps)
  note all = table_pages_complete [OF refl mset_rev stats(1) stats' xs zero_less_numeral few]
  show ?thesis
    by (rule exI [of _ stats], rule exI [of _ stats'], rule exI [of _ xs])
       (intro conjI stats(1) stats' xs conjunct1 [OF all] conjunct2 [OF conjunct2 [OF conjunct2 [OF all]]])
qed

end
