(* ===== verification/Procedure.thy ===== *)
theory Procedure
  imports Evidence_Store
begin

text \<open>
  The procedures of a campaign: \<^verbatim>\<open>internal/campaign/procedure.go\<close>, which cuts a Markdown text into
  prose and controls, and \<^verbatim>\<open>internal/campaign/declaration.go\<close>, which reads the YAML of a control.
  The YAML decoder is a third-party package: the argument \<^verbatim>\<open>y\<close> has what it made of a text, and the
  checks here run on its nodes. Error texts are constructors, with the values the code formats
  into them.
\<close>

section \<open>Text\<close>

definition byte :: "char \<Rightarrow> nat" where
  "byte c = of_char c"

definition is_cont :: "nat \<Rightarrow> bool" where
  "is_cont b \<longleftrightarrow> 128 \<le> b \<and> b \<le> 191"

text \<open>\<^verbatim>\<open>utf8.Valid\<close>: the shortest encodings of the code points that are not surrogates.\<close>

fun utf8_bytes :: "nat list \<Rightarrow> bool" where
  "utf8_bytes [] \<longleftrightarrow> True"
| "utf8_bytes (a # r) \<longleftrightarrow>
     (if a < 128 then utf8_bytes r
      else if 194 \<le> a \<and> a \<le> 223 then
        (case r of b # r' \<Rightarrow> is_cont b \<and> utf8_bytes r' | _ \<Rightarrow> False)
      else if 224 \<le> a \<and> a \<le> 239 then
        (case r of b # c # r' \<Rightarrow>
             is_cont b \<and> (a = 224 \<longrightarrow> 160 \<le> b) \<and> (a = 237 \<longrightarrow> b \<le> 159) \<and> is_cont c \<and> utf8_bytes r'
         | _ \<Rightarrow> False)
      else if 240 \<le> a \<and> a \<le> 244 then
        (case r of b # c # d # r' \<Rightarrow>
             is_cont b \<and> (a = 240 \<longrightarrow> 144 \<le> b) \<and> (a = 244 \<longrightarrow> b \<le> 143) \<and> is_cont c \<and> is_cont d
             \<and> utf8_bytes r'
         | _ \<Rightarrow> False)
      else False)"

definition utf8_valid :: "string \<Rightarrow> bool" where
  "utf8_valid s = utf8_bytes (map byte s)"

definition trim_suffix :: "string \<Rightarrow> string \<Rightarrow> string" where
  "trim_suffix s p = (if has_suffix s p then take (length s - length p) s else s)"

definition trim_prefix :: "string \<Rightarrow> string \<Rightarrow> string" where
  "trim_prefix s p = (if has_prefix s p then drop (length p) s else s)"

text \<open>\<^verbatim>\<open>strings.SplitAfter\<close> for a separator of one byte.\<close>

fun split_after :: "char \<Rightarrow> string \<Rightarrow> string list" where
  "split_after sep [] = [[]]"
| "split_after sep (c # s) =
     (if c = sep then [c] # split_after sep s
      else case split_after sep s of [] \<Rightarrow> [[c]] | l # ls \<Rightarrow> (c # l) # ls)"

definition newline :: char where "newline = CHR 0x0A"

section \<open>Data\<close>

definition MaxProcedureBytes :: int where "MaxProcedureBytes = 1048576"

definition maxControls :: nat where "maxControls = 1000"

definition maxDeclarationBytes :: int where "maxDeclarationBytes = 65536"

record test_field =
  fd_ID :: string
  fd_Type :: string
  fd_Label :: string
  fd_Required :: bool
  fd_Multiline :: bool
  fd_Options :: "string list"
  fd_Unit :: string
  fd_Bind :: string
  fd_Default :: "json option"

record test_check =
  ck_ID :: string
  ck_Label :: string
  ck_Behavior :: string

record block =
  bk_Kind :: string
  bk_Line :: int
  bk_Markdown :: string
  bk_Field :: "test_field option"
  bk_Check :: "test_check option"

record procedure =
  pr_SchemaVersion :: int
  pr_Source :: string
  pr_Blocks :: "block list"

datatype procedure_message =
    ProcedureTooLong | ProcedureNotText | ProcedureEmpty | ControlFenceExpected
  | Unclosed string | DeclarationTooLong | InvalidYAML string | NotOneDocument | NotMapping
  | NestingTooDeep | AliasOrTag | KeyNotString | DuplicateKey string | UnknownProperty string string
  | PropertyRequired string | NotNonemptyString string | BadControlID | BehaviorUnsupported
  | FieldTypeUnsupported string | WrongFieldType string string | OptionsNotList | OptionsNotUnique
  | BadBinding | DefaultNotAllowed | DefaultNotString string | DefaultNotOption | DefaultNotNumber
  | DefaultTypeUnsupported string | NotBoolean string | InvalidBoolean string
  | BoundTwice | DuplicateControl string int | TooManyControls | UnsupportedScalar string | NullValue

record parse_error =
  pe_Line :: int
  pe_Message :: procedure_message

definition errorAt :: "int \<Rightarrow> procedure_message \<Rightarrow> parse_error" where
  "errorAt line m = \<lparr>pe_Line = line, pe_Message = m\<rparr>"

section \<open>Declarations\<close>

datatype yaml_kind = DocumentNode | SequenceNode | MappingNode | ScalarNode | AliasNode

datatype yaml_node =
  YNode (yn_Kind: yaml_kind) (yn_Tag: string) (yn_Value: string) (yn_Anchor: string)
    (yn_Tagged: bool) (yn_Line: int) (yn_Content: "yaml_node list")

text \<open>A decoded \<^verbatim>\<open>float64\<close>: a number, or one of NaN and the infinities.\<close>

datatype go_float = Finite rat | NotFinite

text \<open>The decoder: the first document of a text or an error, and whether it was the last; a node
  as a float and as a boolean.\<close>

record yaml_lib =
  yl_decode :: "string \<Rightarrow> (string + yaml_node) \<times> bool"
  yl_float :: "yaml_node \<Rightarrow> go_float option"
  yl_bool :: "yaml_node \<Rightarrow> bool option"

fun check_keys :: "int \<Rightarrow> string list \<Rightarrow> yaml_node list \<Rightarrow> parse_error option" where
  "check_keys firstLine seen [] = None"
| "check_keys firstLine seen (key # rest) =
     (if yn_Tag key \<noteq> ''!!str'' \<or> yn_Value key = ''<<''
      then Some (errorAt (firstLine + yn_Line key - 1) KeyNotString)
      else if yn_Value key \<in> set seen
      then Some (errorAt (firstLine + yn_Line key - 1) (DuplicateKey (yn_Value key)))
      else case rest of
          [] \<Rightarrow> None
        | _ # rest' \<Rightarrow> check_keys firstLine (yn_Value key # seen) rest')"

fun validateYAML :: "yaml_node \<Rightarrow> int \<Rightarrow> nat \<Rightarrow> parse_error option"
  and validate_children :: "yaml_node list \<Rightarrow> int \<Rightarrow> nat \<Rightarrow> parse_error option" where
  "validateYAML (YNode kind tag value anchor tagged row content) firstLine depth =
     (let line = firstLine + row - 1 in
      if 20 < depth then Some (errorAt line NestingTooDeep)
      else if kind = AliasNode \<or> anchor \<noteq> '''' \<or> tagged then Some (errorAt line AliasOrTag)
      else case (if kind = MappingNode then check_keys firstLine [] content else None) of
          Some e \<Rightarrow> Some e
        | None \<Rightarrow> validate_children content firstLine (Suc depth))"
| "validate_children [] firstLine depth = None"
| "validate_children (n # ns) firstLine depth =
     (case validateYAML n firstLine depth of
        Some e \<Rightarrow> Some e
      | None \<Rightarrow> validate_children ns firstLine depth)"

fun mapping_fields :: "yaml_node list \<Rightarrow> (string \<times> yaml_node) list" where
  "mapping_fields (k # v # rest) = (yn_Value k, v) # mapping_fields rest"
| "mapping_fields _ = []"

fun mapping_keys :: "yaml_node list \<Rightarrow> yaml_node list" where
  "mapping_keys [] = []"
| "mapping_keys (k # rest) = k # (case rest of [] \<Rightarrow> [] | _ # rest' \<Rightarrow> mapping_keys rest')"

definition allowed_properties :: "string \<Rightarrow> string list" where
  "allowed_properties kind =
     (if kind = ''test-field''
      then [''id'', ''type'', ''label'', ''required'', ''multiline'', ''options'', ''unit'', ''bind'', ''default'']
      else [''id'', ''label'', ''behavior''])"

definition decodeDeclaration ::
  "yaml_lib \<Rightarrow> string \<Rightarrow> string \<Rightarrow> int \<Rightarrow> parse_error + (string \<times> yaml_node) list" where
  "decodeDeclaration y kind body firstLine =
     (case yl_decode y body of
        (Inl err, _) \<Rightarrow> Inl (errorAt firstLine (InvalidYAML err))
      | (Inr doc, eof) \<Rightarrow>
          if \<not> eof then Inl (errorAt firstLine NotOneDocument)
          else (case yn_Content doc of
              [obj] \<Rightarrow>
                if yn_Kind obj \<noteq> MappingNode then Inl (errorAt firstLine NotMapping)
                else (case validateYAML obj firstLine 0 of
                    Some e \<Rightarrow> Inl e
                  | None \<Rightarrow>
                      (case find (\<lambda>k. yn_Value k \<notin> set (allowed_properties kind)) (mapping_keys (yn_Content obj)) of
                         Some k \<Rightarrow> Inl (errorAt (firstLine + yn_Line k - 1) (UnknownProperty kind (yn_Value k)))
                       | None \<Rightarrow> Inr (mapping_fields (yn_Content obj))))
            | _ \<Rightarrow> Inl (errorAt firstLine NotMapping)))"

definition stringProperty ::
  "(string \<times> yaml_node) list \<Rightarrow> string \<Rightarrow> bool \<Rightarrow> int \<Rightarrow> parse_error + string" where
  "stringProperty fs key required firstLine =
     (case map_of fs key of
        None \<Rightarrow> if required then Inl (errorAt firstLine (PropertyRequired key)) else Inr ''''
      | Some node \<Rightarrow>
          if yn_Tag node \<noteq> ''!!str'' \<or> trim_space (yn_Value node) = ''''
          then Inl (errorAt (firstLine + yn_Line node - 1) (NotNonemptyString key))
          else Inr (yn_Value node))"

definition boolProperty ::
  "yaml_lib \<Rightarrow> (string \<times> yaml_node) list \<Rightarrow> string \<Rightarrow> int \<Rightarrow> parse_error + bool" where
  "boolProperty y fs key firstLine =
     (case map_of fs key of
        None \<Rightarrow> Inr False
      | Some node \<Rightarrow>
          if yn_Tag node \<noteq> ''!!bool'' then Inl (errorAt (firstLine + yn_Line node - 1) (NotBoolean key))
          else or_error (yl_bool y node) (errorAt (firstLine + yn_Line node - 1) (InvalidBoolean key)))"

definition is_id_char :: "char \<Rightarrow> bool" where
  "is_id_char c \<longleftrightarrow> (97 \<le> byte c \<and> byte c \<le> 122) \<or> (48 \<le> byte c \<and> byte c \<le> 57) \<or> c = CHR ''_''"

text \<open>\<^verbatim>\<open>^[a-z][a-z0-9_]*$\<close>\<close>

definition controlID :: "string \<Rightarrow> bool" where
  "controlID s \<longleftrightarrow> s \<noteq> '''' \<and> 97 \<le> byte (hd s) \<and> byte (hd s) \<le> 122 \<and> list_all is_id_char (tl s)"

definition declarationIdentity ::
  "(string \<times> yaml_node) list \<Rightarrow> int \<Rightarrow> parse_error + string \<times> string" where
  "declarationIdentity fs firstLine =
     sbind (stringProperty fs ''id'' True firstLine) (\<lambda>i.
     sbind (ensure (controlID i) (errorAt firstLine BadControlID)) (\<lambda>_.
     sbind (stringProperty fs ''label'' True firstLine) (\<lambda>label. Inr (i, label))))"

definition empty_block :: block where
  "empty_block = \<lparr>bk_Kind = '''', bk_Line = 0, bk_Markdown = '''', bk_Field = None, bk_Check = None\<rparr>"

definition parseCheck ::
  "(string \<times> yaml_node) list \<Rightarrow> string \<Rightarrow> string \<Rightarrow> int \<Rightarrow> parse_error + block" where
  "parseCheck fs i label firstLine =
     sbind (stringProperty fs ''behavior'' True firstLine) (\<lambda>behavior.
     sbind (ensure (behavior = ''expect'') (errorAt firstLine BehaviorUnsupported)) (\<lambda>_.
     Inr (empty_block\<lparr>bk_Kind := ''check'',
       bk_Check := Some \<lparr>ck_ID = i, ck_Label = label, ck_Behavior = behavior\<rparr>\<rparr>)))"

fun choice_values :: "int \<Rightarrow> string list \<Rightarrow> yaml_node list \<Rightarrow> parse_error + string list" where
  "choice_values firstLine vs [] = Inr vs"
| "choice_values firstLine vs (n # ns) =
     (if yn_Tag n \<noteq> ''!!str'' \<or> trim_space (yn_Value n) = '''' \<or> yn_Value n \<in> set vs
      then Inl (errorAt (firstLine + yn_Line n - 1) OptionsNotUnique)
      else choice_values firstLine (vs @ [yn_Value n]) ns)"

definition parseChoiceOptions :: "yaml_node option \<Rightarrow> int \<Rightarrow> parse_error + string list" where
  "parseChoiceOptions opts firstLine =
     (case opts of
        None \<Rightarrow> Inl (errorAt firstLine OptionsNotList)
      | Some n \<Rightarrow>
          if yn_Kind n \<noteq> SequenceNode \<or> yn_Content n = [] then Inl (errorAt firstLine OptionsNotList)
          else choice_values firstLine [] (yn_Content n))"

definition typed_properties :: "(string \<times> string) list" where
  "typed_properties =
     [(''multiline'', ''text''), (''options'', ''choice''), (''unit'', ''measurement''), (''bind'', ''choice'')]"

definition parseFieldConfiguration ::
  "yaml_lib \<Rightarrow> test_field \<Rightarrow> (string \<times> yaml_node) list \<Rightarrow> int \<Rightarrow> parse_error + test_field" where
  "parseFieldConfiguration y f fs firstLine =
     (case find (\<lambda>(name, ty). map_of fs name \<noteq> None \<and> fd_Type f \<noteq> ty) typed_properties of
        Some (name, ty) \<Rightarrow> Inl (errorAt firstLine (WrongFieldType name ty))
      | None \<Rightarrow>
          if fd_Type f = ''text''
          then sbind (boolProperty y fs ''multiline'' firstLine) (\<lambda>b. Inr (f\<lparr>fd_Multiline := b\<rparr>))
          else if fd_Type f = ''measurement''
          then sbind (stringProperty fs ''unit'' True firstLine) (\<lambda>u. Inr (f\<lparr>fd_Unit := u\<rparr>))
          else if fd_Type f = ''choice''
          then sbind (parseChoiceOptions (map_of fs ''options'') firstLine) (\<lambda>os. Inr (f\<lparr>fd_Options := os\<rparr>))
          else Inr f)"

definition bound_results :: "string list" where
  "bound_results = [''PASS'', ''FAIL'', ''ERROR'', ''SKIPPED'']"

definition parseResultBinding ::
  "test_field \<Rightarrow> (string \<times> yaml_node) list \<Rightarrow> int \<Rightarrow> parse_error + test_field" where
  "parseResultBinding f fs firstLine =
     (if map_of fs ''bind'' = None then Inr f
      else sbind (stringProperty fs ''bind'' True firstLine) (\<lambda>b.
           sbind (ensure (b = ''execution.result'' \<and> length (fd_Options f) = 4
                         \<and> list_all (\<lambda>r. r \<in> set (fd_Options f)) bound_results)
                   (errorAt firstLine BadBinding)) (\<lambda>_.
           Inr (f\<lparr>fd_Bind := b\<rparr>))))"

definition defaultValue :: "yaml_lib \<Rightarrow> test_field \<Rightarrow> yaml_node \<Rightarrow> procedure_message + json" where
  "defaultValue y f node =
     (if fd_Type f = ''text'' \<or> fd_Type f = ''choice'' then
        (if yn_Tag node \<noteq> ''!!str'' then Inl (DefaultNotString (fd_Type f))
         else if fd_Type f = ''choice'' \<and> yn_Value node \<notin> set (fd_Options f) then Inl DefaultNotOption
         else Inr (JStr (yn_Value node)))
      else if fd_Type f = ''measurement'' then
        (if yn_Tag node \<noteq> ''!!int'' \<and> yn_Tag node \<noteq> ''!!float'' then Inl DefaultNotNumber
         else case yl_float y node of
             Some (Finite r) \<Rightarrow> Inr (JNum r)
           | _ \<Rightarrow> Inl DefaultNotNumber)
      else Inl (DefaultTypeUnsupported (fd_Type f)))"

definition parseFieldDefault ::
  "yaml_lib \<Rightarrow> test_field \<Rightarrow> yaml_node option \<Rightarrow> int \<Rightarrow> parse_error + test_field" where
  "parseFieldDefault y f def firstLine =
     (case def of
        None \<Rightarrow> Inr f
      | Some node \<Rightarrow>
          if fd_Bind f \<noteq> '''' \<or> fd_Type f = ''evidence''
          then Inl (errorAt (firstLine + yn_Line node - 1) DefaultNotAllowed)
          else (case defaultValue y f node of
              Inl m \<Rightarrow> Inl (errorAt (firstLine + yn_Line node - 1) m)
            | Inr v \<Rightarrow> Inr (f\<lparr>fd_Default := Some v\<rparr>)))"

definition field_types :: "string list" where
  "field_types = [''text'', ''choice'', ''measurement'', ''evidence'']"

definition new_field :: "string \<Rightarrow> string \<Rightarrow> string \<Rightarrow> bool \<Rightarrow> test_field" where
  "new_field i label ty req = \<lparr>fd_ID = i, fd_Type = ty, fd_Label = label, fd_Required = req,
     fd_Multiline = False, fd_Options = [], fd_Unit = '''', fd_Bind = '''', fd_Default = None\<rparr>"

definition parseField ::
  "yaml_lib \<Rightarrow> (string \<times> yaml_node) list \<Rightarrow> string \<Rightarrow> string \<Rightarrow> int \<Rightarrow> parse_error + block" where
  "parseField y fs i label firstLine =
     sbind (stringProperty fs ''type'' True firstLine) (\<lambda>ty.
     sbind (ensure (ty \<in> set field_types) (errorAt firstLine (FieldTypeUnsupported ty))) (\<lambda>_.
     sbind (boolProperty y fs ''required'' firstLine) (\<lambda>req.
     sbind (parseFieldConfiguration y (new_field i label ty req) fs firstLine) (\<lambda>f1.
     sbind (parseResultBinding f1 fs firstLine) (\<lambda>f2.
     sbind (parseFieldDefault y f2 (map_of fs ''default'') firstLine) (\<lambda>f3.
     Inr (empty_block\<lparr>bk_Kind := ''field'', bk_Field := Some f3\<rparr>)))))))"

definition parseDeclaration :: "yaml_lib \<Rightarrow> string \<Rightarrow> string \<Rightarrow> int \<Rightarrow> parse_error + block" where
  "parseDeclaration y kind body firstLine =
     sbind (decodeDeclaration y kind body firstLine) (\<lambda>fs.
     sbind (declarationIdentity fs firstLine) (\<lambda>(i, label).
     if kind = ''test-check'' then parseCheck fs i label firstLine
     else parseField y fs i label firstLine))"

section \<open>Procedures\<close>

definition lineText :: "string \<Rightarrow> string" where
  "lineText line = trim_suffix (trim_suffix line [newline]) [CHR 0x0D]"

record fence =
  fc_marker :: char
  fc_width :: nat
  fc_info :: string

definition openingFence :: "string \<Rightarrow> fence option" where
  "openingFence line =
     (let txt = dropWhile (\<lambda>c. c = CHR '' '' \<or> c = CHR 0x09) line in
      if length txt < 3 \<or> (hd txt \<noteq> CHR 0x60 \<and> hd txt \<noteq> CHR ''~'') then None
      else let i = length (takeWhile (\<lambda>c. c = hd txt) txt) in
           if i < 3 then None
           else Some \<lparr>fc_marker = hd txt, fc_width = i, fc_info = trim_space (drop i txt)\<rparr>)"

definition fence_closes :: "fence \<Rightarrow> string \<Rightarrow> bool" where
  "fence_closes f line =
     (case openingFence line of
        None \<Rightarrow> False
      | Some g \<Rightarrow> fc_marker g = fc_marker f \<and> fc_width f \<le> fc_width g \<and> fc_info g = '''')"

definition ticks :: string where "ticks = [CHR 0x60, CHR 0x60, CHR 0x60]"

definition validateProcedureSource :: "string \<Rightarrow> parse_error option" where
  "validateProcedureSource src =
     (if MaxProcedureBytes < int (length src) then Some (errorAt 1 ProcedureTooLong)
      else if \<not> utf8_valid src \<or> CHR 0x00 \<in> set src then Some (errorAt 1 ProcedureNotText)
      else if trim_space src = '''' then Some (errorAt 1 ProcedureEmpty)
      else None)"

text \<open>The loop of \<^verbatim>\<open>nextControl\<close> from line \<open>i\<close> on; \<open>n\<close> is the number of lines and \<open>ordinary\<close> the open
  fence of ordinary code, if any.\<close>

fun next_control :: "nat \<Rightarrow> fence option \<Rightarrow> nat \<Rightarrow> string list \<Rightarrow> parse_error + nat" where
  "next_control n ordinary i [] = Inr n"
| "next_control n ordinary i (l # ls) =
     (let line = lineText l in
      case ordinary of
        Some f \<Rightarrow> next_control n (if fence_closes f line then None else Some f) (Suc i) ls
      | None \<Rightarrow>
          (case openingFence line of
             None \<Rightarrow> next_control n None (Suc i) ls
           | Some f \<Rightarrow>
               if \<not> has_prefix (fc_info f) ''test-'' then next_control n (Some f) (Suc i) ls
               else if line \<noteq> ticks @ ''test-field'' \<and> line \<noteq> ticks @ ''test-check''
               then Inl (errorAt (int i + 1) ControlFenceExpected)
               else Inr i))"

definition nextControl :: "string list \<Rightarrow> nat \<Rightarrow> parse_error + nat" where
  "nextControl ls start = next_control (length ls) None start (drop start ls)"

definition parseControl :: "yaml_lib \<Rightarrow> string list \<Rightarrow> nat \<Rightarrow> parse_error + block \<times> nat" where
  "parseControl y ls start =
     (let kind = trim_prefix (lineText (ls ! start)) ticks;
          body_lines = takeWhile (\<lambda>l. lineText l \<noteq> ticks) (drop (Suc start) ls);
          stop = Suc start + length body_lines;
          body = concat body_lines in
      if length ls \<le> stop then Inl (errorAt (int start + 1) (Unclosed kind))
      else if maxDeclarationBytes < int (length body) then Inl (errorAt (int start + 1) DeclarationTooLong)
      else sbind (parseDeclaration y kind body (int start + 2)) (\<lambda>b.
           Inr (b\<lparr>bk_Line := int start + 1\<rparr>, stop)))"

definition appendMarkdown :: "block list \<Rightarrow> string list \<Rightarrow> nat \<Rightarrow> nat \<Rightarrow> block list" where
  "appendMarkdown bs ls start stop =
     (let txt = concat (take (stop - start) (drop start ls)) in
      if txt = '''' then bs
      else bs @ [empty_block\<lparr>bk_Kind := ''markdown'', bk_Line := int start + 1, bk_Markdown := txt\<rparr>])"

record control_registry =
  rg_seen :: "(string \<times> int) list"
  rg_boundResult :: bool

definition control_id :: "block \<Rightarrow> string" where
  "control_id b = (case bk_Field b of
      Some f \<Rightarrow> fd_ID f
    | None \<Rightarrow> (case bk_Check b of Some c \<Rightarrow> ck_ID c | None \<Rightarrow> ''''))"

definition is_bound :: "block \<Rightarrow> bool" where
  "is_bound b = (case bk_Field b of Some f \<Rightarrow> fd_Bind f \<noteq> '''' | None \<Rightarrow> False)"

definition registry_add :: "control_registry \<Rightarrow> block \<Rightarrow> parse_error + control_registry" where
  "registry_add r b =
     (if is_bound b \<and> rg_boundResult r then Inl (errorAt (bk_Line b) BoundTwice)
      else case map_of (rg_seen r) (control_id b) of
          Some prior \<Rightarrow> Inl (errorAt (bk_Line b) (DuplicateControl (control_id b) prior))
        | None \<Rightarrow>
            if maxControls \<le> length (rg_seen r) then Inl (errorAt (bk_Line b) TooManyControls)
            else Inr \<lparr>rg_seen = put (control_id b) (bk_Line b) (rg_seen r),
                      rg_boundResult = rg_boundResult r \<or> is_bound b\<rparr>)"

lemma next_control_Inr:
  "next_control n ord i ls = Inr k \<Longrightarrow> k = n \<or> (i \<le> k \<and> k < i + length ls)"
proof (induction n ord i ls rule: next_control.induct)
  case (2 n ordinary i l ls)
  then show ?case
    by (fastforce simp: Let_def split: option.splits if_splits)
qed simp

lemma nextControl_bounds: "nextControl ls start = Inr k \<Longrightarrow> k \<noteq> length ls \<Longrightarrow> start \<le> k \<and> k < length ls"
  using next_control_Inr [of "length ls" None start "drop start ls" k]
  by (auto simp: nextControl_def)

lemma parseControl_bounds: "parseControl y ls start = Inr (b, stop) \<Longrightarrow> start < stop \<and> stop < length ls"
  by (auto simp: parseControl_def Let_def sbind_returns split: if_splits)

text \<open>Every declaration moves the loop forward, so it ends.\<close>

function parse_blocks ::
  "yaml_lib \<Rightarrow> string list \<Rightarrow> control_registry \<Rightarrow> nat \<Rightarrow> block list \<Rightarrow> parse_error + block list" where
  "parse_blocks y ls reg proseStart bs =
     (case nextControl ls proseStart of
        Inl e \<Rightarrow> Inl e
      | Inr start \<Rightarrow>
          if start = length ls then Inr (appendMarkdown bs ls proseStart (length ls))
          else (case parseControl y ls start of
              Inl e \<Rightarrow> Inl e
            | Inr (b, stop) \<Rightarrow>
                (case registry_add reg b of
                   Inl e \<Rightarrow> Inl e
                 | Inr reg' \<Rightarrow> parse_blocks y ls reg' (Suc stop) (appendMarkdown bs ls proseStart start @ [b]))))"
  by pat_completeness auto
termination
  by (relation "measure (\<lambda>(y, ls, reg, proseStart, bs). length ls - proseStart)")
    (auto dest!: nextControl_bounds parseControl_bounds)

declare parse_blocks.simps [simp del]

definition ParseProcedure :: "yaml_lib \<Rightarrow> string \<Rightarrow> parse_error + procedure" where
  "ParseProcedure y src =
     (case validateProcedureSource src of
        Some e \<Rightarrow> Inl e
      | None \<Rightarrow>
          sbind (parse_blocks y (split_after newline src) \<lparr>rg_seen = [], rg_boundResult = False\<rparr> 0 [])
            (\<lambda>bs. Inr \<lparr>pr_SchemaVersion = 1, pr_Source = src, pr_Blocks = bs\<rparr>))"

section \<open>Blocks and the text they come from\<close>

definition newlines :: "string \<Rightarrow> int" where
  "newlines s = int (count_list s newline)"

text \<open>The text of a control: its opening line, a declaration that reads as the block, its closing
  line.\<close>

definition control_source :: "yaml_lib \<Rightarrow> block \<Rightarrow> string \<Rightarrow> bool" where
  "control_source y b s \<longleftrightarrow>
     (\<exists>kind opener body closer. s = opener @ body @ closer \<and> kind \<in> {''test-field'', ''test-check''}
        \<and> lineText opener = ticks @ kind \<and> lineText closer = ticks
        \<and> parseDeclaration y kind body (bk_Line b + 1) = Inr (b\<lparr>bk_Line := 0\<rparr>))"

definition block_source :: "yaml_lib \<Rightarrow> block \<Rightarrow> string \<Rightarrow> bool" where
  "block_source y b s \<longleftrightarrow>
     (if bk_Kind b = ''markdown'' then s = bk_Markdown b \<and> s \<noteq> '''' \<and> bk_Field b = None \<and> bk_Check b = None
      else control_source y b s)"

text \<open>The blocks, one after the other, make up a text that begins at a given line.\<close>

fun blocks_source :: "yaml_lib \<Rightarrow> int \<Rightarrow> block list \<Rightarrow> string \<Rightarrow> bool" where
  "blocks_source y line [] s \<longleftrightarrow> s = ''''"
| "blocks_source y line (b # bs) s \<longleftrightarrow>
     (\<exists>s1 s2. s = s1 @ s2 \<and> bk_Line b = line \<and> block_source y b s1
        \<and> blocks_source y (line + newlines s1) bs s2)"

lemma newlines_append [simp]: "newlines (s @ t) = newlines s + newlines t"
  by (simp add: newlines_def)

lemma newlines_Nil [simp]: "newlines [] = 0"
  by (simp add: newlines_def)

lemma blocks_source_snoc:
  "blocks_source y line bs s \<Longrightarrow> bk_Line b = line + newlines s \<Longrightarrow> block_source y b t
     \<Longrightarrow> blocks_source y line (bs @ [b]) (s @ t)"
proof (induction bs arbitrary: line s)
  case Nil
  then show ?case by simp
next
  case (Cons a bs)
  then obtain s1 s2 where s: "s = s1 @ s2" "bk_Line a = line" "block_source y a s1"
    and rest: "blocks_source y (line + newlines s1) bs s2" by auto
  have "blocks_source y (line + newlines s1) (bs @ [b]) (s2 @ t)"
    using Cons.prems s by (intro Cons.IH [OF rest]) simp_all
  with s show ?case by auto
qed

lemma concat_split_after: "concat (split_after c s) = s"
  by (induction s) (auto split: list.splits)

lemma split_after_nonempty: "split_after c s \<noteq> []"
  by (induction s) (auto split: list.splits)

lemma split_after_newlines:
  "i < length (split_after newline s) - 1 \<Longrightarrow> newlines (split_after newline s ! i) = 1"
proof (induction s arbitrary: i)
  case (Cons c s)
  obtain l ls where l: "split_after newline s = l # ls"
    using split_after_nonempty by (meson list.exhaust)
  show ?case
  proof (cases "c = newline")
    case True
    then show ?thesis using Cons l by (cases i) (auto simp: newlines_def)
  next
    case False
    then show ?thesis using Cons.prems Cons.IH [of i] l by (cases i) (auto simp: newlines_def)
  qed
qed simp

lemma lines_before:
  assumes "k < length (split_after newline s)"
  shows "newlines (concat (take k (split_after newline s))) = int k"
  using assms
proof (induction k)
  case (Suc k)
  then show ?case
    using split_after_newlines [of k s] by (simp add: take_Suc_conv_app_nth)
qed simp

section \<open>What is parsed\<close>

lemma next_control_stop:
  assumes "next_control n ord i ls = Inr k" "k \<noteq> n"
  shows "lineText (ls ! (k - i)) \<in> {ticks @ ''test-field'', ticks @ ''test-check''}"
  using assms
proof (induction n ord i ls rule: next_control.induct)
  case (2 n ordinary i l ls)
  show ?case
  proof (cases "k = i")
    case True
    then show ?thesis
      using 2 next_control_Inr [of n _ "Suc i" ls k]
      by (fastforce simp: Let_def split: option.splits if_splits)
  next
    case False
    then obtain ord' where step: "next_control n ord' (Suc i) ls = Inr k"
      using "2.prems" by (auto simp: Let_def split: option.splits if_splits)
    then have "Suc i \<le> k" using next_control_Inr "2.prems"(2) by blast
    then have nth: "(l # ls) ! (k - i) = ls ! (k - Suc i)" by (simp add: nth_Cons' Suc_diff_Suc)
    show ?thesis
      using 2 False unfolding nth
      by (auto simp: Let_def split: option.splits if_splits)
  qed
qed simp

lemma nextControl_line:
  assumes "nextControl ls start = Inr k" "k \<noteq> length ls"
  obtains kind where "kind \<in> {''test-field'', ''test-check''}" "lineText (ls ! k) = ticks @ kind"
proof -
  have "start \<le> k \<and> k < length ls" using nextControl_bounds assms by blast
  then have "drop start ls ! (k - start) = ls ! k" by simp
  then show ?thesis
    using next_control_stop [of "length ls" None start "drop start ls" k] assms that
    unfolding nextControl_def by fastforce
qed


lemma parseControl_source:
  assumes p: "parseControl y ls start = Inr (b, stop)" and kind: "kind \<in> {''test-field'', ''test-check''}"
    and line: "lineText (ls ! start) = ticks @ kind" and len: "start < length ls"
  shows "bk_Line b = int start + 1" "control_source y b (concat (take (Suc stop - start) (drop start ls)))"
proof -
  let ?body = "takeWhile (\<lambda>l. lineText l \<noteq> ticks) (drop (Suc start) ls)"
  have pre: "trim_prefix (ticks @ kind) ticks = kind" by (simp add: trim_prefix_def)
  obtain b' where b': "parseDeclaration y kind (concat ?body) (int start + 2) = Inr b'"
    and b: "b = b'\<lparr>bk_Line := int start + 1\<rparr>" and stop: "stop = Suc start + length ?body" and lt: "stop < length ls"
    using p unfolding parseControl_def Let_def line pre by (auto simp: sbind_returns split: if_splits)
  show "bk_Line b = int start + 1" using b by simp
  have zero: "bk_Line b' = 0"
    using b' by (auto simp: parseDeclaration_def parseCheck_def parseField_def empty_block_def
        returns_iff split: if_splits prod.splits)
  have closer: "lineText (ls ! stop) = ticks"
    using nth_length_takeWhile [of "\<lambda>l. lineText l \<noteq> ticks" "drop (Suc start) ls"] lt
    by (simp add: stop add.commute)
  have body: "?body = take (length ?body) (drop (Suc start) ls)"
    by (metis takeWhile_eq_take)
  have "take (Suc stop - start) (drop start ls) = ls ! start # ?body @ [ls ! stop]"
  proof -
    have "drop start ls = ls ! start # drop (Suc start) ls" using len by (simp add: Cons_nth_drop_Suc)
    moreover have "take (Suc (length ?body)) (drop (Suc start) ls) = ?body @ [ls ! stop]"
      using lt body by (simp add: stop take_Suc_conv_app_nth)
    ultimately show ?thesis by (simp add: stop)
  qed
  then have split: "concat (take (Suc stop - start) (drop start ls)) = ls ! start @ concat ?body @ ls ! stop"
    by simp
  have same: "b\<lparr>bk_Line := 0\<rparr> = b'" using b zero by (cases b') simp
  have next_line: "bk_Line b + 1 = int start + 2" using b by simp
  have "parseDeclaration y kind (concat ?body) (bk_Line b + 1) = Inr (b\<lparr>bk_Line := 0\<rparr>)"
    unfolding same next_line by (rule b')
  then show "control_source y b (concat (take (Suc stop - start) (drop start ls)))"
    unfolding control_source_def split using kind line closer by blast
qed

lemma parseDeclaration_kind:
  "parseDeclaration y kind body l = Inr b \<Longrightarrow> bk_Kind b \<in> {''field'', ''check''}"
  by (auto simp: parseDeclaration_def parseCheck_def parseField_def returns_iff split: if_splits prod.splits)

lemma parseControl_kind: "parseControl y ls start = Inr (b, stop) \<Longrightarrow> bk_Kind b \<in> {''field'', ''check''}"
  by (auto simp: parseControl_def Let_def returns_iff split: if_splits dest: parseDeclaration_kind)

lemma concat_take_drop: "p \<le> q \<Longrightarrow> concat (take p ls) @ concat (take (q - p) (drop p ls)) = concat (take q ls)"
  by (metis concat_append le_add_diff_inverse take_add)

lemma appendMarkdown_source:
  assumes bs: "blocks_source y 1 bs (concat (take p ls))" and ls: "ls = split_after newline src"
    and pq: "p \<le> q" and q: "q \<le> length ls"
  shows "blocks_source y 1 (appendMarkdown bs ls p q) (concat (take q ls))"
proof (cases "concat (take (q - p) (drop p ls)) = ''''")
  case True
  then have "concat (take q ls) = concat (take p ls)"
    using concat_take_drop [OF pq, of ls] by (metis append_Nil2)
  with True bs show ?thesis by (simp add: appendMarkdown_def del: concat_eq_Nil_conv)
next
  case False
  then have "p < length ls" using q pq by (metis append_Nil2 concat.simps(1) drop_all take_Nil linorder_not_less)
  then have line: "newlines (concat (take p ls)) = int p" using lines_before ls by simp
  let ?b = "empty_block\<lparr>bk_Kind := ''markdown'', bk_Line := int p + 1,
    bk_Markdown := concat (take (q - p) (drop p ls))\<rparr>"
  have "blocks_source y 1 (bs @ [?b]) (concat (take p ls) @ concat (take (q - p) (drop p ls)))"
    using False line
    by (intro blocks_source_snoc [OF bs]) (auto simp: block_source_def empty_block_def)
  then show ?thesis
    using False unfolding appendMarkdown_def Let_def concat_take_drop [OF pq] by (simp only: if_False)
qed


text \<open>The controls of a list of blocks, and what the registry has recorded of them.\<close>

definition controls :: "block list \<Rightarrow> block list" where
  "controls bs = filter (\<lambda>b. bk_Kind b \<noteq> ''markdown'') bs"

definition registered :: "control_registry \<Rightarrow> block list \<Rightarrow> bool" where
  "registered r bs \<longleftrightarrow>
     distinct (map control_id (controls bs)) \<and> fst ` set (rg_seen r) = control_id ` set (controls bs)
     \<and> length (rg_seen r) = length (controls bs) \<and> length (controls bs) \<le> maxControls
     \<and> length (filter is_bound bs) = (if rg_boundResult r then 1 else 0)"

lemma controls_append [simp]: "controls (bs @ cs) = controls bs @ controls cs"
  by (simp add: controls_def)

lemma registered_snoc_markdown:
  "registered r bs \<Longrightarrow> registered r (bs @ [empty_block\<lparr>bk_Kind := ''markdown'', bk_Line := l, bk_Markdown := t\<rparr>])"
  by (simp add: registered_def controls_def empty_block_def is_bound_def)

lemma registered_markdown: "registered r bs \<Longrightarrow> registered r (appendMarkdown bs ls p q)"
  unfolding appendMarkdown_def Let_def by (simp add: registered_snoc_markdown del: concat_eq_Nil_conv)

lemma registry_add_registered:
  assumes add: "registry_add r b = Inr r'" and r: "registered r bs" and kind: "bk_Kind b \<in> {''field'', ''check''}"
  shows "registered r' (bs @ [b])"
proof -
  have fresh: "control_id b \<notin> fst ` set (rg_seen r)"
    and small: "length (rg_seen r) < maxControls" and bound: "\<not> (is_bound b \<and> rg_boundResult r)"
    and r': "r' = \<lparr>rg_seen = put (control_id b) (bk_Line b) (rg_seen r), rg_boundResult = rg_boundResult r \<or> is_bound b\<rparr>"
    using add by (auto simp: registry_add_def map_of_eq_None_iff split: if_splits option.splits)
  have "filter (\<lambda>(k, _). k \<noteq> control_id b) (rg_seen r) = rg_seen r"
    using fresh by (intro filter_True) (auto simp: image_iff)
  then have "rg_seen r' = (control_id b, bk_Line b) # rg_seen r" by (simp add: r' put_def)
  moreover have "controls [b] = [b]" using kind by (auto simp: controls_def)
  ultimately show ?thesis
    using r fresh small bound unfolding registered_def by (auto simp: r')
qed

lemma parse_blocks_source:
  assumes "parse_blocks y ls reg p bs = Inr out" and "ls = split_after newline src" and "p \<le> length ls"
    and "blocks_source y 1 bs (concat (take p ls))" and "registered reg bs"
  shows "blocks_source y 1 out src \<and> (\<exists>reg'. registered reg' out)"
  using assms
proof (induction y ls reg p bs rule: parse_blocks.induct)
  case (1 y ls reg p bs)
  obtain start where start: "nextControl ls p = Inr start"
    using "1.prems"(1) by (subst (asm) parse_blocks.simps) (auto split: sum.splits)
  show ?case
  proof (cases "start = length ls")
    case True
    then have "out = appendMarkdown bs ls p (length ls)"
      using "1.prems"(1) start by (subst (asm) parse_blocks.simps) simp
    then show ?thesis
      using appendMarkdown_source [OF "1.prems"(4,2,3)] registered_markdown [OF "1.prems"(5)]
        concat_split_after [of newline src] "1.prems"(2) by auto
  next
    case False
    obtain b stop reg' where ctl: "parseControl y ls start = Inr (b, stop)" and reg': "registry_add reg b = Inr reg'"
      and loop: "parse_blocks y ls reg' (Suc stop) (appendMarkdown bs ls p start @ [b]) = Inr out"
      using "1.prems"(1) start False
      by (subst (asm) parse_blocks.simps) (auto split: sum.splits)
    have order: "p \<le> start" "start < length ls" "start < stop" "stop < length ls"
      using nextControl_bounds [OF start False] parseControl_bounds [OF ctl] by auto
    obtain kind where kind: "kind \<in> {''test-field'', ''test-check''}" "lineText (ls ! start) = ticks @ kind"
      using nextControl_line [OF start False] by blast
    have src: "blocks_source y 1 (appendMarkdown bs ls p start) (concat (take start ls))"
      using "1.prems" order by (intro appendMarkdown_source) auto
    have "newlines (concat (take start ls)) = int start"
      using lines_before order "1.prems"(2) by simp
    then have "blocks_source y 1 (appendMarkdown bs ls p start @ [b])
        (concat (take start ls) @ concat (take (Suc stop - start) (drop start ls)))"
      using parseControl_source [OF ctl kind order(2)] parseControl_kind [OF ctl]
      by (intro blocks_source_snoc [OF src]) (auto simp: block_source_def)
    then have "blocks_source y 1 (appendMarkdown bs ls p start @ [b]) (concat (take (Suc stop) ls))"
      using concat_take_drop [of start "Suc stop" ls] order by simp
    moreover have "registered reg' (appendMarkdown bs ls p start @ [b])"
      using registry_add_registered [OF reg' registered_markdown [OF "1.prems"(5)] parseControl_kind [OF ctl]] .
    ultimately show ?thesis
      using "1.IH" [OF start False ctl refl reg' loop "1.prems"(2)] order by auto
  qed
qed

lemma blocks_source_blocks:
  "blocks_source y line bs s \<Longrightarrow> b \<in> set bs \<Longrightarrow> \<exists>t. block_source y b t"
  by (induction bs arbitrary: line s) auto


section \<open>Well-formed controls\<close>

definition default_ok :: "yaml_lib \<Rightarrow> test_field \<Rightarrow> json \<Rightarrow> bool" where
  "default_ok y f v = (case v of
      JStr s \<Rightarrow> fd_Type f = ''text'' \<or> fd_Type f = ''choice'' \<and> s \<in> set (fd_Options f)
    | JNum r \<Rightarrow> fd_Type f = ''measurement'' \<and> (\<exists>n. yl_float y n = Some (Finite r))
    | _ \<Rightarrow> False)"

definition field_wf :: "yaml_lib \<Rightarrow> test_field \<Rightarrow> bool" where
  "field_wf y f \<longleftrightarrow>
     controlID (fd_ID f) \<and> fd_Type f \<in> set field_types
     \<and> (fd_Type f = ''choice'' \<longrightarrow> fd_Options f \<noteq> [] \<and> distinct (fd_Options f))
     \<and> (fd_Bind f \<noteq> '''' \<longrightarrow> fd_Type f = ''choice'' \<and> set (fd_Options f) = set bound_results)
     \<and> (\<forall>v. fd_Default f = Some v \<longrightarrow> fd_Bind f = '''' \<and> default_ok y f v)"

definition control_wf :: "yaml_lib \<Rightarrow> block \<Rightarrow> bool" where
  "control_wf y b \<longleftrightarrow>
     (bk_Kind b = ''check'' \<and> bk_Field b = None \<and> (\<exists>c. bk_Check b = Some c \<and> controlID (ck_ID c)))
     \<or> (bk_Kind b = ''field'' \<and> bk_Check b = None \<and> (\<exists>f. bk_Field b = Some f \<and> field_wf y f))"

lemma choice_values_distinct:
  "choice_values l vs ns = Inr os \<Longrightarrow> distinct vs \<Longrightarrow> distinct os \<and> length os = length vs + length ns"
  by (induction l vs ns rule: choice_values.induct) (auto split: if_splits)

lemma parseChoiceOptions_distinct:
  "parseChoiceOptions n l = Inr os \<Longrightarrow> os \<noteq> [] \<and> distinct os"
  using choice_values_distinct [of l "[]" "yn_Content (the n)" os]
  by (auto simp: parseChoiceOptions_def split: option.splits if_splits)

lemma bound_options:
  assumes "length os = 4" "list_all (\<lambda>r. r \<in> set os) bound_results"
  shows "set os = set bound_results"
proof -
  have "set bound_results \<subseteq> set os" using assms(2) by (auto simp: list_all_iff)
  moreover have "card (set os) \<le> card (set bound_results)"
    using card_length [of os] assms(1) by (simp add: bound_results_def)
  ultimately show ?thesis by (metis card_seteq List.finite_set)
qed

lemma configuration_wf:
  assumes "parseFieldConfiguration y f fs l = Inr f1"
  shows "fd_ID f1 = fd_ID f" "fd_Type f1 = fd_Type f" "fd_Bind f1 = fd_Bind f" "fd_Default f1 = fd_Default f"
    "fd_Type f = ''choice'' \<Longrightarrow> fd_Options f1 \<noteq> [] \<and> distinct (fd_Options f1)"
    "map_of fs ''bind'' \<noteq> None \<Longrightarrow> fd_Type f = ''choice''"
  using assms parseChoiceOptions_distinct
  by (auto simp: parseFieldConfiguration_def typed_properties_def returns_iff
      split: option.splits if_splits)

lemma binding_wf:
  assumes "parseResultBinding f fs l = Inr f2" and "fd_Bind f = ''''"
    and "map_of fs ''bind'' \<noteq> None \<Longrightarrow> fd_Type f = ''choice''"
  shows "fd_ID f2 = fd_ID f \<and> fd_Type f2 = fd_Type f \<and> fd_Options f2 = fd_Options f \<and> fd_Default f2 = fd_Default f"
    "fd_Bind f2 \<noteq> '''' \<Longrightarrow> fd_Type f2 = ''choice'' \<and> set (fd_Options f2) = set bound_results"
  using assms bound_options
  by (auto simp: parseResultBinding_def returns_iff split: if_splits)

lemma default_wf:
  assumes "parseFieldDefault y f n l = Inr f3" and "fd_Default f = None"
  shows "fd_ID f3 = fd_ID f \<and> fd_Type f3 = fd_Type f \<and> fd_Options f3 = fd_Options f \<and> fd_Bind f3 = fd_Bind f"
    "fd_Default f3 = Some v \<Longrightarrow> fd_Bind f3 = '''' \<and> default_ok y f3 v"
  using assms
  by (auto simp: parseFieldDefault_def defaultValue_def default_ok_def
      split: option.splits if_splits sum.splits go_float.splits intro!: exI)

lemma parseField_wf:
  assumes p: "parseField y fs i label l = Inr b" and i: "controlID i"
  shows "control_wf y b"
proof -
  obtain ty req f1 f2 f3 where ty: "ty \<in> set field_types"
    and f1: "parseFieldConfiguration y (new_field i label ty req) fs l = Inr f1"
    and f2: "parseResultBinding f1 fs l = Inr f2" and f3: "parseFieldDefault y f2 (map_of fs ''default'') l = Inr f3"
    and b: "b = empty_block\<lparr>bk_Kind := ''field'', bk_Field := Some f3\<rparr>"
    using p by (auto simp: parseField_def returns_iff)
  note c = configuration_wf [OF f1]
  have "fd_Bind f1 = ''''" "map_of fs ''bind'' \<noteq> None \<Longrightarrow> fd_Type f1 = ''choice''"
    using c by (simp_all add: new_field_def)
  note r = binding_wf [OF f2 this]
  have "fd_Default f2 = None" using c r by (simp add: new_field_def)
  note d = default_wf [OF f3 this]
  have "field_wf y f3"
    unfolding field_wf_def using ty i c r d by (auto simp: new_field_def)
  then show ?thesis by (simp add: control_wf_def b empty_block_def)
qed

lemma parseCheck_wf: "parseCheck fs i label l = Inr b \<Longrightarrow> controlID i \<Longrightarrow> control_wf y b"
  by (auto simp: parseCheck_def returns_iff control_wf_def empty_block_def)

lemma parseDeclaration_wf: "parseDeclaration y kind body l = Inr b \<Longrightarrow> control_wf y b"
  by (auto simp: parseDeclaration_def declarationIdentity_def returns_iff split: if_splits
      intro: parseField_wf parseCheck_wf)

lemma control_wf_line: "control_wf y (b\<lparr>bk_Line := l\<rparr>) \<longleftrightarrow> control_wf y b"
  by (simp add: control_wf_def)

lemma control_source_wf: "control_source y b t \<Longrightarrow> control_wf y b"
  using parseDeclaration_wf [of y _ _ _ "b\<lparr>bk_Line := 0\<rparr>"]
  unfolding control_source_def control_wf_line by blast

lemma ParseProcedure_blocks:
  assumes p: "ParseProcedure y src = Inr p"
  shows "pr_Source p = src" "blocks_source y 1 (pr_Blocks p) src" "\<exists>reg. registered reg (pr_Blocks p)"
    "b \<in> set (pr_Blocks p) \<Longrightarrow> bk_Kind b = ''markdown'' \<and> bk_Field b = None \<and> bk_Check b = None \<or> control_wf y b"
proof -
  have bs: "parse_blocks y (split_after newline src) \<lparr>rg_seen = [], rg_boundResult = False\<rparr> 0 [] = Inr (pr_Blocks p)"
    and src: "pr_Source p = src"
    using p by (auto simp: ParseProcedure_def returns_iff split: option.splits)
  have "registered \<lparr>rg_seen = [], rg_boundResult = False\<rparr> []" by (simp add: registered_def controls_def)
  then have main: "blocks_source y 1 (pr_Blocks p) src \<and> (\<exists>reg. registered reg (pr_Blocks p))"
    using parse_blocks_source [OF bs refl] by simp
  then show "blocks_source y 1 (pr_Blocks p) src" "\<exists>reg. registered reg (pr_Blocks p)" by auto
  show "pr_Source p = src" by (rule src)
  assume "b \<in> set (pr_Blocks p)"
  then obtain t where "block_source y b t" using blocks_source_blocks main by blast
  then show "bk_Kind b = ''markdown'' \<and> bk_Field b = None \<and> bk_Check b = None \<or> control_wf y b"
    using control_source_wf by (auto simp: block_source_def split: if_splits)
qed

lemma ParseProcedure_parts:
  assumes "ParseProcedure y src = Inr p"
  shows "pr_Source p = src" "blocks_source y 1 (pr_Blocks p) src"
    "distinct (map control_id (controls (pr_Blocks p)))" "length (controls (pr_Blocks p)) \<le> 1000"
    "list_all (control_wf y) (controls (pr_Blocks p))" "length (filter is_bound (pr_Blocks p)) \<le> 1"
proof -
  note b = ParseProcedure_blocks [OF assms]
  show "pr_Source p = src" "blocks_source y 1 (pr_Blocks p) src" by (rule b)+
  obtain reg where "registered reg (pr_Blocks p)" using b(3) by blast
  then show "distinct (map control_id (controls (pr_Blocks p)))" "length (controls (pr_Blocks p)) \<le> 1000"
    "length (filter is_bound (pr_Blocks p)) \<le> 1"
    by (auto simp: registered_def maxControls_def)
  show "list_all (control_wf y) (controls (pr_Blocks p))"
    using b(4) by (auto simp: list_all_iff controls_def)
qed

text \<open>
  C9. A procedure that parses keeps its author's text, and its blocks are that text cut into
  pieces, in order and with nothing left out: each prose block is its piece, each control has the
  declaration that its piece holds between the two fence lines, and each block names the line it
  begins at. The controls have distinct, well-formed names, there are at most a thousand of them,
  at most one is bound to the result, and a declared default is a value of its field.
\<close>

theorem ParseProcedure_faithful:
  assumes "ParseProcedure y src = Inr p"
  shows "pr_Source p = src \<and> blocks_source y 1 (pr_Blocks p) src
    \<and> distinct (map control_id (controls (pr_Blocks p))) \<and> length (controls (pr_Blocks p)) \<le> 1000
    \<and> list_all (control_wf y) (controls (pr_Blocks p)) \<and> length (filter is_bound (pr_Blocks p)) \<le> 1"
  using ParseProcedure_parts [OF assms] by blast



text \<open>A document with one check, under a decoder that knows its declaration.\<close>

definition scalar :: "string \<Rightarrow> int \<Rightarrow> yaml_node" where
  "scalar v l = YNode ScalarNode ''!!str'' v '''' False l []"

definition demo_yaml :: yaml_lib where
  "demo_yaml = \<lparr>yl_decode = (\<lambda>body. (Inr (YNode DocumentNode '''' '''' '''' False 1
       [YNode MappingNode ''!!map'' '''' '''' False 1
         [scalar ''id'' 1, scalar ''door'' 1, scalar ''label'' 2, scalar ''Door opens'' 2,
          scalar ''behavior'' 3, scalar ''expect'' 3]]), True)),
     yl_float = (\<lambda>n. Some (Finite 0)), yl_bool = (\<lambda>n. Some True)\<rparr>"

definition demo_procedure :: string where
  "demo_procedure =
     ''Go.'' @ newline # ticks @ ''test-check'' @ newline # ''id: door'' @ newline # ticks @ newline # ''Stop.''"

definition demo_blocks :: "block list" where
  "demo_blocks =
     [empty_block\<lparr>bk_Kind := ''markdown'', bk_Line := 1, bk_Markdown := ''Go.'' @ [newline]\<rparr>,
      empty_block\<lparr>bk_Kind := ''check'', bk_Line := 2,
        bk_Check := Some \<lparr>ck_ID = ''door'', ck_Label = ''Door opens'', ck_Behavior = ''expect''\<rparr>\<rparr>,
      empty_block\<lparr>bk_Kind := ''markdown'', bk_Line := 5, bk_Markdown := ''Stop.''\<rparr>]"

lemma demo_parses:
  "ParseProcedure demo_yaml demo_procedure
   = Inr \<lparr>pr_SchemaVersion = 1, pr_Source = demo_procedure, pr_Blocks = demo_blocks\<rparr>"
  by code_simp

theorem ParseProcedure_faithful_witness:
  "ParseProcedure demo_yaml demo_procedure
     = Inr \<lparr>pr_SchemaVersion = 1, pr_Source = demo_procedure, pr_Blocks = demo_blocks\<rparr>
   \<and> blocks_source demo_yaml 1 demo_blocks demo_procedure"
  using demo_parses ParseProcedure_faithful [OF demo_parses] by simp

end
