(* ===== verification/Campaign_Draft.thy ===== *)
theory Campaign_Draft
  imports Procedure
begin

text \<open>
  Unfinished work on a procedure: \<^verbatim>\<open>internal/campaign/draft.go\<close>, what may be saved, and
  \<^verbatim>\<open>internal/campaign/finalize.go\<close>, what may become evidence. A raw JSON value inside a draft is the
  document it denotes; an absent map is \<^term>\<open>None\<close>. Parsing a URL and a time are arguments.
\<close>

section \<open>Decoding\<close>

text \<open>\<^verbatim>\<open>encoding/json\<close> matches a key to a struct field regardless of case, under Unicode's simple
  folding: besides the two cases of a letter, the long s and the Kelvin sign.\<close>

fun json_fold :: "string \<Rightarrow> string" where
  "json_fold [] = []"
| "json_fold [c] = [ascii_lower c]"
| "json_fold (c # b # s) =
     (if c = CHR 0xC5 \<and> b = CHR 0xBF then CHR ''s'' # json_fold s
      else if c = CHR 0xE2 \<and> b = CHR 0x84 \<and> s \<noteq> [] \<and> hd s = CHR 0xAA then CHR ''k'' # json_fold (tl s)
      else ascii_lower c # json_fold (b # s))"

text \<open>A struct of strings: what each key sets. An unknown key is an error only for a strict decoder,
  a value that is not a string always is, and \<^verbatim>\<open>null\<close> leaves the field alone.\<close>

definition set_member ::
  "bool \<Rightarrow> string list \<Rightarrow> string \<times> json \<Rightarrow> (string \<times> string) list \<Rightarrow> (string \<times> string) list option" where
  "set_member strict names kv m =
     (case find (\<lambda>n. json_fold n = json_fold (fst kv)) names of
        None \<Rightarrow> if strict then None else Some m
      | Some n \<Rightarrow> (case snd kv of JStr s \<Rightarrow> Some (put n s m) | JNull \<Rightarrow> Some m | _ \<Rightarrow> None))"

fun set_members ::
  "bool \<Rightarrow> string list \<Rightarrow> (string \<times> json) list \<Rightarrow> (string \<times> string) list \<Rightarrow> (string \<times> string) list option" where
  "set_members strict names [] m = Some m"
| "set_members strict names (kv # kvs) m =
     (case set_member strict names kv m of None \<Rightarrow> None | Some m' \<Rightarrow> set_members strict names kvs m')"

definition decode_struct :: "bool \<Rightarrow> string list \<Rightarrow> json \<Rightarrow> (string \<times> string) list option" where
  "decode_struct strict names j = (case j of
      JNull \<Rightarrow> Some []
    | JObj kvs \<Rightarrow> set_members strict names kvs []
    | _ \<Rightarrow> None)"

definition member :: "(string \<times> string) list \<Rightarrow> string \<Rightarrow> string" where
  "member m n = (case map_of m n of Some s \<Rightarrow> s | None \<Rightarrow> '''')"

text \<open>The numbers a \<^verbatim>\<open>float64\<close> can hold, after rounding to nearest.\<close>

definition float_range :: "rat \<Rightarrow> bool" where
  "float_range r \<longleftrightarrow> \<bar>r\<bar> < 2 ^ 1024 - 2 ^ 970"

section \<open>Drafts\<close>

record draft_data =
  dr_Repo :: string
  dr_Branch :: string
  dr_RCSRef :: string
  dr_Notes :: string
  dr_Result :: string
  dr_Answers :: "(string \<times> json) list option"
  dr_EvidenceType :: string
  dr_Source :: string
  dr_Metadata :: "(string \<times> json) list option"
  dr_FinishedAt :: string

definition empty_draft :: draft_data where
  "empty_draft = \<lparr>dr_Repo = '''', dr_Branch = '''', dr_RCSRef = '''', dr_Notes = '''', dr_Result = '''',
     dr_Answers = None, dr_EvidenceType = '''', dr_Source = '''', dr_Metadata = None, dr_FinishedAt = ''''\<rparr>"

definition answer :: "draft_data \<Rightarrow> string \<Rightarrow> json option" where
  "answer d i = (case dr_Answers d of None \<Rightarrow> None | Some m \<Rightarrow> map_of m i)"

fun initial_answers :: "block list \<Rightarrow> (string \<times> json) list \<Rightarrow> (string \<times> json) list" where
  "initial_answers [] m = m"
| "initial_answers (b # bs) m = initial_answers bs
     (case bk_Field b of
        None \<Rightarrow> m
      | Some f \<Rightarrow> if fd_Bind f = '''' then (case fd_Default f of None \<Rightarrow> m | Some v \<Rightarrow> put (fd_ID f) v m) else m)"

definition InitialDraft :: "procedure \<Rightarrow> draft_data" where
  "InitialDraft p = empty_draft\<lparr>dr_Answers := Some (initial_answers (pr_Blocks p) [])\<rparr>"

record parsed_url =
  pu_Scheme :: string
  pu_Hostname :: string
  pu_HasUser :: bool
  pu_RawQuery :: string
  pu_Fragment :: string

record draft_env =
  de_time :: "string \<Rightarrow> instant option"
  de_url :: "string \<Rightarrow> parsed_url option"

datatype draft_error =
    BadFinishedAt | BadEvidenceType | ReservedMetadata string | MetadataNotText string
  | MetadataNotStrings string | BadAccuracy | AnswersMissing | BadResult | UnknownAnswer string
  | NullAnswer string | BoundAnswer string | NotString string | NotDeclaredOption string | NotNumber string
  | UnsupportedAnswer string | BadCheckJSON string | BadOutcome string | ReasonNeeded string
  | BadLinksJSON string | BadLink string
  | ContextRequired | ResultRequired | OutcomeNeeded string | PassNeedsPass string
  | SkippedNeedsNotExecuted string | InputsMissing "string list" | NotesRequired "string list"

definition reserved_metadata :: "string list" where
  "reserved_metadata = [''campaign'', ''procedure_modified'', ''repo'', ''branch'', ''rcs_ref'', ''procedure_ref'',
     ''source'', ''result'', ''notes'', ''finished_at'']"

definition metadata_entry_error :: "string \<times> json \<Rightarrow> draft_error option" where
  "metadata_entry_error kv =
     (let key = fst kv; raw = snd kv in
      if key \<in> set reserved_metadata then Some (ReservedMetadata key)
      else if key \<in> {''observations'', ''location'', ''weather_conditions'', ''weather_observed_at''} then
        (case raw of JStr _ \<Rightarrow> None | _ \<Rightarrow> Some (MetadataNotText key))
      else if key \<in> {''tags'', ''photo_uris'', ''video_uris''} then
        (if unmarshal_strings (Some raw) = None then Some (MetadataNotStrings key) else None)
      else if key = ''location_accuracy_m'' then
        (case raw of JNum r \<Rightarrow> if float_range r \<and> 0 \<le> r then None else Some BadAccuracy | _ \<Rightarrow> Some BadAccuracy)
      else None)"

fun first_error :: "('a \<Rightarrow> 'e option) \<Rightarrow> 'a list \<Rightarrow> 'e option" where
  "first_error f [] = None"
| "first_error f (x # xs) = (case f x of Some e \<Rightarrow> Some e | None \<Rightarrow> first_error f xs)"

definition validateDraftMetadata :: "(string \<times> json) list option \<Rightarrow> draft_error option" where
  "validateDraftMetadata m = (case m of None \<Rightarrow> None | Some kvs \<Rightarrow> first_error metadata_entry_error kvs)"

definition outcomes :: "string list" where
  "outcomes = [''PASS'', ''FAIL'', ''NOT_EXECUTED'']"

definition validateCheckAnswer :: "string \<Rightarrow> json \<Rightarrow> draft_error option" where
  "validateCheckAnswer i raw =
     (case decode_struct True [''outcome'', ''reason''] raw of
        None \<Rightarrow> Some (BadCheckJSON i)
      | Some m \<Rightarrow>
          if member m ''outcome'' \<notin> set outcomes then Some (BadOutcome i)
          else if member m ''outcome'' = ''NOT_EXECUTED'' \<and> trim_space (member m ''reason'') = ''''
          then Some (ReasonNeeded i)
          else None)"

definition link_error :: "draft_env \<Rightarrow> string \<Rightarrow> json \<Rightarrow> draft_error option" where
  "link_error env i j =
     (case decode_struct True [''uri'', ''label''] j of
        None \<Rightarrow> Some (BadLinksJSON i)
      | Some m \<Rightarrow>
          (case de_url env (member m ''uri'') of
             None \<Rightarrow> Some (BadLink i)
           | Some u \<Rightarrow>
               if pu_Scheme u \<noteq> ''https'' \<or> pu_Hostname u = '''' \<or> pu_HasUser u then Some (BadLink i) else None))"

text \<open>The whole list is decoded before its links are looked at.\<close>

definition validateDraftLinks :: "draft_env \<Rightarrow> string \<Rightarrow> json \<Rightarrow> draft_error option" where
  "validateDraftLinks env i raw =
     (case raw of
        JNull \<Rightarrow> None
      | JArr js \<Rightarrow>
          if \<exists>j \<in> set js. decode_struct True [''uri'', ''label''] j = None then Some (BadLinksJSON i)
          else first_error (link_error env i) js
      | _ \<Rightarrow> Some (BadLinksJSON i))"

definition validateAnswer :: "draft_env \<Rightarrow> string \<Rightarrow> block \<Rightarrow> json \<Rightarrow> draft_error option" where
  "validateAnswer env i b raw =
     (if raw = JNull then Some (NullAnswer i)
      else if bk_Check b \<noteq> None then validateCheckAnswer i raw
      else case bk_Field b of
          None \<Rightarrow> Some (UnsupportedAnswer i)
        | Some f \<Rightarrow>
            if fd_Bind f \<noteq> '''' then Some (BoundAnswer i)
            else if fd_Type f = ''text'' \<or> fd_Type f = ''choice'' then
              (case raw of
                 JStr v \<Rightarrow> if fd_Type f = ''choice'' \<and> v \<notin> set (fd_Options f) then Some (NotDeclaredOption i) else None
               | _ \<Rightarrow> Some (NotString i))
            else if fd_Type f = ''measurement'' then
              (case raw of JNum r \<Rightarrow> if float_range r then None else Some (NotNumber i) | _ \<Rightarrow> Some (NotNumber i))
            else if fd_Type f = ''evidence'' then validateDraftLinks env i raw
            else Some (UnsupportedAnswer i))"

text \<open>The table of controls: a field or check enters under its name, a later block over an earlier one.\<close>

definition control_table :: "block list \<Rightarrow> (string \<times> block) list" where
  "control_table bs = fold (\<lambda>b m.
     let m' = (case bk_Field b of None \<Rightarrow> m | Some f \<Rightarrow> put (fd_ID f) b m)
     in (case bk_Check b of None \<Rightarrow> m' | Some c \<Rightarrow> put (ck_ID c) b m')) bs []"

definition answer_error :: "draft_env \<Rightarrow> (string \<times> block) list \<Rightarrow> string \<times> json \<Rightarrow> draft_error option" where
  "answer_error env table kv =
     (case map_of table (fst kv) of
        None \<Rightarrow> Some (UnknownAnswer (fst kv))
      | Some b \<Rightarrow> validateAnswer env (fst kv) b (snd kv))"

definition ValidateDraft :: "draft_env \<Rightarrow> procedure \<Rightarrow> draft_data \<Rightarrow> draft_error option" where
  "ValidateDraft env p d =
     (if dr_FinishedAt d \<noteq> '''' \<and> de_time env (dr_FinishedAt d) = None then Some BadFinishedAt
      else if dr_EvidenceType d \<noteq> '''' \<and> \<not> ValidEvidenceType (dr_EvidenceType d) then Some BadEvidenceType
      else case validateDraftMetadata (dr_Metadata d) of
          Some e \<Rightarrow> Some e
        | None \<Rightarrow>
            (case dr_Answers d of
               None \<Rightarrow> Some AnswersMissing
             | Some given \<Rightarrow>
                 if dr_Result d \<noteq> '''' \<and> \<not> EvidenceResult_Valid (dr_Result d) then Some BadResult
                 else first_error (answer_error env (control_table (pr_Blocks p))) given))"

section \<open>Finalization\<close>

definition missingAnswer :: "json option \<Rightarrow> bool" where
  "missingAnswer raw = (case raw of
      None \<Rightarrow> True
    | Some (JStr s) \<Rightarrow> trim_space s = ''''
    | Some (JArr js) \<Rightarrow> js = []
    | Some JNull \<Rightarrow> True
    | _ \<Rightarrow> False)"

definition finalCheck :: "string \<Rightarrow> draft_data \<Rightarrow> draft_error + string" where
  "finalCheck i d =
     (case answer d i of
        None \<Rightarrow> Inl (OutcomeNeeded i)
      | Some raw \<Rightarrow>
          (case decode_struct False [''outcome''] raw of
             None \<Rightarrow> Inl (BadCheckJSON i)
           | Some m \<Rightarrow>
               if dr_Result d = ''PASS'' \<and> member m ''outcome'' \<noteq> ''PASS'' then Inl (PassNeedsPass i)
               else if dr_Result d = ''SKIPPED'' \<and> member m ''outcome'' \<noteq> ''NOT_EXECUTED''
               then Inl (SkippedNeedsNotExecuted i)
               else Inr (member m ''outcome'')))"

text \<open>The loop over the blocks: the required inputs that are missing, and the number of failed checks.\<close>

fun assess :: "draft_data \<Rightarrow> block list \<Rightarrow> string list \<Rightarrow> nat \<Rightarrow> draft_error + string list \<times> nat" where
  "assess d [] missing failed = Inr (missing, failed)"
| "assess d (b # bs) missing failed =
     (case (case bk_Check b of
              None \<Rightarrow> Inr failed
            | Some c \<Rightarrow> (case finalCheck (ck_ID c) d of
                 Inl e \<Rightarrow> Inl e
               | Inr out \<Rightarrow> Inr (if out = ''FAIL'' then Suc failed else failed))) of
        Inl e \<Rightarrow> Inl e
      | Inr failed' \<Rightarrow>
          assess d bs
            (case bk_Field b of
               None \<Rightarrow> missing
             | Some f \<Rightarrow> if fd_Bind f = '''' \<and> fd_Required f \<and> missingAnswer (answer d (fd_ID f))
                         then missing @ [fd_ID f] else missing)
            failed')"

definition ValidateFinalization :: "draft_env \<Rightarrow> procedure \<Rightarrow> draft_data \<Rightarrow> draft_error option" where
  "ValidateFinalization env p d =
     (case ValidateDraft env p d of
        Some e \<Rightarrow> Some e
      | None \<Rightarrow>
          if trim_space (dr_Repo d) = '''' \<or> trim_space (dr_Branch d) = '''' \<or> trim_space (dr_RCSRef d) = ''''
          then Some ContextRequired
          else if dr_Result d = '''' then Some ResultRequired
          else (case assess d (pr_Blocks p) [] 0 of
              Inl e \<Rightarrow> Some e
            | Inr (missing, failed) \<Rightarrow>
                if missing \<noteq> [] \<and> dr_Result d = ''PASS'' then Some (InputsMissing missing)
                else if (missing \<noteq> [] \<or> dr_Result d = ''ERROR'' \<or> dr_Result d = ''SKIPPED''
                         \<or> (dr_Result d = ''FAIL'' \<and> failed = 0)) \<and> trim_space (dr_Notes d) = ''''
                then Some (NotesRequired missing)
                else None))"


section \<open>What the checks accept\<close>

lemma first_error_None: "first_error f xs = None \<longleftrightarrow> (\<forall>x \<in> set xs. f x = None)"
  by (induction xs) (auto split: option.splits)

text \<open>The outcome recorded for a check, if its answer has one.\<close>

definition outcome :: "draft_data \<Rightarrow> string \<Rightarrow> string option" where
  "outcome d i = (case answer d i of
      None \<Rightarrow> None
    | Some raw \<Rightarrow> map_option (\<lambda>m. member m ''outcome'') (decode_struct False [''outcome''] raw))"

definition block_checks :: "block \<Rightarrow> string list" where
  "block_checks b = (case bk_Check b of None \<Rightarrow> [] | Some c \<Rightarrow> [ck_ID c])"

definition check_ids :: "block list \<Rightarrow> string list" where
  "check_ids bs = concat (map block_checks bs)"

definition block_missing :: "draft_data \<Rightarrow> block \<Rightarrow> string list" where
  "block_missing d b = (case bk_Field b of
      None \<Rightarrow> []
    | Some f \<Rightarrow> if fd_Bind f = '''' \<and> fd_Required f \<and> missingAnswer (answer d (fd_ID f)) then [fd_ID f] else [])"

definition missing_inputs :: "draft_data \<Rightarrow> block list \<Rightarrow> string list" where
  "missing_inputs d bs = concat (map (block_missing d) bs)"

text \<open>What an assessment has to satisfy before it becomes evidence.\<close>

definition assessment_ok :: "procedure \<Rightarrow> draft_data \<Rightarrow> bool" where
  "assessment_ok p d \<longleftrightarrow>
     trim_space (dr_Repo d) \<noteq> '''' \<and> trim_space (dr_Branch d) \<noteq> '''' \<and> trim_space (dr_RCSRef d) \<noteq> ''''
     \<and> dr_Result d \<noteq> ''''
     \<and> (\<forall>i \<in> set (check_ids (pr_Blocks p)). outcome d i \<noteq> None
          \<and> (dr_Result d = ''PASS'' \<longrightarrow> outcome d i = Some ''PASS'')
          \<and> (dr_Result d = ''SKIPPED'' \<longrightarrow> outcome d i = Some ''NOT_EXECUTED''))
     \<and> (dr_Result d = ''PASS'' \<longrightarrow> missing_inputs d (pr_Blocks p) = [])
     \<and> (trim_space (dr_Notes d) = '''' \<longrightarrow> missing_inputs d (pr_Blocks p) = [] \<and> dr_Result d \<noteq> ''ERROR''
          \<and> dr_Result d \<noteq> ''SKIPPED''
          \<and> (dr_Result d = ''FAIL'' \<longrightarrow> (\<exists>i \<in> set (check_ids (pr_Blocks p)). outcome d i = Some ''FAIL'')))"

lemma finalCheck_iff:
  "finalCheck i d = Inr out \<longleftrightarrow> outcome d i = Some out \<and> (dr_Result d = ''PASS'' \<longrightarrow> out = ''PASS'')
     \<and> (dr_Result d = ''SKIPPED'' \<longrightarrow> out = ''NOT_EXECUTED'')"
  by (auto simp: finalCheck_def outcome_def split: option.splits)

definition checks_ok :: "draft_data \<Rightarrow> string list \<Rightarrow> bool" where
  "checks_ok d ids \<longleftrightarrow> (\<forall>i \<in> set ids. \<exists>out. finalCheck i d = Inr out)"

definition failures :: "draft_data \<Rightarrow> string list \<Rightarrow> nat" where
  "failures d ids = length (filter (\<lambda>i. outcome d i = Some ''FAIL'') ids)"

lemma assess_step:
  "assess d (b # bs) missing failed =
     (case bk_Check b of
        None \<Rightarrow> assess d bs (missing @ block_missing d b) failed
      | Some c \<Rightarrow> (case finalCheck (ck_ID c) d of
           Inl e \<Rightarrow> Inl e
         | Inr out \<Rightarrow> assess d bs (missing @ block_missing d b) (if out = ''FAIL'' then Suc failed else failed)))"
  by (simp add: block_missing_def split: option.splits sum.splits)

lemma assess_returns:
  "assess d bs missing failed = Inr r \<longleftrightarrow>
     checks_ok d (check_ids bs) \<and> r = (missing @ missing_inputs d bs, failed + failures d (check_ids bs))"
proof (induction bs arbitrary: missing failed)
  case Nil
  then show ?case by (auto simp: checks_ok_def check_ids_def missing_inputs_def failures_def)
next
  case (Cons b bs)
  show ?case
  proof (cases "bk_Check b")
    case None
    then show ?thesis
      by (simp only: assess_step option.case Cons.IH)
        (simp add: block_checks_def check_ids_def missing_inputs_def)
  next
    case (Some c)
    then have ids: "check_ids (b # bs) = ck_ID c # check_ids bs"
      by (simp add: block_checks_def check_ids_def)
    show ?thesis
    proof (cases "finalCheck (ck_ID c) d")
      case (Inl e)
      then show ?thesis by (simp add: assess_step Some ids checks_ok_def del: assess.simps)
    next
      case (Inr out)
      then have "outcome d (ck_ID c) = Some out" by (simp add: finalCheck_iff)
      then show ?thesis
        by (simp only: assess_step Some Inr option.case sum.case Cons.IH)
          (simp add: ids Inr checks_ok_def missing_inputs_def failures_def)
    qed
  qed
qed

lemma checks_ok_iff:
  "checks_ok d ids \<longleftrightarrow> (\<forall>i \<in> set ids. outcome d i \<noteq> None
     \<and> (dr_Result d = ''PASS'' \<longrightarrow> outcome d i = Some ''PASS'')
     \<and> (dr_Result d = ''SKIPPED'' \<longrightarrow> outcome d i = Some ''NOT_EXECUTED''))"
  by (auto simp: checks_ok_def finalCheck_iff)

lemma failures_zero: "failures d ids = 0 \<longleftrightarrow> \<not> (\<exists>i \<in> set ids. outcome d i = Some ''FAIL'')"
  by (auto simp: failures_def filter_empty_conv)

lemma finalization_ok_iff:
  "ValidateFinalization env p d = None \<longleftrightarrow> ValidateDraft env p d = None \<and> assessment_ok p d"
proof (cases "ValidateDraft env p d")
  case None
  show ?thesis
  proof (cases "assess d (pr_Blocks p) [] 0")
    case (Inl e)
    then have "\<not> checks_ok d (check_ids (pr_Blocks p))" using assess_returns by (metis Inl_Inr_False)
    then show ?thesis
      using None Inl unfolding ValidateFinalization_def assessment_ok_def checks_ok_iff by auto
  next
    case (Inr r)
    then have ok: "checks_ok d (check_ids (pr_Blocks p))"
      and r: "r = (missing_inputs d (pr_Blocks p), failures d (check_ids (pr_Blocks p)))"
      by (auto simp: assess_returns)
    show ?thesis
      using None Inr ok
      unfolding ValidateFinalization_def assessment_ok_def checks_ok_iff [symmetric] r
      by (auto simp: failures_zero)
  qed
qed (simp add: ValidateFinalization_def)

text \<open>
  C10. A draft may become evidence exactly when it is a valid draft and its assessment holds
  together: the product context is named and there is a result; every check has an outcome; PASS
  needs every check passed and every required input given, SKIPPED needs every check not executed;
  and notes are required for ERROR, for SKIPPED, for missing inputs, and for a FAIL that no check
  explains.
\<close>

theorem ValidateFinalization_exact:
  "ValidateFinalization env p d = None \<longleftrightarrow> ValidateDraft env p d = None \<and> assessment_ok p d"
  by (rule finalization_ok_iff)

section \<open>The initial draft\<close>

lemma initial_answers_from:
  "(i, v) \<in> set (initial_answers bs m) \<Longrightarrow>
     (i, v) \<in> set m \<or> (\<exists>b f. b \<in> set bs \<and> bk_Field b = Some f \<and> fd_ID f = i \<and> fd_Bind f = '''' \<and> fd_Default f = Some v)"
proof (induction bs arbitrary: m)
  case (Cons b bs)
  have "(i, v) \<in> set (case bk_Field b of None \<Rightarrow> m
        | Some f \<Rightarrow> if fd_Bind f = '''' then case fd_Default f of None \<Rightarrow> m | Some v \<Rightarrow> put (fd_ID f) v m else m)
     \<or> (\<exists>b' f. b' \<in> set bs \<and> bk_Field b' = Some f \<and> fd_ID f = i \<and> fd_Bind f = '''' \<and> fd_Default f = Some v)"
    using Cons.IH Cons.prems by simp
  then show ?case
    by (fastforce simp: put_def split: option.splits if_splits)
qed simp

text \<open>Distinct names make the table a lookup by name.\<close>

lemma control_table_last:
  assumes "control_wf y b"
  shows "control_table (bs @ [b]) = put (control_id b) b (control_table bs)"
  using assms by (auto simp: control_table_def control_wf_def control_id_def Let_def)

lemma control_table_other:
  assumes "bk_Field b = None" "bk_Check b = None"
  shows "control_table (bs @ [b]) = control_table bs"
  using assms by (simp add: control_table_def Let_def)

lemma control_table_lookup:
  assumes "\<And>b. b \<in> set bs \<Longrightarrow> bk_Kind b = ''markdown'' \<and> bk_Field b = None \<and> bk_Check b = None \<or> control_wf y b"
    and "distinct (map control_id (controls bs))" and "b \<in> set (controls bs)"
  shows "map_of (control_table bs) (control_id b) = Some b"
  using assms
proof (induction bs rule: rev_induct)
  case (snoc c bs)
  show ?case
  proof (cases "bk_Kind c = ''markdown''")
    case True
    then have "bk_Field c = None" "bk_Check c = None" using snoc.prems(1) [of c] by (auto simp: control_wf_def)
    then show ?thesis
      using snoc True by (simp add: control_table_other) (simp add: controls_def)
  next
    case False
    then have "control_wf y c" and cs: "controls (bs @ [c]) = controls bs @ [c]"
      using snoc.prems(1) [of c] by (auto simp: controls_def)
    then show ?thesis
      using snoc.prems snoc.IH by (auto simp: control_table_last [of y] cs image_iff)
  qed
qed (simp add: controls_def)

lemma check_ids_mem: "i \<in> set (check_ids bs) \<longleftrightarrow> (\<exists>b c. b \<in> set bs \<and> bk_Check b = Some c \<and> ck_ID c = i)"
proof -
  have "i \<in> set (block_checks b) \<longleftrightarrow> (\<exists>c. bk_Check b = Some c \<and> ck_ID c = i)" for b
    by (cases "bk_Check b") (auto simp: block_checks_def)
  then show ?thesis by (auto simp: check_ids_def)
qed

text \<open>What is asked of the YAML decoder: a number it decodes into a \<^verbatim>\<open>float64\<close> is one.\<close>

definition float_decoder :: "yaml_lib \<Rightarrow> bool" where
  "float_decoder y \<longleftrightarrow> (\<forall>n r. yl_float y n = Some (Finite r) \<longrightarrow> float_range r)"

lemma default_validates:
  assumes "field_wf y f" "fd_Default f = Some v" "float_decoder y" "bk_Field b = Some f" "bk_Check b = None"
  shows "validateAnswer env i b v = None"
  using assms
  by (auto simp: field_wf_def default_ok_def validateAnswer_def float_decoder_def split: json.splits)

lemma InitialDraft_parts:
  assumes parsed: "ParseProcedure y src = Inr p" and decoder: "float_decoder y"
  shows "ValidateDraft env p (InitialDraft p) = None" "dr_Result (InitialDraft p) = ''''"
    "i \<in> set (check_ids (pr_Blocks p)) \<Longrightarrow> answer (InitialDraft p) i = None"
proof -
  note blocks = ParseProcedure_blocks [OF parsed]
  obtain reg where "registered reg (pr_Blocks p)" using blocks(3) by blast
  then have distinct: "distinct (map control_id (controls (pr_Blocks p)))" by (simp add: registered_def)
  have entry: "\<exists>b f. b \<in> set (controls (pr_Blocks p)) \<and> bk_Field b = Some f \<and> bk_Check b = None \<and> field_wf y f
      \<and> control_id b = i \<and> fd_Default f = Some v" if given: "(i, v) \<in> set (initial_answers (pr_Blocks p) [])" for i v
  proof -
    obtain b f where b: "b \<in> set (pr_Blocks p)" "bk_Field b = Some f" "fd_ID f = i" "fd_Default f = Some v"
      using initial_answers_from [OF given] by auto
    then have "control_wf y b" using blocks(4) [OF b(1)] by auto
    then show ?thesis
      using b by (intro exI [of _ b] exI [of _ f]) (auto simp: control_wf_def controls_def control_id_def)
  qed
  have "answer_error env (control_table (pr_Blocks p)) (i, v) = None"
    if given: "(i, v) \<in> set (initial_answers (pr_Blocks p) [])" for i v
  proof -
    obtain b f where b: "b \<in> set (controls (pr_Blocks p))" "bk_Field b = Some f" "bk_Check b = None" "field_wf y f"
      "control_id b = i" "fd_Default f = Some v"
      using entry [OF given] by blast
    have "map_of (control_table (pr_Blocks p)) i = Some b"
      using control_table_lookup [OF blocks(4) distinct b(1)] b(5) by simp
    then show ?thesis
      using default_validates [OF b(4,6) decoder b(2,3)] by (simp add: answer_error_def)
  qed
  then show "ValidateDraft env p (InitialDraft p) = None"
    by (auto simp: ValidateDraft_def InitialDraft_def empty_draft_def validateDraftMetadata_def first_error_None)
  show "dr_Result (InitialDraft p) = ''''" by (simp add: InitialDraft_def empty_draft_def)
  assume "i \<in> set (check_ids (pr_Blocks p))"
  then obtain c b where c: "b \<in> set (pr_Blocks p)" "bk_Check b = Some c" "ck_ID c = i"
    by (auto simp: check_ids_mem)
  then have "control_wf y b" using blocks(4) [OF c(1)] by auto
  then have cb: "b \<in> set (controls (pr_Blocks p))" "control_id b = i"
    using c by (auto simp: control_wf_def controls_def control_id_def)
  show "answer (InitialDraft p) i = None"
  proof (rule ccontr)
    assume "answer (InitialDraft p) i \<noteq> None"
    then obtain v where "(i, v) \<in> set (initial_answers (pr_Blocks p) [])"
      by (auto simp: answer_def InitialDraft_def dest: map_of_SomeD)
    from entry [OF this] obtain b' f where "b' \<in> set (controls (pr_Blocks p))" "bk_Field b' = Some f" "bk_Check b' = None"
      "control_id b' = i" by blast
    then have "b' = b" using cb distinct by (metis distinct_map inj_onD)
    with \<open>bk_Check b' = None\<close> c show False by simp
  qed
qed

text \<open>
  C11. The draft a parsed procedure starts with is one that may be saved: it answers only fields
  the procedure declares, each with a value of the field's type, and it supplies no check outcome
  and no result.
\<close>

theorem InitialDraft_valid:
  assumes "ParseProcedure y src = Inr p" "float_decoder y"
  shows "ValidateDraft env p (InitialDraft p) = None \<and> dr_Result (InitialDraft p) = ''''
    \<and> (\<forall>i \<in> set (check_ids (pr_Blocks p)). answer (InitialDraft p) i = None)"
  using InitialDraft_parts [OF assms] by blast


theorem InitialDraft_valid_witness:
  "ValidateDraft \<lparr>de_time = (\<lambda>_. None), de_url = (\<lambda>_. None)\<rparr>
     \<lparr>pr_SchemaVersion = 1, pr_Source = demo_procedure, pr_Blocks = demo_blocks\<rparr>
     (InitialDraft \<lparr>pr_SchemaVersion = 1, pr_Source = demo_procedure, pr_Blocks = demo_blocks\<rparr>) = None"
proof (rule InitialDraft_valid [OF demo_parses, THEN conjunct1])
  have "float_range 0" by (simp add: float_range_def)
  then show "float_decoder demo_yaml" by (auto simp: float_decoder_def demo_yaml_def)
qed

end
