(* ===== verification/Package.thy ===== *)
theory Package
  imports Campaign_Draft
begin

text \<open>
  Campaign packages: \<^verbatim>\<open>internal/campaign/package.go\<close>, \<^verbatim>\<open>package_files.go\<close> and \<^verbatim>\<open>archive.go\<close>. The data of a
  package, the validation of its files, and the JSON form in which a scenario is stored.
\<close>

section \<open>Data\<close>

record campaign_info =
  ci_ID :: string
  ci_Name :: string
  ci_PlannedLocation :: string
  ci_PlannedStart :: string
  ci_PlannedEnd :: string

record product_revision =
  pv_Repository :: string
  pv_Branch :: string
  pv_Commit :: string

record scenario_entry =
  sy_ProcedureRef :: string
  sy_Path :: string
  sy_ID :: string

record manifest =
  mf_FormatVersion :: int
  mf_Campaign :: campaign_info
  mf_SourceRepository :: string
  mf_Product :: "product_revision option"
  mf_Scenarios :: "scenario_entry list"

record defaults_data =
  df_EvidenceType :: string
  df_Tags :: "string list"
  df_Metadata :: "(string \<times> json) list"

record trace_link =
  tl_Kind :: string
  tl_ID :: string
  tl_Repository :: string
  tl_Path :: string
  tl_EntryVersion :: string

record scenario =
  sc_ID :: string
  sc_Title :: string
  sc_ProcedureRef :: string
  sc_Description :: string
  sc_Parameters :: "(string \<times> json) list"
  sc_Defaults :: defaults_data
  sc_Assets :: "string list"
  sc_Traceability :: "trace_link list"

record packaged_scenario =
  ps_Definition :: scenario
  ps_Procedure :: procedure
  ps_Assets :: "(string \<times> digest) list"

record package =
  pk_Digest :: string
  pk_Manifest :: manifest
  pk_Scenarios :: "packaged_scenario list"

section \<open>The JSON form\<close>

text \<open>A member with \<^verbatim>\<open>omitempty\<close> is left out when its value is empty.\<close>

definition omit_empty :: "string \<Rightarrow> string \<Rightarrow> (string \<times> json) list" where
  "omit_empty k s = (if s = '''' then [] else [(k, JStr s)])"

definition omit_none :: "string \<Rightarrow> json option \<Rightarrow> (string \<times> json) list" where
  "omit_none k v = (case v of None \<Rightarrow> [] | Some j \<Rightarrow> [(k, j)])"

definition omit_nil :: "string \<Rightarrow> json list \<Rightarrow> (string \<times> json) list" where
  "omit_nil k js = (if js = [] then [] else [(k, JArr js)])"

definition omit_empty_map :: "string \<Rightarrow> (string \<times> json) list \<Rightarrow> (string \<times> json) list" where
  "omit_empty_map k kvs = (if kvs = [] then [] else [(k, JObj kvs)])"

definition json_of_field :: "test_field \<Rightarrow> json" where
  "json_of_field f = JObj ([(''id'', JStr (fd_ID f)), (''type'', JStr (fd_Type f)), (''label'', JStr (fd_Label f)),
     (''required'', JBool (fd_Required f))] @ (if fd_Multiline f then [(''multiline'', JBool True)] else [])
     @ omit_nil ''options'' (map JStr (fd_Options f)) @ omit_empty ''unit'' (fd_Unit f)
     @ omit_empty ''bind'' (fd_Bind f) @ omit_none ''default'' (fd_Default f))"

definition json_of_check :: "test_check \<Rightarrow> json" where
  "json_of_check c = JObj [(''id'', JStr (ck_ID c)), (''label'', JStr (ck_Label c)), (''behavior'', JStr (ck_Behavior c))]"

definition json_of_block :: "block \<Rightarrow> json" where
  "json_of_block b = JObj ([(''kind'', JStr (bk_Kind b)), (''line'', JNum (of_int (bk_Line b)))]
     @ omit_empty ''markdown'' (bk_Markdown b) @ omit_none ''field'' (map_option json_of_field (bk_Field b))
     @ omit_none ''check'' (map_option json_of_check (bk_Check b)))"

definition json_of_procedure :: "procedure \<Rightarrow> json" where
  "json_of_procedure p = JObj [(''schema_version'', JNum (of_int (pr_SchemaVersion p))), (''source'', JStr (pr_Source p)),
     (''blocks'', JArr (map json_of_block (pr_Blocks p)))]"

definition json_of_defaults :: "defaults_data \<Rightarrow> json" where
  "json_of_defaults d = JObj ((''evidence_type'', JStr (df_EvidenceType d))
     # omit_nil ''tags'' (map JStr (df_Tags d)) @ omit_empty_map ''metadata'' (df_Metadata d))"

definition json_of_link :: "trace_link \<Rightarrow> json" where
  "json_of_link l = JObj ([(''kind'', JStr (tl_Kind l)), (''id'', JStr (tl_ID l)), (''repository'', JStr (tl_Repository l)),
     (''path'', JStr (tl_Path l))] @ omit_empty ''entry_version'' (tl_EntryVersion l))"

definition json_of_definition :: "scenario \<Rightarrow> json" where
  "json_of_definition s = JObj (omit_empty ''id'' (sc_ID s)
     @ [(''title'', JStr (sc_Title s)), (''procedure_ref'', JStr (sc_ProcedureRef s)), (''description'', JStr (sc_Description s))]
     @ omit_empty_map ''parameters'' (sc_Parameters s) @ [(''defaults'', json_of_defaults (sc_Defaults s))]
     @ omit_nil ''assets'' (map JStr (sc_Assets s)) @ omit_nil ''traceability'' (map json_of_link (sc_Traceability s)))"

definition json_of_scenario :: "packaged_scenario \<Rightarrow> json" where
  "json_of_scenario s = JObj ([(''definition'', json_of_definition (ps_Definition s)),
     (''procedure'', json_of_procedure (ps_Procedure s))]
     @ omit_empty_map ''assets'' (map (\<lambda>(n, d). (n, JStr d)) (ps_Assets s)))"

definition json_of_product :: "product_revision \<Rightarrow> json" where
  "json_of_product p = JObj [(''repository'', JStr (pv_Repository p)), (''branch'', JStr (pv_Branch p)),
     (''commit'', JStr (pv_Commit p))]"

end
