(* ===== verification/Campaign_Store.thy ===== *)
theory Campaign_Store
  imports Package Evidence_API
begin

text \<open>
  The campaign tables and the statements on them: \<^verbatim>\<open>internal/store/campaign_attempt.go\<close>,
  \<^verbatim>\<open>campaign_execution.go\<close>, \<^verbatim>\<open>campaign_finalize.go\<close> and \<^verbatim>\<open>campaign_close.go\<close>. An execution is a
  campaign being carried out, an attempt one run of one of its procedures: a draft that is saved
  any number of times and then finalized once, into an evidence record. Every operation is one
  transaction; its locks make it run as if alone, so an operation is a function on the tables, and
  a statement may fail as in the evidence store.
\<close>

section \<open>Tables\<close>

record campaign_package =
  cp_ID :: uuid
  cp_Digest :: string
  cp_ArchiveSize :: int
  cp_ImportedAt :: instant
  cp_ImportedBy :: string
  cp_Definition :: package

record campaign_attempt =
  at_ID :: uuid
  at_CampaignID :: uuid
  at_ProcedureRef :: string
  at_Owner :: string
  at_Revision :: int
  at_CreatedAt :: instant
  at_UpdatedAt :: instant
  at_Data :: draft_data
  at_FinalizedAt :: "instant option"
  at_FinishedAt :: "instant option"
  at_FinalizedRevision :: "int option"
  at_EvidenceID :: "uuid option"
  at_ExecutionID :: "uuid option"
  at_UpdatedBy :: "string option"
  at_FinalizedBy :: "string option"
  at_last_operation_id :: "uuid option"
  at_last_base_revision :: "int option"

record procedure_progress =
  pg_ProcedureRef :: string
  pg_Title :: string
  pg_Attempts :: nat
  pg_DraftID :: "uuid option"
  pg_LatestID :: "uuid option"
  pg_Result :: string

record campaign_execution =
  ex_ID :: uuid
  ex_PackageID :: uuid
  ex_Name :: string
  ex_Repo :: string
  ex_Branch :: string
  ex_RCSRef :: string
  ex_CreatedBy :: string
  ex_CreatedAt :: instant
  ex_UpdatedAt :: instant
  ex_Revision :: int
  ex_ClosedAt :: "instant option"
  ex_ClosedBy :: "string option"
  ex_Procedures :: "procedure_progress list"

record execution_event =
  ee_ExecutionID :: uuid
  ee_Revision :: int
  ee_Action :: string
  ee_Actor :: string
  ee_OccurredAt :: instant

record campaign_db =
  cd_ev :: evidence_db
  cd_packages :: "campaign_package list"
  cd_attempts :: "campaign_attempt list"
  cd_executions :: "campaign_execution list"
  cd_events :: "execution_event list"

text \<open>The messages of a \<^verbatim>\<open>FinalizationError\<close>, and the errors of the store: \<open>Storage\<close> is any error that
  the caller cannot correct.\<close>

datatype final_message =
    DraftInvalid draft_error
  | RecordInvalid "field_error list"
  | FinishedRequired
  | NotInPackage
  | AttachmentStorageUnavailable
  | MissingAttachment
  | ExecutionIncomplete
  | ContextTooLong

datatype campaign_error =
    ErrAttemptConflict
  | ErrCampaignConflict
  | FinalizationError final_message
  | ErrNoRows
  | Storage

datatype blob_stat = StatOK | StatNotFound | StatFails

text \<open>What the operations are given: the statements that fail, the identifiers generated, the time
  of the transaction and of the statement, the object store if there is one, and how identifiers,
  times and numbers are written.\<close>

record campaign_env =
  ce_fails :: "nat \<Rightarrow> bool"
  ce_parse :: "string \<Rightarrow> uuid option"
  ce_new_id :: "nat \<Rightarrow> uuid"
  ce_now :: instant
  ce_clock :: instant
  ce_blobs :: "(digest \<Rightarrow> blob_stat) option"
  ce_draft :: draft_env
  ce_uuid_text :: "uuid \<Rightarrow> string"
  ce_time_text :: "instant \<Rightarrow> string"
  ce_number :: "rat \<Rightarrow> rat"

type_synonym 'a campaign_action = "(campaign_db, campaign_error, 'a) action"

definition ctick :: "campaign_db \<Rightarrow> campaign_db" where
  "ctick d = d\<lparr>cd_ev := tick (cd_ev d)\<rparr>"

definition query :: "campaign_env \<Rightarrow> (campaign_db \<Rightarrow> 'a) \<Rightarrow> 'a campaign_action" where
  "query env f d = (if ce_fails env (ed_stmt (cd_ev d)) then Inl Storage else Inr (f d, ctick d))"

definition query_row :: "campaign_env \<Rightarrow> (campaign_db \<Rightarrow> 'a option) \<Rightarrow> 'a campaign_action" where
  "query_row env f = bindM (query env f) (\<lambda>r. liftM (or_error r ErrNoRows))"

definition exec :: "campaign_env \<Rightarrow> (campaign_db \<Rightarrow> campaign_db) \<Rightarrow> unit campaign_action" where
  "exec env f d = (if ce_fails env (ed_stmt (cd_ev d)) then Inl Storage else Inr ((), ctick (f d)))"

definition transaction :: "campaign_env \<Rightarrow> 'a campaign_action \<Rightarrow> 'a campaign_action" where
  "transaction env body =
     bindM (exec env id) (\<lambda>_. bindM body (\<lambda>x. bindM (exec env id) (\<lambda>_. returnM x)))"

definition run :: "'a campaign_action \<Rightarrow> campaign_db \<Rightarrow> (campaign_error + 'a) \<times> campaign_db" where
  "run m d = (case m d of Inl e \<Rightarrow> (Inl e, ctick d) | Inr (x, d') \<Rightarrow> (Inr x, d'))"

definition on_evidence :: "(evidence_db \<Rightarrow> evidence_error + 'a \<times> evidence_db) \<Rightarrow> 'a campaign_action" where
  "on_evidence f d = (case f (cd_ev d) of
      Inl _ \<Rightarrow> Inl Storage
    | Inr (x, ev) \<Rightarrow> Inr (x, d\<lparr>cd_ev := ev\<rparr>))"

section \<open>Documents in the database\<close>

text \<open>A \<^verbatim>\<open>jsonb\<close> value keeps the last of several equal keys and no order of keys; the canonical form
  sorts them. It refuses a NUL character.\<close>

definition sort_keys :: "(string \<times> json) list \<Rightarrow> (string \<times> json) list" where
  "sort_keys kvs = map (\<lambda>k. (k, the (json_field kvs k))) (sort (remdups (map fst kvs)))"

fun jsonb :: "json \<Rightarrow> json" where
  "jsonb (JArr js) = JArr (map jsonb js)"
| "jsonb (JObj kvs) = JObj (sort_keys (map (\<lambda>kv. (fst kv, jsonb (snd kv))) kvs))"
| "jsonb j = j"

definition jsonb_members :: "(string \<times> json) list \<Rightarrow> (string \<times> json) list" where
  "jsonb_members kvs = sort_keys (map (\<lambda>kv. (fst kv, jsonb (snd kv))) kvs)"

definition stored_draft :: "draft_data \<Rightarrow> draft_data" where
  "stored_draft d = d\<lparr>dr_Answers := map_option jsonb_members (dr_Answers d),
                      dr_Metadata := map_option jsonb_members (dr_Metadata d)\<rparr>"

definition members_ok :: "(string \<times> json) list option \<Rightarrow> bool" where
  "members_ok m = (case m of None \<Rightarrow> True | Some kvs \<Rightarrow> json_ok (JObj kvs))"

definition draft_storable :: "draft_data \<Rightarrow> bool" where
  "draft_storable d \<longleftrightarrow>
     list_all text_ok [dr_Repo d, dr_Branch d, dr_RCSRef d, dr_Notes d, dr_Result d, dr_EvidenceType d,
                       dr_Source d, dr_FinishedAt d]
     \<and> members_ok (dr_Answers d) \<and> members_ok (dr_Metadata d)"

section \<open>Attempts\<close>

definition attempt_by_id :: "uuid \<Rightarrow> campaign_db \<Rightarrow> campaign_attempt option" where
  "attempt_by_id i d = find (\<lambda>a. at_ID a = i) (cd_attempts d)"

definition execution_by_id :: "uuid \<Rightarrow> campaign_db \<Rightarrow> campaign_execution option" where
  "execution_by_id i d = find (\<lambda>e. ex_ID e = i) (cd_executions d)"

definition package_by_id :: "uuid \<Rightarrow> campaign_db \<Rightarrow> campaign_package option" where
  "package_by_id i d = find (\<lambda>p. cp_ID p = i) (cd_packages d)"

definition visible_attempt :: "uuid \<Rightarrow> string \<Rightarrow> campaign_db \<Rightarrow> campaign_attempt option" where
  "visible_attempt i owner d =
     find (\<lambda>a. at_ID a = i \<and> (at_Owner a = owner \<or> at_ExecutionID a \<noteq> None)) (cd_attempts d)"

definition shared_draft :: "uuid \<Rightarrow> string \<Rightarrow> campaign_attempt \<Rightarrow> bool" where
  "shared_draft e ref a \<longleftrightarrow> at_ExecutionID a = Some e \<and> at_ProcedureRef a = ref \<and> at_FinalizedAt a = None"

definition update_attempt :: "uuid \<Rightarrow> (campaign_attempt \<Rightarrow> campaign_attempt) \<Rightarrow> campaign_db \<Rightarrow> campaign_db" where
  "update_attempt i f d = d\<lparr>cd_attempts := map (\<lambda>a. if at_ID a = i then f a else a) (cd_attempts d)\<rparr>"

definition update_execution :: "uuid \<Rightarrow> (campaign_execution \<Rightarrow> campaign_execution) \<Rightarrow> campaign_db \<Rightarrow> campaign_db" where
  "update_execution i f d = d\<lparr>cd_executions := map (\<lambda>e. if ex_ID e = i then f e else e) (cd_executions d)\<rparr>"

text \<open>The row \<^verbatim>\<open>INSERT INTO campaign_attempt\<close> makes, with the defaults of its columns, and the
  constraints it has to meet besides the key.\<close>

definition attempt_row ::
  "uuid \<Rightarrow> uuid \<Rightarrow> uuid option \<Rightarrow> string \<Rightarrow> string \<Rightarrow> string option \<Rightarrow> draft_data \<Rightarrow> instant \<Rightarrow> instant \<Rightarrow> campaign_attempt" where
  "attempt_row i pkg execution ref owner updated_by data created now =
     \<lparr>at_ID = i, at_CampaignID = pkg, at_ProcedureRef = ref, at_Owner = owner, at_Revision = 1, at_CreatedAt = created,
      at_UpdatedAt = now, at_Data = stored_draft data, at_FinalizedAt = None, at_FinishedAt = None,
      at_FinalizedRevision = None, at_EvidenceID = None, at_ExecutionID = execution, at_UpdatedBy = updated_by,
      at_FinalizedBy = None, at_last_operation_id = None, at_last_base_revision = None\<rparr>"

definition attempt_constraints :: "campaign_attempt \<Rightarrow> draft_data \<Rightarrow> campaign_db \<Rightarrow> bool" where
  "attempt_constraints a data d \<longleftrightarrow>
     package_by_id (at_CampaignID a) d \<noteq> None \<and> text_ok (at_ProcedureRef a) \<and> text_ok (at_Owner a) \<and> draft_storable data
     \<and> (case at_ExecutionID a of
          None \<Rightarrow> True
        | Some e \<Rightarrow> list_ex (\<lambda>x. ex_ID x = e \<and> ex_PackageID x = at_CampaignID a) (cd_executions d)
                    \<and> \<not> list_ex (shared_draft e (at_ProcedureRef a)) (cd_attempts d))"

definition add_attempt :: "campaign_attempt \<Rightarrow> campaign_db \<Rightarrow> campaign_db" where
  "add_attempt a d = d\<lparr>cd_attempts := cd_attempts d @ [a]\<rparr>"

definition insert_attempt :: "campaign_env \<Rightarrow> campaign_attempt \<Rightarrow> draft_data \<Rightarrow> campaign_attempt campaign_action" where
  "insert_attempt env a data =
     bindM (query env (\<lambda>d. attempt_by_id (at_ID a) d = None \<and> attempt_constraints a data d)) (\<lambda>ok.
     bindM (checkM ok Storage) (\<lambda>_ d. Inr (a, add_attempt a d)))"

definition GetAttempt :: "campaign_env \<Rightarrow> uuid \<Rightarrow> string \<Rightarrow> campaign_attempt campaign_action" where
  "GetAttempt env i owner = query_row env (visible_attempt i owner)"

definition CreateAttempt ::
  "campaign_env \<Rightarrow> uuid \<Rightarrow> uuid \<Rightarrow> string \<Rightarrow> string \<Rightarrow> draft_data \<Rightarrow> (campaign_attempt \<times> bool) campaign_action" where
  "CreateAttempt env i packageID ref owner data =
     (let row = attempt_row i packageID None ref owner None data (ce_now env) (ce_now env) in
      bindM (query env (attempt_by_id i)) (\<lambda>present.
      case present of
        None \<Rightarrow>
          (\<lambda>d. if attempt_constraints row data d then Inr ((row, True), add_attempt row d) else Inl Storage)
      | Some _ \<Rightarrow>
          (\<lambda>d. case GetAttempt env i owner d of
             Inl ErrNoRows \<Rightarrow> Inl ErrAttemptConflict
           | Inl e \<Rightarrow> Inl e
           | Inr (a, d') \<Rightarrow>
               if at_CampaignID a \<noteq> packageID \<or> at_ProcedureRef a \<noteq> ref \<or> at_ExecutionID a \<noteq> None \<or> at_Owner a \<noteq> owner
               then Inl ErrAttemptConflict else Inr ((a, False), d'))))"

definition lockAttemptExecution :: "campaign_env \<Rightarrow> uuid \<Rightarrow> campaign_execution option campaign_action" where
  "lockAttemptExecution env i =
     bindM (query_row env (attempt_by_id i)) (\<lambda>a.
     case at_ExecutionID a of
       None \<Rightarrow> returnM None
     | Some e \<Rightarrow> bindM (query_row env (execution_by_id e)) (\<lambda>x. returnM (Some x)))"

definition touchExecution :: "campaign_env \<Rightarrow> uuid option \<Rightarrow> unit campaign_action" where
  "touchExecution env i = (case i of
      None \<Rightarrow> returnM ()
    | Some e \<Rightarrow> exec env (update_execution e (\<lambda>x. x\<lparr>ex_Revision := ex_Revision x + 1, ex_UpdatedAt := ce_now env\<rparr>)))"

definition metadata_raw :: "(string \<times> json) list option \<Rightarrow> raw_message" where
  "metadata_raw m = (case m of None \<Rightarrow> RawDoc JNull | Some kvs \<Rightarrow> RawDoc (JObj kvs))"

fun check_attachments :: "campaign_env \<Rightarrow> blob_ref list \<Rightarrow> campaign_error option" where
  "check_attachments env [] = None"
| "check_attachments env (r # rs) =
     (case ce_blobs env of
        None \<Rightarrow> Some (FinalizationError AttachmentStorageUnavailable)
      | Some stat \<Rightarrow>
          (case stat (br_Digest r) of
             StatNotFound \<Rightarrow> Some (FinalizationError MissingAttachment)
           | StatFails \<Rightarrow> Some Storage
           | StatOK \<Rightarrow> check_attachments env rs))"

definition delete_draft_refs :: "uuid \<Rightarrow> campaign_db \<Rightarrow> campaign_db" where
  "delete_draft_refs i d =
     d\<lparr>cd_ev := (cd_ev d)\<lparr>ed_draft_refs := filter (\<lambda>(_, a). a \<noteq> i) (ed_draft_refs (cd_ev d))\<rparr>\<rparr>"

definition add_draft_ref :: "uuid \<Rightarrow> digest \<Rightarrow> campaign_db \<Rightarrow> campaign_db" where
  "add_draft_ref i g d =
     d\<lparr>cd_ev := (cd_ev d)\<lparr>ed_draft_refs := (if (g, i) \<in> set (ed_draft_refs (cd_ev d)) then ed_draft_refs (cd_ev d)
                                             else ed_draft_refs (cd_ev d) @ [(g, i)])\<rparr>\<rparr>"

fun add_draft_refs :: "campaign_env \<Rightarrow> uuid \<Rightarrow> blob_ref list \<Rightarrow> unit campaign_action" where
  "add_draft_refs env i [] = returnM ()"
| "add_draft_refs env i (r # rs) =
     bindM (exec env (add_draft_ref i (br_Digest r))) (\<lambda>_. add_draft_refs env i rs)"

definition replaceDraftBlobRefs ::
  "campaign_env \<Rightarrow> uuid \<Rightarrow> (string \<times> json) list option \<Rightarrow> unit campaign_action" where
  "replaceDraftBlobRefs env i metadata =
     (let refs = snd (annotateBlobRefs (metadata_raw metadata)) in
      case check_attachments env refs of
        Some e \<Rightarrow> failM e
      | None \<Rightarrow> bindM (exec env (delete_draft_refs i)) (\<lambda>_. add_draft_refs env i refs))"

definition saved_row ::
  "campaign_env \<Rightarrow> string \<Rightarrow> int \<Rightarrow> uuid \<Rightarrow> draft_data \<Rightarrow> campaign_attempt \<Rightarrow> campaign_attempt" where
  "saved_row env owner revision operation data a =
     a\<lparr>at_Data := stored_draft data, at_Revision := at_Revision a + 1, at_UpdatedAt := ce_now env,
       at_last_operation_id := Some operation, at_last_base_revision := Some revision, at_UpdatedBy := Some owner\<rparr>"

definition SaveAttempt_tx ::
  "campaign_env \<Rightarrow> uuid \<Rightarrow> string \<Rightarrow> int \<Rightarrow> uuid \<Rightarrow> draft_data \<Rightarrow> campaign_attempt campaign_action" where
  "SaveAttempt_tx env i owner revision operation data =
     bindM (lockAttemptExecution env i) (\<lambda>execution.
     bindM (checkM (case execution of None \<Rightarrow> True | Some e \<Rightarrow> ex_ClosedAt e = None) ErrCampaignConflict) (\<lambda>_.
     bindM (exec env id) (\<lambda>_.
     bindM (query_row env (visible_attempt i owner)) (\<lambda>a.
     bindM (checkM (at_FinalizedAt a = None) ErrAttemptConflict) (\<lambda>_.
     bindM (query env (\<lambda>_. at_last_operation_id a = Some operation)) (\<lambda>sameOperation.
     bindM (checkM (draft_storable data) Storage) (\<lambda>_.
     if sameOperation then
       bindM (checkM (at_last_base_revision a = Some revision \<and> at_Data a = stored_draft data) ErrAttemptConflict)
         (\<lambda>_. returnM a)
     else
       bindM (checkM (at_Revision a = revision) ErrAttemptConflict) (\<lambda>_.
       bindM (replaceDraftBlobRefs env i (dr_Metadata data)) (\<lambda>_.
       bindM (exec env (update_attempt i (saved_row env owner revision operation data))) (\<lambda>_.
       bindM (touchExecution env (at_ExecutionID a)) (\<lambda>_.
       returnM (saved_row env owner revision operation data a))))))))))))"

definition SaveAttempt ::
  "campaign_env \<Rightarrow> uuid \<Rightarrow> string \<Rightarrow> int \<Rightarrow> uuid \<Rightarrow> draft_data \<Rightarrow> campaign_attempt campaign_action" where
  "SaveAttempt env i owner revision operation data = transaction env (SaveAttempt_tx env i owner revision operation data)"

text \<open>\<^verbatim>\<open>ORDER BY\<close> two columns, descending, \<^verbatim>\<open>LIMIT 1\<close>.\<close>

definition newest :: "('a \<Rightarrow> 'k :: linorder) \<Rightarrow> 'a list \<Rightarrow> 'a option" where
  "newest key xs = (case xs of [] \<Rightarrow> None | _ \<Rightarrow> Some (last (sort_key key xs)))"

definition LatestSoftwareContext :: "campaign_env \<Rightarrow> uuid \<Rightarrow> string \<Rightarrow> draft_data campaign_action" where
  "LatestSoftwareContext env packageID owner =
     bindM (query env (\<lambda>d. newest (\<lambda>a. (at_UpdatedAt a, at_ID a))
       (filter (\<lambda>a. at_CampaignID a = packageID \<and> at_Owner a = owner \<and> 1 < at_Revision a
                    \<and> dr_Repo (at_Data a) \<noteq> '''' \<and> dr_RCSRef (at_Data a) \<noteq> '''') (cd_attempts d)))) (\<lambda>r.
     returnM (case r of
         None \<Rightarrow> empty_draft
       | Some a \<Rightarrow> empty_draft\<lparr>dr_Repo := dr_Repo (at_Data a), dr_Branch := dr_Branch (at_Data a),
                               dr_RCSRef := dr_RCSRef (at_Data a)\<rparr>))"

definition newest_page :: "nat \<Rightarrow> nat \<Rightarrow> campaign_attempt list \<Rightarrow> campaign_attempt list" where
  "newest_page limit offset as = take limit (drop offset (rev (sort_key (\<lambda>a. (at_CreatedAt a, at_ID a)) as)))"

definition ListAttempts :: "campaign_env \<Rightarrow> uuid \<Rightarrow> string \<Rightarrow> string \<Rightarrow> nat \<Rightarrow> campaign_attempt list campaign_action" where
  "ListAttempts env packageID ref owner offset =
     query env (\<lambda>d. newest_page 26 offset
       (filter (\<lambda>a. at_CampaignID a = packageID \<and> at_ProcedureRef a = ref \<and> at_Owner a = owner) (cd_attempts d)))"

definition ListExecutionAttempts :: "campaign_env \<Rightarrow> uuid \<Rightarrow> string \<Rightarrow> nat \<Rightarrow> campaign_attempt list campaign_action" where
  "ListExecutionAttempts env i ref offset =
     query env (\<lambda>d. newest_page 26 offset
       (filter (\<lambda>a. at_ExecutionID a = Some i \<and> at_ProcedureRef a = ref) (cd_attempts d)))"

section \<open>Finalization\<close>

text \<open>\<^verbatim>\<open>p.Definition.Manifest.Scenarios[i].Path\<close>; an index out of range panics, which rolls back.\<close>

definition path_at :: "campaign_package \<Rightarrow> nat \<Rightarrow> campaign_error + string" where
  "path_at p i = (let entries = mf_Scenarios (pk_Manifest (cp_Definition p)) in
     if i < length entries then Inr (sy_Path (entries ! i)) else Inl Storage)"

fun find_scenario :: "campaign_package \<Rightarrow> string \<Rightarrow> nat \<Rightarrow> packaged_scenario list \<Rightarrow> campaign_error + packaged_scenario \<times> string" where
  "find_scenario p ref i [] = Inl Storage"
| "find_scenario p ref i (s # ss) =
     (if sc_ProcedureRef (ps_Definition s) = ref then sbind (path_at p i) (\<lambda>path. Inr (s, path))
      else find_scenario p ref (Suc i) ss)"

definition finalScenario :: "campaign_package \<Rightarrow> string \<Rightarrow> campaign_error + packaged_scenario \<times> string" where
  "finalScenario p ref = find_scenario p ref 0 (pk_Scenarios (cp_Definition p))"

text \<open>A nil slice is written \<^verbatim>\<open>null\<close>.\<close>

definition tags_json :: "string list \<Rightarrow> json" where
  "tags_json ts = (if ts = [] then JNull else JArr (map JStr ts))"

definition members_json :: "(string \<times> json) list option \<Rightarrow> json" where
  "members_json m = (case m of None \<Rightarrow> JNull | Some kvs \<Rightarrow> JObj (sort_keys kvs))"

definition optional_text :: "string option \<Rightarrow> json" where
  "optional_text s = (case s of None \<Rightarrow> JNull | Some t \<Rightarrow> JStr t)"

definition campaign_object :: "campaign_env \<Rightarrow> campaign_attempt \<Rightarrow> campaign_package \<Rightarrow> packaged_scenario \<Rightarrow> string \<Rightarrow> (string \<times> json) list" where
  "campaign_object env a p s path =
     (let m = pk_Manifest (cp_Definition p) in
      [(''schema_version'', JNum 1), (''campaign_id'', JStr (ce_uuid_text env (at_CampaignID a))),
       (''package_digest'', JStr (cp_Digest p)), (''campaign_key'', JStr (ci_ID (mf_Campaign m))),
       (''attempt_id'', JStr (ce_uuid_text env (at_ID a))), (''procedure_ref'', JStr (at_ProcedureRef a)),
       (''source'', JObj [(''repository'', JStr (mf_SourceRepository m))]), (''scenario_path'', JStr path),
       (''procedure'', json_of_scenario s), (''answers'', members_json (dr_Answers (at_Data a)))]
      @ omit_none ''product'' (map_option json_of_product (mf_Product m))
      @ (case at_ExecutionID a of
           None \<Rightarrow> []
         | Some e \<Rightarrow> [(''execution_id'', JStr (ce_uuid_text env e)), (''created_by'', JStr (at_Owner a)),
                      (''updated_by'', optional_text (at_UpdatedBy a)), (''finalized_by'', optional_text (at_FinalizedBy a))]))"

definition evidence_metadata :: "campaign_env \<Rightarrow> campaign_attempt \<Rightarrow> campaign_package \<Rightarrow> packaged_scenario \<Rightarrow> string \<Rightarrow> (string \<times> json) list" where
  "evidence_metadata env a p s path =
     (let df = sc_Defaults (ps_Definition s);
          base = (case dr_Metadata (at_Data a) of
                    None \<Rightarrow> put ''tags'' (tags_json (df_Tags df)) (df_Metadata df)
                  | Some kvs \<Rightarrow> kvs) in
      sort_keys (put ''campaign'' (JObj (sort_keys (campaign_object env a p s path)))
        (put ''procedure_modified'' (JBool False) (put ''notes'' (JStr (dr_Notes (at_Data a))) base))))"

definition attemptEvidence ::
  "campaign_env \<Rightarrow> campaign_attempt \<Rightarrow> campaign_package \<Rightarrow> packaged_scenario \<Rightarrow> string \<Rightarrow> instant \<Rightarrow> evidence_create" where
  "attemptEvidence env a p s path finished =
     (let d = at_Data a in
      \<lparr>ec_ClientRecordID = None, ec_Repo = dr_Repo d, ec_Branch = dr_Branch d, ec_RCSRef = dr_RCSRef d,
       ec_ProcedureRef = at_ProcedureRef a,
       ec_EvidenceType = (if dr_EvidenceType d = '''' then df_EvidenceType (sc_Defaults (ps_Definition s))
                          else dr_EvidenceType d),
       ec_Source = (if dr_Source d = '''' then at_Owner a else dr_Source d),
       ec_Result = dr_Result d, ec_FinishedAt = finished,
       ec_Metadata = RawDoc (JObj (evidence_metadata env a p s path))\<rparr>)"

text \<open>Decoding into \<^verbatim>\<open>map[string]any\<close> makes every number a \<^verbatim>\<open>float64\<close>: one out of range is an error, and
  any other is written again as that float.\<close>

fun decode_any :: "(rat \<Rightarrow> rat) \<Rightarrow> json \<Rightarrow> json option"
  and decode_anys :: "(rat \<Rightarrow> rat) \<Rightarrow> json list \<Rightarrow> json list option"
  and decode_members :: "(rat \<Rightarrow> rat) \<Rightarrow> (string \<times> json) list \<Rightarrow> (string \<times> json) list option" where
  "decode_any f (JNum r) = (if float_range r then Some (JNum (f r)) else None)"
| "decode_any f (JArr js) = map_option JArr (decode_anys f js)"
| "decode_any f (JObj kvs) = map_option (\<lambda>m. JObj (sort_keys m)) (decode_members f kvs)"
| "decode_any f JNull = Some JNull"
| "decode_any f (JBool b) = Some (JBool b)"
| "decode_any f (JStr s) = Some (JStr s)"
| "decode_anys f [] = Some []"
| "decode_anys f (j # js) =
     (case (decode_any f j, decode_anys f js) of (Some x, Some xs) \<Rightarrow> Some (x # xs) | _ \<Rightarrow> None)"
| "decode_members f [] = Some []"
| "decode_members f ((k, j) # kvs) =
     (case (decode_any f j, decode_members f kvs) of (Some x, Some xs) \<Rightarrow> Some ((k, x) # xs) | _ \<Rightarrow> None)"

definition closure_json :: "campaign_env \<Rightarrow> string \<Rightarrow> string \<Rightarrow> int \<Rightarrow> json" where
  "closure_json env reason actor revision =
     JObj (sort_keys [(''reason'', JStr reason), (''closed_by'', JStr actor),
       (''closed_at'', JStr (ce_time_text env (ce_now env))), (''campaign_revision'', JNum (of_int revision))])"

definition with_closure :: "campaign_env \<Rightarrow> json \<Rightarrow> (string \<times> json) list \<Rightarrow> (string \<times> json) list option" where
  "with_closure env closure kvs =
     (case decode_members (ce_number env) kvs of
        None \<Rightarrow> None
      | Some m \<Rightarrow>
          (case json_field m ''campaign'' of
             Some (JObj c) \<Rightarrow> Some (sort_keys (put ''campaign'' (JObj (sort_keys (put ''closure'' closure c))) m))
           | _ \<Rightarrow> None))"

definition add_closure :: "campaign_env \<Rightarrow> json option \<Rightarrow> evidence_create \<Rightarrow> campaign_error + evidence_create" where
  "add_closure env closure e =
     (case (closure, ec_Metadata e) of
        (Some c, RawDoc (JObj kvs)) \<Rightarrow>
          (case with_closure env c kvs of
             None \<Rightarrow> Inl Storage
           | Some kvs' \<Rightarrow> Inr (e\<lparr>ec_Metadata := RawDoc (JObj kvs')\<rparr>))
      | _ \<Rightarrow> Inr e)"

fun asset_refs :: "(string \<times> digest) list \<Rightarrow> campaign_error + blob_ref list" where
  "asset_refs [] = Inr []"
| "asset_refs ((name, v) # as) =
     (case ParseDigest v of
        None \<Rightarrow> Inl Storage
      | Some g \<Rightarrow> sbind (asset_refs as) (\<lambda>rs. Inr (\<lparr>br_Digest = g, br_Ext = ''''\<rparr> # rs)))"

definition finalAssetRefs :: "campaign_env \<Rightarrow> uuid \<Rightarrow> (string \<times> digest) list \<Rightarrow> unit campaign_action" where
  "finalAssetRefs env e assets =
     bindM (liftM (asset_refs assets)) (\<lambda>refs.
     on_evidence (\<lambda>ev. case recordBlobRefs (ce_fails env) e refs ev of Inl x \<Rightarrow> Inl x | Inr ev' \<Rightarrow> Inr ((), ev')))"

definition finalized_row :: "campaign_env \<Rightarrow> instant \<Rightarrow> uuid \<Rightarrow> string \<Rightarrow> campaign_attempt \<Rightarrow> campaign_attempt" where
  "finalized_row env finished evidence actor a =
     a\<lparr>at_FinalizedAt := Some (ce_now env), at_FinishedAt := Some (to_micros finished),
       at_FinalizedRevision := Some (at_Revision a), at_Revision := at_Revision a + 1, at_UpdatedAt := ce_now env,
       at_EvidenceID := Some evidence, at_FinalizedBy := Some actor\<rparr>"

text \<open>The attempt passed in is the caller's copy of its row; the \<^verbatim>\<open>UPDATE\<close> reads the row itself.\<close>

definition finalizeAttemptTx ::
  "campaign_env \<Rightarrow> campaign_attempt \<Rightarrow> campaign_package \<Rightarrow> packaged_scenario \<Rightarrow> string \<Rightarrow> instant \<Rightarrow> string \<Rightarrow> json option
     \<Rightarrow> campaign_attempt campaign_action" where
  "finalizeAttemptTx env a p s path finished actor closure =
     (let a' = a\<lparr>at_FinalizedBy := Some actor\<rparr> in
      bindM (liftM (add_closure env closure (attemptEvidence env a' p s path finished))) (\<lambda>ev.
      bindM (checkM (validate_EvidenceCreate (ce_parse env) ev = [])
               (FinalizationError (RecordInvalid (validate_EvidenceCreate (ce_parse env) ev)))) (\<lambda>_.
      bindM (on_evidence (insertOne (ce_fails env) (ce_parse env) (ce_new_id env) (ce_now env) ev)) (\<lambda>result.
      bindM (finalAssetRefs env (ev_ID (ir_Evidence result)) (ps_Assets s)) (\<lambda>_.
      bindM (exec env (delete_draft_refs (at_ID a))) (\<lambda>_.
      bindM (query env (\<lambda>d. list_ex (\<lambda>x. at_EvidenceID x = Some (ev_ID (ir_Evidence result))) (cd_attempts d))) (\<lambda>taken.
      bindM (checkM (\<not> taken) Storage) (\<lambda>_.
      (\<lambda>d. let d' = update_attempt (at_ID a) (finalized_row env finished (ev_ID (ir_Evidence result)) actor) d in
           case attempt_by_id (at_ID a) d' of None \<Rightarrow> Inl ErrNoRows | Some r \<Rightarrow> Inr (r, d'))))))))))"

definition FinalizeAttempt_tx ::
  "campaign_env \<Rightarrow> uuid \<Rightarrow> string \<Rightarrow> int \<Rightarrow> instant \<Rightarrow> (campaign_attempt \<times> bool) campaign_action" where
  "FinalizeAttempt_tx env i owner revision finished =
     bindM (lockAttemptExecution env i) (\<lambda>execution.
     bindM (exec env id) (\<lambda>_.
     bindM (query_row env (visible_attempt i owner)) (\<lambda>a.
     if at_FinalizedAt a \<noteq> None then
       bindM (checkM (at_FinalizedRevision a = Some revision \<and> at_FinishedAt a = Some finished) ErrAttemptConflict)
         (\<lambda>_. returnM (a, False))
     else
       bindM (checkM (at_Revision a = revision) ErrAttemptConflict) (\<lambda>_.
       bindM (checkM (case execution of None \<Rightarrow> True | Some e \<Rightarrow> ex_ClosedAt e = None) ErrCampaignConflict) (\<lambda>_.
       bindM (query_row env (package_by_id (at_CampaignID a))) (\<lambda>p.
       bindM (liftM (finalScenario p (at_ProcedureRef a))) (\<lambda>(s, path).
       bindM (checkM (finished \<noteq> zero_time) (FinalizationError FinishedRequired)) (\<lambda>_.
       bindM (case ValidateFinalization (ce_draft env) (ps_Procedure s) (at_Data a) of
                None \<Rightarrow> returnM ()
              | Some e \<Rightarrow> failM (FinalizationError (DraftInvalid e))) (\<lambda>_.
       bindM (finalizeAttemptTx env a p s path finished owner None) (\<lambda>r.
       bindM (touchExecution env (at_ExecutionID r)) (\<lambda>_.
       returnM (r, True))))))))))))"

definition FinalizeAttempt ::
  "campaign_env \<Rightarrow> uuid \<Rightarrow> string \<Rightarrow> int \<Rightarrow> instant \<Rightarrow> (campaign_attempt \<times> bool) campaign_action" where
  "FinalizeAttempt env i owner revision finished = transaction env (FinalizeAttempt_tx env i owner revision finished)"

section \<open>Executions\<close>

definition with_product :: "product_revision option \<Rightarrow> campaign_execution \<Rightarrow> campaign_execution" where
  "with_product product e = (case product of
      None \<Rightarrow> e
    | Some v \<Rightarrow> e\<lparr>ex_Repo := (if ex_Repo e = '''' then pv_Repository v else ex_Repo e),
                  ex_Branch := (if ex_Branch e = '''' then pv_Branch v else ex_Branch e),
                  ex_RCSRef := (if ex_RCSRef e = '''' then pv_Commit v else ex_RCSRef e)\<rparr>)"

definition new_execution_error :: "campaign_execution \<Rightarrow> campaign_error option" where
  "new_execution_error e =
     (if ex_ID e = 0 \<or> ex_PackageID e = 0 \<or> trim_space (ex_Name e) = '''' \<or> 200 < length (ex_Name e)
         \<or> trim_space (ex_Repo e) = '''' \<or> trim_space (ex_Branch e) = '''' \<or> trim_space (ex_RCSRef e) = ''''
      then Some (FinalizationError ExecutionIncomplete)
      else if 1000 < length (ex_Repo e) \<or> 1000 < length (ex_Branch e) \<or> 1000 < length (ex_RCSRef e)
      then Some (FinalizationError ContextTooLong)
      else None)"

definition execution_row :: "campaign_env \<Rightarrow> campaign_execution \<Rightarrow> campaign_execution" where
  "execution_row env e = e\<lparr>ex_CreatedAt := ce_now env, ex_UpdatedAt := ce_now env, ex_Revision := 1,
     ex_ClosedAt := None, ex_ClosedBy := None, ex_Procedures := []\<rparr>"

definition CreateExecution :: "campaign_env \<Rightarrow> campaign_execution \<Rightarrow> (campaign_execution \<times> bool) campaign_action" where
  "CreateExecution env req =
     bindM (query_row env (package_by_id (ex_PackageID req))) (\<lambda>p.
     let e = with_product (mf_Product (pk_Manifest (cp_Definition p))) req in
     case new_execution_error e of
       Some err \<Rightarrow> failM err
     | None \<Rightarrow>
         bindM (query env (execution_by_id (ex_ID e))) (\<lambda>present.
         case present of
           None \<Rightarrow>
             (\<lambda>d. if list_all text_ok [ex_Name e, ex_Repo e, ex_Branch e, ex_RCSRef e, ex_CreatedBy e]
                  then Inr ((execution_row env e, True), d\<lparr>cd_executions := cd_executions d @ [execution_row env e]\<rparr>)
                  else Inl Storage)
         | Some _ \<Rightarrow>
             bindM (query_row env (execution_by_id (ex_ID e))) (\<lambda>row.
             if ex_PackageID row \<noteq> ex_PackageID e \<or> ex_Name row \<noteq> ex_Name e \<or> ex_Repo row \<noteq> ex_Repo e
                \<or> ex_Branch row \<noteq> ex_Branch e \<or> ex_RCSRef row \<noteq> ex_RCSRef e \<or> ex_CreatedBy row \<noteq> ex_CreatedBy e
             then failM ErrCampaignConflict else returnM (row, False))))"

definition execution_draft :: "campaign_execution \<Rightarrow> string \<Rightarrow> packaged_scenario \<Rightarrow> draft_data" where
  "execution_draft e actor s = (InitialDraft (ps_Procedure s))\<lparr>dr_Repo := ex_Repo e, dr_Branch := ex_Branch e,
     dr_RCSRef := ex_RCSRef e, dr_Source := actor\<rparr>"

definition started_draft :: "campaign_execution \<Rightarrow> string \<Rightarrow> packaged_scenario \<Rightarrow> draft_data" where
  "started_draft e actor s =
     (let df = sc_Defaults (ps_Definition s) in
      (execution_draft e actor s)\<lparr>dr_EvidenceType := df_EvidenceType df,
        dr_Metadata := Some (put ''tags'' (tags_json (df_Tags df)) (df_Metadata df))\<rparr>)"

definition StartExecutionAttempt_tx ::
  "campaign_env \<Rightarrow> uuid \<Rightarrow> uuid \<Rightarrow> string \<Rightarrow> string \<Rightarrow> (campaign_attempt \<times> bool) campaign_action" where
  "StartExecutionAttempt_tx env executionID i ref actor =
     bindM (query_row env (execution_by_id executionID)) (\<lambda>e.
     bindM (query env (attempt_by_id i)) (\<lambda>prior.
     case prior of
       Some a \<Rightarrow>
         bindM (checkM (at_ExecutionID a = Some executionID \<and> at_ProcedureRef a = ref) ErrAttemptConflict)
           (\<lambda>_. returnM (a, False))
     | None \<Rightarrow>
         bindM (checkM (ex_ClosedAt e = None) ErrCampaignConflict) (\<lambda>_.
         bindM (query env (\<lambda>d. find (shared_draft executionID ref) (cd_attempts d))) (\<lambda>open_draft.
         case open_draft of
           Some a \<Rightarrow> returnM (a, False)
         | None \<Rightarrow>
             bindM (query_row env (package_by_id (ex_PackageID e))) (\<lambda>p.
             bindM (case finalScenario p ref of
                      Inl _ \<Rightarrow> failM (FinalizationError NotInPackage)
                    | Inr sp \<Rightarrow> returnM sp) (\<lambda>(s, _).
             let data = started_draft e actor s;
                 row = attempt_row i (ex_PackageID e) (Some (ex_ID e)) ref actor (Some actor) data (ce_clock env) (ce_now env) in
             bindM (insert_attempt env row data) (\<lambda>a.
             bindM (touchExecution env (Some (ex_ID e))) (\<lambda>_.
             returnM (a, True)))))))))"

definition StartExecutionAttempt ::
  "campaign_env \<Rightarrow> uuid \<Rightarrow> uuid \<Rightarrow> string \<Rightarrow> string \<Rightarrow> (campaign_attempt \<times> bool) campaign_action" where
  "StartExecutionAttempt env executionID i ref actor = transaction env (StartExecutionAttempt_tx env executionID i ref actor)"

definition progress_of :: "campaign_db \<Rightarrow> campaign_execution \<Rightarrow> packaged_scenario \<Rightarrow> procedure_progress" where
  "progress_of d e s =
     (let ref = sc_ProcedureRef (ps_Definition s);
          mine = filter (\<lambda>a. at_ExecutionID a = Some (ex_ID e) \<and> at_ProcedureRef a = ref) (cd_attempts d);
          latest = newest (\<lambda>a. (at_CreatedAt a, at_ID a)) (filter (\<lambda>a. at_FinalizedAt a \<noteq> None) mine) in
      \<lparr>pg_ProcedureRef = ref, pg_Title = sc_Title (ps_Definition s), pg_Attempts = length mine,
       pg_DraftID = map_option at_ID (find (\<lambda>a. at_FinalizedAt a = None) mine),
       pg_LatestID = map_option at_ID latest,
       pg_Result = (case latest of None \<Rightarrow> '''' | Some a \<Rightarrow> dr_Result (at_Data a))\<rparr>)"

definition executionProgress :: "campaign_env \<Rightarrow> campaign_execution \<Rightarrow> campaign_execution campaign_action" where
  "executionProgress env e =
     query env (\<lambda>d. e\<lparr>ex_Procedures := (case package_by_id (ex_PackageID e) d of
         None \<Rightarrow> []
       | Some p \<Rightarrow> map (progress_of d e) (pk_Scenarios (cp_Definition p)))\<rparr>)"

definition GetExecution :: "campaign_env \<Rightarrow> uuid \<Rightarrow> campaign_execution campaign_action" where
  "GetExecution env i =
     transaction env (bindM (query_row env (execution_by_id i)) (executionProgress env))"

section \<open>Closing\<close>

definition skip_reason :: string where
  "skip_reason = ''Unfinished work skipped when campaign was closed.''"

definition not_executed :: json where
  "not_executed = JObj [(''outcome'', JStr ''NOT_EXECUTED''), (''reason'', JStr skip_reason)]"

definition fill_checks :: "block list \<Rightarrow> (string \<times> json) list \<Rightarrow> (string \<times> json) list" where
  "fill_checks bs m = fold (\<lambda>b m. case bk_Check b of
      None \<Rightarrow> m
    | Some c \<Rightarrow> if map_of m (ck_ID c) = None then put (ck_ID c) not_executed m else m) bs m"

definition skipped_draft :: "packaged_scenario \<Rightarrow> draft_data \<Rightarrow> draft_data" where
  "skipped_draft s d =
     d\<lparr>dr_Result := ''SKIPPED'',
       dr_Answers := Some (fill_checks (pr_Blocks (ps_Procedure s)) (case dr_Answers d of None \<Rightarrow> [] | Some m \<Rightarrow> m)),
       dr_Notes := (if dr_Notes d = '''' then skip_reason else dr_Notes d @ [newline, newline] @ skip_reason)\<rparr>"

definition latest_attempt :: "uuid \<Rightarrow> string \<Rightarrow> campaign_db \<Rightarrow> campaign_attempt option" where
  "latest_attempt e ref d =
     newest (\<lambda>a. (at_FinalizedAt a = None, at_CreatedAt a, at_ID a))
       (filter (\<lambda>a. at_ExecutionID a = Some e \<and> at_ProcedureRef a = ref) (cd_attempts d))"

definition skip_attempt ::
  "campaign_env \<Rightarrow> campaign_execution \<Rightarrow> string \<Rightarrow> campaign_package \<Rightarrow> packaged_scenario \<Rightarrow> nat \<Rightarrow> campaign_attempt \<Rightarrow> unit campaign_action" where
  "skip_attempt env e actor p s i a =
     (let data = skipped_draft s (at_Data a) in
      case ValidateDraft (ce_draft env) (ps_Procedure s) data of
        Some err \<Rightarrow> failM (FinalizationError (DraftInvalid err))
      | None \<Rightarrow>
          bindM (checkM (draft_storable data) Storage) (\<lambda>_.
          bindM (exec env (update_attempt (at_ID a) (\<lambda>r. r\<lparr>at_Data := stored_draft data, at_UpdatedBy := Some actor\<rparr>))) (\<lambda>_.
          bindM (liftM (path_at p i)) (\<lambda>path.
          bindM (finalizeAttemptTx env (a\<lparr>at_Data := data, at_UpdatedBy := Some actor\<rparr>) p s path (ce_now env) actor
                   (Some (closure_json env skip_reason actor (ex_Revision e + 1)))) (\<lambda>_.
          returnM ())))))"

fun close_scenarios ::
  "campaign_env \<Rightarrow> campaign_execution \<Rightarrow> string \<Rightarrow> campaign_package \<Rightarrow> nat \<Rightarrow> packaged_scenario list \<Rightarrow> unit campaign_action" where
  "close_scenarios env e actor p i [] = returnM ()"
| "close_scenarios env e actor p i (s # ss) =
     (let ref = sc_ProcedureRef (ps_Definition s) in
      bindM (query env (\<lambda>d. map_option at_ID (latest_attempt (ex_ID e) ref d))) (\<lambda>latestID.
      bindM (case latestID of
               Some j \<Rightarrow>
                 bindM (query_row env (attempt_by_id j)) (\<lambda>a.
                 if at_FinalizedAt a \<noteq> None then returnM () else skip_attempt env e actor p s i a)
             | None \<Rightarrow>
                 (let data = execution_draft e actor s in
                  bindM (\<lambda>d. Inr (ce_new_id env (ed_stmt (cd_ev d)), d)) (\<lambda>j.
                  bindM (insert_attempt env
                    (attempt_row j (ex_PackageID e) (Some (ex_ID e)) ref actor None data (ce_now env) (ce_now env)) data) (\<lambda>a.
                  skip_attempt env e actor p s i a)))) (\<lambda>_.
      close_scenarios env e actor p (Suc i) ss)))"

definition closeUnfinished :: "campaign_env \<Rightarrow> campaign_execution \<Rightarrow> string \<Rightarrow> unit campaign_action" where
  "closeUnfinished env e actor =
     bindM (query_row env (package_by_id (ex_PackageID e))) (\<lambda>p.
     bindM (exec env id) (\<lambda>_.
     close_scenarios env e actor p 0 (pk_Scenarios (cp_Definition p))))"

definition closed_row :: "campaign_env \<Rightarrow> bool \<Rightarrow> string \<Rightarrow> campaign_execution \<Rightarrow> campaign_execution" where
  "closed_row env closing actor e = e\<lparr>ex_Revision := ex_Revision e + 1, ex_UpdatedAt := ce_now env,
     ex_ClosedAt := (if closing then Some (ce_now env) else None), ex_ClosedBy := (if closing then Some actor else None)\<rparr>"

definition add_event :: "execution_event \<Rightarrow> campaign_db \<Rightarrow> campaign_db" where
  "add_event v d = d\<lparr>cd_events := cd_events d @ [v]\<rparr>"

definition SetExecutionClosed_tx :: "campaign_env \<Rightarrow> uuid \<Rightarrow> int \<Rightarrow> bool \<Rightarrow> string \<Rightarrow> unit campaign_action" where
  "SetExecutionClosed_tx env i revision closing actor =
     bindM (query_row env (execution_by_id i)) (\<lambda>e.
     bindM (checkM (ex_Revision e = revision \<and> (ex_ClosedAt e \<noteq> None) \<noteq> closing) ErrCampaignConflict) (\<lambda>_.
     bindM (if closing then bindM (exec env id) (\<lambda>_. closeUnfinished env e actor) else returnM ()) (\<lambda>_.
     bindM (exec env (update_execution i (closed_row env closing actor))) (\<lambda>_.
     bindM (query env (\<lambda>d. list_ex (\<lambda>v. ee_ExecutionID v = i \<and> ee_Revision v = ex_Revision e + 1) (cd_events d))) (\<lambda>present.
     bindM (checkM (\<not> present) Storage) (\<lambda>_ d.
     Inr ((), add_event \<lparr>ee_ExecutionID = i, ee_Revision = ex_Revision e + 1,
       ee_Action = (if closing then ''closed'' else ''reopened''), ee_Actor = actor, ee_OccurredAt = ce_now env\<rparr> d)))))))"

definition SetExecutionClosed ::
  "campaign_env \<Rightarrow> uuid \<Rightarrow> int \<Rightarrow> bool \<Rightarrow> string \<Rightarrow> campaign_db \<Rightarrow> (campaign_error + campaign_execution) \<times> campaign_db" where
  "SetExecutionClosed env i revision closing actor d =
     (case run (transaction env (SetExecutionClosed_tx env i revision closing actor)) d of
        (Inl e, d') \<Rightarrow> (Inl e, d')
      | (Inr _, d') \<Rightarrow> run (GetExecution env i) d')"


section \<open>Expired evidence\<close>

text \<open>Deleting an evidence record clears the attempt that became it (\<^verbatim>\<open>clear_expired_campaign_attempt\<close>)
  and its link to the record; what stays is who finalized what and when.\<close>

definition expired_row :: "campaign_attempt \<Rightarrow> campaign_attempt" where
  "expired_row a = a\<lparr>at_Data := empty_draft, at_last_operation_id := None, at_last_base_revision := None, at_EvidenceID := None\<rparr>"

definition expire_evidence :: "(nat \<Rightarrow> bool) \<Rightarrow> uuid list \<Rightarrow> campaign_db \<Rightarrow> campaign_db" where
  "expire_evidence fails ids d =
     (case DeleteBatch fails ids (cd_ev d) of
        (Inl _, ev) \<Rightarrow> d\<lparr>cd_ev := ev\<rparr>
      | (Inr _, ev) \<Rightarrow>
          d\<lparr>cd_ev := ev,
            cd_attempts := map (\<lambda>a. if at_EvidenceID a \<in> Some ` set ids then expired_row a else a) (cd_attempts d)\<rparr>)"

end
