(* ===== verification/Campaign_Laws.thy ===== *)
theory Campaign_Laws
  imports Campaign_Store
begin

text \<open>
  The campaign tables as a state machine: the invariant of the tables, what each operation of
  \<^verbatim>\<open>Campaign_Store\<close> does to them when it succeeds, and what holds of every attempt and every execution
  after any sequence of operations.
\<close>

section \<open>Frames\<close>

lemma ctick_simps [simp]:
  "cd_packages (ctick d) = cd_packages d" "cd_attempts (ctick d) = cd_attempts d"
  "cd_executions (ctick d) = cd_executions d" "cd_events (ctick d) = cd_events d" "cd_ev (ctick d) = tick (cd_ev d)"
  by (simp_all add: ctick_def)

lemma update_attempt_simps [simp]:
  "cd_packages (update_attempt i f d) = cd_packages d" "cd_executions (update_attempt i f d) = cd_executions d"
  "cd_events (update_attempt i f d) = cd_events d" "cd_ev (update_attempt i f d) = cd_ev d"
  "cd_attempts (update_attempt i f d) = map (\<lambda>a. if at_ID a = i then f a else a) (cd_attempts d)"
  by (simp_all add: update_attempt_def)

lemma update_execution_simps [simp]:
  "cd_packages (update_execution i f d) = cd_packages d" "cd_attempts (update_execution i f d) = cd_attempts d"
  "cd_events (update_execution i f d) = cd_events d" "cd_ev (update_execution i f d) = cd_ev d"
  "cd_executions (update_execution i f d) = map (\<lambda>e. if ex_ID e = i then f e else e) (cd_executions d)"
  by (simp_all add: update_execution_def)

lemma add_attempt_simps [simp]:
  "cd_packages (add_attempt a d) = cd_packages d" "cd_executions (add_attempt a d) = cd_executions d"
  "cd_events (add_attempt a d) = cd_events d" "cd_ev (add_attempt a d) = cd_ev d"
  "cd_attempts (add_attempt a d) = cd_attempts d @ [a]"
  by (simp_all add: add_attempt_def)

lemma delete_draft_refs_simps [simp]:
  "cd_packages (delete_draft_refs i d) = cd_packages d" "cd_attempts (delete_draft_refs i d) = cd_attempts d"
  "cd_executions (delete_draft_refs i d) = cd_executions d" "cd_events (delete_draft_refs i d) = cd_events d"
  "cd_ev (delete_draft_refs i d) = (cd_ev d)\<lparr>ed_draft_refs := filter (\<lambda>(_, a). a \<noteq> i) (ed_draft_refs (cd_ev d))\<rparr>"
  by (simp_all add: delete_draft_refs_def)

lemma query_returns [returns_iff]:
  "query env f d = Inr (x, d') \<longleftrightarrow> \<not> ce_fails env (ed_stmt (cd_ev d)) \<and> x = f d \<and> d' = ctick d"
  by (auto simp: query_def)

lemma query_row_returns [returns_iff]:
  "query_row env f d = Inr (x, d') \<longleftrightarrow> \<not> ce_fails env (ed_stmt (cd_ev d)) \<and> f d = Some x \<and> d' = ctick d"
  by (auto simp: query_row_def returns_iff)

lemma exec_returns [returns_iff]:
  "exec env f d = Inr (u, d') \<longleftrightarrow> \<not> ce_fails env (ed_stmt (cd_ev d)) \<and> d' = ctick (f d)"
  by (auto simp: exec_def)

lemma transaction_returns [returns_iff]:
  "transaction env body d = Inr (x, d') \<longleftrightarrow>
     (\<exists>d1. \<not> ce_fails env (ed_stmt (cd_ev d)) \<and> body (ctick d) = Inr (x, d1)
           \<and> \<not> ce_fails env (ed_stmt (cd_ev d1)) \<and> d' = ctick d1)"
  by (auto simp: transaction_def returns_iff)

lemma on_evidence_returns [returns_iff]:
  "on_evidence f d = Inr (x, d') \<longleftrightarrow> (\<exists>ev. f (cd_ev d) = Inr (x, ev) \<and> d' = d\<lparr>cd_ev := ev\<rparr>)"
  by (auto simp: on_evidence_def split: sum.splits)

text \<open>The tables without the statement counter.\<close>

definition ctables :: "campaign_db \<Rightarrow> campaign_db" where
  "ctables d = d\<lparr>cd_ev := tables (cd_ev d)\<rparr>"

lemma ctables_ctick [simp]: "ctables (ctick d) = ctables d"
  by (simp add: ctables_def ctick_def)

lemma run_failed: "run m d = (Inl e, d') \<Longrightarrow> ctables d' = ctables d"
  by (auto simp: run_def split: sum.splits)

section \<open>The invariant\<close>

definition scenario_refs :: "package \<Rightarrow> string list" where
  "scenario_refs p = map (\<lambda>s. sc_ProcedureRef (ps_Definition s)) (pk_Scenarios p)"

text \<open>An attempt has a package, belongs to an execution of it on one of its procedures or to nobody
  else, and is a draft without an outcome or finalized at the revision before its own.\<close>

definition exec_keys :: "campaign_db \<Rightarrow> (uuid \<times> uuid) set" where
  "exec_keys d = (\<lambda>e. (ex_ID e, ex_PackageID e)) ` set (cd_executions d)"

definition in_execution :: "campaign_db \<Rightarrow> campaign_attempt \<Rightarrow> bool" where
  "in_execution d a \<longleftrightarrow> (\<forall>i. at_ExecutionID a = Some i \<longrightarrow>
     (i, at_CampaignID a) \<in> exec_keys d
     \<and> (\<exists>p \<in> set (cd_packages d). cp_ID p = at_CampaignID a \<and> at_ProcedureRef a \<in> set (scenario_refs (cp_Definition p))))"

definition finality :: "campaign_attempt \<Rightarrow> bool" where
  "finality a \<longleftrightarrow> 1 \<le> at_Revision a \<and> (case at_FinalizedAt a of
      None \<Rightarrow> at_FinishedAt a = None \<and> at_FinalizedRevision a = None \<and> at_EvidenceID a = None \<and> at_FinalizedBy a = None
    | Some _ \<Rightarrow> at_FinishedAt a \<noteq> None \<and> at_FinalizedRevision a = Some (at_Revision a - 1) \<and> at_FinalizedBy a \<noteq> None)"

definition linked :: "campaign_db \<Rightarrow> campaign_attempt \<Rightarrow> bool" where
  "linked d a \<longleftrightarrow> (\<forall>i. at_EvidenceID a = Some i \<longrightarrow> i \<in> ev_ID ` set (ed_rows (cd_ev d)))"

text \<open>A saved draft holds on to every blob its test log mentions, and only drafts hold on to any.\<close>

definition rooted :: "campaign_db \<Rightarrow> campaign_attempt \<Rightarrow> bool" where
  "rooted d a \<longleftrightarrow> (at_FinalizedAt a = None \<and> 1 < at_Revision a \<longrightarrow>
     mentions (metadata_raw (dr_Metadata (at_Data a))) \<times> {at_ID a} \<subseteq> set (ed_draft_refs (cd_ev d)))"

definition is_draft :: "campaign_attempt \<Rightarrow> bool" where
  "is_draft a \<longleftrightarrow> at_FinalizedAt a = None"

definition same_slot :: "campaign_attempt \<Rightarrow> campaign_attempt \<Rightarrow> bool" where
  "same_slot a b \<longleftrightarrow> at_ExecutionID a \<noteq> None \<and> at_ExecutionID a = at_ExecutionID b \<and> at_ProcedureRef a = at_ProcedureRef b"

text \<open>A closed execution has no draft, and at least one attempt at each of its procedures.\<close>

definition settled :: "campaign_db \<Rightarrow> uuid \<Rightarrow> string \<Rightarrow> bool" where
  "settled d i ref \<longleftrightarrow> (\<exists>a \<in> set (cd_attempts d). at_ExecutionID a = Some i \<and> at_ProcedureRef a = ref)
     \<and> (\<forall>a \<in> set (cd_attempts d). at_ExecutionID a = Some i \<and> at_ProcedureRef a = ref \<longrightarrow> \<not> is_draft a)"

definition closed_settled :: "campaign_db \<Rightarrow> bool" where
  "closed_settled d \<longleftrightarrow> (\<forall>e \<in> set (cd_executions d). \<forall>p \<in> set (cd_packages d).
     ex_ClosedAt e \<noteq> None \<and> cp_ID p = ex_PackageID e \<longrightarrow> (\<forall>ref \<in> set (scenario_refs (cp_Definition p)). settled d (ex_ID e) ref))"

definition keys_ok :: "campaign_db \<Rightarrow> bool" where
  "keys_ok d \<longleftrightarrow> distinct (map at_ID (cd_attempts d)) \<and> distinct (map ex_ID (cd_executions d)) \<and> distinct (map cp_ID (cd_packages d))"

definition slots_ok :: "campaign_db \<Rightarrow> bool" where
  "slots_ok d \<longleftrightarrow> (\<forall>a \<in> set (cd_attempts d). \<forall>b \<in> set (cd_attempts d). is_draft a \<and> is_draft b \<and> same_slot a b \<longrightarrow> a = b)"

definition links_ok :: "campaign_db \<Rightarrow> bool" where
  "links_ok d \<longleftrightarrow> (\<forall>a \<in> set (cd_attempts d). \<forall>b \<in> set (cd_attempts d). \<forall>i.
     at_EvidenceID a = Some i \<and> at_EvidenceID b = Some i \<longrightarrow> a = b)"

definition roots_ok :: "campaign_db \<Rightarrow> bool" where
  "roots_ok d \<longleftrightarrow> snd ` set (ed_draft_refs (cd_ev d)) \<subseteq> at_ID ` {a \<in> set (cd_attempts d). is_draft a}"

definition attempt_ok :: "campaign_db \<Rightarrow> campaign_attempt \<Rightarrow> bool" where
  "attempt_ok d a \<longleftrightarrow> in_execution d a \<and> finality a \<and> linked d a \<and> rooted d a"

definition campaign_wf :: "campaign_db \<Rightarrow> bool" where
  "campaign_wf d \<longleftrightarrow> evidence_wf (cd_ev d) \<and> keys_ok d \<and> (\<forall>a \<in> set (cd_attempts d). attempt_ok d a)
     \<and> slots_ok d \<and> links_ok d \<and> roots_ok d \<and> closed_settled d"

lemmas wf_parts = keys_ok_def slots_ok_def links_ok_def roots_ok_def closed_settled_def attempt_ok_def
  in_execution_def exec_keys_def linked_def rooted_def settled_def

lemma evidence_wf_draft_refs [simp]: "evidence_wf (ev\<lparr>ed_draft_refs := x\<rparr>) = evidence_wf ev"
  by (simp add: evidence_wf_def)

lemma campaign_wf_ctick [simp]: "campaign_wf (ctick d) = campaign_wf d"
  by (simp add: campaign_wf_def wf_parts)

lemma find_by_key: "distinct (map f xs) \<Longrightarrow> find (\<lambda>x. f x = k) xs = Some x \<longleftrightarrow> x \<in> set xs \<and> f x = k"
  by (induction xs) (auto simp: image_iff)

lemma find_no_key: "find (\<lambda>x. f x = k) xs = None \<longleftrightarrow> k \<notin> f ` set xs"
  by (auto simp: find_None_iff_list)

lemma attempt_by_id_Some:
  "keys_ok d \<Longrightarrow> attempt_by_id i d = Some a \<longleftrightarrow> a \<in> set (cd_attempts d) \<and> at_ID a = i"
  by (simp add: attempt_by_id_def keys_ok_def find_by_key)

lemma execution_by_id_Some:
  "keys_ok d \<Longrightarrow> execution_by_id i d = Some e \<longleftrightarrow> e \<in> set (cd_executions d) \<and> ex_ID e = i"
  by (simp add: execution_by_id_def keys_ok_def find_by_key)

lemma package_by_id_Some:
  "keys_ok d \<Longrightarrow> package_by_id i d = Some p \<longleftrightarrow> p \<in> set (cd_packages d) \<and> cp_ID p = i"
  by (simp add: package_by_id_def keys_ok_def find_by_key)

lemma attempt_by_id_None: "attempt_by_id i d = None \<longleftrightarrow> i \<notin> at_ID ` set (cd_attempts d)"
  by (simp add: attempt_by_id_def find_no_key)

lemma visible_attempt_Some:
  "visible_attempt i owner d = Some a \<Longrightarrow> a \<in> set (cd_attempts d) \<and> at_ID a = i \<and> (at_Owner a = owner \<or> at_ExecutionID a \<noteq> None)"
  unfolding visible_attempt_def by (drule find_SomeD) auto

lemma campaign_wfD:
  assumes "campaign_wf d"
  shows "evidence_wf (cd_ev d)" "keys_ok d" "\<And>a. a \<in> set (cd_attempts d) \<Longrightarrow> attempt_ok d a"
    "slots_ok d" "links_ok d" "roots_ok d" "closed_settled d"
  using assms by (simp_all add: campaign_wf_def)

lemma campaign_wfI:
  assumes "evidence_wf (cd_ev d)" "keys_ok d" "\<And>a. a \<in> set (cd_attempts d) \<Longrightarrow> attempt_ok d a"
    "slots_ok d" "links_ok d" "roots_ok d" "closed_settled d"
  shows "campaign_wf d"
  using assms by (simp add: campaign_wf_def)

lemma same_attempts:
  assumes "cd_attempts d' = cd_attempts d"
  shows "slots_ok d' = slots_ok d" "links_ok d' = links_ok d" "settled d' i ref = settled d i ref"
  using assms by (simp_all add: slots_ok_def links_ok_def settled_def)

lemma same_roots:
  assumes "cd_attempts d' = cd_attempts d" "ed_draft_refs (cd_ev d') = ed_draft_refs (cd_ev d)"
  shows "roots_ok d' = roots_ok d"
  using assms by (simp add: roots_ok_def)

section \<open>Steps that keep the invariant\<close>

text \<open>Touching or adding executions.\<close>

lemma update_execution_wf:
  assumes wf: "campaign_wf d"
    and f: "\<And>e. ex_ID (f e) = ex_ID e \<and> ex_PackageID (f e) = ex_PackageID e"
    and closed: "\<And>e p ref. e \<in> set (cd_executions d) \<Longrightarrow> ex_ID e = i \<Longrightarrow> ex_ClosedAt (f e) \<noteq> None \<Longrightarrow>
      p \<in> set (cd_packages d) \<Longrightarrow> cp_ID p = ex_PackageID e \<Longrightarrow> ref \<in> set (scenario_refs (cp_Definition p)) \<Longrightarrow> settled d i ref"
  shows "campaign_wf (update_execution i f d)"
proof -
  let ?d = "update_execution i f d"
  have "map ex_ID (cd_executions ?d) = map ex_ID (cd_executions d)" using f by simp
  then have keys: "keys_ok ?d" using campaign_wfD(2) [OF wf] unfolding keys_ok_def by (simp del: map_map)
  have "exec_keys ?d = exec_keys d"
    unfolding exec_keys_def update_execution_simps set_map image_image by (rule image_cong) (simp_all add: f)
  then have "in_execution ?d a" if "in_execution d a" for a
    using that by (simp add: in_execution_def)
  then have "attempt_ok ?d a" if "attempt_ok d a" for a
    using that by (simp add: attempt_ok_def linked_def rooted_def)
  moreover have "closed_settled ?d"
    unfolding closed_settled_def
  proof (intro ballI impI)
    fix e' p ref
    assume e': "e' \<in> set (cd_executions ?d)" and p: "p \<in> set (cd_packages ?d)"
      and c: "ex_ClosedAt e' \<noteq> None \<and> cp_ID p = ex_PackageID e'" and ref: "ref \<in> set (scenario_refs (cp_Definition p))"
    from e' obtain e where e: "e \<in> set (cd_executions d)" "e' = (if ex_ID e = i then f e else e)" by auto
    have "settled d (ex_ID e') ref"
    proof (cases "ex_ID e = i")
      case True
      then show ?thesis using closed [OF e(1) True, of p ref] e c p ref f by simp
    next
      case False
      then have "e' = e" using e(2) by simp
      then show ?thesis using wf e(1) c p ref unfolding campaign_wf_def closed_settled_def by simp
    qed
    then show "settled ?d (ex_ID e') ref" by (simp add: settled_def)
  qed
  ultimately show ?thesis
    using campaign_wfD [OF wf] keys same_attempts [of ?d d] same_roots [of ?d d]
    by (intro campaign_wfI) simp_all
qed

lemma add_execution_wf:
  assumes wf: "campaign_wf d" and new: "ex_ID e \<notin> ex_ID ` set (cd_executions d)" "ex_ClosedAt e = None"
  shows "campaign_wf (d\<lparr>cd_executions := cd_executions d @ [e]\<rparr>)"
proof -
  let ?d = "d\<lparr>cd_executions := cd_executions d @ [e]\<rparr>"
  have "exec_keys d \<subseteq> exec_keys ?d" by (auto simp: exec_keys_def)
  then have "in_execution ?d a" if "in_execution d a" for a
    using that by (auto simp: in_execution_def)
  then have "attempt_ok ?d a" if "attempt_ok d a" for a
    using that by (simp add: attempt_ok_def linked_def rooted_def)
  moreover have "closed_settled ?d"
    using wf new(2) unfolding campaign_wf_def closed_settled_def settled_def by auto
  moreover have "keys_ok ?d" using campaign_wfD(2) [OF wf] new(1) by (simp add: keys_ok_def)
  ultimately show ?thesis
    using campaign_wfD [OF wf] same_attempts [of ?d d] same_roots [of ?d d]
    by (intro campaign_wfI) simp_all
qed

text \<open>Adding a draft.\<close>

lemma add_attempt_wf:
  assumes wf: "campaign_wf d" and new: "at_ID a \<notin> at_ID ` set (cd_attempts d)"
    and draft: "is_draft a" "finality a" "at_Revision a = 1" and ex: "in_execution d a"
    and slot: "\<And>b. b \<in> set (cd_attempts d) \<Longrightarrow> is_draft b \<Longrightarrow> \<not> same_slot a b"
    and open_ex: "\<And>e. e \<in> set (cd_executions d) \<Longrightarrow> at_ExecutionID a = Some (ex_ID e) \<Longrightarrow> ex_ClosedAt e = None"
  shows "campaign_wf (add_attempt a d)"
proof (rule campaign_wfI)
  let ?d = "add_attempt a d"
  note w = campaign_wfD [OF wf]
  have no_link: "at_EvidenceID a = None" using draft by (simp add: finality_def is_draft_def)
  show "evidence_wf (cd_ev ?d)" using w(1) by simp
  show "keys_ok ?d" using w(2) new by (simp add: keys_ok_def)
  show "attempt_ok ?d x" if "x \<in> set (cd_attempts ?d)" for x
  proof (cases "x = a")
    case True
    then show ?thesis
      using draft ex no_link by (simp add: attempt_ok_def linked_def rooted_def in_execution_def exec_keys_def)
  next
    case False
    then have "attempt_ok d x" using that w(3) by simp
    then show ?thesis by (simp add: attempt_ok_def linked_def rooted_def in_execution_def exec_keys_def)
  qed
  show "slots_ok ?d"
    unfolding slots_ok_def
  proof (intro ballI impI)
    fix x y
    assume x: "x \<in> set (cd_attempts ?d)" and y: "y \<in> set (cd_attempts ?d)" and s: "is_draft x \<and> is_draft y \<and> same_slot x y"
    have sym: "same_slot y x" using s unfolding same_slot_def by metis
    consider "x = a" "y = a" | "x = a" "y \<in> set (cd_attempts d)" | "y = a" "x \<in> set (cd_attempts d)"
      | "x \<in> set (cd_attempts d)" "y \<in> set (cd_attempts d)" using x y by auto
    then show "x = y"
    proof cases
      case 2
      then show ?thesis using slot s by blast
    next
      case 3
      then show ?thesis using slot s sym by blast
    next
      case 4
      then show ?thesis using w(4) s by (simp add: slots_ok_def)
    qed simp
  qed
  show "links_ok ?d" using w(5) no_link by (auto simp: links_ok_def)
  show "roots_ok ?d" using w(6) by (auto simp: roots_ok_def)
  show "closed_settled ?d"
    unfolding closed_settled_def
  proof (intro ballI impI)
    fix e p ref
    assume e: "e \<in> set (cd_executions ?d)" and p: "p \<in> set (cd_packages ?d)"
      and c: "ex_ClosedAt e \<noteq> None \<and> cp_ID p = ex_PackageID e" and ref: "ref \<in> set (scenario_refs (cp_Definition p))"
    then have "settled d (ex_ID e) ref" using w(7) by (simp add: closed_settled_def)
    moreover have "at_ExecutionID a \<noteq> Some (ex_ID e)" using open_ex [of e] e c by auto
    ultimately show "settled ?d (ex_ID e) ref" by (auto simp: settled_def)
  qed
qed

text \<open>Changing one draft, together with the rows of the evidence tables it owns.\<close>

lemma change_draft_wf:
  assumes wf: "campaign_wf d" and a: "a \<in> set (cd_attempts d)" "at_ID a = i" "is_draft a"
    and same: "cd_packages d' = cd_packages d" "cd_executions d' = cd_executions d"
    and rows: "cd_attempts d' = map (\<lambda>x. if at_ID x = i then f x else x) (cd_attempts d)"
    and f: "at_ID (f a) = i" "at_ExecutionID (f a) = at_ExecutionID a" "at_ProcedureRef (f a) = at_ProcedureRef a"
    and ev: "evidence_wf (cd_ev d')" "ev_ID ` set (ed_rows (cd_ev d)) \<subseteq> ev_ID ` set (ed_rows (cd_ev d'))"
    and ok: "attempt_ok d' (f a)"
    and fresh: "\<And>b j. b \<in> set (cd_attempts d) \<Longrightarrow> at_EvidenceID (f a) = Some j \<Longrightarrow> at_EvidenceID b \<noteq> Some j"
    and refs: "\<And>g j. j \<noteq> i \<Longrightarrow> (g, j) \<in> set (ed_draft_refs (cd_ev d')) \<longleftrightarrow> (g, j) \<in> set (ed_draft_refs (cd_ev d))"
      "\<And>g. \<not> is_draft (f a) \<Longrightarrow> (g, i) \<notin> set (ed_draft_refs (cd_ev d'))"
  shows "campaign_wf d'"
proof (rule campaign_wfI)
  note w = campaign_wfD [OF wf]
  have only: "x = a" if "x \<in> set (cd_attempts d)" "at_ID x = i" for x
    using attempt_by_id_Some [OF w(2), of i a] attempt_by_id_Some [OF w(2), of i x] a(1,2) that by simp
  have pick: "(if at_ID x = i then f x else x) = (if x = a then f a else x)" if "x \<in> set (cd_attempts d)" for x
    using only [OF that] a(2) by (cases "x = a") auto
  have "set (cd_attempts d') = (\<lambda>x. if x = a then f a else x) ` set (cd_attempts d)"
    unfolding rows set_map by (intro image_cong refl pick)
  also have "\<dots> = insert (f a) (set (cd_attempts d) - {a})" using a(1) by auto
  finally have "set (cd_attempts d') = insert (f a) (set (cd_attempts d) - {a})" .
  moreover have "x \<in> set (cd_attempts d) - {a} \<longleftrightarrow> x \<in> set (cd_attempts d) \<and> at_ID x \<noteq> i" for x
    using only a(2) by blast
  ultimately have mem: "x \<in> set (cd_attempts d') \<longleftrightarrow> x = f a \<or> (x \<in> set (cd_attempts d) \<and> at_ID x \<noteq> i)" for x
    by simp
  show "evidence_wf (cd_ev d')" by (rule ev(1))
  have "map at_ID (cd_attempts d') = map at_ID (cd_attempts d)" unfolding rows using f(1) only by auto
  then show "keys_ok d'" using w(2) same by (simp add: keys_ok_def)
  show "attempt_ok d' x" if "x \<in> set (cd_attempts d')" for x
  proof (cases "x = f a")
    case False
    then have x: "x \<in> set (cd_attempts d)" "at_ID x \<noteq> i" using that mem by auto
    have "attempt_ok d x" by (rule w(3) [OF x(1)])
    then show ?thesis
      using ev(2) refs(1) [OF x(2)] same unfolding attempt_ok_def in_execution_def exec_keys_def linked_def rooted_def
      by auto
  qed (simp add: ok)
  have slot: "same_slot (f a) x = same_slot a x" "same_slot x (f a) = same_slot x a" for x
    using f by (simp_all add: same_slot_def)
  have unique: "x = y" if "x \<in> set (cd_attempts d)" "y \<in> set (cd_attempts d)" "is_draft x" "is_draft y" "same_slot x y" for x y
    using w(4) that by (simp add: slots_ok_def)
  show "slots_ok d'"
    unfolding slots_ok_def
  proof (intro ballI impI)
    fix x y
    assume x: "x \<in> set (cd_attempts d')" and y: "y \<in> set (cd_attempts d')" and s: "is_draft x \<and> is_draft y \<and> same_slot x y"
    consider "x = f a" "y = f a" | "x = f a" "y \<in> set (cd_attempts d)" "at_ID y \<noteq> i"
      | "y = f a" "x \<in> set (cd_attempts d)" "at_ID x \<noteq> i" | "x \<in> set (cd_attempts d)" "y \<in> set (cd_attempts d)"
      using x y mem by auto
    then show "x = y"
    proof cases
      case 2
      then show ?thesis using unique [OF a(1) 2(2) a(3)] s slot a(2) by auto
    next
      case 3
      then show ?thesis using unique [OF 3(2) a(1)] s slot a(2,3) by auto
    next
      case 4
      then show ?thesis using unique s by simp
    qed simp
  qed
  have no_link: "at_EvidenceID a = None"
    using w(3) [OF a(1)] a(3) by (simp add: attempt_ok_def finality_def is_draft_def)
  show "links_ok d'"
    unfolding links_ok_def
  proof (intro ballI allI impI)
    fix x y j
    assume x: "x \<in> set (cd_attempts d')" and y: "y \<in> set (cd_attempts d')"
      and l: "at_EvidenceID x = Some j \<and> at_EvidenceID y = Some j"
    show "x = y"
    proof (cases "x = f a \<or> y = f a")
      case True
      then show ?thesis using fresh x y l mem by metis
    next
      case False
      then show ?thesis using x y l mem w(5) unfolding links_ok_def by blast
    qed
  qed
  show "roots_ok d'"
    unfolding roots_ok_def
  proof clarify
    fix g j
    assume g: "(g, j) \<in> set (ed_draft_refs (cd_ev d'))"
    show "snd (g, j) \<in> at_ID ` {x \<in> set (cd_attempts d'). is_draft x}"
    proof (cases "j = i")
      case True
      then have "is_draft (f a)" using refs(2) g by blast
      then show ?thesis using True f(1) mem by force
    next
      case False
      then have "j \<in> at_ID ` {x \<in> set (cd_attempts d). is_draft x}"
        using refs(1) g w(6) unfolding roots_ok_def by force
      then show ?thesis using False mem by auto
    qed
  qed
  show "closed_settled d'"
    unfolding closed_settled_def
  proof (intro ballI impI)
    fix e p ref
    assume e: "e \<in> set (cd_executions d')" and p: "p \<in> set (cd_packages d')"
      and c: "ex_ClosedAt e \<noteq> None \<and> cp_ID p = ex_PackageID e" and ref: "ref \<in> set (scenario_refs (cp_Definition p))"
    then have s: "settled d (ex_ID e) ref" using w(7) same by (simp add: closed_settled_def)
    then have "\<not> (at_ExecutionID a = Some (ex_ID e) \<and> at_ProcedureRef a = ref)"
      using a by (auto simp: settled_def)
    then show "settled d' (ex_ID e) ref"
      using s f mem a only unfolding settled_def by metis
  qed
qed


section \<open>Stored documents\<close>

lemma json_field_sort_keys: "json_field (sort_keys kvs) k = json_field kvs k"
proof -
  have "json_field (sort_keys kvs) k = (if k \<in> fst ` set kvs then Some (the (json_field kvs k)) else None)"
    unfolding json_field_def sort_keys_def by (simp add: rev_map map_of_map_restrict)
  moreover have "json_field kvs k = None \<longleftrightarrow> k \<notin> fst ` set kvs"
    by (simp add: json_field_def map_of_eq_None_iff)
  ultimately show ?thesis by auto
qed

lemma json_field_jsonb_members: "json_field (jsonb_members kvs) k = map_option jsonb (json_field kvs k)"
proof -
  have pairs: "(\<lambda>kv. (fst kv, jsonb (snd kv))) = (\<lambda>(k, v). (k, jsonb v))" by auto
  show ?thesis
    unfolding jsonb_members_def json_field_sort_keys pairs unfolding json_field_def rev_map map_of_map by simp
qed

lemma json_strings_jsonb: "json_strings (map jsonb js) = json_strings js"
proof (induction js)
  case (Cons j js)
  have "json_string (jsonb j) = json_string j" by (cases j) auto
  then show ?case using Cons.IH by simp
qed simp

lemma referenced_text_jsonb: "referenced_text (jsonb_members kvs) = referenced_text kvs"
proof -
  have "unmarshal_string (map_option jsonb j) = unmarshal_string j" for j
    by (cases j; cases "the j") (auto simp: unmarshal_string_def)
  moreover have "unmarshal_strings (map_option jsonb j) = unmarshal_strings j" for j
    by (cases j; cases "the j") (auto simp: unmarshal_strings_def json_strings_jsonb)
  ultimately show ?thesis by (simp add: referenced_text_def json_field_jsonb_members)
qed

lemma mentions_stored: "mentions (metadata_raw (map_option jsonb_members m)) = mentions (metadata_raw m)"
  by (cases m) (simp_all add: mentions_def metadata_raw_def unmarshal_map_def referenced_text_jsonb)

section \<open>Saving\<close>

lemma add_draft_refs_effect:
  assumes "add_draft_refs env i rs d = Inr (u, d')"
  shows "cd_packages d' = cd_packages d \<and> cd_attempts d' = cd_attempts d \<and> cd_executions d' = cd_executions d
    \<and> cd_events d' = cd_events d \<and> ed_rows (cd_ev d') = ed_rows (cd_ev d) \<and> ed_blob_refs (cd_ev d') = ed_blob_refs (cd_ev d)
    \<and> set (ed_draft_refs (cd_ev d')) = set (ed_draft_refs (cd_ev d)) \<union> br_Digest ` set rs \<times> {i}"
  using assms
proof (induction rs arbitrary: d)
  case (Cons r rs)
  then have "add_draft_refs env i rs (ctick (add_draft_ref i (br_Digest r) d)) = Inr (u, d')"
    by (auto simp: returns_iff)
  from Cons.IH [OF this] show ?case by (auto simp: add_draft_ref_def)
qed (simp add: returns_iff)

lemma replaceDraftBlobRefs_effect:
  assumes "replaceDraftBlobRefs env i m d = Inr (u, d')"
  shows "cd_packages d' = cd_packages d" "cd_attempts d' = cd_attempts d" "cd_executions d' = cd_executions d"
    "cd_events d' = cd_events d" "ed_rows (cd_ev d') = ed_rows (cd_ev d)" "ed_blob_refs (cd_ev d') = ed_blob_refs (cd_ev d)"
    "set (ed_draft_refs (cd_ev d')) = {(g, j). (g, j) \<in> set (ed_draft_refs (cd_ev d)) \<and> j \<noteq> i} \<union> mentions (metadata_raw m) \<times> {i}"
proof -
  let ?refs = "snd (annotateBlobRefs (metadata_raw m))"
  have "add_draft_refs env i ?refs (ctick (delete_draft_refs i d)) = Inr (u, d')"
    using assms by (auto simp: replaceDraftBlobRefs_def Let_def returns_iff split: option.splits)
  note e = add_draft_refs_effect [OF this]
  have digests: "br_Digest ` set ?refs = mentions (metadata_raw m)" using annotate_mentions by blast
  show "cd_packages d' = cd_packages d" "cd_attempts d' = cd_attempts d" "cd_executions d' = cd_executions d"
    "cd_events d' = cd_events d" "ed_rows (cd_ev d') = ed_rows (cd_ev d)" "ed_blob_refs (cd_ev d') = ed_blob_refs (cd_ev d)"
    using e by simp_all
  show "set (ed_draft_refs (cd_ev d')) = {(g, j). (g, j) \<in> set (ed_draft_refs (cd_ev d)) \<and> j \<noteq> i} \<union> mentions (metadata_raw m) \<times> {i}"
    using e unfolding digests by auto
qed

lemma evidence_wf_cong:
  "ed_rows ev' = ed_rows ev \<Longrightarrow> ed_blob_refs ev' = ed_blob_refs ev \<Longrightarrow> evidence_wf ev' = evidence_wf ev"
  by (simp add: evidence_wf_def)

lemma saved_row_simps [simp]:
  "at_ID (saved_row env w n k data a) = at_ID a" "at_CampaignID (saved_row env w n k data a) = at_CampaignID a"
  "at_ProcedureRef (saved_row env w n k data a) = at_ProcedureRef a" "at_Owner (saved_row env w n k data a) = at_Owner a"
  "at_ExecutionID (saved_row env w n k data a) = at_ExecutionID a" "at_CreatedAt (saved_row env w n k data a) = at_CreatedAt a"
  "at_FinalizedAt (saved_row env w n k data a) = at_FinalizedAt a" "at_Revision (saved_row env w n k data a) = at_Revision a + 1"
  "at_EvidenceID (saved_row env w n k data a) = at_EvidenceID a" "at_Data (saved_row env w n k data a) = stored_draft data"
  "finality a \<Longrightarrow> is_draft a \<Longrightarrow> finality (saved_row env w n k data a)"
  by (simp_all add: saved_row_def finality_def is_draft_def)

lemma touch_wf:
  assumes "campaign_wf d" and "touchExecution env x d = Inr (u, d')"
  shows "campaign_wf d'" "cd_attempts d' = cd_attempts d" "cd_packages d' = cd_packages d"
    "tables (cd_ev d') = tables (cd_ev d)" "cd_events d' = cd_events d"
proof -
  have "campaign_wf d' \<and> cd_attempts d' = cd_attempts d \<and> cd_packages d' = cd_packages d
    \<and> tables (cd_ev d') = tables (cd_ev d) \<and> cd_events d' = cd_events d"
  proof (cases x)
    case None
    then show ?thesis using assms by (simp add: touchExecution_def returns_iff)
  next
    case (Some i)
    let ?f = "\<lambda>x. x\<lparr>ex_Revision := ex_Revision x + 1, ex_UpdatedAt := ce_now env\<rparr>"
    have "campaign_wf (update_execution i ?f d)"
    proof (rule update_execution_wf [OF assms(1)])
      show "settled d i ref" if "e \<in> set (cd_executions d)" "ex_ID e = i" "ex_ClosedAt (?f e) \<noteq> None" "p \<in> set (cd_packages d)"
        "cp_ID p = ex_PackageID e" "ref \<in> set (scenario_refs (cp_Definition p))" for e p ref
        using campaign_wfD(7) [OF assms(1)] that unfolding closed_settled_def by auto
    qed simp
    moreover have "d' = ctick (update_execution i ?f d)"
      using assms(2) Some by (simp add: touchExecution_def returns_iff)
    ultimately show ?thesis by simp
  qed
  then show "campaign_wf d'" "cd_attempts d' = cd_attempts d" "cd_packages d' = cd_packages d"
    "tables (cd_ev d') = tables (cd_ev d)" "cd_events d' = cd_events d" by blast+
qed

lemma ctables_attempts:
  assumes "ctables d' = ctables d"
  shows "cd_attempts d' = cd_attempts d" "cd_packages d' = cd_packages d" "cd_executions d' = cd_executions d"
    "cd_events d' = cd_events d" "tables (cd_ev d') = tables (cd_ev d)"
  using assms by (cases d; cases d'; simp add: ctables_def)+

lemma lock_effect:
  assumes "lockAttemptExecution env i d = Inr (x, d')"
  shows "ctables d' = ctables d" "\<exists>a. attempt_by_id i d = Some a \<and> (case at_ExecutionID a of None \<Rightarrow> x = None
    | Some e \<Rightarrow> \<exists>y. x = Some y \<and> execution_by_id e d = Some y)"
proof -
  obtain a where a: "attempt_by_id i d = Some a"
    and x: "(case at_ExecutionID a of None \<Rightarrow> returnM None
      | Some e \<Rightarrow> bindM (query_row env (execution_by_id e)) (\<lambda>x. returnM (Some x))) (ctick d) = Inr (x, d')"
    using assms by (auto simp: lockAttemptExecution_def returns_iff)
  show "ctables d' = ctables d" using x by (cases "at_ExecutionID a") (auto simp: returns_iff)
  show "\<exists>a. attempt_by_id i d = Some a \<and> (case at_ExecutionID a of None \<Rightarrow> x = None
    | Some e \<Rightarrow> \<exists>y. x = Some y \<and> execution_by_id e d = Some y)"
    using a x by (cases "at_ExecutionID a") (auto simp: returns_iff execution_by_id_def)
qed

text \<open>A save that succeeds either repeats the last one, and changes nothing, or replaces the draft at
  the revision it was made from.\<close>

lemma SaveAttempt_cases:
  assumes "SaveAttempt env i owner revision operation data d = Inr (r, d')"
  obtains (repeated) "visible_attempt i owner d = Some r" "is_draft r" "at_last_operation_id r = Some operation"
      "at_last_base_revision r = Some revision" "at_Data r = stored_draft data" "ctables d' = ctables d"
  | (saved) a d1 d2 d3 where "visible_attempt i owner d = Some a" "is_draft a" "at_Revision a = revision"
      "at_last_operation_id a \<noteq> Some operation" "ctables d1 = ctables d" "replaceDraftBlobRefs env i (dr_Metadata data) d1 = Inr ((), d2)"
      "touchExecution env (at_ExecutionID a) (ctick (update_attempt i (saved_row env owner revision operation data) d2)) = Inr ((), d3)"
      "d' = ctick d3" "r = saved_row env owner revision operation data a"
proof -
  obtain x d1 a d3 where lock: "lockAttemptExecution env i (ctick d) = Inr (x, d1)"
    and vis: "visible_attempt i owner (ctick d1) = Some a" and draft: "at_FinalizedAt a = None" and d': "d' = ctick d3"
    and rest: "(if at_last_operation_id a = Some operation
       then bindM (checkM (at_last_base_revision a = Some revision \<and> at_Data a = stored_draft data) ErrAttemptConflict) (\<lambda>_. returnM a)
       else bindM (checkM (at_Revision a = revision) ErrAttemptConflict) (\<lambda>_.
         bindM (replaceDraftBlobRefs env i (dr_Metadata data)) (\<lambda>_.
         bindM (exec env (update_attempt i (saved_row env owner revision operation data))) (\<lambda>_.
         bindM (touchExecution env (at_ExecutionID a)) (\<lambda>_.
         returnM (saved_row env owner revision operation data a)))))) (ctick (ctick (ctick d1))) = Inr (r, d3)"
    and closed: "case x of None \<Rightarrow> True | Some e \<Rightarrow> ex_ClosedAt e = None"
    using assms unfolding SaveAttempt_def SaveAttempt_tx_def bindM_returns transaction_returns query_row_returns
      query_returns exec_returns checkM_returns id_apply
    apply clarify
    subgoal by (rule that) (assumption | rule refl)+
    done
  have same: "ctables d1 = ctables d" using lock_effect(1) [OF lock] by simp
  then have vis': "visible_attempt i owner d = Some a"
    using vis ctables_attempts(1) [OF same] by (simp add: visible_attempt_def)
  show thesis
  proof (cases "at_last_operation_id a = Some operation")
    case True
    then show ?thesis
      using rest vis' draft same d' by (intro repeated) (auto simp: returns_iff is_draft_def)
  next
    case False
    then obtain d2 where "at_Revision a = revision"
      "replaceDraftBlobRefs env i (dr_Metadata data) (ctick (ctick (ctick d1))) = Inr ((), d2)"
      "touchExecution env (at_ExecutionID a) (ctick (update_attempt i (saved_row env owner revision operation data) d2)) = Inr ((), d3)"
      "r = saved_row env owner revision operation data a"
      using rest by (auto simp: returns_iff)
    then show ?thesis
      using vis' draft same d' False saved [of a "ctick (ctick (ctick d1))" d2 d3] by (simp add: is_draft_def)
  qed
qed

lemma campaign_wf_ctables:
  assumes "ctables d' = ctables d"
  shows "campaign_wf d' = campaign_wf d"
proof -
  have "campaign_wf (ctables x) = campaign_wf x" for x
    by (simp add: campaign_wf_def wf_parts ctables_def tables_def evidence_wf_def)
  then show ?thesis using assms by metis
qed

lemma SaveAttempt_wf:
  assumes wf: "campaign_wf d" and run: "SaveAttempt env i owner revision operation data d = Inr (r, d')"
  shows "campaign_wf d'"
  using run
proof (cases rule: SaveAttempt_cases)
  case repeated
  then show ?thesis using wf campaign_wf_ctables by blast
next
  case (saved a d1 d2 d3)
  let ?f = "saved_row env owner revision operation data"
  have wf1: "campaign_wf d1" using wf campaign_wf_ctables saved(5) by blast
  have a: "a \<in> set (cd_attempts d1)" "at_ID a = i"
    using visible_attempt_Some [OF saved(1)] ctables_attempts(1) [OF saved(5)] by auto
  note rp = replaceDraftBlobRefs_effect [OF saved(6)]
  note ok = campaign_wfD(3) [OF wf1 a(1)]
  have "campaign_wf (update_attempt i ?f d2)"
  proof (rule change_draft_wf [OF wf1 a saved(2), where f = ?f])
    show "cd_attempts (update_attempt i ?f d2) = map (\<lambda>x. if at_ID x = i then ?f x else x) (cd_attempts d1)"
      using rp(2) by simp
    show "evidence_wf (cd_ev (update_attempt i ?f d2))"
      using evidence_wf_cong [OF rp(5,6)] campaign_wfD(1) [OF wf1] by simp
    have none: "at_EvidenceID a = None" using ok saved(2) by (simp add: attempt_ok_def finality_def is_draft_def)
    show "attempt_ok (update_attempt i ?f d2) (?f a)"
      using ok saved(2) none a(2) rp(1,3,7)
      by (auto simp: attempt_ok_def in_execution_def exec_keys_def linked_def rooted_def stored_draft_def mentions_stored)
    show "at_EvidenceID b \<noteq> Some j" if "at_EvidenceID (?f a) = Some j" for b j using none that by simp
  qed (use rp saved(2) a in \<open>auto simp: is_draft_def\<close>)
  then have "campaign_wf d3" using touch_wf(1) [OF _ saved(7)] by simp
  then show ?thesis using saved(8) by simp
qed

section \<open>Finalizing\<close>

lemma recordBlobRefs_wf:
  assumes "evidence_wf d" "i \<in> ev_ID ` set (ed_rows d)" "recordBlobRefs fails i refs d = Inr d'"
  shows "evidence_wf d'"
  using assms recordBlobRefs_refs [OF assms(3)] by (auto simp: evidence_wf_def)

lemma finalized_row_simps [simp]:
  "at_ID (finalized_row env t e w a) = at_ID a" "at_CampaignID (finalized_row env t e w a) = at_CampaignID a"
  "at_ProcedureRef (finalized_row env t e w a) = at_ProcedureRef a" "at_Owner (finalized_row env t e w a) = at_Owner a"
  "at_ExecutionID (finalized_row env t e w a) = at_ExecutionID a" "at_CreatedAt (finalized_row env t e w a) = at_CreatedAt a"
  "at_FinalizedAt (finalized_row env t e w a) = Some (ce_now env)" "at_Revision (finalized_row env t e w a) = at_Revision a + 1"
  "at_EvidenceID (finalized_row env t e w a) = Some e" "at_Data (finalized_row env t e w a) = at_Data a"
  "\<not> is_draft (finalized_row env t e w a)"
  "finality a \<Longrightarrow> finality (finalized_row env t e w a)"
  by (auto simp: finalized_row_def finality_def is_draft_def split: option.splits)

text \<open>The evidence record an attempt becomes.\<close>

definition becomes ::
  "campaign_env \<Rightarrow> campaign_attempt \<Rightarrow> campaign_package \<Rightarrow> packaged_scenario \<Rightarrow> string \<Rightarrow> instant \<Rightarrow> string \<Rightarrow> json option \<Rightarrow> evidence \<Rightarrow> bool" where
  "becomes env a p s path finished actor closure e \<longleftrightarrow>
     (\<exists>c. add_closure env closure (attemptEvidence env (a\<lparr>at_FinalizedBy := Some actor\<rparr>) p s path finished) = Inr c
        \<and> validate_EvidenceCreate (ce_parse env) c = []
        \<and> e = evidence_row (ev_ID e) (ce_now env) None (fst (annotateBlobRefs (ec_Metadata c))) c)"

lemma add_closure_client: "add_closure env cl e = Inr c \<Longrightarrow> ec_ClientRecordID c = ec_ClientRecordID e"
  by (auto simp: add_closure_def split: option.splits raw_message.splits json.splits)

lemma finalAssetRefs_returns [returns_iff]:
  "finalAssetRefs env e assets d = Inr (u, d') \<longleftrightarrow>
     (\<exists>refs ev. asset_refs assets = Inr refs \<and> recordBlobRefs (ce_fails env) e refs (cd_ev d) = Inr ev \<and> d' = d\<lparr>cd_ev := ev\<rparr>)"
proof -
  have "(case recordBlobRefs (ce_fails env) e refs ev of Inl x \<Rightarrow> Inl x | Inr ev' \<Rightarrow> Inr ((), ev')) = Inr (u, ev'')
      \<longleftrightarrow> recordBlobRefs (ce_fails env) e refs ev = Inr ev''" for refs ev ev''
    by (cases "recordBlobRefs (ce_fails env) e refs ev") auto
  then show ?thesis by (auto simp: finalAssetRefs_def returns_iff)
qed

lemma finalizeAttemptTx_effect:
  assumes wf: "campaign_wf d" and row: "x \<in> set (cd_attempts d)" "at_ID x = at_ID a" "is_draft x"
    and fin: "finalizeAttemptTx env a p s path finished actor closure d = Inr (r, d')"
  obtains e where "becomes env a p s path finished actor closure e" "ed_rows (cd_ev d') = ed_rows (cd_ev d) @ [e]"
    "r = finalized_row env finished (ev_ID e) actor x" "campaign_wf d'"
    "cd_attempts d' = map (\<lambda>y. if at_ID y = at_ID a then finalized_row env finished (ev_ID e) actor y else y) (cd_attempts d)"
    "cd_packages d' = cd_packages d" "cd_executions d' = cd_executions d" "cd_events d' = cd_events d"
    "ev_ID e \<notin> ev_ID ` set (ed_rows (cd_ev d))"
proof -
  obtain c res ev1 ev2 refs d1 where c: "add_closure env closure (attemptEvidence env (a\<lparr>at_FinalizedBy := Some actor\<rparr>) p s path finished) = Inr c"
    and valid: "validate_EvidenceCreate (ce_parse env) c = []"
    and ins: "insertOne (ce_fails env) (ce_parse env) (ce_new_id env) (ce_now env) c (cd_ev d) = Inr (res, ev1)"
    and assets: "recordBlobRefs (ce_fails env) (ev_ID (ir_Evidence res)) refs ev1 = Inr ev2"
    and d1: "d1 = ctick (ctick (delete_draft_refs (at_ID a) (d\<lparr>cd_ev := ev2\<rparr>)))"
    and fresh: "\<not> list_ex (\<lambda>y. at_EvidenceID y = Some (ev_ID (ir_Evidence res))) (cd_attempts d)"
    and last: "(let d'' = update_attempt (at_ID a) (finalized_row env finished (ev_ID (ir_Evidence res)) actor) d1 in
           case attempt_by_id (at_ID a) d'' of None \<Rightarrow> Inl ErrNoRows | Some r \<Rightarrow> Inr (r, d'')) = Inr (r, d')"
    using fin unfolding finalizeAttemptTx_def Let_def [of "a\<lparr>at_FinalizedBy := Some actor\<rparr>"] returns_iff
    by (elim exE conjE) (rule that; simp)
  let ?e = "ir_Evidence res"
  let ?f = "finalized_row env finished (ev_ID ?e) actor"
  have none: "ec_ClientRecordID c = None"
    using add_closure_client [OF c] by (simp add: attemptEvidence_def Let_def)
  note w = insertOne_wf [OF campaign_wfD(1) [OF wf] ins]
  have created: "ir_Created res"
    using ins by (cases rule: insertOne_cases) (use none in auto)
  have rows1: "ed_rows ev1 = ed_rows (cd_ev d) @ [?e]" using w(2) created by simp
  note rb = recordBlobRefs_refs [OF assets]
  have rows2: "ed_rows ev2 = ed_rows (cd_ev d) @ [?e]" using rb(1) rows1 by simp
  have drafts: "ed_draft_refs ev2 = ed_draft_refs (cd_ev d)" using rb(3) insertOne_refs(3) [OF ins] by simp
  have wf2: "evidence_wf ev2" using recordBlobRefs_wf [OF w(1) _ assets] rows1 by simp
  have new: "ev_ID ?e \<notin> ev_ID ` set (ed_rows (cd_ev d))"
    using w(1) rows1 by (auto simp: evidence_wf_def)
  have upd: "d' = update_attempt (at_ID a) ?f d1" and r: "attempt_by_id (at_ID a) d' = Some r"
    using last by (auto simp: Let_def split: option.splits)
  have at: "cd_attempts d' = map (\<lambda>y. if at_ID y = at_ID a then ?f y else y) (cd_attempts d)"
    by (simp add: upd d1)
  have evd: "cd_ev d' = tick (tick (ev2\<lparr>ed_draft_refs := filter (\<lambda>(_, j). j \<noteq> at_ID a) (ed_draft_refs ev2)\<rparr>))"
    by (simp add: upd d1)
  have ok: "attempt_ok d x" by (rule campaign_wfD(3) [OF wf row(1)])
  have same: "cd_packages d' = cd_packages d" "cd_executions d' = cd_executions d" "cd_events d' = cd_events d"
    by (simp_all add: upd d1)
  have wf': "campaign_wf d'"
  proof (rule change_draft_wf [OF wf row same(1,2) at])
    show "evidence_wf (cd_ev d')" using wf2 by (simp add: evd)
    show "ev_ID ` set (ed_rows (cd_ev d)) \<subseteq> ev_ID ` set (ed_rows (cd_ev d'))" using rows2 by (auto simp: evd)
    show "attempt_ok d' (?f x)"
      using ok same rows2 row(3)
      by (auto simp: attempt_ok_def in_execution_def exec_keys_def linked_def rooted_def evd)
    show "at_EvidenceID b \<noteq> Some j" if "b \<in> set (cd_attempts d)" "at_EvidenceID (?f x) = Some j" for b j
      using fresh that by (auto simp: list_ex_iff)
  qed (use row drafts in \<open>auto simp: evd\<close>)
  have "?f x \<in> set (cd_attempts d')" using row unfolding at by force
  then have "r = ?f x"
    using attempt_by_id_Some [OF campaign_wfD(2) [OF wf'], of "at_ID a" "?f x"] r row(2) by simp
  moreover have "becomes env a p s path finished actor closure ?e"
    using c valid w(4) created none ins unfolding becomes_def
    by (intro exI [of _ c]) (auto simp: answers_def elim!: insertOne_cases simp: evidence_row_def)
  ultimately show thesis
    using that [of ?e] wf' at same rows2 new by (simp add: evd)
qed

lemma FinalizeAttempt_cases:
  assumes "FinalizeAttempt env i owner revision finished d = Inr ((r, created), d')"
  obtains (repeated) "\<not> created" "visible_attempt i owner d = Some r" "\<not> is_draft r"
      "at_FinalizedRevision r = Some revision" "at_FinishedAt r = Some finished" "ctables d' = ctables d"
  | (finalized) a p s path d1 d2 d3 where "created" "visible_attempt i owner d = Some a" "is_draft a" "at_Revision a = revision"
      "package_by_id (at_CampaignID a) d = Some p" "finalScenario p (at_ProcedureRef a) = Inr (s, path)"
      "ValidateFinalization (ce_draft env) (ps_Procedure s) (at_Data a) = None" "ctables d1 = ctables d"
      "finalizeAttemptTx env a p s path finished owner None d1 = Inr (r, d2)"
      "touchExecution env (at_ExecutionID r) d2 = Inr ((), d3)" "d' = ctick d3"
proof -
  obtain x d0 a d3 where lock: "lockAttemptExecution env i (ctick d) = Inr (x, d0)"
    and vis: "visible_attempt i owner (ctick d0) = Some a" and d': "d' = ctick d3"
    and rest: "(if at_FinalizedAt a \<noteq> None then
       bindM (checkM (at_FinalizedRevision a = Some revision \<and> at_FinishedAt a = Some finished) ErrAttemptConflict)
         (\<lambda>_. returnM (a, False))
     else
       bindM (checkM (at_Revision a = revision) ErrAttemptConflict) (\<lambda>_.
       bindM (checkM (case x of None \<Rightarrow> True | Some e \<Rightarrow> ex_ClosedAt e = None) ErrCampaignConflict) (\<lambda>_.
       bindM (query_row env (package_by_id (at_CampaignID a))) (\<lambda>p.
       bindM (liftM (finalScenario p (at_ProcedureRef a))) (\<lambda>(s, path).
       bindM (checkM (finished \<noteq> zero_time) (FinalizationError FinishedRequired)) (\<lambda>_.
       bindM (case ValidateFinalization (ce_draft env) (ps_Procedure s) (at_Data a) of
                None \<Rightarrow> returnM ()
              | Some e \<Rightarrow> failM (FinalizationError (DraftInvalid e))) (\<lambda>_.
       bindM (finalizeAttemptTx env a p s path finished owner None) (\<lambda>r.
       bindM (touchExecution env (at_ExecutionID r)) (\<lambda>_.
       returnM (r, True)))))))))) (ctick (ctick d0)) = Inr ((r, created), d3)"
    using assms unfolding FinalizeAttempt_def FinalizeAttempt_tx_def transaction_returns bindM_returns [of "lockAttemptExecution env i"]
      bindM_returns [of "exec env id"] bindM_returns [of "query_row env (visible_attempt i owner)"] query_row_returns exec_returns id_apply
    apply clarify
    subgoal by (rule that) (assumption | rule refl)+
    done
  have same: "ctables d0 = ctables d" using lock_effect(1) [OF lock] by simp
  then have vis': "visible_attempt i owner d = Some a"
    using vis ctables_attempts(1) [OF same] by (simp add: visible_attempt_def)
  show thesis
  proof (cases "at_FinalizedAt a = None")
    case False
    then show ?thesis
      using rest vis' same d' by (intro repeated) (auto simp: returns_iff is_draft_def)
  next
    case True
    then obtain p s path d2 where "at_Revision a = revision" and p: "package_by_id (at_CampaignID a) (ctick (ctick d0)) = Some p"
      and "finalScenario p (at_ProcedureRef a) = Inr (s, path)"
      and "ValidateFinalization (ce_draft env) (ps_Procedure s) (at_Data a) = None"
      and "finalizeAttemptTx env a p s path finished owner None (ctick (ctick (ctick d0))) = Inr (r, d2)"
      and "touchExecution env (at_ExecutionID r) d2 = Inr ((), d3)" and "created"
      using rest by (auto simp: returns_iff split: option.splits prod.splits)
    moreover have "package_by_id (at_CampaignID a) d = Some p"
      using p ctables_attempts(2) [OF same] by (simp add: package_by_id_def)
    ultimately show ?thesis
      using vis' same d' True finalized [of a p s path "ctick (ctick (ctick d0))" d2 d3] by (simp add: is_draft_def)
  qed
qed

lemma FinalizeAttempt_wf:
  assumes wf: "campaign_wf d" and run: "FinalizeAttempt env i owner revision finished d = Inr ((r, created), d')"
  shows "campaign_wf d'"
  using run
proof (cases rule: FinalizeAttempt_cases)
  case repeated
  then show ?thesis using wf campaign_wf_ctables by blast
next
  case (finalized a p s path d1 d2 d3)
  have wf1: "campaign_wf d1" using wf campaign_wf_ctables finalized(8) by blast
  have a: "a \<in> set (cd_attempts d1)"
    using visible_attempt_Some [OF finalized(2)] ctables_attempts(1) [OF finalized(8)] by auto
  obtain e where "campaign_wf d2" using finalizeAttemptTx_effect [OF wf1 a refl finalized(3) finalized(9)] by blast
  then show ?thesis using touch_wf(1) [OF _ finalized(10)] finalized(11) by simp
qed

section \<open>Starting\<close>

lemma attempt_row_simps [simp]:
  "at_ID (attempt_row i pkg x ref w u data c n) = i" "at_CampaignID (attempt_row i pkg x ref w u data c n) = pkg"
  "at_ExecutionID (attempt_row i pkg x ref w u data c n) = x" "at_ProcedureRef (attempt_row i pkg x ref w u data c n) = ref"
  "at_Revision (attempt_row i pkg x ref w u data c n) = 1" "at_Data (attempt_row i pkg x ref w u data c n) = stored_draft data"
  "is_draft (attempt_row i pkg x ref w u data c n)" "finality (attempt_row i pkg x ref w u data c n)"
  by (simp_all add: attempt_row_def is_draft_def finality_def)

lemma CreateAttempt_cases:
  assumes "CreateAttempt env i pkg ref owner data d = Inr ((r, created), d')"
  obtains (present) "\<not> created" "visible_attempt i owner d = Some r" "at_CampaignID r = pkg" "at_ProcedureRef r = ref"
      "at_ExecutionID r = None" "at_Owner r = owner" "ctables d' = ctables d"
  | (inserted) "created" "attempt_by_id i d = None" "r = attempt_row i pkg None ref owner None data (ce_now env) (ce_now env)"
      "d' = add_attempt r (ctick d)"
  using assms unfolding CreateAttempt_def Let_def
  by (auto simp: returns_iff GetAttempt_def visible_attempt_def attempt_by_id_def
      split: option.splits if_splits sum.splits campaign_error.splits)

lemma CreateAttempt_wf:
  assumes wf: "campaign_wf d" and run: "CreateAttempt env i pkg ref owner data d = Inr ((r, created), d')"
  shows "campaign_wf d'"
  using run
proof (cases rule: CreateAttempt_cases)
  case present
  then show ?thesis using wf campaign_wf_ctables by blast
next
  case inserted
  have "campaign_wf (add_attempt r (ctick d))"
    by (rule add_attempt_wf) (use wf inserted in \<open>auto simp: attempt_by_id_None in_execution_def same_slot_def\<close>)
  then show ?thesis using inserted by simp
qed

lemma insert_attempt_returns:
  assumes "insert_attempt env a data d = Inr (r, d')"
  shows "r = a" "d' = add_attempt a (ctick d)" "at_ID a \<notin> at_ID ` set (cd_attempts d)" "attempt_constraints a data d"
  using assms by (auto simp: insert_attempt_def returns_iff attempt_by_id_None)

lemma find_scenario_ref:
  "find_scenario p ref i ss = Inr (s, path) \<Longrightarrow> s \<in> set ss \<and> sc_ProcedureRef (ps_Definition s) = ref"
  by (induction ss arbitrary: i) (auto simp: returns_iff split: if_splits)

lemma finalScenario_ref:
  "finalScenario p ref = Inr (s, path) \<Longrightarrow>
     s \<in> set (pk_Scenarios (cp_Definition p)) \<and> sc_ProcedureRef (ps_Definition s) = ref \<and> ref \<in> set (scenario_refs (cp_Definition p))"
  unfolding finalScenario_def scenario_refs_def by (drule find_scenario_ref) force

lemma replace_error_returns [returns_iff]:
  "(case m of Inl _ \<Rightarrow> failM e | Inr y \<Rightarrow> returnM y) d = Inr (z, d') \<longleftrightarrow> m = Inr z \<and> d' = d"
  by (cases m) (auto simp: returns_iff)

lemma StartExecutionAttempt_cases:
  assumes "StartExecutionAttempt env x i ref actor d = Inr ((r, created), d')"
  obtains (present) "\<not> created" "r \<in> set (cd_attempts d)" "at_ExecutionID r = Some x" "at_ProcedureRef r = ref" "ctables d' = ctables d"
  | (started) e p s path d1 d2 d3 where "created" "execution_by_id x d = Some e" "ex_ClosedAt e = None"
      "find (shared_draft x ref) (cd_attempts d) = None" "package_by_id (ex_PackageID e) d = Some p"
      "finalScenario p ref = Inr (s, path)" "ctables d1 = ctables d"
      "insert_attempt env (attempt_row i (ex_PackageID e) (Some (ex_ID e)) ref actor (Some actor) (started_draft e actor s) (ce_clock env) (ce_now env))
         (started_draft e actor s) d1 = Inr (r, d2)"
      "touchExecution env (Some (ex_ID e)) d2 = Inr ((), d3)" "d' = ctick d3"
proof -
  obtain e d0 where e: "execution_by_id x (ctick d) = Some e" and d': "d' = ctick d0"
    and rest: "(case attempt_by_id i (ctick (ctick d)) of
       Some a \<Rightarrow>
         bindM (checkM (at_ExecutionID a = Some x \<and> at_ProcedureRef a = ref) ErrAttemptConflict) (\<lambda>_. returnM (a, False))
     | None \<Rightarrow>
         bindM (checkM (ex_ClosedAt e = None) ErrCampaignConflict) (\<lambda>_.
         bindM (query env (\<lambda>d. find (shared_draft x ref) (cd_attempts d))) (\<lambda>open_draft.
         case open_draft of
           Some a \<Rightarrow> returnM (a, False)
         | None \<Rightarrow>
             bindM (query_row env (package_by_id (ex_PackageID e))) (\<lambda>p.
             bindM (case finalScenario p ref of
                      Inl _ \<Rightarrow> failM (FinalizationError NotInPackage)
                    | Inr sp \<Rightarrow> returnM sp) (\<lambda>(s, _).
             let data = started_draft e actor s;
                 row = attempt_row i (ex_PackageID e) (Some (ex_ID e)) ref actor (Some actor) data (ce_clock env) (ce_now env) in
             bindM (insert_attempt env row data) (\<lambda>a.
             bindM (touchExecution env (Some (ex_ID e))) (\<lambda>_.
             returnM (a, True)))))))) (ctick (ctick (ctick d))) = Inr ((r, created), d0)"
    using assms unfolding StartExecutionAttempt_def StartExecutionAttempt_tx_def transaction_returns
      bindM_returns [of "query_row env (execution_by_id x)"] bindM_returns [of "query env (attempt_by_id i)"] query_row_returns query_returns
    apply clarify
    subgoal by (rule that) (assumption | rule refl)+
    done
  show thesis
  proof (cases "attempt_by_id i d")
    case (Some a)
    then have "attempt_by_id i (ctick (ctick d)) = Some a" by (simp add: attempt_by_id_def)
    then show ?thesis
      using rest d' Some by (intro present) (auto simp: returns_iff attempt_by_id_def dest: find_SomeD)
  next
    case None
    then have none: "attempt_by_id i (ctick (ctick d)) = None" by (simp add: attempt_by_id_def)
    show ?thesis
    proof (cases "find (shared_draft x ref) (cd_attempts d)")
      case (Some a)
      then have "r = a" "\<not> created" "ctables d0 = ctables d"
        using rest none by (auto simp: returns_iff)
      then show ?thesis
        using d' find_SomeD [OF Some] by (intro present) (auto simp: shared_draft_def)
    next
      case slot: None
      obtain p s path d2 where "ex_ClosedAt e = None" and p: "package_by_id (ex_PackageID e) d = Some p" and sc: "finalScenario p ref = Inr (s, path)"
        and "insert_attempt env (attempt_row i (ex_PackageID e) (Some (ex_ID e)) ref actor (Some actor) (started_draft e actor s) (ce_clock env) (ce_now env))
             (started_draft e actor s) (ctick (ctick (ctick (ctick (ctick d))))) = Inr (r, d2)"
        and "touchExecution env (Some (ex_ID e)) d2 = Inr ((), d0)" and "created"
        using rest none slot
        by (auto simp: returns_iff Let_def package_by_id_def)
      then show ?thesis
        using e slot d' by (intro started [of e p s path "ctick (ctick (ctick (ctick (ctick d))))" d2 d0]) (auto simp: execution_by_id_def)
    qed
  qed
qed


lemma StartExecutionAttempt_wf:
  assumes wf: "campaign_wf d" and run: "StartExecutionAttempt env x i ref actor d = Inr ((r, created), d')"
  shows "campaign_wf d'"
  using run
proof (cases rule: StartExecutionAttempt_cases)
  case present
  then show ?thesis using wf campaign_wf_ctables by blast
next
  case (started e p s path d1 d2 d3)
  note same = ctables_attempts [OF started(7)]
  note ins = insert_attempt_returns [OF started(8)]
  have wf1: "campaign_wf d1" using wf campaign_wf_ctables started(7) by blast
  have keys: "keys_ok d" by (rule campaign_wfD(2) [OF wf])
  have e: "e \<in> set (cd_executions d)" "ex_ID e = x" using started(2) execution_by_id_Some [OF keys] by auto
  have p: "p \<in> set (cd_packages d)" "cp_ID p = ex_PackageID e" using started(5) package_by_id_Some [OF keys] by auto
  have only: "e' = e" if "e' \<in> set (cd_executions d)" "ex_ID e' = ex_ID e" for e'
    using execution_by_id_Some [OF keys, of x e'] started(2) that e(2) by simp
  have "campaign_wf (add_attempt r (ctick d1))"
  proof (rule add_attempt_wf)
    show "campaign_wf (ctick d1)" using wf1 by simp
    show "at_ID r \<notin> at_ID ` set (cd_attempts (ctick d1))" using ins(1,3) by simp
    show "is_draft r" "finality r" "at_Revision r = 1" unfolding ins(1) by simp_all
    have "(ex_ID e, ex_PackageID e) \<in> exec_keys d" using e(1) by (auto simp: exec_keys_def)
    then show "in_execution (ctick d1) r"
      unfolding ins(1) in_execution_def using p finalScenario_ref [OF started(6)] same by (auto simp: exec_keys_def)
    show "\<not> same_slot r b" if "b \<in> set (cd_attempts (ctick d1))" "is_draft b" for b
    proof -
      have "\<not> shared_draft x ref b" using started(4) that same(1) by (auto simp: find_None_iff_list)
      then show ?thesis unfolding ins(1) using that(2) e(2) by (auto simp: same_slot_def shared_draft_def is_draft_def)
    qed
    show "ex_ClosedAt e' = None" if "e' \<in> set (cd_executions (ctick d1))" "at_ExecutionID r = Some (ex_ID e')" for e'
      using only [of e'] that started(3) same(3) unfolding ins(1) by simp
  qed
  then have "campaign_wf d2" using ins(1,2) by simp
  then show ?thesis using touch_wf(1) [OF _ started(9)] started(10) by simp
qed

lemma CreateExecution_cases:
  assumes "CreateExecution env req d = Inr ((r, created), d')"
  obtains (present) "\<not> created" "ctables d' = ctables d" "r \<in> set (cd_executions d)"
  | (inserted) e where "created" "r = execution_row env e" "ex_ID e = ex_ID req" "ex_PackageID e = ex_PackageID req"
      "ex_ID e \<notin> ex_ID ` set (cd_executions d)" "package_by_id (ex_PackageID req) d \<noteq> None"
      "d' = (ctick (ctick d))\<lparr>cd_executions := cd_executions d @ [r]\<rparr>" "new_execution_error e = None"
proof -
  obtain p where p: "package_by_id (ex_PackageID req) d = Some p"
    and rest: "(let e = with_product (mf_Product (pk_Manifest (cp_Definition p))) req in
     case new_execution_error e of
       Some err \<Rightarrow> failM err
     | None \<Rightarrow>
         bindM (query env (execution_by_id (ex_ID e))) (\<lambda>present.
         case present of
           None \<Rightarrow>
             (\<lambda>d. if list_all text_ok [ex_Name e, ex_Repo e, ex_Branch e, ex_RCSRef e, ex_CreatedBy e]
                  then Inr ((execution_row env e, True), d\<lparr>cd_executions := cd_executions d @ [execution_row env e]\<rparr>)
                  else Inl Storage)
         | Some _ \<Rightarrow>
             bindM (query_row env (execution_by_id (ex_ID e))) (\<lambda>row.
             if ex_PackageID row \<noteq> ex_PackageID e \<or> ex_Name row \<noteq> ex_Name e \<or> ex_Repo row \<noteq> ex_Repo e
                \<or> ex_Branch row \<noteq> ex_Branch e \<or> ex_RCSRef row \<noteq> ex_RCSRef e \<or> ex_CreatedBy row \<noteq> ex_CreatedBy e
             then failM ErrCampaignConflict else returnM (row, False)))) (ctick d) = Inr ((r, created), d')"
    using assms unfolding CreateExecution_def bindM_returns [of "query_row env (package_by_id (ex_PackageID req))"] query_row_returns
    by blast
  let ?e = "with_product (mf_Product (pk_Manifest (cp_Definition p))) req"
  have ids: "ex_ID ?e = ex_ID req" "ex_PackageID ?e = ex_PackageID req"
    by (simp_all add: with_product_def split: option.split)
  have ok: "new_execution_error ?e = None"
    using rest by (auto simp: Let_def returns_iff split: option.splits)
  show thesis
  proof (cases "execution_by_id (ex_ID ?e) (ctick d)")
    case None
    then have "ex_ID ?e \<notin> ex_ID ` set (cd_executions d)" by (simp add: execution_by_id_def find_no_key)
    then show ?thesis
      using rest None ok ids p
      by (intro inserted [of ?e]) (auto simp: Let_def returns_iff split: if_splits)
  next
    case (Some x)
    then show ?thesis
      using rest ok by (intro present) (auto simp: Let_def returns_iff execution_by_id_def split: if_splits dest: find_SomeD)
  qed
qed

lemma CreateExecution_wf:
  assumes wf: "campaign_wf d" and run: "CreateExecution env req d = Inr ((r, created), d')"
  shows "campaign_wf d'"
  using run
proof (cases rule: CreateExecution_cases)
  case present
  then show ?thesis using wf campaign_wf_ctables by blast
next
  case (inserted e)
  have "campaign_wf ((ctick (ctick d))\<lparr>cd_executions := cd_executions (ctick (ctick d)) @ [r]\<rparr>)"
    by (rule add_execution_wf) (use wf inserted in \<open>auto simp: execution_row_def\<close>)
  then show ?thesis using inserted by simp
qed

section \<open>How attempts change\<close>

text \<open>An attempt keeps its identity and its place; once finalized, it changes only by losing its
  contents when its evidence expires.\<close>

definition evolves :: "campaign_attempt \<Rightarrow> campaign_attempt \<Rightarrow> bool" where
  "evolves a b \<longleftrightarrow> at_ID b = at_ID a \<and> at_CampaignID b = at_CampaignID a \<and> at_ProcedureRef b = at_ProcedureRef a
     \<and> at_Owner b = at_Owner a \<and> at_ExecutionID b = at_ExecutionID a \<and> at_CreatedAt b = at_CreatedAt a
     \<and> at_Revision a \<le> at_Revision b \<and> (is_draft a \<or> b = a \<or> b = expired_row a)"

definition evolution :: "campaign_db \<Rightarrow> campaign_db \<Rightarrow> bool" where
  "evolution d d' \<longleftrightarrow> (\<forall>a \<in> set (cd_attempts d). \<exists>b \<in> set (cd_attempts d'). evolves a b)"

lemma expired_row_simps [simp]:
  "at_ID (expired_row a) = at_ID a" "at_CampaignID (expired_row a) = at_CampaignID a"
  "at_ProcedureRef (expired_row a) = at_ProcedureRef a" "at_Owner (expired_row a) = at_Owner a"
  "at_ExecutionID (expired_row a) = at_ExecutionID a" "at_CreatedAt (expired_row a) = at_CreatedAt a"
  "at_Revision (expired_row a) = at_Revision a" "is_draft (expired_row a) = is_draft a"
  "at_EvidenceID (expired_row a) = None" "expired_row (expired_row a) = expired_row a"
  by (simp_all add: expired_row_def is_draft_def)

lemma evolves_refl: "evolves a a"
  by (simp add: evolves_def)

lemma evolves_trans:
  assumes ab: "evolves a b" and bc: "evolves b c"
  shows "evolves a c"
proof -
  have "is_draft a \<or> c = a \<or> c = expired_row a"
  proof (cases "is_draft a \<or> b = a")
    case True
    then show ?thesis using bc by (auto simp: evolves_def)
  next
    case False
    then have b: "b = expired_row a" using ab by (simp add: evolves_def)
    then have "is_draft b = is_draft a" by simp
    then have "c = b \<or> c = expired_row b" using bc False by (simp add: evolves_def)
    then show ?thesis using b by auto
  qed
  moreover have "at_Revision a \<le> at_Revision c" using ab bc order_trans unfolding evolves_def by blast
  ultimately show ?thesis using ab bc by (simp add: evolves_def)
qed

lemma evolution_trans: "evolution d d1 \<Longrightarrow> evolution d1 d2 \<Longrightarrow> evolution d d2"
  unfolding evolution_def using evolves_trans by blast

lemma evolution_same: "cd_attempts d' = cd_attempts d \<Longrightarrow> evolution d d'"
  unfolding evolution_def using evolves_refl by auto

lemma evolution_append: "cd_attempts d' = cd_attempts d @ xs \<Longrightarrow> evolution d d'"
  unfolding evolution_def using evolves_refl by auto

lemma evolution_map:
  "cd_attempts d' = map h (cd_attempts d) \<Longrightarrow> (\<And>a. a \<in> set (cd_attempts d) \<Longrightarrow> evolves a (h a)) \<Longrightarrow> evolution d d'"
  unfolding evolution_def by auto

lemma evolution_update:
  assumes "keys_ok d" "a \<in> set (cd_attempts d)" "at_ID a = i" "is_draft a" "evolves a (f a)"
    and "cd_attempts d' = map (\<lambda>x. if at_ID x = i then f x else x) (cd_attempts d)"
  shows "evolution d d'"
proof (rule evolution_map [OF assms(6)])
  fix x
  assume x: "x \<in> set (cd_attempts d)"
  have "x = a" if "at_ID x = i"
    using attempt_by_id_Some [OF assms(1), of i x] attempt_by_id_Some [OF assms(1), of i a] x that assms(2,3) by simp
  then show "evolves x (if at_ID x = i then f x else x)" using assms(5) evolves_refl by auto
qed

section \<open>Closing\<close>

text \<open>What closing has done so far: the tables are well-formed, no execution, package or event has
  changed, and a procedure that is settled stays so.\<close>

definition closing_progress :: "uuid \<Rightarrow> campaign_db \<Rightarrow> campaign_db \<Rightarrow> bool" where
  "closing_progress i d d' \<longleftrightarrow> campaign_wf d' \<and> cd_executions d' = cd_executions d \<and> cd_packages d' = cd_packages d
     \<and> cd_events d' = cd_events d \<and> evolution d d' \<and> (\<forall>ref. settled d i ref \<longrightarrow> settled d' i ref)"

lemma closing_progress_trans:
  "closing_progress i d d1 \<Longrightarrow> closing_progress i d1 d2 \<Longrightarrow> closing_progress i d d2"
  using evolution_trans by (auto simp: closing_progress_def)

lemma closing_progress_ctables:
  "campaign_wf d \<Longrightarrow> ctables d' = ctables d \<Longrightarrow> closing_progress i d d'"
  using ctables_attempts [of d' d] campaign_wf_ctables [of d' d] same_attempts(3) [of d' d]
  by (simp add: closing_progress_def evolution_same)

lemma skip_attempt_settles:
  assumes wf: "campaign_wf d" and a: "a \<in> set (cd_attempts d)" "is_draft a" "at_ExecutionID a = Some i"
    and run: "skip_attempt env e actor p s n a d = Inr (u, d')"
  shows "closing_progress i d d'" "settled d' i (at_ProcedureRef a)"
proof -
  let ?data = "skipped_draft s (at_Data a)"
  let ?g = "\<lambda>r. r\<lparr>at_Data := stored_draft ?data, at_UpdatedBy := Some actor\<rparr>"
  let ?a = "a\<lparr>at_Data := ?data, at_UpdatedBy := Some actor\<rparr>"
  let ?d1 = "ctick (update_attempt (at_ID a) ?g d)"
  obtain path r where fin: "finalizeAttemptTx env ?a p s path (ce_now env) actor
      (Some (closure_json env skip_reason actor (ex_Revision e + 1))) ?d1 = Inr (r, d')"
    using run by (auto simp: skip_attempt_def Let_def returns_iff split: option.splits)
  note ok = campaign_wfD(3) [OF wf a(1)]
  have meta: "dr_Metadata (stored_draft ?data) = map_option jsonb_members (dr_Metadata (at_Data a))"
    by (simp add: stored_draft_def skipped_draft_def)
  have "campaign_wf (update_attempt (at_ID a) ?g d)"
  proof (rule change_draft_wf [OF wf a(1) refl a(2), where f = ?g])
    show "attempt_ok (update_attempt (at_ID a) ?g d) (?g a)"
      using ok a(2)
      by (simp add: attempt_ok_def in_execution_def exec_keys_def linked_def rooted_def finality_def is_draft_def meta mentions_stored)
    show "at_EvidenceID b \<noteq> Some j" if "at_EvidenceID (?g a) = Some j" for b j
      using ok a(2) that by (simp add: attempt_ok_def finality_def is_draft_def)
  qed (use campaign_wfD(1) [OF wf] a in \<open>auto simp: is_draft_def\<close>)
  then have wf1: "campaign_wf ?d1" by simp
  have x: "?g a \<in> set (cd_attempts ?d1)" using a(1) by force
  have ids: "at_ID (?g a) = at_ID ?a" "is_draft (?g a)" using a(2) by (simp_all add: is_draft_def)
  obtain v where wf': "campaign_wf d'" and at: "cd_attempts d' = map (\<lambda>y. if at_ID y = at_ID ?a
        then finalized_row env (ce_now env) v actor y else y) (cd_attempts ?d1)"
    and same: "cd_packages d' = cd_packages ?d1" "cd_executions d' = cd_executions ?d1" "cd_events d' = cd_events ?d1"
    by (rule finalizeAttemptTx_effect [OF wf1 x ids fin]) (rule that)
  let ?h = "\<lambda>y. if at_ID y = at_ID a then finalized_row env (ce_now env) v actor (?g y) else y"
  have at': "cd_attempts d' = map ?h (cd_attempts d)" unfolding at by simp
  have keep: "at_ExecutionID (?h y) = at_ExecutionID y" "at_ProcedureRef (?h y) = at_ProcedureRef y" for y by simp_all
  have drafts: "is_draft y \<and> at_ID y \<noteq> at_ID a" if "is_draft (?h y)" for y
    using that by (auto split: if_splits)
  have mono: "settled d' i ref" if before: "settled d i ref" for ref
  proof -
    obtain b where b: "b \<in> set (cd_attempts d)" "at_ExecutionID b = Some i" "at_ProcedureRef b = ref"
      and none: "\<And>y. y \<in> set (cd_attempts d) \<Longrightarrow> at_ExecutionID y = Some i \<Longrightarrow> at_ProcedureRef y = ref \<Longrightarrow> \<not> is_draft y"
      using before unfolding settled_def by blast
    show ?thesis
      unfolding settled_def
    proof (intro conjI ballI impI)
      show "\<exists>y \<in> set (cd_attempts d'). at_ExecutionID y = Some i \<and> at_ProcedureRef y = ref"
        using b keep [of b] unfolding at' by (intro bexI [of _ "?h b"]) auto
      fix z
      assume z: "z \<in> set (cd_attempts d')" "at_ExecutionID z = Some i \<and> at_ProcedureRef z = ref"
      then obtain y where y: "y \<in> set (cd_attempts d)" "z = ?h y" unfolding at' by auto
      show "\<not> is_draft z"
        using drafts [of y] none [OF y(1)] z(2) keep [of y] unfolding y(2) by metis
    qed
  qed
  have unique: "y = a" if "y \<in> set (cd_attempts d)" "is_draft y" "at_ExecutionID y = Some i" "at_ProcedureRef y = at_ProcedureRef a" for y
    using campaign_wfD(4) [OF wf] that a by (simp add: slots_ok_def same_slot_def)
  show "settled d' i (at_ProcedureRef a)"
    unfolding settled_def
  proof (intro conjI ballI impI)
    show "\<exists>y \<in> set (cd_attempts d'). at_ExecutionID y = Some i \<and> at_ProcedureRef y = at_ProcedureRef a"
      using a keep [of a] unfolding at' by (intro bexI [of _ "?h a"]) auto
    fix z
    assume z: "z \<in> set (cd_attempts d')" "at_ExecutionID z = Some i \<and> at_ProcedureRef z = at_ProcedureRef a"
    then obtain y where y: "y \<in> set (cd_attempts d)" "z = ?h y" unfolding at' by auto
    show "\<not> is_draft z"
      using drafts [of y] unique [OF y(1)] z(2) keep [of y] unfolding y(2) by metis
  qed
  have "evolution d d'"
  proof (rule evolution_map [OF at'])
    fix y
    assume y: "y \<in> set (cd_attempts d)"
    have "y = a" if "at_ID y = at_ID a"
      using attempt_by_id_Some [OF campaign_wfD(2) [OF wf], of "at_ID a"] y a(1) that by (metis option.inject)
    then show "evolves y (?h y)" using a(2) by (auto simp: evolves_def)
  qed
  then show "closing_progress i d d'"
    using wf' same mono by (simp add: closing_progress_def)
qed


lemma newest_mem: "newest key xs = Some x \<Longrightarrow> x \<in> set xs"
proof (cases xs)
  case (Cons y ys)
  assume "newest key xs = Some x"
  then have "x = last (sort_key key xs)" using Cons by (simp add: newest_def)
  moreover have "sort_key key xs \<noteq> []" using Cons by (metis length_0_conv length_sort list.distinct(1))
  ultimately have "x \<in> set (sort_key key xs)" using last_in_set by blast
  then show ?thesis by simp
qed (simp add: newest_def)

lemma newest_None: "newest key xs = None \<longleftrightarrow> xs = []"
  by (simp add: newest_def split: list.splits)

lemma sorted_key_last: "sorted (map key ys) \<Longrightarrow> y \<in> set ys \<Longrightarrow> key y \<le> key (last ys)"
  by (induction ys) auto

lemma newest_max: "newest key xs = Some x \<Longrightarrow> y \<in> set xs \<Longrightarrow> key y \<le> key x"
proof -
  assume "newest key xs = Some x" and y: "y \<in> set xs"
  then have "x = last (sort_key key xs)" by (cases xs) (simp_all add: newest_def)
  then show ?thesis using sorted_key_last [of key "sort_key key xs" y] y by simp
qed

lemma latest_attempt_settled:
  assumes "latest_attempt i ref d = Some a"
  shows "a \<in> set (cd_attempts d)" "at_ExecutionID a = Some i" "at_ProcedureRef a = ref"
    "\<not> is_draft a \<Longrightarrow> settled d i ref"
proof -
  let ?mine = "filter (\<lambda>a. at_ExecutionID a = Some i \<and> at_ProcedureRef a = ref) (cd_attempts d)"
  let ?key = "\<lambda>a. (at_FinalizedAt a = None, at_CreatedAt a, at_ID a)"
  have l: "newest ?key ?mine = Some a" using assms by (simp add: latest_attempt_def)
  have "a \<in> set ?mine" by (rule newest_mem [OF l])
  then show mine: "a \<in> set (cd_attempts d)" "at_ExecutionID a = Some i" "at_ProcedureRef a = ref" by auto
  assume final: "\<not> is_draft a"
  have "\<not> is_draft b" if "b \<in> set ?mine" for b
    using newest_max [OF l that] final by (auto simp: is_draft_def less_eq_prod_def)
  then show "settled d i ref" using mine by (auto simp: settled_def)
qed

lemma new_skip_settles:
  assumes wf: "campaign_wf d" and e: "e \<in> set (cd_executions d)" "ex_ClosedAt e = None"
    and p: "p \<in> set (cd_packages d)" "cp_ID p = ex_PackageID e" "ref \<in> set (scenario_refs (cp_Definition p))"
    and none: "latest_attempt (ex_ID e) ref d = None"
    and ins: "insert_attempt env (attempt_row j (ex_PackageID e) (Some (ex_ID e)) ref actor None data now now) data (ctick d) = Inr (a, d1)"
    and run: "skip_attempt env e actor p s n a d1 = Inr (u, d')"
  shows "closing_progress (ex_ID e) d d'" "settled d' (ex_ID e) ref"
proof -
  note i = insert_attempt_returns [OF ins]
  have empty: "\<not> (at_ExecutionID b = Some (ex_ID e) \<and> at_ProcedureRef b = ref)" if "b \<in> set (cd_attempts d)" for b
    using none that by (auto simp: latest_attempt_def newest_None filter_empty_conv)
  have only: "e' = e" if "e' \<in> set (cd_executions d)" "ex_ID e' = ex_ID e" for e'
    using execution_by_id_Some [OF campaign_wfD(2) [OF wf], of "ex_ID e"] that e(1) by (metis option.inject)
  have wf1: "campaign_wf d1"
    unfolding i(2)
  proof (rule add_attempt_wf)
    show "at_ID (attempt_row j (ex_PackageID e) (Some (ex_ID e)) ref actor None data now now) \<notin> at_ID ` set (cd_attempts (ctick (ctick d)))"
      using i(3) by simp
    show "in_execution (ctick (ctick d)) (attempt_row j (ex_PackageID e) (Some (ex_ID e)) ref actor None data now now)"
      using e(1) p by (auto simp: in_execution_def exec_keys_def)
    show "\<not> same_slot (attempt_row j (ex_PackageID e) (Some (ex_ID e)) ref actor None data now now) b"
      if "b \<in> set (cd_attempts (ctick (ctick d)))" for b
      using empty [of b] that by (auto simp: same_slot_def)
    show "ex_ClosedAt e' = None" if "e' \<in> set (cd_executions (ctick (ctick d)))"
      "at_ExecutionID (attempt_row j (ex_PackageID e) (Some (ex_ID e)) ref actor None data now now) = Some (ex_ID e')" for e'
      using only [of e'] that e(2) by simp
  qed (use wf in simp_all)
  have d1: "cd_attempts d1 = cd_attempts d @ [a]" "cd_executions d1 = cd_executions d" "cd_packages d1 = cd_packages d"
    "cd_events d1 = cd_events d"
    using i(1,2) by simp_all
  have "settled d1 (ex_ID e) ref'" if "settled d (ex_ID e) ref'" for ref'
  proof -
    have "ref' \<noteq> ref" using that empty by (auto simp: settled_def)
    then show ?thesis using that unfolding settled_def d1 i(1) by auto
  qed
  then have first: "closing_progress (ex_ID e) d d1"
    using wf1 d1 evolution_append [OF d1(1)] by (simp add: closing_progress_def)
  have a: "a \<in> set (cd_attempts d1)" "is_draft a" "at_ExecutionID a = Some (ex_ID e)" "at_ProcedureRef a = ref"
    using d1(1) i(1) by simp_all
  note s = skip_attempt_settles [OF wf1 a(1-3) run]
  show "closing_progress (ex_ID e) d d'" by (rule closing_progress_trans [OF first s(1)])
  show "settled d' (ex_ID e) ref" using s(2) a(4) by simp
qed


lemma close_scenarios_settles:
  assumes "campaign_wf d" and "e \<in> set (cd_executions d)" "ex_ClosedAt e = None"
    and "p \<in> set (cd_packages d)" "cp_ID p = ex_PackageID e"
    and "\<And>s. s \<in> set ss \<Longrightarrow> sc_ProcedureRef (ps_Definition s) \<in> set (scenario_refs (cp_Definition p))"
    and "close_scenarios env e actor p n ss d = Inr (u, d')"
  shows "closing_progress (ex_ID e) d d' \<and> (\<forall>s \<in> set ss. settled d' (ex_ID e) (sc_ProcedureRef (ps_Definition s)))"
  using assms
proof (induction ss arbitrary: n d)
  case Nil
  then show ?case by (simp add: returns_iff closing_progress_def evolution_same)
next
  case (Cons s ss)
  let ?ref = "sc_ProcedureRef (ps_Definition s)"
  let ?i = "ex_ID e"
  obtain d1 where head: "(case map_option at_ID (latest_attempt ?i ?ref d) of
               Some j \<Rightarrow>
                 bindM (query_row env (attempt_by_id j)) (\<lambda>a.
                 if at_FinalizedAt a \<noteq> None then returnM () else skip_attempt env e actor p s n a)
             | None \<Rightarrow>
                 (let data = execution_draft e actor s in
                  bindM (\<lambda>d. Inr (ce_new_id env (ed_stmt (cd_ev d)), d)) (\<lambda>j.
                  bindM (insert_attempt env
                    (attempt_row j (ex_PackageID e) (Some (ex_ID e)) ?ref actor None data (ce_now env) (ce_now env)) data) (\<lambda>a.
                  skip_attempt env e actor p s n a)))) (ctick d) = Inr ((), d1)"
    and tail: "close_scenarios env e actor p (Suc n) ss d1 = Inr (u, d')"
    using Cons.prems(7) unfolding close_scenarios.simps Let_def [of ?ref] bindM_returns [of "query env _"] query_returns
    by (auto simp: bindM_returns)
  have step: "closing_progress ?i d d1 \<and> settled d1 ?i ?ref"
  proof (cases "latest_attempt ?i ?ref d")
    case None
    then obtain j a d0 where "insert_attempt env (attempt_row j (ex_PackageID e) (Some ?i) ?ref actor None
          (execution_draft e actor s) (ce_now env) (ce_now env)) (execution_draft e actor s) (ctick d) = Inr (a, d0)"
      and "skip_attempt env e actor p s n a d0 = Inr ((), d1)"
      using head by (auto simp: returns_iff Let_def)
    from new_skip_settles [OF Cons.prems(1-5) Cons.prems(6) [of s] None this] show ?thesis by simp
  next
    case (Some b)
    note l = latest_attempt_settled [OF Some]
    have keys: "keys_ok (ctick d)" using campaign_wfD(2) [OF Cons.prems(1)] by (simp add: keys_ok_def)
    obtain a where a: "attempt_by_id (at_ID b) (ctick d) = Some a"
      and run: "(if at_FinalizedAt a \<noteq> None then returnM () else skip_attempt env e actor p s n a) (ctick (ctick d)) = Inr ((), d1)"
      using head Some by (auto simp: bindM_returns query_row_returns)
    have ab: "a = b"
      using attempt_by_id_Some [OF keys, of "at_ID b" b] l(1) a by simp
    have wf2: "campaign_wf (ctick (ctick d))" using Cons.prems(1) by simp
    have prog: "closing_progress ?i d (ctick (ctick d))"
      using closing_progress_ctables [OF Cons.prems(1), of "ctick (ctick d)"] by simp
    show ?thesis
    proof (cases "is_draft b")
      case False
      then have "d1 = ctick (ctick d)" using run ab by (simp add: is_draft_def returns_iff)
      then show ?thesis using prog l(4) [OF False] by (simp add: closing_progress_def)
    next
      case True
      then have "skip_attempt env e actor p s n b (ctick (ctick d)) = Inr ((), d1)"
        using run ab by (simp add: is_draft_def)
      note s = skip_attempt_settles [OF wf2 _ True l(2) this]
      show ?thesis
        using s l(1,3) closing_progress_trans [OF prog] by simp
    qed
  qed
  then have d1: "campaign_wf d1" "cd_executions d1 = cd_executions d" "cd_packages d1 = cd_packages d"
    by (simp_all add: closing_progress_def)
  have rest: "closing_progress ?i d1 d' \<and> (\<forall>s \<in> set ss. settled d' ?i (sc_ProcedureRef (ps_Definition s)))"
    using Cons.prems(2-6) d1 tail by (intro Cons.IH) simp_all
  then have "settled d' ?i ?ref" using step by (simp add: closing_progress_def)
  then show ?case using step rest closing_progress_trans by auto
qed

end
