(* ===== verification/Campaign_Lifecycle.thy ===== *)
theory Campaign_Lifecycle
  imports Campaign_Laws
begin

text \<open>
  The life of a campaign: closing and reopening, the operations as the steps of a state machine
  beside the filing and expiry of evidence, and the guarantees the store gives about attempts.
\<close>

section \<open>Closing and reopening\<close>

lemma SetExecutionClosed_tx_effect:
  assumes wf: "campaign_wf d" and run: "SetExecutionClosed_tx env i revision closing actor d = Inr (u, d')"
  obtains e where "execution_by_id i d = Some e" "ex_Revision e = revision" "(ex_ClosedAt e \<noteq> None) \<noteq> closing"
    "campaign_wf d'" "evolution d d'" "cd_executions d' = map (\<lambda>x. if ex_ID x = i then closed_row env closing actor x else x) (cd_executions d)"
    "\<not> closing \<Longrightarrow> cd_attempts d' = cd_attempts d"
proof -
  obtain e d1 where e: "execution_by_id i d = Some e" and rev: "ex_Revision e = revision" and flip_state: "(ex_ClosedAt e \<noteq> None) \<noteq> closing"
    and mid: "(if closing then bindM (exec env id) (\<lambda>_. closeUnfinished env e actor) else returnM ()) (ctick d) = Inr ((), d1)"
    and d': "\<exists>v. d' = add_event v (ctick (ctick (update_execution i (closed_row env closing actor) d1)))"
    using run unfolding SetExecutionClosed_tx_def bindM_returns query_row_returns checkM_returns exec_returns query_returns by auto
  have keys: "keys_ok d" by (rule campaign_wfD(2) [OF wf])
  have em: "e \<in> set (cd_executions d)" "ex_ID e = i" using e execution_by_id_Some [OF keys] by auto
  have only: "x = e" if "x \<in> set (cd_executions d)" "ex_ID x = i" for x
    using execution_by_id_Some [OF keys, of i x] e that by simp
  have mid': "campaign_wf d1 \<and> cd_executions d1 = cd_executions d \<and> cd_packages d1 = cd_packages d \<and> evolution d d1
    \<and> (closing \<longrightarrow> (\<forall>p \<in> set (cd_packages d). cp_ID p = ex_PackageID e \<longrightarrow>
          (\<forall>ref \<in> set (scenario_refs (cp_Definition p)). settled d1 i ref)))
    \<and> (\<not> closing \<longrightarrow> cd_attempts d1 = cd_attempts d)"
  proof (cases closing)
    case False
    then have "d1 = ctick d" using mid by (simp add: returns_iff)
    then show ?thesis using wf False by (simp add: evolution_same)
  next
    case True
    then obtain p where p: "package_by_id (ex_PackageID e) (ctick (ctick d)) = Some p"
      and loop: "close_scenarios env e actor p 0 (pk_Scenarios (cp_Definition p)) (ctick (ctick (ctick (ctick d)))) = Inr ((), d1)"
      using mid by (auto simp: closeUnfinished_def returns_iff)
    let ?d = "ctick (ctick (ctick (ctick d)))"
    have pm: "p \<in> set (cd_packages d)" "cp_ID p = ex_PackageID e"
      using p package_by_id_Some [OF keys] by (auto simp: package_by_id_def)
    have "closing_progress (ex_ID e) ?d d1 \<and> (\<forall>s \<in> set (pk_Scenarios (cp_Definition p)). settled d1 (ex_ID e) (sc_ProcedureRef (ps_Definition s)))"
      by (rule close_scenarios_settles [OF _ _ _ _ _ _ loop])
        (use wf em pm flip_state True in \<open>auto simp: scenario_refs_def\<close>)
    moreover have "p' = p" if "p' \<in> set (cd_packages d)" "cp_ID p' = ex_PackageID e" for p'
      using package_by_id_Some [OF keys, of "ex_PackageID e"] that pm by (metis option.inject)
    moreover have "evolution d d1" if "evolution ?d d1" using that by (simp add: evolution_def)
    ultimately show ?thesis
      using True em(2) by (auto simp: closing_progress_def scenario_refs_def)
  qed
  then have wf1: "campaign_wf d1" by blast
  have "campaign_wf (update_execution i (closed_row env closing actor) d1)"
  proof (rule update_execution_wf [OF wf1])
    show "settled d1 i ref" if "x \<in> set (cd_executions d1)" "ex_ID x = i" "ex_ClosedAt (closed_row env closing actor x) \<noteq> None"
      "p \<in> set (cd_packages d1)" "cp_ID p = ex_PackageID x" "ref \<in> set (scenario_refs (cp_Definition p))" for x p ref
      using mid' only [of x] that by (auto simp: closed_row_def split: if_splits)
  qed (simp add: closed_row_def)
  moreover have "campaign_wf (add_event v x) = campaign_wf x" for v x
    by (simp add: campaign_wf_def wf_parts add_event_def)
  ultimately have "campaign_wf d'" using d' by auto
  then show thesis
    using that [of e] e rev flip_state mid' d' evolution_trans [of d d1 d'] by (auto simp: evolution_def add_event_def)
qed

lemma GetExecution_reads: "run (GetExecution env i) d = (res, d') \<Longrightarrow> ctables d' = ctables d"
  by (auto simp: run_def GetExecution_def executionProgress_def returns_iff split: sum.splits)

section \<open>The state machine\<close>

text \<open>Every request, whether it succeeds or fails and whatever statement breaks; records filed by
  other means; and the expiry of evidence.\<close>

inductive campaign_step :: "campaign_db \<Rightarrow> campaign_db \<Rightarrow> bool" where
  create_execution: "campaign_step d (snd (run (CreateExecution env req) d))"
| create_attempt: "campaign_step d (snd (run (CreateAttempt env i pkg ref owner data) d))"
| start: "campaign_step d (snd (run (StartExecutionAttempt env x i ref actor) d))"
| save: "campaign_step d (snd (run (SaveAttempt env i owner revision operation data) d))"
| finalize: "campaign_step d (snd (run (FinalizeAttempt env i owner revision finished) d))"
| close_or_reopen: "campaign_step d (snd (SetExecutionClosed env i revision closing actor d))"
| file_batch: "campaign_step d (d\<lparr>cd_ev := snd (InsertBatch fails parse new_id now es (cd_ev d))\<rparr>)"
| expire: "campaign_step d (expire_evidence fails ids d)"

lemma run_step:
  assumes "campaign_wf d" "\<And>x d'. m d = Inr (x, d') \<Longrightarrow> campaign_wf d' \<and> evolution d d'"
  shows "campaign_wf (snd (run m d)) \<and> evolution d (snd (run m d))"
  using assms by (auto simp: run_def evolution_same split: sum.splits)

lemma evolution_ctables: "ctables d' = ctables d \<Longrightarrow> evolution d d'"
  using ctables_attempts(1) evolution_same by blast

lemma saved_evolves: "is_draft a \<Longrightarrow> evolves a (saved_row env w n k data a)"
  by (simp add: evolves_def)

lemma finalized_evolves: "is_draft a \<Longrightarrow> evolves a (finalized_row env t e w a)"
  by (simp add: evolves_def)

lemma SaveAttempt_evolution:
  assumes wf: "campaign_wf d" and "SaveAttempt env i owner revision operation data d = Inr (r, d')"
  shows "evolution d d'"
  using assms(2)
proof (cases rule: SaveAttempt_cases)
  case repeated
  then show ?thesis by (simp add: evolution_ctables)
next
  case (saved a d1 d2 d3)
  have "campaign_wf d'" by (rule SaveAttempt_wf [OF assms])
  have at: "cd_attempts d' = map (\<lambda>x. if at_ID x = i then saved_row env owner revision operation data x else x) (cd_attempts d)"
  proof -
    have "cd_attempts d3 = cd_attempts (update_attempt i (saved_row env owner revision operation data) d2)"
      using saved(7) by (cases "at_ExecutionID a") (auto simp: touchExecution_def returns_iff)
    then show ?thesis
      using saved(8) replaceDraftBlobRefs_effect(2) [OF saved(6)] ctables_attempts(1) [OF saved(5)] by simp
  qed
  show ?thesis
    using visible_attempt_Some [OF saved(1)] saved(2) saved_evolves
    by (intro evolution_update [OF campaign_wfD(2) [OF wf] _ _ _ _ at]) auto
qed

lemma FinalizeAttempt_evolution:
  assumes wf: "campaign_wf d" and "FinalizeAttempt env i owner revision finished d = Inr ((r, created), d')"
  shows "evolution d d'"
  using assms(2)
proof (cases rule: FinalizeAttempt_cases)
  case repeated
  then show ?thesis by (simp add: evolution_ctables)
next
  case (finalized a p s path d1 d2 d3)
  note same = ctables_attempts [OF finalized(8)]
  have wf1: "campaign_wf d1" using wf campaign_wf_ctables finalized(8) by blast
  have a: "a \<in> set (cd_attempts d1)" "at_ID a = i" using visible_attempt_Some [OF finalized(2)] same by auto
  obtain v where "campaign_wf d2" and at: "cd_attempts d2 = map (\<lambda>y. if at_ID y = at_ID a then finalized_row env finished v owner y else y) (cd_attempts d1)"
    by (rule finalizeAttemptTx_effect [OF wf1 a(1) refl finalized(3) finalized(9)])
  have "cd_attempts d' = cd_attempts d2"
    using touch_wf(2) [OF \<open>campaign_wf d2\<close> finalized(10)] finalized(11) by simp
  then have "cd_attempts d' = map (\<lambda>y. if at_ID y = at_ID a then finalized_row env finished v owner y else y) (cd_attempts d)"
    using at same by simp
  then show ?thesis
    using a same finalized(3) finalized_evolves
    by (intro evolution_update [OF campaign_wfD(2) [OF wf], of a "at_ID a"]) auto
qed

lemma StartExecutionAttempt_evolution:
  assumes "campaign_wf d" "StartExecutionAttempt env x i ref actor d = Inr ((r, created), d')"
  shows "evolution d d'"
  using assms(2)
proof (cases rule: StartExecutionAttempt_cases)
  case present
  then show ?thesis by (simp add: evolution_ctables)
next
  case (started e p s path d1 d2 d3)
  have "cd_attempts d2 = cd_attempts d @ [r]"
    using insert_attempt_returns [OF started(8)] ctables_attempts(1) [OF started(7)] by simp
  moreover have "cd_attempts d' = cd_attempts d2"
    using started(9,10) by (auto simp: touchExecution_def returns_iff)
  ultimately show ?thesis by (intro evolution_append) simp
qed

lemma CreateAttempt_evolution:
  assumes "CreateAttempt env i pkg ref owner data d = Inr ((r, created), d')"
  shows "evolution d d'"
  using assms by (cases rule: CreateAttempt_cases) (auto intro: evolution_ctables evolution_append)

lemma CreateExecution_evolution:
  assumes "CreateExecution env req d = Inr ((r, created), d')"
  shows "evolution d d'"
  using assms by (cases rule: CreateExecution_cases) (auto intro: evolution_ctables evolution_same)

lemma SetExecutionClosed_step:
  assumes wf: "campaign_wf d"
  shows "campaign_wf (snd (SetExecutionClosed env i revision closing actor d))
    \<and> evolution d (snd (SetExecutionClosed env i revision closing actor d))"
proof -
  let ?tx = "transaction env (SetExecutionClosed_tx env i revision closing actor)"
  have tx: "campaign_wf d' \<and> evolution d d'" if tx: "?tx d = Inr (u, d')" for u d'
  proof -
    obtain d1 where d1: "SetExecutionClosed_tx env i revision closing actor (ctick d) = Inr (u, d1)" "d' = ctick d1"
      using tx by (auto simp: transaction_returns)
    have "campaign_wf d1 \<and> evolution (ctick d) d1"
      by (rule SetExecutionClosed_tx_effect [OF _ d1(1)]) (use wf in auto)
    then show ?thesis using d1(2) by (simp add: evolution_def)
  qed
  obtain res d1 where run: "run ?tx d = (res, d1)" by fastforce
  have step: "campaign_wf d1 \<and> evolution d d1"
    using run_step [OF wf, of ?tx] tx run by simp
  show ?thesis
  proof (cases res)
    case (Inl e)
    then show ?thesis using run step by (simp add: SetExecutionClosed_def)
  next
    case (Inr u)
    obtain r d2 where read: "run (GetExecution env i) d1 = (r, d2)" by fastforce
    have "snd (SetExecutionClosed env i revision closing actor d) = d2"
      using run Inr read by (simp add: SetExecutionClosed_def)
    moreover have "ctables d2 = ctables d1" by (rule GetExecution_reads [OF read])
    ultimately show ?thesis
      using step campaign_wf_ctables evolution_trans [of d d1 d2] evolution_ctables [of d2 d1] by metis
  qed
qed

lemma insert_all_drafts:
  "insert_all fails parse new_id now es d = Inr (rs, d') \<Longrightarrow> ed_draft_refs d' = ed_draft_refs d"
proof (induction es arbitrary: d rs)
  case (Cons e es)
  then show ?case using insertOne_refs(3) by (fastforce split: sum.splits)
qed simp

lemma InsertBatch_keeps:
  assumes "evidence_wf ev"
  shows "ed_draft_refs (snd (InsertBatch fails parse new_id now es ev)) = ed_draft_refs ev"
    "ev_ID ` set (ed_rows ev) \<subseteq> ev_ID ` set (ed_rows (snd (InsertBatch fails parse new_id now es ev)))"
proof -
  obtain res ev' where run: "in_tx fails (insert_all fails parse new_id now es) ev = (res, ev')" by fastforce
  have wf: "evidence_wf (tick ev)" using assms by simp
  from run have "ed_draft_refs ev' = ed_draft_refs ev \<and> set (ed_rows ev) \<subseteq> set (ed_rows ev')"
  proof (cases rule: in_tx_cases)
    case (committed rs ev1)
    then show ?thesis
      using insert_all_drafts [OF committed(2)] insert_all_wf [OF wf committed(2)] by auto
  qed simp
  then show "ed_draft_refs (snd (InsertBatch fails parse new_id now es ev)) = ed_draft_refs ev"
    "ev_ID ` set (ed_rows ev) \<subseteq> ev_ID ` set (ed_rows (snd (InsertBatch fails parse new_id now es ev)))"
    using run by (auto simp: InsertBatch_def)
qed

lemma file_batch_wf:
  assumes wf: "campaign_wf d"
  shows "campaign_wf (d\<lparr>cd_ev := snd (InsertBatch fails parse new_id now es (cd_ev d))\<rparr>)" (is "campaign_wf ?d")
proof -
  note w = campaign_wfD [OF wf]
  note k = InsertBatch_keeps [OF w(1), of fails parse new_id now es]
  show ?thesis
  proof (rule campaign_wfI)
    show "evidence_wf (cd_ev ?d)" using InsertBatch_wf [OF w(1)] by simp
    show "keys_ok ?d" using w(2) by (simp add: keys_ok_def)
    show "attempt_ok ?d a" if "a \<in> set (cd_attempts ?d)" for a
    proof -
      have "attempt_ok d a" using w(3) that by simp
      then have "in_execution ?d a" "finality a" "rooted ?d a" and l: "linked d a"
        using k(1) by (simp_all add: attempt_ok_def in_execution_def exec_keys_def rooted_def)
      moreover have "linked ?d a" using l k(2) unfolding linked_def by fastforce
      ultimately show ?thesis by (simp add: attempt_ok_def)
    qed
    show "slots_ok ?d" "links_ok ?d" using same_attempts [of ?d d] w by simp_all
    show "roots_ok ?d" using same_roots [of ?d d] w k by simp
    show "closed_settled ?d" using w(7) same_attempts(3) [of ?d d] by (simp add: closed_settled_def)
  qed
qed

lemma map_settled:
  assumes at: "cd_attempts d' = map h (cd_attempts d)"
    and h: "\<And>a. at_ExecutionID (h a) = at_ExecutionID a \<and> at_ProcedureRef (h a) = at_ProcedureRef a \<and> is_draft (h a) = is_draft a"
  shows "settled d' i ref = settled d i ref"
  unfolding settled_def at by (auto simp: h)

lemma expire_wf:
  assumes wf: "campaign_wf d"
  shows "campaign_wf (expire_evidence fails ids d) \<and> evolution d (expire_evidence fails ids d)"
proof -
  note w = campaign_wfD [OF wf]
  obtain res ev where del: "DeleteBatch fails ids (cd_ev d) = (res, ev)" by fastforce
  have ev_wf: "evidence_wf ev" using DeleteBatch_wf [OF w(1), of fails ids] del by simp
  show ?thesis
  proof (cases res)
    case (Inl err)
    then have ev: "ev = tick (cd_ev d)" using del by (auto simp: DeleteBatch_def split: if_splits)
    then have "expire_evidence fails ids d = ctick d" using del Inl by (simp add: expire_evidence_def ctick_def)
    then show ?thesis using wf by (simp add: evolution_same)
  next
    case (Inr n)
    let ?h = "\<lambda>a. if at_EvidenceID a \<in> Some ` set ids then expired_row a else a"
    let ?d = "d\<lparr>cd_ev := ev, cd_attempts := map ?h (cd_attempts d)\<rparr>"
    have d: "expire_evidence fails ids d = ?d" using del Inr by (simp add: expire_evidence_def)
    have rows: "ed_rows ev = filter (\<lambda>e. ev_ID e \<notin> set ids) (ed_rows (cd_ev d))" "ed_draft_refs ev = ed_draft_refs (cd_ev d)"
      using del Inr by (auto simp: DeleteBatch_def split: if_splits)
    have keep: "at_ExecutionID (?h a) = at_ExecutionID a \<and> at_ProcedureRef (?h a) = at_ProcedureRef a \<and> is_draft (?h a) = is_draft a" for a
      by simp
    have draft: "?h a = a" if "a \<in> set (cd_attempts d)" "is_draft a" for a
      using w(3) [OF that(1)] that(2) by (auto simp: attempt_ok_def finality_def is_draft_def)
    have "campaign_wf ?d"
    proof (rule campaign_wfI)
      show "evidence_wf (cd_ev ?d)" using ev_wf by simp
      have "map at_ID (cd_attempts ?d) = map at_ID (cd_attempts d)" by simp
      then show "keys_ok ?d" using w(2) unfolding keys_ok_def by (simp del: map_map)
      show "attempt_ok ?d b" if b: "b \<in> set (cd_attempts ?d)" for b
      proof -
        obtain a where a: "a \<in> set (cd_attempts d)" "b = ?h a" using b by auto
        have ok: "attempt_ok d a" by (rule w(3) [OF a(1)])
        have "finality b"
          using ok unfolding a(2) by (auto simp: attempt_ok_def finality_def expired_row_def split: option.splits)
        moreover have "in_execution ?d b" using ok unfolding a(2) by (auto simp: attempt_ok_def in_execution_def exec_keys_def)
        moreover have "linked ?d b" using ok unfolding a(2) by (auto simp: attempt_ok_def linked_def rows)
        moreover have "rooted ?d b"
        proof (cases "is_draft a")
          case True
          then show ?thesis using ok draft [OF a(1) True] unfolding a(2) by (simp add: attempt_ok_def rooted_def rows)
        next
          case False
          then have "at_FinalizedAt b \<noteq> None" using keep [of a] unfolding a(2) by (metis is_draft_def)
          then show ?thesis by (auto simp: rooted_def is_draft_def)
        qed
        ultimately show ?thesis by (simp add: attempt_ok_def)
      qed
      show "slots_ok ?d"
        unfolding slots_ok_def
      proof (intro ballI impI)
        fix x y
        assume x: "x \<in> set (cd_attempts ?d)" and y: "y \<in> set (cd_attempts ?d)" and xy: "is_draft x \<and> is_draft y \<and> same_slot x y"
        obtain a b where a: "a \<in> set (cd_attempts d)" "x = ?h a" and b: "b \<in> set (cd_attempts d)" "y = ?h b" using x y by auto
        have "is_draft a" "is_draft b" using xy keep [of a] keep [of b] a(2) b(2) by metis+
        then show "x = y" using w(4) a b draft xy by (simp add: slots_ok_def)
      qed
      show "links_ok ?d"
        unfolding links_ok_def
      proof (intro ballI allI impI)
        fix x y j
        assume x: "x \<in> set (cd_attempts ?d)" and y: "y \<in> set (cd_attempts ?d)" and xy: "at_EvidenceID x = Some j \<and> at_EvidenceID y = Some j"
        obtain a b where a: "a \<in> set (cd_attempts d)" "x = ?h a" and b: "b \<in> set (cd_attempts d)" "y = ?h b" using x y by auto
        have "x = a" "y = b" using xy a(2) b(2) by (auto simp: expired_row_def split: if_splits)
        then show "x = y" using w(5) a(1) b(1) xy unfolding links_ok_def by blast
      qed
      show "roots_ok ?d"
        unfolding roots_ok_def
      proof
        fix j
        assume "j \<in> snd ` set (ed_draft_refs (cd_ev ?d))"
        then have "j \<in> at_ID ` {a \<in> set (cd_attempts d). is_draft a}" using w(6) rows by (auto simp: roots_ok_def)
        then obtain a where a: "a \<in> set (cd_attempts d)" "is_draft a" "j = at_ID a" by auto
        then have "a \<in> set (cd_attempts ?d)" using draft [OF a(1,2)] by force
        then show "j \<in> at_ID ` {a \<in> set (cd_attempts ?d). is_draft a}" using a by auto
      qed
      have "settled ?d i ref = settled d i ref" for i ref
        by (rule map_settled [of ?d ?h d]) (use keep in auto)
      then show "closed_settled ?d" using w(7) unfolding closed_settled_def by simp
    qed
    moreover have "evolution d ?d"
    proof (rule evolution_map [of _ ?h])
      fix a
      show "evolves a (?h a)" by (simp add: evolves_def)
    qed simp
    ultimately show ?thesis by (simp add: d)
  qed
qed

lemma campaign_step_keeps:
  assumes "campaign_step d d'" and wf: "campaign_wf d"
  shows "campaign_wf d' \<and> evolution d d'"
  using assms(1)
proof cases
  case (create_execution env req)
  then show ?thesis using run_step [OF wf, of "CreateExecution env req"] CreateExecution_wf [OF wf] CreateExecution_evolution by force
next
  case (create_attempt env i pkg ref owner data)
  then show ?thesis
    using run_step [OF wf, of "CreateAttempt env i pkg ref owner data"] CreateAttempt_wf [OF wf] CreateAttempt_evolution by force
next
  case (start env x i ref actor)
  then show ?thesis
    using run_step [OF wf, of "StartExecutionAttempt env x i ref actor"] StartExecutionAttempt_wf [OF wf]
      StartExecutionAttempt_evolution [OF wf] by force
next
  case (save env i owner revision operation data)
  then show ?thesis
    using run_step [OF wf, of "SaveAttempt env i owner revision operation data"] SaveAttempt_wf [OF wf] SaveAttempt_evolution [OF wf] by force
next
  case (finalize env i owner revision finished)
  then show ?thesis
    using run_step [OF wf, of "FinalizeAttempt env i owner revision finished"] FinalizeAttempt_wf [OF wf]
      FinalizeAttempt_evolution [OF wf] by force
next
  case (close_or_reopen env i revision closing actor)
  then show ?thesis using SetExecutionClosed_step [OF wf] by simp
next
  case (file_batch fails parse new_id now es)
  then show ?thesis using file_batch_wf [OF wf] by (simp add: evolution_same)
next
  case (expire fails ids)
  then show ?thesis using expire_wf [OF wf] by simp
qed

lemma campaign_steps_keep:
  "campaign_step\<^sup>*\<^sup>* d d' \<Longrightarrow> campaign_wf d \<Longrightarrow> campaign_wf d' \<and> evolution d d'"
proof (induction rule: rtranclp_induct)
  case base
  then show ?case by (simp add: evolution_same)
next
  case (step y z)
  then show ?case using campaign_step_keeps evolution_trans by blast
qed

section \<open>A small campaign\<close>

text \<open>One procedure with one check, imported; an execution of it; an attempt that is started, saved
  with the check passed, and finalized.\<close>

definition demo_campaign_env :: campaign_env where
  "demo_campaign_env = \<lparr>ce_fails = (\<lambda>_. False), ce_parse = demo_parse, ce_new_id = (\<lambda>n. 100 + n), ce_now = 1000, ce_clock = 1000,
     ce_blobs = None, ce_draft = \<lparr>de_time = (\<lambda>_. None), de_url = (\<lambda>_. None)\<rparr>, ce_uuid_text = (\<lambda>_. ''id''),
     ce_time_text = (\<lambda>_. ''now''), ce_number = id\<rparr>"

definition demo_scenario :: packaged_scenario where
  "demo_scenario = \<lparr>ps_Definition = \<lparr>sc_ID = ''s'', sc_Title = ''Door'', sc_ProcedureRef = ''door'', sc_Description = '''',
       sc_Parameters = [], sc_Defaults = \<lparr>df_EvidenceType = TypeManualTest, df_Tags = [], df_Metadata = []\<rparr>,
       sc_Assets = [], sc_Traceability = []\<rparr>,
     ps_Procedure = \<lparr>pr_SchemaVersion = 1, pr_Source = demo_procedure, pr_Blocks = demo_blocks\<rparr>, ps_Assets = []\<rparr>"

definition demo_package :: campaign_package where
  "demo_package = \<lparr>cp_ID = 1, cp_Digest = ''d'', cp_ArchiveSize = 10, cp_ImportedAt = 0, cp_ImportedBy = ''ann'',
     cp_Definition = \<lparr>pk_Digest = ''d'', pk_Manifest = \<lparr>mf_FormatVersion = 1, mf_Campaign = \<lparr>ci_ID = ''c'', ci_Name = ''C'',
         ci_PlannedLocation = '''', ci_PlannedStart = '''', ci_PlannedEnd = ''''\<rparr>, mf_SourceRepository = ''r'', mf_Product = None,
         mf_Scenarios = [\<lparr>sy_ProcedureRef = ''door'', sy_Path = ''door.yaml'', sy_ID = ''s''\<rparr>]\<rparr>,
       pk_Scenarios = [demo_scenario]\<rparr>\<rparr>"

definition demo_imported :: campaign_db where
  "demo_imported = \<lparr>cd_ev = no_evidence, cd_packages = [demo_package], cd_attempts = [], cd_executions = [], cd_events = []\<rparr>"

definition demo_execution :: campaign_execution where
  "demo_execution = \<lparr>ex_ID = 2, ex_PackageID = 1, ex_Name = ''night'', ex_Repo = ''r'', ex_Branch = ''main'', ex_RCSRef = ''abc'',
     ex_CreatedBy = ''ann'', ex_CreatedAt = 0, ex_UpdatedAt = 0, ex_Revision = 0, ex_ClosedAt = None, ex_ClosedBy = None,
     ex_Procedures = []\<rparr>"

definition demo_assessment :: draft_data where
  "demo_assessment = empty_draft\<lparr>dr_Repo := ''r'', dr_Branch := ''main'', dr_RCSRef := ''abc'', dr_Result := ''PASS'', dr_Source := ''ann'',
     dr_EvidenceType := '''', dr_Answers := Some [(''door'', JObj [(''outcome'', JStr ''PASS'')])]\<rparr>"

definition demo_open :: campaign_db where
  "demo_open = snd (run (CreateExecution demo_campaign_env demo_execution) demo_imported)"

definition demo_started :: campaign_db where
  "demo_started = snd (run (StartExecutionAttempt demo_campaign_env 2 3 ''door'' ''ann'') demo_open)"

definition demo_save :: "campaign_attempt campaign_action" where
  "demo_save = SaveAttempt demo_campaign_env 3 ''ann'' 1 9 demo_assessment"

definition demo_saved :: campaign_db where
  "demo_saved = snd (run demo_save demo_started)"

definition demo_final :: campaign_db where
  "demo_final = snd (run (FinalizeAttempt demo_campaign_env 3 ''ann'' 2 5000) demo_saved)"

lemma demo_imported_wf: "campaign_wf demo_imported"
  using no_evidence_wf by (simp add: campaign_wf_def wf_parts demo_imported_def no_evidence_def)

lemma demo_steps:
  "campaign_step\<^sup>*\<^sup>* demo_imported demo_started" "campaign_step\<^sup>*\<^sup>* demo_imported demo_saved" "campaign_step\<^sup>*\<^sup>* demo_started demo_saved"
proof -
  have open_step: "campaign_step demo_imported demo_open" unfolding demo_open_def by (rule create_execution)
  have start_step: "campaign_step demo_open demo_started" unfolding demo_started_def by (rule start)
  have save_step: "campaign_step demo_started demo_saved" unfolding demo_saved_def demo_save_def by (rule save)
  show "campaign_step\<^sup>*\<^sup>* demo_started demo_saved" using save_step by blast
  show started: "campaign_step\<^sup>*\<^sup>* demo_imported demo_started" using open_step start_step by (meson r_into_rtranclp rtranclp.rtrancl_into_rtrancl)
  show "campaign_step\<^sup>*\<^sup>* demo_imported demo_saved" using started save_step by (rule rtranclp.rtrancl_into_rtrancl)
qed

lemma demo_run:
  "map at_Revision (cd_attempts demo_started) = [1]" "map at_Revision (cd_attempts demo_saved) = [2]"
  by code_simp+

lemma demo_wf: "campaign_wf demo_started" "campaign_wf demo_saved" "campaign_wf demo_final"
proof -
  show "campaign_wf demo_started" and saved: "campaign_wf demo_saved"
    using campaign_steps_keep demo_steps demo_imported_wf by blast+
  show "campaign_wf demo_final"
    unfolding demo_final_def using campaign_step_keeps [OF campaign_step.finalize saved] by blast
qed

lemma tables_rows: "tables ev' = tables ev \<Longrightarrow> ed_rows ev' = ed_rows ev"
  by (cases ev; cases ev') (simp add: tables_def)

lemma becomes_fields:
  "becomes env a p s path finished actor None e \<Longrightarrow> ev_ProcedureRef e = at_ProcedureRef a \<and> ev_Result e = dr_Result (at_Data a)
     \<and> (ev_Repo e, ev_Branch e, ev_RCSRef e) = (dr_Repo (at_Data a), dr_Branch (at_Data a), dr_RCSRef (at_Data a))"
proof (unfold becomes_def, elim exE conjE)
  fix c
  assume c: "add_closure env None (attemptEvidence env (a\<lparr>at_FinalizedBy := Some actor\<rparr>) p s path finished) = Inr c"
    and e: "e = evidence_row (ev_ID e) (ce_now env) None (fst (annotateBlobRefs (ec_Metadata c))) c"
  have "c = attemptEvidence env (a\<lparr>at_FinalizedBy := Some actor\<rparr>) p s path finished" using c by (simp add: add_closure_def)
  then show ?thesis by (subst (1 2 3 4 5) e) (simp add: evidence_row_def attemptEvidence_def Let_def)
qed

section \<open>The guarantees\<close>

text \<open>
  C4. Whatever requests are made, in whatever order, whatever statements fail, and whatever evidence
  is filed or expires beside them, the campaign tables stay well-formed: every attempt belongs to an
  execution of its package on one of its procedures; a procedure of an execution has at most one
  open draft; a draft has no outcome, and a finalized attempt links at most one evidence record
  that exists and that no other attempt links; a saved draft holds on to every blob it mentions and
  only drafts do; and a closed execution has an attempt at each of its procedures and no open draft.
\<close>

theorem campaign_stays_wf:
  assumes "campaign_step\<^sup>*\<^sup>* d d'" "campaign_wf d"
  shows "campaign_wf d'"
  using campaign_steps_keep [OF assms] by simp

theorem campaign_stays_wf_witness: "campaign_wf demo_saved \<and> map at_Revision (cd_attempts demo_saved) = [2]"
  using campaign_stays_wf [OF demo_steps(2) demo_imported_wf] demo_run(2) by simp

text \<open>
  C8. An attempt is never lost and never changes hands: after any steps it is still there with the
  same package, procedure, owner, execution and time of creation and with no lower revision. Once
  finalized it is never changed again, except that the expiry of its evidence clears its answers and
  its link to the record.
\<close>

theorem attempts_are_kept:
  assumes "campaign_step\<^sup>*\<^sup>* d d'" "campaign_wf d" "a \<in> set (cd_attempts d)"
  shows "\<exists>b \<in> set (cd_attempts d'). at_ID b = at_ID a \<and> at_CampaignID b = at_CampaignID a
    \<and> at_ProcedureRef b = at_ProcedureRef a \<and> at_Owner b = at_Owner a \<and> at_ExecutionID b = at_ExecutionID a
    \<and> at_CreatedAt b = at_CreatedAt a \<and> at_Revision a \<le> at_Revision b
    \<and> (at_FinalizedAt a \<noteq> None \<longrightarrow> b = a
        \<or> b = a\<lparr>at_Data := empty_draft, at_last_operation_id := None, at_last_base_revision := None, at_EvidenceID := None\<rparr>)"
proof -
  have "evolution d d'" using campaign_steps_keep [OF assms(1,2)] by simp
  then obtain b where "b \<in> set (cd_attempts d')" "evolves a b" using assms(3) by (auto simp: evolution_def)
  then show ?thesis unfolding evolves_def is_draft_def expired_row_def by blast
qed

theorem attempts_are_kept_witness:
  "\<exists>a \<in> set (cd_attempts demo_started). \<exists>b \<in> set (cd_attempts demo_saved).
     at_ID b = at_ID a \<and> at_ProcedureRef b = at_ProcedureRef a \<and> at_Revision a = 1"
proof -
  obtain a where a: "a \<in> set (cd_attempts demo_started)" "at_Revision a = 1"
    using demo_run(1) by (auto simp: map_eq_Cons_conv)
  show ?thesis using attempts_are_kept [OF demo_steps(3) demo_wf(1) a(1)] a by blast
qed

lemma FinalizeAttempt_outcomes:
  assumes wf: "campaign_wf d" and "run (FinalizeAttempt env i owner revision finished) d = (res, d')"
  shows "\<And>e. res = Inl e \<Longrightarrow> ctables d' = ctables d"
    "\<And>r. res = Inr (r, False) \<Longrightarrow> r \<in> set (cd_attempts d) \<and> at_ID r = i \<and> at_FinalizedAt r \<noteq> None
      \<and> at_FinalizedRevision r = Some revision \<and> at_FinishedAt r = Some finished \<and> ctables d' = ctables d"
    "\<And>r. res = Inr (r, True) \<Longrightarrow> \<exists>a p s path e.
      visible_attempt i owner d = Some a \<and> at_FinalizedAt a = None \<and> at_Revision a = revision
      \<and> package_by_id (at_CampaignID a) d = Some p \<and> finalScenario p (at_ProcedureRef a) = Inr (s, path)
      \<and> ValidateDraft (ce_draft env) (ps_Procedure s) (at_Data a) = None \<and> assessment_ok (ps_Procedure s) (at_Data a)
      \<and> becomes env a p s path finished owner None e \<and> ev_ProcedureRef e = at_ProcedureRef a \<and> ev_Result e = dr_Result (at_Data a)
      \<and> (ev_Repo e, ev_Branch e, ev_RCSRef e) = (dr_Repo (at_Data a), dr_Branch (at_Data a), dr_RCSRef (at_Data a))
      \<and> ed_rows (cd_ev d') = ed_rows (cd_ev d) @ [e] \<and> r = finalized_row env finished (ev_ID e) owner a
      \<and> cd_attempts d' = map (\<lambda>y. if at_ID y = i then r else y) (cd_attempts d)"
proof -
  show "ctables d' = ctables d" if "res = Inl e" for e
    using assms(2) that run_failed by blast
  have ok: "FinalizeAttempt env i owner revision finished d = Inr ((r, created), d')" if "res = Inr (r, created)" for r created
    using assms(2) that by (auto simp: run_def split: sum.splits)
  show "r \<in> set (cd_attempts d) \<and> at_ID r = i \<and> at_FinalizedAt r \<noteq> None
      \<and> at_FinalizedRevision r = Some revision \<and> at_FinishedAt r = Some finished \<and> ctables d' = ctables d"
    if "res = Inr (r, False)" for r
    using ok [OF that] by (cases rule: FinalizeAttempt_cases) (auto dest: visible_attempt_Some simp: is_draft_def)
  fix r
  assume "res = Inr (r, True)"
  from ok [OF this] show "\<exists>a p s path e.
      visible_attempt i owner d = Some a \<and> at_FinalizedAt a = None \<and> at_Revision a = revision
      \<and> package_by_id (at_CampaignID a) d = Some p \<and> finalScenario p (at_ProcedureRef a) = Inr (s, path)
      \<and> ValidateDraft (ce_draft env) (ps_Procedure s) (at_Data a) = None \<and> assessment_ok (ps_Procedure s) (at_Data a)
      \<and> becomes env a p s path finished owner None e \<and> ev_ProcedureRef e = at_ProcedureRef a \<and> ev_Result e = dr_Result (at_Data a)
      \<and> (ev_Repo e, ev_Branch e, ev_RCSRef e) = (dr_Repo (at_Data a), dr_Branch (at_Data a), dr_RCSRef (at_Data a))
      \<and> ed_rows (cd_ev d') = ed_rows (cd_ev d) @ [e] \<and> r = finalized_row env finished (ev_ID e) owner a
      \<and> cd_attempts d' = map (\<lambda>y. if at_ID y = i then r else y) (cd_attempts d)"
  proof (cases rule: FinalizeAttempt_cases)
    case (finalized a p s path d1 d2 d3)
    note same = ctables_attempts [OF finalized(8)]
    have wf1: "campaign_wf d1" using wf campaign_wf_ctables finalized(8) by blast
    have a: "a \<in> set (cd_attempts d1)" "at_ID a = i" using visible_attempt_Some [OF finalized(2)] same by auto
    obtain e where e: "becomes env a p s path finished owner None e" "ed_rows (cd_ev d2) = ed_rows (cd_ev d1) @ [e]"
      "r = finalized_row env finished (ev_ID e) owner a" "campaign_wf d2"
      "cd_attempts d2 = map (\<lambda>y. if at_ID y = at_ID a then finalized_row env finished (ev_ID e) owner y else y) (cd_attempts d1)"
      by (rule finalizeAttemptTx_effect [OF wf1 a(1) refl finalized(3) finalized(9)])
    have only: "y = a" if "y \<in> set (cd_attempts d1)" "at_ID y = i" for y
      using attempt_by_id_Some [OF campaign_wfD(2) [OF wf1], of i] that a by (metis option.inject)
    have "cd_attempts d2 = map (\<lambda>y. if at_ID y = i then r else y) (cd_attempts d1)"
      unfolding e(5) a(2) using only e(3) by (intro map_cong) auto
    moreover note touch_wf(2,4) [OF e(4) finalized(10)]
    moreover have "ed_rows (cd_ev d3) = ed_rows (cd_ev d2)" "ed_rows (cd_ev d1) = ed_rows (cd_ev d)"
      using touch_wf(4) [OF e(4) finalized(10)] same(5) tables_rows by metis+
    moreover have "ValidateDraft (ce_draft env) (ps_Procedure s) (at_Data a) = None \<and> assessment_ok (ps_Procedure s) (at_Data a)"
      using finalized(7) finalization_ok_iff by blast
    moreover have "ev_ProcedureRef e = at_ProcedureRef a \<and> ev_Result e = dr_Result (at_Data a)
      \<and> (ev_Repo e, ev_Branch e, ev_RCSRef e) = (dr_Repo (at_Data a), dr_Branch (at_Data a), dr_RCSRef (at_Data a))"
      by (rule becomes_fields [OF e(1)])
    ultimately show ?thesis
      using finalized(2-6,11) e(1-3) same(1) by (intro exI [of _ a] exI [of _ p] exI [of _ s] exI [of _ path] exI [of _ e]) (simp add: is_draft_def)
  qed simp
qed

text \<open>
  C5. Finalizing an attempt that succeeds either files exactly one evidence record, from a draft at
  the revision the caller saw whose assessment is valid for its procedure, and links it: the record
  carries the draft's product context and result under the attempt's procedure, and no other attempt
  changes. Or it repeats an earlier finalization from the same revision and time, answers with that
  attempt and changes nothing. Finalizing that fails changes nothing.
\<close>

theorem FinalizeAttempt_files_one_record:
  assumes "campaign_wf d" and "run (FinalizeAttempt env i owner revision finished) d = (res, d')"
  shows "case res of
      Inl e \<Rightarrow> ctables d' = ctables d
    | Inr (r, False) \<Rightarrow> r \<in> set (cd_attempts d) \<and> at_ID r = i \<and> at_FinalizedAt r \<noteq> None
        \<and> at_FinalizedRevision r = Some revision \<and> at_FinishedAt r = Some finished \<and> ctables d' = ctables d
    | Inr (r, True) \<Rightarrow> \<exists>a p s path e.
        visible_attempt i owner d = Some a \<and> at_FinalizedAt a = None \<and> at_Revision a = revision
        \<and> package_by_id (at_CampaignID a) d = Some p \<and> finalScenario p (at_ProcedureRef a) = Inr (s, path)
        \<and> ValidateDraft (ce_draft env) (ps_Procedure s) (at_Data a) = None \<and> assessment_ok (ps_Procedure s) (at_Data a)
        \<and> becomes env a p s path finished owner None e \<and> ev_ProcedureRef e = at_ProcedureRef a \<and> ev_Result e = dr_Result (at_Data a)
        \<and> (ev_Repo e, ev_Branch e, ev_RCSRef e) = (dr_Repo (at_Data a), dr_Branch (at_Data a), dr_RCSRef (at_Data a))
        \<and> ed_rows (cd_ev d') = ed_rows (cd_ev d) @ [e] \<and> r = finalized_row env finished (ev_ID e) owner a
        \<and> cd_attempts d' = map (\<lambda>y. if at_ID y = i then r else y) (cd_attempts d)"
  using FinalizeAttempt_outcomes [OF assms] by (auto split: sum.splits bool.splits)


theorem FinalizeAttempt_files_one_record_witness:
  "\<exists>r e d'. run (FinalizeAttempt demo_campaign_env 3 ''ann'' 2 5000) demo_saved = (Inr (r, True), d')
     \<and> ed_rows (cd_ev d') = ed_rows (cd_ev demo_saved) @ [e] \<and> ev_Result e = ''PASS'' \<and> at_EvidenceID r = Some (ev_ID e)"
proof -
  let ?run = "run (FinalizeAttempt demo_campaign_env 3 ''ann'' 2 5000) demo_saved"
  have "(case fst ?run of Inl _ \<Rightarrow> False | Inr (_, created) \<Rightarrow> created)" by code_simp
  then obtain r d' where run: "?run = (Inr (r, True), d')" by (cases ?run) (auto split: sum.splits)
  have res: "map_option (\<lambda>a. dr_Result (at_Data a)) (visible_attempt 3 ''ann'' demo_saved) = Some ''PASS''" by code_simp
  from FinalizeAttempt_files_one_record [OF demo_wf(2) run] res run
  show ?thesis by (auto simp: finalized_row_def)
qed

section \<open>Saving and closing\<close>

lemma SaveAttempt_guards:
  assumes "SaveAttempt env i owner revision operation data d = Inr (r, d')"
  shows "draft_storable data"
    "\<exists>a. attempt_by_id i d = Some a \<and> (\<forall>e. at_ExecutionID a = Some e \<longrightarrow> (\<exists>x. execution_by_id e d = Some x \<and> ex_ClosedAt x = None))"
proof -
  obtain x d1 where lock: "lockAttemptExecution env i (ctick d) = Inr (x, d1)"
    and open_ex: "case x of None \<Rightarrow> True | Some e \<Rightarrow> ex_ClosedAt e = None" and data: "draft_storable data"
    using assms unfolding SaveAttempt_def SaveAttempt_tx_def bindM_returns transaction_returns query_row_returns
      query_returns exec_returns checkM_returns id_apply
    apply clarify
    subgoal by (rule that) (assumption | rule refl)+
    done
  show "draft_storable data" by (rule data)
  show "\<exists>a. attempt_by_id i d = Some a \<and> (\<forall>e. at_ExecutionID a = Some e \<longrightarrow> (\<exists>x. execution_by_id e d = Some x \<and> ex_ClosedAt x = None))"
    using lock_effect(2) [OF lock] open_ex by (auto simp: attempt_by_id_def execution_by_id_def)
qed

lemma find_key_map:
  "(\<And>x. k (g x) = k x) \<Longrightarrow> find (\<lambda>x. k x = e) (map g xs) = map_option g (find (\<lambda>x. k x = e) xs)"
  by (induction xs) auto

lemma touchExecution_keeps:
  assumes "touchExecution env t d = Inr (u, d')"
  shows "cd_attempts d' = cd_attempts d"
    "find (\<lambda>x. ex_ID x = e) (cd_executions d) = Some x \<Longrightarrow> ex_ClosedAt x = None \<Longrightarrow>
      \<exists>y. find (\<lambda>x. ex_ID x = e) (cd_executions d') = Some y \<and> ex_ClosedAt y = None"
  using assms by (cases t; auto simp: touchExecution_def returns_iff find_key_map)+

lemma visible_attempt_iff:
  "keys_ok d \<Longrightarrow> visible_attempt i owner d = Some a \<longleftrightarrow>
     a \<in> set (cd_attempts d) \<and> at_ID a = i \<and> (at_Owner a = owner \<or> at_ExecutionID a \<noteq> None)"
proof
  assume keys: "keys_ok d" and a: "a \<in> set (cd_attempts d) \<and> at_ID a = i \<and> (at_Owner a = owner \<or> at_ExecutionID a \<noteq> None)"
  then have "visible_attempt i owner d \<noteq> None" by (auto simp: visible_attempt_def find_None_iff)
  then obtain b where b: "visible_attempt i owner d = Some b" by blast
  have "b = a" using visible_attempt_Some [OF b] a attempt_by_id_Some [OF keys, of i] by (metis option.inject)
  then show "visible_attempt i owner d = Some a" using b by simp
qed (rule visible_attempt_Some)

lemma SaveAttempt_repeats:
  assumes "\<And>n. \<not> ce_fails env n" "attempt_by_id i d = Some a" "visible_attempt i owner d = Some a" "is_draft a"
    and "\<And>e. at_ExecutionID a = Some e \<Longrightarrow> \<exists>x. execution_by_id e d = Some x \<and> ex_ClosedAt x = None"
    and "draft_storable data" "at_last_operation_id a = Some operation" "at_last_base_revision a = Some revision" "at_Data a = stored_draft data"
  shows "\<exists>d'. run (SaveAttempt env i owner revision operation data) d = (Inr a, d') \<and> ctables d' = ctables d"
proof -
  have tick: "attempt_by_id i (ctick x) = attempt_by_id i x" "visible_attempt i owner (ctick x) = visible_attempt i owner x"
    "execution_by_id e (ctick x) = execution_by_id e x" for x e
    by (simp_all add: attempt_by_id_def visible_attempt_def execution_by_id_def)
  show ?thesis
    using assms by (cases "at_ExecutionID a")
      (auto simp: run_def SaveAttempt_def SaveAttempt_tx_def transaction_def lockAttemptExecution_def bindM_def query_row_def query_def exec_def
        checkM_def liftM_def returnM_def failM_def or_error_def is_draft_def tick)
qed

lemma SaveAttempt_outcomes:
  assumes wf: "campaign_wf d" and save: "SaveAttempt env i owner revision operation data d = Inr (r, d')"
  shows "(\<And>n. \<not> ce_fails env' n) \<Longrightarrow>
      \<exists>d''. run (SaveAttempt env' i owner revision operation data) d' = (Inr r, d'') \<and> ctables d'' = ctables d'"
    "at_Data r = stored_draft data \<and> visible_attempt i owner d' = Some r"
    "ctables d' \<noteq> ctables d \<Longrightarrow> at_Revision r = revision + 1"
    "ctables d' \<noteq> ctables d \<Longrightarrow> operation' \<noteq> operation \<Longrightarrow> SaveAttempt env' i owner' revision operation' data' d' \<noteq> Inr x"
proof -
  have wf': "campaign_wf d'" by (rule SaveAttempt_wf [OF wf save])
  note keys' = campaign_wfD(2) [OF wf']
  note guards = SaveAttempt_guards [OF save]
  have row: "visible_attempt i owner d' = Some r \<and> is_draft r \<and> at_last_operation_id r = Some operation
      \<and> at_last_base_revision r = Some revision \<and> at_Data r = stored_draft data \<and> (ctables d' = ctables d \<or> at_Revision r = revision + 1)
      \<and> (\<forall>e. at_ExecutionID r = Some e \<longrightarrow> (\<exists>x. execution_by_id e d' = Some x \<and> ex_ClosedAt x = None))"
    using save
  proof (cases rule: SaveAttempt_cases)
    case repeated
    have "attempt_by_id i d = Some r"
      using visible_attempt_Some [OF repeated(1)] attempt_by_id_Some [OF campaign_wfD(2) [OF wf]] by blast
    then show ?thesis
      using repeated guards(2) ctables_attempts [OF repeated(6)] by (auto simp: visible_attempt_def execution_by_id_def)
  next
    case (saved a d1 d2 d3)
    let ?f = "saved_row env owner revision operation data"
    note a = visible_attempt_Some [OF saved(1)]
    have at: "cd_attempts d' = map (\<lambda>x. if at_ID x = i then ?f x else x) (cd_attempts d)"
      using touchExecution_keeps(1) [OF saved(7)] saved(8) replaceDraftBlobRefs_effect(2) [OF saved(6)]
        ctables_attempts(1) [OF saved(5)] by simp
    have "r \<in> set (cd_attempts d')" using a saved(9) unfolding at by force
    then have "visible_attempt i owner d' = Some r"
      using a saved(9) visible_attempt_iff [OF keys'] by simp
    moreover have "\<exists>x. execution_by_id e d' = Some x \<and> ex_ClosedAt x = None" if exec_r: "at_ExecutionID r = Some e" for e
    proof -
      have "attempt_by_id i d = Some a" using a attempt_by_id_Some [OF campaign_wfD(2) [OF wf]] by blast
      then obtain x where "execution_by_id e d = Some x" "ex_ClosedAt x = None" using guards(2) exec_r saved(9) by auto
      then show ?thesis
        using touchExecution_keeps(2) [OF saved(7)] saved(8) replaceDraftBlobRefs_effect(3) [OF saved(6)]
          ctables_attempts(3) [OF saved(5)] by (simp add: execution_by_id_def)
    qed
    ultimately show ?thesis using saved by (auto simp: saved_row_def is_draft_def)
  qed
  then show "at_Data r = stored_draft data \<and> visible_attempt i owner d' = Some r"
    "ctables d' \<noteq> ctables d \<Longrightarrow> at_Revision r = revision + 1" by auto
  have "attempt_by_id i d' = Some r" using row visible_attempt_Some attempt_by_id_Some [OF keys'] by blast
  then show "\<exists>d''. run (SaveAttempt env' i owner revision operation data) d' = (Inr r, d'') \<and> ctables d'' = ctables d'"
    if "\<And>n. \<not> ce_fails env' n"
    using row guards(1) that by (intro SaveAttempt_repeats) auto
  assume new: "ctables d' \<noteq> ctables d" "operation' \<noteq> operation"
  show "SaveAttempt env' i owner' revision operation' data' d' \<noteq> Inr x"
  proof
    assume "SaveAttempt env' i owner' revision operation' data' d' = Inr x"
    then obtain r2 d2 where again: "SaveAttempt env' i owner' revision operation' data' d' = Inr (r2, d2)" by (cases x) auto
    have same: "b = r" if "visible_attempt i owner' d' = Some b" for b
      using that row visible_attempt_Some attempt_by_id_Some [OF keys', of i] by (metis option.inject)
    from again show False
      by (cases rule: SaveAttempt_cases) (use row new same in auto)
  qed
qed

text \<open>
  C7. Saving is optimistic and safe to repeat. A save that succeeds and is sent again answers with
  the same row and changes nothing. A save that made a new revision keeps what was sent, and no save
  under another operation that was made from the same revision is accepted after it: nothing is
  overwritten unseen.
\<close>

theorem SaveAttempt_repeatable:
  assumes "campaign_wf d" and "SaveAttempt env i owner revision operation data d = Inr (r, d')"
  shows "((\<forall>n. \<not> ce_fails env' n) \<longrightarrow>
      (\<exists>d''. run (SaveAttempt env' i owner revision operation data) d' = (Inr r, d'') \<and> ctables d'' = ctables d'))
    \<and> at_Data r = stored_draft data \<and> visible_attempt i owner d' = Some r
    \<and> (ctables d' = ctables d \<or> at_Revision r = revision + 1
        \<and> (\<forall>env' owner' operation' data' x. operation' \<noteq> operation \<longrightarrow>
              SaveAttempt env' i owner' revision operation' data' d' \<noteq> Inr x))"
  using SaveAttempt_outcomes(1-3) [OF assms] SaveAttempt_outcomes(4) [OF assms] by blast


theorem SaveAttempt_repeatable_witness:
  "\<exists>r d' d''. demo_save demo_started = Inr (r, d') \<and> at_Revision r = 2
     \<and> run demo_save d' = (Inr r, d'') \<and> ctables d'' = ctables d'
     \<and> (\<forall>x. SaveAttempt demo_campaign_env 3 ''bob'' 1 10 empty_draft d' \<noteq> Inr x)"
proof -
  have "(case demo_save demo_started of Inl _ \<Rightarrow> False | Inr (r, d') \<Rightarrow> at_Revision r = 2 \<and> map at_Revision (cd_attempts d') = [2])"
    by code_simp
  then obtain r d' where save: "demo_save demo_started = Inr (r, d')" and two: "at_Revision r = 2" "map at_Revision (cd_attempts d') = [2]"
    by (auto split: sum.splits)
  have new: "ctables d' \<noteq> ctables demo_started"
    using ctables_attempts(1) [of d' demo_started] two(2) demo_run(1) by auto
  note save' = save [unfolded demo_save_def]
  have up: "\<not> ce_fails demo_campaign_env n" for n by (simp add: demo_campaign_env_def)
  show ?thesis
    using SaveAttempt_repeatable [OF demo_wf(1) save', of demo_campaign_env] up new save two(1) by (auto simp: demo_save_def)
qed

lemma SetExecutionClosed_refusals:
  assumes "SetExecutionClosed env i revision closing actor d = (Inl err, d')" "err \<noteq> Storage" "err \<noteq> ErrNoRows"
  shows "ctables d' = ctables d"
proof (cases "run (transaction env (SetExecutionClosed_tx env i revision closing actor)) d")
  case (Pair res d1)
  show ?thesis
  proof (cases res)
    case (Inl e)
    then show ?thesis using assms(1) Pair run_failed by (auto simp: SetExecutionClosed_def)
  next
    case (Inr u)
    then have "fst (run (GetExecution env i) d1) = Inl err" using assms(1) Pair by (simp add: SetExecutionClosed_def)
    then have "err = Storage \<or> err = ErrNoRows"
      by (auto simp: run_def GetExecution_def transaction_def bindM_def exec_def query_row_def query_def executionProgress_def
          liftM_def or_error_def returnM_def failM_def split: sum.splits if_splits option.splits prod.splits)
    then show ?thesis using assms(2,3) by simp
  qed
qed

lemma SetExecutionClosed_outcomes:
  assumes wf: "campaign_wf d" and run: "SetExecutionClosed env i revision closing actor d = (res, d')"
  shows "\<And>err. res = Inl err \<Longrightarrow> err \<noteq> Storage \<Longrightarrow> err \<noteq> ErrNoRows \<Longrightarrow> ctables d' = ctables d"
    "\<And>e. res = Inr e \<Longrightarrow> ex_ID e = i \<and> ex_Revision e = revision + 1 \<and> (ex_ClosedAt e \<noteq> None) = closing
      \<and> (\<exists>x \<in> set (cd_executions d). ex_ID x = i \<and> ex_Revision x = revision \<and> (ex_ClosedAt x \<noteq> None) = (\<not> closing))"
    "\<And>e p ref. res = Inr e \<Longrightarrow> closing \<Longrightarrow> p \<in> set (cd_packages d') \<Longrightarrow> cp_ID p = ex_PackageID e \<Longrightarrow>
      ref \<in> set (scenario_refs (cp_Definition p)) \<Longrightarrow>
      (\<exists>a \<in> set (cd_attempts d'). at_ExecutionID a = Some i \<and> at_ProcedureRef a = ref)
      \<and> (\<forall>a \<in> set (cd_attempts d'). at_ExecutionID a = Some i \<and> at_ProcedureRef a = ref \<longrightarrow> at_FinalizedAt a \<noteq> None)"
    "\<And>e. res = Inr e \<Longrightarrow> \<not> closing \<Longrightarrow> cd_attempts d' = cd_attempts d"
    "\<And>e. res = Inr e \<Longrightarrow> campaign_wf d' \<and> filter (\<lambda>x. ex_ID x \<noteq> i) (cd_executions d') = filter (\<lambda>x. ex_ID x \<noteq> i) (cd_executions d)"
proof -
  show "ctables d' = ctables d" if "res = Inl err" "err \<noteq> Storage" "err \<noteq> ErrNoRows" for err
    using SetExecutionClosed_refusals run that by blast
  have effect: "\<exists>x y. x \<in> set (cd_executions d) \<and> ex_ID x = i \<and> ex_Revision x = revision \<and> (ex_ClosedAt x \<noteq> None) \<noteq> closing
      \<and> y = closed_row env closing actor x \<and> y \<in> set (cd_executions d') \<and> (\<exists>ps. e = y\<lparr>ex_Procedures := ps\<rparr>)
      \<and> campaign_wf d' \<and> (\<not> closing \<longrightarrow> cd_attempts d' = cd_attempts d)
      \<and> cd_executions d' = map (\<lambda>x. if ex_ID x = i then closed_row env closing actor x else x) (cd_executions d)"
    if res: "res = Inr e" for e
  proof -
    obtain u d1 where tx: "transaction env (SetExecutionClosed_tx env i revision closing actor) d = Inr (u, d1)"
      and read: "run (GetExecution env i) d1 = (Inr e, d')"
      using run res by (auto simp: SetExecutionClosed_def run_def split: sum.splits prod.splits)
    obtain d0 where tx': "SetExecutionClosed_tx env i revision closing actor (ctick d) = Inr (u, d0)" "d1 = ctick d0"
      using tx by (auto simp: transaction_returns)
    have wf0: "campaign_wf (ctick d)" using wf by simp
    obtain x where x: "execution_by_id i (ctick d) = Some x" "ex_Revision x = revision" "(ex_ClosedAt x \<noteq> None) \<noteq> closing" "campaign_wf d0"
      "cd_executions d0 = map (\<lambda>x. if ex_ID x = i then closed_row env closing actor x else x) (cd_executions (ctick d))"
      "\<not> closing \<Longrightarrow> cd_attempts d0 = cd_attempts (ctick d)"
      by (rule SetExecutionClosed_tx_effect [OF wf0 tx'(1)]) (rule that)
    have tabs: "ctables d' = ctables d0" using GetExecution_reads [OF read] tx'(2) by simp
    have xm: "x \<in> set (cd_executions d)" "ex_ID x = i"
      using x(1) execution_by_id_Some [OF campaign_wfD(2) [OF wf0]] by auto
    have ym: "closed_row env closing actor x \<in> set (cd_executions d0)" using xm x(5) by force
    obtain z ps where z: "execution_by_id i d0 = Some z" "e = z\<lparr>ex_Procedures := ps\<rparr>"
      using read tx'(2) by (auto simp: run_def GetExecution_def returns_iff executionProgress_def execution_by_id_def split: sum.splits)
    have "z = closed_row env closing actor x"
      using z(1) ym xm(2) execution_by_id_Some [OF campaign_wfD(2) [OF x(4)], of i "closed_row env closing actor x"]
      by (simp add: closed_row_def del: if_split)
    then show ?thesis
      using x xm ym z(2) ctables_attempts [OF tabs] campaign_wf_ctables [OF tabs] by auto
  qed
  show "ex_ID e = i \<and> ex_Revision e = revision + 1 \<and> (ex_ClosedAt e \<noteq> None) = closing
      \<and> (\<exists>x \<in> set (cd_executions d). ex_ID x = i \<and> ex_Revision x = revision \<and> (ex_ClosedAt x \<noteq> None) = (\<not> closing))"
    if "res = Inr e" for e
    using effect [OF that] by (auto simp: closed_row_def)
  show "cd_attempts d' = cd_attempts d" if "res = Inr e" "\<not> closing" for e
    using effect [OF that(1)] that(2) by blast
  show "(\<exists>a \<in> set (cd_attempts d'). at_ExecutionID a = Some i \<and> at_ProcedureRef a = ref)
      \<and> (\<forall>a \<in> set (cd_attempts d'). at_ExecutionID a = Some i \<and> at_ProcedureRef a = ref \<longrightarrow> at_FinalizedAt a \<noteq> None)"
    if c: "res = Inr e" "closing" "p \<in> set (cd_packages d')" "cp_ID p = ex_PackageID e" "ref \<in> set (scenario_refs (cp_Definition p))" for e p ref
  proof -
    obtain x y ps where y: "y \<in> set (cd_executions d')" "e = y\<lparr>ex_Procedures := ps\<rparr>" "y = closed_row env closing actor x"
      and "ex_ID x = i" "campaign_wf d'"
      using effect [OF c(1)] by blast
    moreover have "ex_ClosedAt y \<noteq> None" "ex_ID y = ex_ID x" "ex_PackageID e = ex_PackageID y" using y c(2) by (simp_all add: closed_row_def)
    ultimately have "settled d' i ref"
      using campaign_wfD(7) [of d'] c(3-5) unfolding closed_settled_def by auto
    then show ?thesis by (simp add: settled_def is_draft_def)
  qed
  show "campaign_wf d' \<and> filter (\<lambda>x. ex_ID x \<noteq> i) (cd_executions d') = filter (\<lambda>x. ex_ID x \<noteq> i) (cd_executions d)"
    if "res = Inr e" for e
  proof -
    have "filter (\<lambda>x. ex_ID x \<noteq> i) (map (\<lambda>x. if ex_ID x = i then closed_row env closing actor x else x) xs)
        = filter (\<lambda>x. ex_ID x \<noteq> i) xs" for xs
      by (induction xs) (auto simp: closed_row_def)
    then show ?thesis using effect [OF that] by auto
  qed
qed




end
