(* ===== verification/Scim_Store.thy ===== *)
theory Scim_Store
  imports Principal_API "HOL-Library.Product_Lexorder"
begin

text \<open>
  The provisioning view of the identity tables: \<^verbatim>\<open>internal/store/scim.go\<close> and
  \<^verbatim>\<open>internal/store/scimgroup.go\<close>, with \<^verbatim>\<open>RolesForGroups\<close> of \<^verbatim>\<open>internal/auth/oidc.go\<close>. A directory
  creates people, or adopts those who logged in first, deactivates them, and keeps groups whose
  membership implies roles. Each operation is one transaction over the tables of
  \<^verbatim>\<open>Identity_Store\<close>; generated identifiers and clocks are arguments.
\<close>

section \<open>Users\<close>

record scim_user =
  su_ID :: uuid
  su_SCIMID :: string
  su_ExternalID :: string
  su_UserName :: string
  su_Subject :: string
  su_DisplayName :: string
  su_Active :: bool
  su_CreatedAt :: instant
  su_UpdatedAt :: instant

record scim_user_write =
  sw_UserName :: string
  sw_ExternalID :: string
  sw_Subject :: string
  sw_DisplayName :: string
  sw_Active :: bool

datatype scim_store_error =
    ScimDB db_error
  | ErrUserNameTaken string
  | ErrNotProvisionable string
  | ErrGroupNameTaken string

type_synonym 'a scim_outcome = "(scim_store_error + 'a) \<times> db"

text \<open>A statement fails when the database is down and when one of its texts has a NUL character.\<close>

definition stmt_error :: "db \<Rightarrow> string list \<Rightarrow> db_error option" where
  "stmt_error d args =
     (if \<not> db_up d then Some DBDown
      else if list_ex (\<lambda>s. List.member s (CHR 0x00)) args then Some (CheckViolation ''invalid byte sequence'')
      else None)"

definition coalesce :: "string option \<Rightarrow> string" where
  "coalesce v = (case v of None \<Rightarrow> '''' | Some s \<Rightarrow> s)"

definition nullif_empty :: "string \<Rightarrow> string option" where
  "nullif_empty s = (if s = '''' then None else Some s)"

definition scanSCIMUser :: "principal_row \<Rightarrow> scim_user" where
  "scanSCIMUser p = \<lparr>su_ID = pw_id p, su_SCIMID = coalesce (pw_scim_id p), su_ExternalID = coalesce (pw_scim_external_id p),
     su_UserName = coalesce (pw_user_name p), su_Subject = pw_subject p, su_DisplayName = pw_display_name p,
     su_Active = (pw_disabled_at p = None), su_CreatedAt = pw_created_at p, su_UpdatedAt = pw_updated_at p\<rparr>"

definition disabledAt :: "instant \<Rightarrow> bool \<Rightarrow> instant option" where
  "disabledAt clock active = (if active then None else Some clock)"

definition FindUser :: "db \<Rightarrow> string \<Rightarrow> scim_store_error + scim_user option" where
  "FindUser d scimID = (case stmt_error d [scimID] of
      Some e \<Rightarrow> Inl (ScimDB e)
    | None \<Rightarrow> Inr (map_option scanSCIMUser (find (\<lambda>p. pw_scim_id p = Some scimID) (db_principals d))))"

definition adopted :: "string \<Rightarrow> instant \<Rightarrow> instant \<Rightarrow> scim_user_write \<Rightarrow> principal_row \<Rightarrow> principal_row" where
  "adopted scimID clock now w p = p\<lparr>pw_scim_id := Some scimID, pw_scim_external_id := nullif_empty (sw_ExternalID w),
     pw_user_name := Some (sw_UserName w), pw_display_name := sw_DisplayName w,
     pw_disabled_at := disabledAt clock (sw_Active w), pw_updated_at := now\<rparr>"

definition answers_to :: "scim_user_write \<Rightarrow> principal_row \<Rightarrow> bool" where
  "answers_to w p \<longleftrightarrow> pw_subject p = sw_Subject w \<or> pw_user_name p = Some (sw_UserName w)"

text \<open>The unique indexes on \<^verbatim>\<open>scim_id\<close> and \<^verbatim>\<open>user_name\<close>, against the rows other than the one written.\<close>

definition scim_names_taken :: "string option \<Rightarrow> string \<Rightarrow> principal_row list \<Rightarrow> bool" where
  "scim_names_taken scimID userName rows \<longleftrightarrow>
     list_ex (\<lambda>q. pw_user_name q = Some userName \<or> scimID \<noteq> None \<and> pw_scim_id q = scimID) rows"

definition CreateUser ::
  "uuid \<Rightarrow> string \<Rightarrow> instant \<Rightarrow> instant \<Rightarrow> scim_user_write \<Rightarrow> db \<Rightarrow> scim_user option scim_outcome" where
  "CreateUser new_id scimID clock now w d =
     (case stmt_error d [sw_Subject w, sw_UserName w] of
        Some e \<Rightarrow> (Inl (ScimDB e), d)
      | None \<Rightarrow>
          (case find (answers_to w) (db_principals d) of
             Some p \<Rightarrow>
               if pw_scim_id p \<noteq> None then (Inl (ErrUserNameTaken (sw_UserName w)), d)
               else if pw_kind p \<noteq> PrincipalKindUser then (Inl (ErrNotProvisionable (sw_Subject w)), d)
               else
                 (case stmt_error d [sw_ExternalID w, sw_DisplayName w] of
                    Some e \<Rightarrow> (Inl (ScimDB e), d)
                  | None \<Rightarrow>
                      if scim_names_taken (Some scimID) (sw_UserName w) (filter (\<lambda>q. pw_id q \<noteq> pw_id p) (db_principals d))
                      then (Inl (ScimDB (UniqueViolation ''idx_principals_user_name'')), d)
                      else let d' = d\<lparr>db_principals :=
                             update_where (\<lambda>q. pw_id q = pw_id p) (adopted scimID clock now w) (db_principals d)\<rparr>
                        in (FindUser d' scimID, d'))
           | None \<Rightarrow>
               (case stmt_error d [sw_ExternalID w, sw_DisplayName w] of
                  Some e \<Rightarrow> (Inl (ScimDB e), d)
                | None \<Rightarrow>
                    if new_id \<in> set (principal_ids d) \<or> scim_names_taken (Some scimID) (sw_UserName w) (db_principals d)
                    then (Inl (ErrUserNameTaken (sw_UserName w)), d)
                    else let row = adopted scimID clock now w (new_row new_id now (sw_Subject w) PrincipalKindUser (sw_DisplayName w));
                             d' = d\<lparr>db_principals := db_principals d @ [row]\<rparr>
                      in (FindUser d' scimID, d'))))"

record scim_user_filter =
  sf_UserName :: string
  sf_ExternalID :: string
  sf_StartIndex :: int
  sf_Count :: int

definition scim_page :: "int \<Rightarrow> int \<Rightarrow> 'a list \<Rightarrow> 'a list" where
  "scim_page startIndex n xs = take (nat n) (drop (nat (startIndex - 1)) xs)"

definition ListUsers :: "scim_user_filter \<Rightarrow> db \<Rightarrow> scim_store_error + scim_user list \<times> nat" where
  "ListUsers f d =
     (case stmt_error d [sf_UserName f, sf_ExternalID f] of
        Some e \<Rightarrow> Inl (ScimDB e)
      | None \<Rightarrow>
          let rows = filter (\<lambda>p. pw_scim_id p \<noteq> None
                 \<and> (sf_UserName f \<noteq> '''' \<longrightarrow> pw_user_name p = Some (sf_UserName f))
                 \<and> (sf_ExternalID f \<noteq> '''' \<longrightarrow> pw_scim_external_id p = Some (sf_ExternalID f))) (db_principals d)
          in if sf_Count f < 0 \<or> sf_StartIndex f < 1 then Inl (ScimDB (CheckViolation ''LIMIT must not be negative''))
             else Inr (map scanSCIMUser (scim_page (sf_StartIndex f) (sf_Count f) (sort_key (\<lambda>p. (pw_created_at p, pw_id p)) rows)),
                       length rows))"

definition replaced :: "instant \<Rightarrow> instant \<Rightarrow> scim_user_write \<Rightarrow> principal_row \<Rightarrow> principal_row" where
  "replaced clock now w p = p\<lparr>pw_user_name := Some (sw_UserName w), pw_scim_external_id := nullif_empty (sw_ExternalID w),
     pw_display_name := sw_DisplayName w, pw_disabled_at := disabledAt clock (sw_Active w), pw_updated_at := now\<rparr>"

definition ReplaceUser :: "instant \<Rightarrow> instant \<Rightarrow> string \<Rightarrow> scim_user_write \<Rightarrow> db \<Rightarrow> scim_user option scim_outcome" where
  "ReplaceUser clock now scimID w d =
     (case stmt_error d [sw_UserName w, sw_ExternalID w, sw_DisplayName w, scimID] of
        Some e \<Rightarrow> (Inl (ScimDB e), d)
      | None \<Rightarrow>
          if \<not> list_ex (\<lambda>p. pw_scim_id p = Some scimID) (db_principals d) then (Inr None, d)
          else if scim_names_taken None (sw_UserName w) (filter (\<lambda>q. pw_scim_id q \<noteq> Some scimID) (db_principals d))
          then (Inl (ErrUserNameTaken (sw_UserName w)), d)
          else let d' = d\<lparr>db_principals := update_where (\<lambda>p. pw_scim_id p = Some scimID) (replaced clock now w) (db_principals d)\<rparr>
            in (FindUser d' scimID, d'))"

definition SetActive :: "instant \<Rightarrow> instant \<Rightarrow> string \<Rightarrow> bool \<Rightarrow> db \<Rightarrow> scim_user option scim_outcome" where
  "SetActive clock now scimID active d =
     (case stmt_error d [scimID] of
        Some e \<Rightarrow> (Inl (ScimDB e), d)
      | None \<Rightarrow>
          (case find (\<lambda>p. pw_scim_id p = Some scimID) (db_principals d) of
             None \<Rightarrow> (Inr None, d)
           | Some p \<Rightarrow>
               let d1 = d\<lparr>db_principals := update_where (\<lambda>q. pw_scim_id q = Some scimID)
                      (\<lambda>q. q\<lparr>pw_disabled_at := disabledAt clock active, pw_updated_at := now\<rparr>) (db_principals d)\<rparr>;
                   d2 = (if active then d1
                         else d1\<lparr>db_sessions := delete_where (\<lambda>s. sr_principal_id s = pw_id p) (db_sessions d1)\<rparr>)
               in (FindUser d2 scimID, d2)))"

text \<open>The count joins principals with their bindings, and \<^verbatim>\<open>IS DISTINCT FROM\<close> holds of a missing id.\<close>

definition SCIM_CountOtherEnabledAdmins :: "db \<Rightarrow> string \<Rightarrow> scim_store_error + nat" where
  "SCIM_CountOtherEnabledAdmins d scimID = (case stmt_error d [scimID] of
      Some e \<Rightarrow> Inl (ScimDB e)
    | None \<Rightarrow> Inr (length (filter (\<lambda>(p, b). rb_principal b = pw_id p \<and> rb_scope b = ScopeStoreWide \<and> rb_role b = ''admin''
          \<and> pw_disabled_at p = None \<and> pw_scim_id p \<noteq> Some scimID) (List.product (db_principals d) (db_bindings d)))))"

definition HasAdminRole :: "db \<Rightarrow> uuid \<Rightarrow> scim_store_error + bool" where
  "HasAdminRole d i = (case stmt_error d [] of
      Some e \<Rightarrow> Inl (ScimDB e)
    | None \<Rightarrow> Inr (list_ex (\<lambda>b. rb_principal b = i \<and> rb_scope b = ScopeStoreWide \<and> rb_role b = ''admin'') (db_bindings d)))"

section \<open>Groups\<close>

text \<open>The role map as the configuration gives it; \<^verbatim>\<open>sort.Strings\<close> over a set of names.\<close>

definition RolesForGroups :: "(string, string) alist \<Rightarrow> string list \<Rightarrow> string list" where
  "RolesForGroups roleMap groups =
     sort (remdups (filter (\<lambda>name. ParseRole name \<noteq> None) (List.map_filter (map_of roleMap) groups)))"

record scim_group_member =
  gm_SCIMID :: string
  gm_Display :: string

record scim_group =
  sg_ID :: uuid
  sg_SCIMID :: string
  sg_ExternalID :: string
  sg_DisplayName :: string
  sg_Members :: "scim_group_member list"
  sg_CreatedAt :: instant
  sg_UpdatedAt :: instant

record scim_group_write =
  gw_DisplayName :: string
  gw_ExternalID :: string
  gw_Members :: "string list"

type_synonym roles_for = "string list \<Rightarrow> string list"

definition membersOf :: "db \<Rightarrow> uuid \<Rightarrow> scim_group_member list" where
  "membersOf d g =
     map (\<lambda>p. \<lparr>gm_SCIMID = coalesce (pw_scim_id p),
                gm_Display = (case pw_user_name p of Some u \<Rightarrow> u | None \<Rightarrow> pw_subject p)\<rparr>)
       (sort_key pw_subject (filter (\<lambda>p. List.member (db_members d) (g, pw_id p) \<and> pw_scim_id p \<noteq> None) (db_principals d)))"

definition scanSCIMGroup :: "db \<Rightarrow> group_row \<Rightarrow> scim_group" where
  "scanSCIMGroup d g = \<lparr>sg_ID = gr_id g, sg_SCIMID = gr_scim_id g, sg_ExternalID = coalesce (gr_external_id g),
     sg_DisplayName = gr_display_name g, sg_Members = membersOf d (gr_id g), sg_CreatedAt = gr_created_at g,
     sg_UpdatedAt = gr_updated_at g\<rparr>"

definition FindGroup :: "db \<Rightarrow> string \<Rightarrow> scim_store_error + scim_group option" where
  "FindGroup d scimID = (case stmt_error d [scimID] of
      Some e \<Rightarrow> Inl (ScimDB e)
    | None \<Rightarrow> Inr (map_option (scanSCIMGroup d) (find (\<lambda>g. gr_scim_id g = scimID) (db_groups d))))"

record scim_group_filter =
  gf_DisplayName :: string
  gf_StartIndex :: int
  gf_Count :: int

definition ListGroups :: "scim_group_filter \<Rightarrow> db \<Rightarrow> scim_store_error + scim_group list \<times> nat" where
  "ListGroups f d =
     (case stmt_error d [gf_DisplayName f] of
        Some e \<Rightarrow> Inl (ScimDB e)
      | None \<Rightarrow>
          let rows = filter (\<lambda>g. gf_DisplayName f \<noteq> '''' \<longrightarrow> gr_display_name g = gf_DisplayName f) (db_groups d)
          in if gf_Count f < 0 \<or> gf_StartIndex f < 1 then Inl (ScimDB (CheckViolation ''LIMIT must not be negative''))
             else Inr (map (scanSCIMGroup d) (scim_page (gf_StartIndex f) (gf_Count f) (sort_key (\<lambda>g. (gr_created_at g, gr_id g)) rows)),
                       length rows))"

definition principalIDsOfSCIMIDs :: "db \<Rightarrow> string list \<Rightarrow> uuid list" where
  "principalIDsOfSCIMIDs d scimIDs =
     map pw_id (filter (\<lambda>p. case pw_scim_id p of None \<Rightarrow> False | Some s \<Rightarrow> List.member scimIDs s) (db_principals d))"

definition memberIDs :: "db \<Rightarrow> uuid \<Rightarrow> uuid list" where
  "memberIDs d g = map snd (filter (\<lambda>m. fst m = g) (db_members d))"

definition groupNamesOf :: "db \<Rightarrow> uuid \<Rightarrow> string list" where
  "groupNamesOf d i =
     concat (map (\<lambda>(g, _). map gr_display_name (filter (\<lambda>r. gr_id r = g) (db_groups d)))
       (filter (\<lambda>m. snd m = i) (db_members d)))"

definition add_member :: "uuid \<Rightarrow> uuid \<Rightarrow> (uuid \<times> uuid) list \<Rightarrow> (uuid \<times> uuid) list" where
  "add_member g i ms = (if List.member ms (g, i) then ms else ms @ [(g, i)])"

text \<open>The statement takes the ids only when there are any.\<close>

definition setMembers :: "uuid \<Rightarrow> string list \<Rightarrow> db \<Rightarrow> db_error + uuid list \<times> db" where
  "setMembers g scimIDs d =
     (case stmt_error d scimIDs of
        Some e \<Rightarrow> if scimIDs = [] then Inr ([], d) else Inl e
      | None \<Rightarrow>
          let ids = principalIDsOfSCIMIDs d scimIDs
          in Inr (ids, d\<lparr>db_members := fold (add_member g) ids (db_members d)\<rparr>))"

fun reconcileSCIMRoles :: "roles_for \<Rightarrow> uuid list \<Rightarrow> db \<Rightarrow> db_error + db" where
  "reconcileSCIMRoles rolesFor [] d = Inr d"
| "reconcileSCIMRoles rolesFor (i # is) d =
     (case reconcile (principal_ids d) GrantSourceSCIM i (rolesFor (groupNamesOf d i)) (db_bindings d) of
        Inl e \<Rightarrow> Inl e
      | Inr bs \<Rightarrow> reconcileSCIMRoles rolesFor is (d\<lparr>db_bindings := bs\<rparr>))"

fun union_from :: "uuid list \<Rightarrow> uuid list \<Rightarrow> uuid list" where
  "union_from seen [] = []"
| "union_from seen (i # is) = (if List.member seen i then union_from seen is else i # union_from (i # seen) is)"

definition union :: "uuid list \<Rightarrow> uuid list \<Rightarrow> uuid list" where
  "union a b = union_from [] (a @ b)"

text \<open>What a transaction does once its rows are written: recompute the roles of everybody affected
  and answer, or roll everything back.\<close>

definition commit_roles ::
  "roles_for \<Rightarrow> uuid list \<Rightarrow> db \<Rightarrow> (db \<Rightarrow> scim_store_error + 'a) \<Rightarrow> db \<Rightarrow> 'a scim_outcome" where
  "commit_roles rolesFor affected d' answer d =
     (case reconcileSCIMRoles rolesFor affected d' of
        Inl e \<Rightarrow> (Inl (ScimDB e), d)
      | Inr d'' \<Rightarrow> (answer d'', d''))"

definition CreateGroup ::
  "uuid \<Rightarrow> string \<Rightarrow> instant \<Rightarrow> scim_group_write \<Rightarrow> roles_for \<Rightarrow> db \<Rightarrow> scim_group option scim_outcome" where
  "CreateGroup new_id scimID now w rolesFor d =
     (case stmt_error d [gw_ExternalID w, gw_DisplayName w] of
        Some e \<Rightarrow> (Inl (ScimDB e), d)
      | None \<Rightarrow>
          if list_ex (\<lambda>g. gr_id g = new_id \<or> gr_scim_id g = scimID \<or> gr_display_name g = gw_DisplayName w) (db_groups d)
          then (Inl (ErrGroupNameTaken (gw_DisplayName w)), d)
          else let row = \<lparr>gr_id = new_id, gr_scim_id = scimID, gr_external_id = nullif_empty (gw_ExternalID w),
                          gr_display_name = gw_DisplayName w, gr_created_at = now, gr_updated_at = now\<rparr>;
                   d1 = d\<lparr>db_groups := db_groups d @ [row]\<rparr>
            in (case setMembers new_id (gw_Members w) d1 of
                  Inl e \<Rightarrow> (Inl (ScimDB e), d)
                | Inr (affected, d2) \<Rightarrow> commit_roles rolesFor affected d2 (\<lambda>d'. FindGroup d' scimID) d))"

definition rename_group :: "(group_row \<Rightarrow> bool) \<Rightarrow> (group_row \<Rightarrow> group_row) \<Rightarrow> db \<Rightarrow> db" where
  "rename_group P f d = d\<lparr>db_groups := update_where P f (db_groups d)\<rparr>"

definition ReplaceGroup ::
  "instant \<Rightarrow> string \<Rightarrow> scim_group_write \<Rightarrow> roles_for \<Rightarrow> db \<Rightarrow> scim_group option scim_outcome" where
  "ReplaceGroup now scimID w rolesFor d =
     (case stmt_error d [gw_DisplayName w, gw_ExternalID w, scimID] of
        Some e \<Rightarrow> (Inl (ScimDB e), d)
      | None \<Rightarrow>
          (case find (\<lambda>g. gr_scim_id g = scimID) (db_groups d) of
             None \<Rightarrow> (Inr None, d)
           | Some g \<Rightarrow>
               if list_ex (\<lambda>h. gr_scim_id h \<noteq> scimID \<and> gr_display_name h = gw_DisplayName w) (db_groups d)
               then (Inl (ErrGroupNameTaken (gw_DisplayName w)), d)
               else let d1 = rename_group (\<lambda>h. gr_scim_id h = scimID)
                          (\<lambda>h. h\<lparr>gr_display_name := gw_DisplayName w, gr_external_id := nullif_empty (gw_ExternalID w),
                                 gr_updated_at := now\<rparr>) d;
                        before = memberIDs d1 (gr_id g);
                        d2 = d1\<lparr>db_members := delete_where (\<lambda>m. fst m = gr_id g) (db_members d1)\<rparr>
                 in (case setMembers (gr_id g) (gw_Members w) d2 of
                       Inl e \<Rightarrow> (Inl (ScimDB e), d)
                     | Inr (after, d3) \<Rightarrow> commit_roles rolesFor (union before after) d3 (\<lambda>d'. FindGroup d' scimID) d)))"

definition PatchGroupMembers ::
  "instant \<Rightarrow> string \<Rightarrow> string list \<Rightarrow> string list \<Rightarrow> string \<Rightarrow> roles_for \<Rightarrow> db \<Rightarrow> scim_group option scim_outcome" where
  "PatchGroupMembers now scimID add remove displayName rolesFor d =
     (case stmt_error d [scimID] of
        Some e \<Rightarrow> (Inl (ScimDB e), d)
      | None \<Rightarrow>
          (case find (\<lambda>g. gr_scim_id g = scimID) (db_groups d) of
             None \<Rightarrow> (Inr None, d)
           | Some g \<Rightarrow>
               if displayName \<noteq> '''' \<and> stmt_error d [displayName] \<noteq> None
               then (Inl (ScimDB (the (stmt_error d [displayName]))), d)
               else if displayName \<noteq> '''' \<and> list_ex (\<lambda>h. gr_id h \<noteq> gr_id g \<and> gr_display_name h = displayName) (db_groups d)
               then (Inl (ErrGroupNameTaken displayName), d)
               else let d1 = (if displayName = '''' then d
                              else rename_group (\<lambda>h. gr_id h = gr_id g)
                                     (\<lambda>h. h\<lparr>gr_display_name := displayName, gr_updated_at := now\<rparr>) d)
                 in (case setMembers (gr_id g) add d1 of
                       Inl e \<Rightarrow> (Inl (ScimDB e), d)
                     | Inr (affected, d2) \<Rightarrow>
                         (case (if remove = [] then None else stmt_error d2 remove) of
                            Some e \<Rightarrow> (Inl (ScimDB e), d)
                          | None \<Rightarrow>
                              let removed = principalIDsOfSCIMIDs d2 remove;
                                  d3 = d2\<lparr>db_members := delete_where (\<lambda>m. fst m = gr_id g \<and> List.member removed (snd m)) (db_members d2)\<rparr>
                              in commit_roles rolesFor (union (union affected removed) (memberIDs d3 (gr_id g))) d3
                                   (\<lambda>d'. FindGroup d' scimID) d))))"

definition DeleteGroup :: "string \<Rightarrow> roles_for \<Rightarrow> db \<Rightarrow> bool scim_outcome" where
  "DeleteGroup scimID rolesFor d =
     (case stmt_error d [scimID] of
        Some e \<Rightarrow> (Inl (ScimDB e), d)
      | None \<Rightarrow>
          (case find (\<lambda>g. gr_scim_id g = scimID) (db_groups d) of
             None \<Rightarrow> (Inr False, d)
           | Some g \<Rightarrow>
               let members = memberIDs d (gr_id g);
                   d1 = d\<lparr>db_groups := delete_where (\<lambda>h. gr_id h = gr_id g) (db_groups d),
                          db_members := delete_where (\<lambda>m. fst m = gr_id g) (db_members d)\<rparr>
               in commit_roles rolesFor members d1 (\<lambda>_. Inr True) d))"

end
