(* ===== verification/Scim_Laws.thy ===== *)
theory Scim_Laws
  imports Scim_Store
begin

text \<open>
  What the provisioning operations keep: well-formed tables, and directory-granted roles in step
  with group membership. The function from groups to roles is an interface: the laws hold for any
  that depends on the set of groups and yields only roles the store defines, and the configured
  role map is one.
\<close>

section \<open>Well-formed tables\<close>

definition groups_wf :: "db \<Rightarrow> bool" where
  "groups_wf d \<longleftrightarrow> distinct (map gr_id (db_groups d)) \<and> distinct (map gr_scim_id (db_groups d))
     \<and> distinct (map gr_display_name (db_groups d)) \<and> distinct (db_members d)
     \<and> (\<forall>(g, i) \<in> set (db_members d). g \<in> gr_id ` set (db_groups d) \<and> i \<in> set (principal_ids d))"

definition names_wf :: "principal_row list \<Rightarrow> bool" where
  "names_wf ps \<longleftrightarrow> unique_col pw_scim_id ps \<and> unique_col pw_user_name ps"

definition scim_wf :: "db \<Rightarrow> bool" where
  "scim_wf d \<longleftrightarrow> db_wf d \<and> names_wf (db_principals d) \<and> groups_wf d"

lemma set_groupNamesOf:
  "set (groupNamesOf d i) = gr_display_name ` {g \<in> set (db_groups d). (gr_id g, i) \<in> set (db_members d)}"
  by (force simp: groupNamesOf_def)

lemma set_memberIDs: "set (memberIDs d g) = {i. (g, i) \<in> set (db_members d)}"
  by (force simp: memberIDs_def)

lemma set_principalIDsOfSCIMIDs:
  "set (principalIDsOfSCIMIDs d ids) = pw_id ` {p \<in> set (db_principals d). \<exists>s \<in> set ids. pw_scim_id p = Some s}"
  by (auto simp: principalIDsOfSCIMIDs_def split: option.splits)

lemma set_add_members: "set (fold (add_member g) ids ms) = set ms \<union> {g} \<times> set ids"
  by (induction ids arbitrary: ms) (auto simp: add_member_def)

lemma distinct_add_members: "distinct ms \<Longrightarrow> distinct (fold (add_member g) ids ms)"
  by (induction ids arbitrary: ms) (auto simp: add_member_def)

lemma set_union: "set (union a b) = set a \<union> set b"
proof -
  have "set (union_from seen xs) = set xs - set seen" for seen xs
    by (induction xs arbitrary: seen) auto
  then show ?thesis by (simp add: union_def)
qed

lemma setMembers_effect:
  assumes "setMembers g scimIDs d = Inr (ids, d')"
  shows "ids = principalIDsOfSCIMIDs d scimIDs" "d' = d\<lparr>db_members := fold (add_member g) ids (db_members d)\<rparr>"
  using assms by (auto simp: setMembers_def Let_def principalIDsOfSCIMIDs_def filter_empty_conv split: option.splits if_splits)

section \<open>Roles and groups in step\<close>

definition directory_roles :: "db \<Rightarrow> uuid \<Rightarrow> string set" where
  "directory_roles d i = {rb_role b |b. b \<in> set (db_bindings d) \<and> rb_principal b = i \<and> rb_scope b = ScopeStoreWide
     \<and> rb_source b = GrantSourceSCIM}"

definition implied_roles :: "roles_for \<Rightarrow> db \<Rightarrow> uuid \<Rightarrow> string set" where
  "implied_roles rolesFor d i = set (rolesFor (groupNamesOf d i))"

text \<open>Nobody holds a role from the directory that the groups do not imply, and everybody holds every
  role the groups imply.\<close>

definition in_step :: "roles_for \<Rightarrow> db \<Rightarrow> bool" where
  "in_step rolesFor d \<longleftrightarrow> (\<forall>i. directory_roles d i \<subseteq> implied_roles rolesFor d i
     \<and> implied_roles rolesFor d i \<subseteq> set (roles_of d i))"

lemma roles_of_filter:
  "roles_of d i = sort (map rb_role (filter (\<lambda>b. rb_principal b = i \<and> rb_scope b = ScopeStoreWide) (db_bindings d)))"
  by (simp add: roles_of_def)

lemma directory_roles_filter:
  "directory_roles d i = rb_role ` set (filter (\<lambda>b. rb_principal b = i \<and> (rb_scope b = ScopeStoreWide \<and> rb_source b = GrantSourceSCIM)) (db_bindings d))"
  by (auto simp: directory_roles_def)

lemma same_grants:
  assumes "db_bindings d' = db_bindings d"
  shows "roles_of d' i = roles_of d i" "directory_roles d' i = directory_roles d i"
  using assms by (simp_all add: roles_of_def directory_roles_def)

lemma reconcile_one:
  assumes "reconcile ids GrantSourceSCIM i roles (db_bindings d) = Inr bs"
  shows "directory_roles (d\<lparr>db_bindings := bs\<rparr>) i \<subseteq> set roles" "set roles \<subseteq> set (roles_of (d\<lparr>db_bindings := bs\<rparr>) i)"
    "j \<noteq> i \<Longrightarrow> directory_roles (d\<lparr>db_bindings := bs\<rparr>) j = directory_roles d j"
    "j \<noteq> i \<Longrightarrow> roles_of (d\<lparr>db_bindings := bs\<rparr>) j = roles_of d j"
proof -
  show "set roles \<subseteq> set (roles_of (d\<lparr>db_bindings := bs\<rparr>) i)"
    using reconcile_roles [OF assms] by (auto simp: set_roles_of)
  show "directory_roles (d\<lparr>db_bindings := bs\<rparr>) i \<subseteq> set roles"
  proof
    fix role
    assume "role \<in> directory_roles (d\<lparr>db_bindings := bs\<rparr>) i"
    then obtain b where "b \<in> set bs" "rb_principal b = i" "rb_scope b = ScopeStoreWide" "rb_source b = GrantSourceSCIM" "role = rb_role b"
      by (auto simp: directory_roles_def)
    moreover have "b \<in> set (delete_where (\<lambda>b. rb_principal b = i \<and> rb_scope b = ScopeStoreWide \<and> rb_source b = GrantSourceSCIM
        \<and> rb_role b \<notin> set roles) (db_bindings d)) \<union> binding i GrantSourceSCIM None ` set roles"
      using grant_all_keeps [OF assms [unfolded reconcile_def]] calculation(1) by blast
    moreover have "rb_role b \<in> set roles" if "b \<in> binding i GrantSourceSCIM None ` set roles"
      using that by auto
    ultimately show "role \<in> set roles" by auto
  qed
  assume "j \<noteq> i"
  then show "directory_roles (d\<lparr>db_bindings := bs\<rparr>) j = directory_roles d j"
    "roles_of (d\<lparr>db_bindings := bs\<rparr>) j = roles_of d j"
    unfolding directory_roles_filter roles_of_filter using reconcile_others [OF assms] by simp_all
qed

lemma reconcileSCIMRoles_effect:
  assumes "reconcileSCIMRoles rolesFor ids d = Inr d'" "bindings_wf (principal_ids d) (db_bindings d)"
  shows "(\<exists>bs. d' = d\<lparr>db_bindings := bs\<rparr>) \<and> bindings_wf (principal_ids d) (db_bindings d')
    \<and> (\<forall>i \<in> set ids. directory_roles d' i \<subseteq> implied_roles rolesFor d i \<and> implied_roles rolesFor d i \<subseteq> set (roles_of d' i))
    \<and> (\<forall>i. i \<notin> set ids \<longrightarrow> directory_roles d' i = directory_roles d i \<and> roles_of d' i = roles_of d i)"
  using assms
proof (induction ids arbitrary: d)
  case Nil
  have "\<exists>bs. d = d\<lparr>db_bindings := bs\<rparr>" by (rule exI [of _ "db_bindings d"]) simp
  then show ?case using Nil by simp
next
  case (Cons i ids)
  let ?roles = "rolesFor (groupNamesOf d i)"
  obtain bs where bs: "reconcile (principal_ids d) GrantSourceSCIM i ?roles (db_bindings d) = Inr bs"
    and rest: "reconcileSCIMRoles rolesFor ids (d\<lparr>db_bindings := bs\<rparr>) = Inr d'"
    using Cons.prems(1) by (auto split: sum.splits)
  let ?d = "d\<lparr>db_bindings := bs\<rparr>"
  have wf: "bindings_wf (principal_ids ?d) (db_bindings ?d)" using reconcile_wf [OF Cons.prems(2) bs] by simp
  have same: "implied_roles rolesFor ?d j = implied_roles rolesFor d j" for j
    by (simp add: implied_roles_def groupNamesOf_def)
  note one = reconcile_one [OF bs]
  note ih = Cons.IH [OF rest wf]
  have i: "directory_roles d' i \<subseteq> implied_roles rolesFor d i \<and> implied_roles rolesFor d i \<subseteq> set (roles_of d' i)"
  proof (cases "i \<in> set ids")
    case True
    then show ?thesis using ih same by metis
  next
    case False
    then have "directory_roles d' i = directory_roles ?d i" "roles_of d' i = roles_of ?d i" using ih by blast+
    then show ?thesis using one(1,2) by (simp add: implied_roles_def)
  qed
  have "\<exists>bs. d' = d\<lparr>db_bindings := bs\<rparr>" using ih by auto
  moreover have "bindings_wf (principal_ids d) (db_bindings d')" using ih by simp
  moreover have "directory_roles d' j = directory_roles d j \<and> roles_of d' j = roles_of d j" if "j \<notin> set (i # ids)" for j
    using ih one(3,4) [of j] that by auto
  moreover have "\<forall>j \<in> set (i # ids). directory_roles d' j \<subseteq> implied_roles rolesFor d j \<and> implied_roles rolesFor d j \<subseteq> set (roles_of d' j)"
    using i ih same by simp
  ultimately show ?case by blast
qed

text \<open>The interface: what the store relies on of the function from groups to roles.\<close>

locale group_roles =
  fixes rolesFor :: roles_for
  assumes set_based: "set gs = set gs' \<Longrightarrow> rolesFor gs = rolesFor gs'"
    and defined: "set (rolesFor gs) \<subseteq> set role_check"
    and no_groups: "rolesFor [] = []"
begin

lemma implied_none: "(\<And>g. (g, i) \<notin> set (db_members d)) \<Longrightarrow> implied_roles rolesFor d i = {}"
proof -
  assume "\<And>g. (g, i) \<notin> set (db_members d)"
  then have "set (groupNamesOf d i) = {}" by (auto simp: set_groupNamesOf)
  then show ?thesis using no_groups by (simp add: implied_roles_def)
qed

lemma commit_roles_in_step:
  assumes run: "commit_roles rolesFor affected d1 answer d = (res, d')"
    and wf: "bindings_wf (principal_ids d) (db_bindings d)" and same: "principal_ids d1 = principal_ids d" "db_bindings d1 = db_bindings d"
    and inv: "in_step rolesFor d" and others: "\<And>i. i \<notin> set affected \<Longrightarrow> set (groupNamesOf d1 i) = set (groupNamesOf d i)"
  shows "(d' = d \<and> (\<exists>e. res = Inl (ScimDB e))
      \<or> (\<exists>bs. d' = d1\<lparr>db_bindings := bs\<rparr>) \<and> bindings_wf (principal_ids d) (db_bindings d') \<and> res = answer d')
    \<and> in_step rolesFor d'"
proof (cases "reconcileSCIMRoles rolesFor affected d1")
  case (Inl e)
  then show ?thesis using run inv by (auto simp: commit_roles_def)
next
  case (Inr d2)
  have d': "d' = d2" "res = answer d'" using run Inr by (auto simp: commit_roles_def)
  have wf1: "bindings_wf (principal_ids d1) (db_bindings d1)" using wf same by simp
  note e = reconcileSCIMRoles_effect [OF Inr wf1]
  have "\<exists>bs. d' = d1\<lparr>db_bindings := bs\<rparr>" using e d' by blast
  then have names: "groupNamesOf d' i = groupNamesOf d1 i" for i by (auto simp: groupNamesOf_def)
  have "directory_roles d' i \<subseteq> implied_roles rolesFor d' i \<and> implied_roles rolesFor d' i \<subseteq> set (roles_of d' i)" for i
  proof (cases "i \<in> set affected")
    case True
    then show ?thesis using e d' names by (simp add: implied_roles_def)
  next
    case False
    then have "implied_roles rolesFor d' i = implied_roles rolesFor d i"
      using set_based [OF others [OF False]] names by (simp add: implied_roles_def)
    moreover have "directory_roles d' i = directory_roles d i" "roles_of d' i = roles_of d i"
      using e d' False same_grants [OF same(2)] by simp_all
    ultimately show ?thesis using inv by (simp add: in_step_def)
  qed
  then show ?thesis using e d' same by (simp add: in_step_def)
qed

end

text \<open>The configured role map.\<close>

lemma set_RolesForGroups:
  "set (RolesForGroups m gs) = {r. (\<exists>g \<in> set gs. map_of m g = Some r) \<and> ParseRole r \<noteq> None}"
  by (auto simp: RolesForGroups_def map_filter_def image_iff)

interpretation configured: group_roles "RolesForGroups m" for m
proof
  fix gs gs' :: "string list"
  assume same: "set gs = set gs'"
  have "set (List.map_filter (map_of m) gs) = set (List.map_filter (map_of m) gs')"
    using same by (simp add: map_filter_def)
  then have "set (filter (\<lambda>name. ParseRole name \<noteq> None) (List.map_filter (map_of m) gs))
      = set (filter (\<lambda>name. ParseRole name \<noteq> None) (List.map_filter (map_of m) gs'))" by simp
  then show "RolesForGroups m gs = RolesForGroups m gs'"
    unfolding RolesForGroups_def by (metis sorted_list_of_set_sort_remdups)
next
  fix gs :: "string list"
  show "set (RolesForGroups m gs) \<subseteq> set role_check"
    using ParseRole_None_iff RoleNames_check by (auto simp: set_RolesForGroups)
  show "RolesForGroups m [] = []" by (simp add: RolesForGroups_def)
qed

section \<open>The group operations\<close>

lemma scim_wf_groups:
  assumes "scim_wf d" "db_principals d' = db_principals d" "db_sessions d' = db_sessions d"
    "bindings_wf (principal_ids d) (db_bindings d')" "groups_wf d'"
  shows "scim_wf d'"
  using assms by (simp add: scim_wf_def db_wf_def)

lemma groups_wf_bindings [simp]: "groups_wf (d\<lparr>db_bindings := bs\<rparr>) = groups_wf d"
  by (simp add: groups_wf_def)

lemma groups_wf_members:
  assumes "groups_wf d" "g \<in> gr_id ` set (db_groups d)" "set ids \<subseteq> set (principal_ids d)"
  shows "groups_wf (d\<lparr>db_members := fold (add_member g) ids (db_members d)\<rparr>)"
  using assms distinct_add_members [of "db_members d" g ids] unfolding groups_wf_def by (auto simp: set_add_members)

lemma groups_wf_drop:
  "groups_wf d \<Longrightarrow> groups_wf (d\<lparr>db_members := delete_where P (db_members d)\<rparr>)"
  unfolding groups_wf_def using distinct_delete_where [of id "db_members d" P] by auto

lemma ids_of_principals: "set (principalIDsOfSCIMIDs d xs) \<subseteq> set (principal_ids d)"
  by (auto simp: set_principalIDsOfSCIMIDs)

lemma find_unique_key: "distinct (map k xs) \<Longrightarrow> find (\<lambda>x. k x = v) xs = Some x \<Longrightarrow> y \<in> set xs \<Longrightarrow> k y = v \<Longrightarrow> y = x"
  by (auto dest!: find_SomeD simp: distinct_map inj_on_def)

lemma distinct_map_change:
  "distinct (map k xs) \<Longrightarrow> (\<And>h. h \<in> set xs \<Longrightarrow> h \<noteq> g \<Longrightarrow> k h \<noteq> k y) \<Longrightarrow>
   distinct (map k (map (\<lambda>h. if h = g then y else h) xs))"
proof (induction xs)
  case (Cons x xs)
  have "k (if x = g then y else x) \<notin> k ` (\<lambda>h. if h = g then y else h) ` set xs"
  proof
    assume "k (if x = g then y else x) \<in> k ` (\<lambda>h. if h = g then y else h) ` set xs"
    then obtain h where h: "h \<in> set xs" "k (if x = g then y else x) = k (if h = g then y else h)" by auto
    have "x \<noteq> h" using Cons.prems(1) h(1) by auto
    moreover have "k x \<notin> k ` set xs" using Cons.prems(1) by simp
    ultimately show False using h Cons.prems(2) [of h] Cons.prems(2) [of x] by (auto split: if_splits)
  qed
  then show ?case using Cons by auto
qed simp

lemma rename_group_wf:
  assumes "groups_wf d" and g: "g \<in> set (db_groups d)" and only: "\<And>h. h \<in> set (db_groups d) \<Longrightarrow> P h \<longleftrightarrow> h = g"
    and f: "gr_id (f g) = gr_id g" "gr_scim_id (f g) = gr_scim_id g"
    and fresh: "\<And>h. h \<in> set (db_groups d) \<Longrightarrow> h \<noteq> g \<Longrightarrow> gr_display_name h \<noteq> gr_display_name (f g)"
  shows "groups_wf (rename_group P f d)"
proof -
  have upd: "update_where P f (db_groups d) = map (\<lambda>h. if h = g then f g else h) (db_groups d)"
    using only unfolding update_where_def by (intro map_cong) auto
  note wf = assms(1) [unfolded groups_wf_def]
  have other: "k h \<noteq> k g" if "distinct (map k (db_groups d))" "h \<in> set (db_groups d)" "h \<noteq> g" for k :: "group_row \<Rightarrow> 'k" and h
    using that g by (auto simp: distinct_map inj_on_def)
  have "distinct (map gr_id (update_where P f (db_groups d)))" unfolding upd
    by (rule distinct_map_change) (use wf other [of gr_id] f in auto)
  moreover have "distinct (map gr_scim_id (update_where P f (db_groups d)))" unfolding upd
    by (rule distinct_map_change) (use wf other [of gr_scim_id] f in auto)
  moreover have "distinct (map gr_display_name (update_where P f (db_groups d)))" unfolding upd
    by (rule distinct_map_change) (use wf fresh in auto)
  moreover have "gr_id ` set (update_where P f (db_groups d)) = gr_id ` set (db_groups d)"
    unfolding upd set_map image_image using f by (intro image_cong) auto
  ultimately show ?thesis using wf by (simp add: groups_wf_def rename_group_def)
qed

lemma names_unaffected:
  assumes only: "\<And>h. h \<in> set (db_groups d) \<Longrightarrow> P h \<longleftrightarrow> h = g" and f: "gr_id (f g) = gr_id g"
    and out: "(gr_id g, i) \<notin> set (db_members d)" "(gr_id g, i) \<notin> set ms"
    and same: "\<And>h. h \<noteq> gr_id g \<Longrightarrow> (h, i) \<in> set ms \<longleftrightarrow> (h, i) \<in> set (db_members d)"
  shows "set (groupNamesOf ((rename_group P f d)\<lparr>db_members := ms\<rparr>) i) = set (groupNamesOf d i)"
proof -
  have upd: "set (update_where P f (db_groups d)) = (\<lambda>h. if h = g then f g else h) ` set (db_groups d)"
    unfolding set_update_where using only by (intro image_cong) auto
  have "{h \<in> set (update_where P f (db_groups d)). (gr_id h, i) \<in> set ms} = {h \<in> set (db_groups d). (gr_id h, i) \<in> set (db_members d)}"
    (is "?L = ?R")
  proof
    show "?L \<subseteq> ?R"
    proof
      fix x
      assume "x \<in> ?L"
      then obtain h where h: "h \<in> set (db_groups d)" "x = (if h = g then f g else h)" "(gr_id x, i) \<in> set ms" unfolding upd by auto
      have "gr_id x \<noteq> gr_id g" using h(3) out(2) by metis
      then have "x = h" using h(2) f by (auto split: if_splits)
      then show "x \<in> ?R" using h(1,3) same \<open>gr_id x \<noteq> gr_id g\<close> by simp
    qed
    show "?R \<subseteq> ?L"
    proof
      fix x
      assume x: "x \<in> ?R"
      then have ne: "gr_id x \<noteq> gr_id g" using out(1) by auto
      then have "x = (if x = g then f g else x)" by auto
      then have "x \<in> set (update_where P f (db_groups d))" unfolding upd using x by blast
      then show "x \<in> ?L" using x same [OF ne] by simp
    qed
  qed
  then show ?thesis by (simp add: set_groupNamesOf rename_group_def)
qed

context group_roles
begin

lemma commit_keeps:
  assumes run: "commit_roles rolesFor affected d1 answer d = (res, d')" and wf: "scim_wf d" "groups_wf d1"
    and same: "db_principals d1 = db_principals d" "db_sessions d1 = db_sessions d" "db_bindings d1 = db_bindings d"
    and inv: "in_step rolesFor d" and others: "\<And>i. i \<notin> set affected \<Longrightarrow> set (groupNamesOf d1 i) = set (groupNamesOf d i)"
  shows "scim_wf d' \<and> in_step rolesFor d'"
proof -
  have b: "bindings_wf (principal_ids d) (db_bindings d)" using wf(1) by (simp add: scim_wf_def db_wf_def)
  have p: "principal_ids d1 = principal_ids d" using same by simp
  note c = commit_roles_in_step [OF run b p same(3) inv others]
  show ?thesis
  proof (cases "d' = d")
    case True
    then show ?thesis using wf inv by simp
  next
    case False
    then obtain bs where bs: "d' = d1\<lparr>db_bindings := bs\<rparr>" and "bindings_wf (principal_ids d) (db_bindings d')" using c by blast
    then have "scim_wf d'" using scim_wf_groups [OF wf(1), of d'] same wf(2) by simp
    then show ?thesis using c by blast
  qed
qed

lemma CreateGroup_keeps:
  assumes wf: "scim_wf d" and inv: "in_step rolesFor d" and run: "CreateGroup new_id scimID now w rolesFor d = (res, d')"
  shows "scim_wf d' \<and> in_step rolesFor d'"
proof (cases "d' = d")
  case False
  let ?row = "\<lparr>gr_id = new_id, gr_scim_id = scimID, gr_external_id = nullif_empty (gw_ExternalID w),
                          gr_display_name = gw_DisplayName w, gr_created_at = now, gr_updated_at = now\<rparr>"
  let ?d1 = "d\<lparr>db_groups := db_groups d @ [?row]\<rparr>"
  obtain ids d2 where new: "\<not> list_ex (\<lambda>g. gr_id g = new_id \<or> gr_scim_id g = scimID \<or> gr_display_name g = gw_DisplayName w) (db_groups d)"
    and set_m: "setMembers new_id (gw_Members w) ?d1 = Inr (ids, d2)"
    and commit: "commit_roles rolesFor ids d2 (\<lambda>d'. FindGroup d' scimID) d = (res, d')"
    using run False by (auto simp: CreateGroup_def Let_def split: option.splits if_splits sum.splits)
  note m = setMembers_effect [OF set_m]
  have gwf: "groups_wf d" using wf by (simp add: scim_wf_def)
  have g1: "groups_wf ?d1" using gwf new by (auto simp: groups_wf_def list_ex_iff)
  have ids: "set ids \<subseteq> set (principal_ids ?d1)" using ids_of_principals m(1) by blast
  have g2: "groups_wf d2" unfolding m(2) by (rule groups_wf_members [OF g1 _ ids]) simp
  show ?thesis
  proof (rule commit_keeps [OF commit wf g2 _ _ _ inv])
    fix i
    assume i: "i \<notin> set ids"
    have "(new_id, i) \<notin> set (db_members d)" using gwf new by (auto simp: groups_wf_def list_ex_iff)
    then show "set (groupNamesOf d2 i) = set (groupNamesOf d i)"
      using i unfolding set_groupNamesOf m(2) by (auto simp: set_add_members)
  qed (simp_all add: m(2))
qed (use wf inv in simp)

lemma ReplaceGroup_keeps:
  assumes wf: "scim_wf d" and inv: "in_step rolesFor d" and run: "ReplaceGroup now scimID w rolesFor d = (res, d')"
  shows "scim_wf d' \<and> in_step rolesFor d'"
proof (cases "d' = d")
  case False
  let ?P = "\<lambda>h. gr_scim_id h = scimID"
  let ?f = "\<lambda>h. h\<lparr>gr_display_name := gw_DisplayName w, gr_external_id := nullif_empty (gw_ExternalID w), gr_updated_at := now\<rparr>"
  let ?d1 = "rename_group ?P ?f d"
  let ?d2 = "\<lambda>g. ?d1\<lparr>db_members := delete_where (\<lambda>m. fst m = gr_id g) (db_members ?d1)\<rparr>"
  obtain g ids d3 where g: "find ?P (db_groups d) = Some g"
    and new: "\<not> list_ex (\<lambda>h. gr_scim_id h \<noteq> scimID \<and> gr_display_name h = gw_DisplayName w) (db_groups d)"
    and set_m: "setMembers (gr_id g) (gw_Members w) (?d2 g) = Inr (ids, d3)"
    and commit: "commit_roles rolesFor (union (memberIDs ?d1 (gr_id g)) ids) d3 (\<lambda>d'. FindGroup d' scimID) d = (res, d')"
    using run False by (auto simp: ReplaceGroup_def Let_def split: option.splits if_splits sum.splits)
  note m = setMembers_effect [OF set_m]
  have gwf: "groups_wf d" using wf by (simp add: scim_wf_def)
  have gm: "g \<in> set (db_groups d)" "gr_scim_id g = scimID" using find_SomeD [OF g] by auto
  have only: "?P h \<longleftrightarrow> h = g" if "h \<in> set (db_groups d)" for h
    using find_unique_key [of gr_scim_id "db_groups d" scimID g h] gwf g that gm by (auto simp: groups_wf_def)
  have g1: "groups_wf ?d1"
    by (rule rename_group_wf [OF gwf gm(1) only]) (use new gm only in \<open>auto simp: list_ex_iff\<close>)
  have ids: "set ids \<subseteq> set (principal_ids (?d2 g))" using ids_of_principals m(1) by blast
  have "set (map gr_id (update_where ?P ?f (db_groups d))) = set (map gr_id (db_groups d))" by (subst map_update_where) simp_all
  then have in_d2: "gr_id g \<in> gr_id ` set (db_groups (?d2 g))" using gm(1) by (simp add: rename_group_def)
  have g3: "groups_wf d3" unfolding m(2) by (rule groups_wf_members [OF groups_wf_drop [OF g1] in_d2 ids])
  show ?thesis
  proof (rule commit_keeps [OF commit wf g3 _ _ _ inv])
    fix i
    assume "i \<notin> set (union (memberIDs ?d1 (gr_id g)) ids)"
    then have i: "(gr_id g, i) \<notin> set (db_members d)" "i \<notin> set ids" by (simp_all add: set_union set_memberIDs rename_group_def)
    have ms: "d3 = ?d1\<lparr>db_members := db_members d3\<rparr>" "set (db_members d3) = {m \<in> set (db_members d). fst m \<noteq> gr_id g} \<union> {gr_id g} \<times> set ids"
      unfolding m(2) by (auto simp: set_add_members rename_group_def)
    have "set (groupNamesOf (?d1\<lparr>db_members := db_members d3\<rparr>) i) = set (groupNamesOf d i)"
      by (rule names_unaffected [OF only]) (use i ms(2) in auto)
    then show "set (groupNamesOf d3 i) = set (groupNamesOf d i)" using ms(1) by metis
  qed (simp_all add: m(2) rename_group_def)
qed (use wf inv in simp)

lemma PatchGroupMembers_keeps:
  assumes wf: "scim_wf d" and inv: "in_step rolesFor d" and run: "PatchGroupMembers now scimID add remove displayName rolesFor d = (res, d')"
  shows "scim_wf d' \<and> in_step rolesFor d'"
proof (cases "d' = d")
  case False
  let ?f = "\<lambda>h. if displayName = '''' then h else h\<lparr>gr_display_name := displayName, gr_updated_at := now\<rparr>"
  let ?P = "\<lambda>g h. gr_id h = gr_id g"
  let ?d1 = "\<lambda>g. rename_group (?P g) ?f d"
  let ?d3 = "\<lambda>g d2 removed. d2\<lparr>db_members := delete_where (\<lambda>m. fst m = gr_id g \<and> List.member removed (snd m)) (db_members d2)\<rparr>"
  have d1: "(if displayName = '''' then d else rename_group (?P g) (\<lambda>h. h\<lparr>gr_display_name := displayName, gr_updated_at := now\<rparr>) d) = ?d1 g" for g
    by (cases "displayName = ''''") (simp_all add: rename_group_def update_where_def)
  obtain g ids d2 where g: "find (\<lambda>g. gr_scim_id g = scimID) (db_groups d) = Some g"
    and new: "\<not> (displayName \<noteq> '''' \<and> list_ex (\<lambda>h. gr_id h \<noteq> gr_id g \<and> gr_display_name h = displayName) (db_groups d))"
    and set_m: "setMembers (gr_id g) add (?d1 g) = Inr (ids, d2)"
    and commit: "commit_roles rolesFor (union (union ids (principalIDsOfSCIMIDs d2 remove)) (memberIDs (?d3 g d2 (principalIDsOfSCIMIDs d2 remove)) (gr_id g)))
        (?d3 g d2 (principalIDsOfSCIMIDs d2 remove)) (\<lambda>d'. FindGroup d' scimID) d = (res, d')"
    using run False unfolding PatchGroupMembers_def Let_def d1
    by (auto split: option.splits if_splits sum.splits)
  let ?removed = "principalIDsOfSCIMIDs d2 remove"
  let ?d = "?d3 g d2 ?removed"
  note m = setMembers_effect [OF set_m]
  have gwf: "groups_wf d" using wf by (simp add: scim_wf_def)
  have gm: "g \<in> set (db_groups d)" using find_SomeD [OF g] by auto
  have only: "?P g h \<longleftrightarrow> h = g" if "h \<in> set (db_groups d)" for h
    using gwf gm that by (auto simp: groups_wf_def distinct_map inj_on_def)
  have g1: "groups_wf (?d1 g)"
  proof (rule rename_group_wf [OF gwf gm only])
    show "gr_display_name h \<noteq> gr_display_name (?f g)" if h: "h \<in> set (db_groups d)" "h \<noteq> g" for h
    proof (cases "displayName = ''''")
      case True
      have "distinct (map gr_display_name (db_groups d))" using gwf by (simp add: groups_wf_def)
      then show ?thesis using h gm True by (auto simp: distinct_map inj_on_def)
    next
      case False
      then show ?thesis using new h only [OF h(1)] by (auto simp: list_ex_iff)
    qed
  qed simp_all
  have ids: "set ids \<subseteq> set (principal_ids (?d1 g))" using ids_of_principals m(1) by blast
  have "set (map gr_id (update_where (?P g) ?f (db_groups d))) = set (map gr_id (db_groups d))" by (subst map_update_where) simp_all
  then have in_d1: "gr_id g \<in> gr_id ` set (db_groups (?d1 g))" using gm by (simp add: rename_group_def)
  have g3: "groups_wf ?d" unfolding m(2) by (rule groups_wf_drop [OF groups_wf_members [OF g1 in_d1 ids]])
  show ?thesis
  proof (rule commit_keeps [OF commit wf g3 _ _ _ inv])
    fix i
    assume "i \<notin> set (union (union ids ?removed) (memberIDs ?d (gr_id g)))"
    then have i: "i \<notin> set ids" "i \<notin> set ?removed" "(gr_id g, i) \<notin> set (db_members ?d)" by (auto simp: set_union set_memberIDs)
    have ms: "?d = (?d1 g)\<lparr>db_members := db_members ?d\<rparr>"
      "set (db_members ?d) = {m \<in> set (db_members d) \<union> {gr_id g} \<times> set ids. \<not> (fst m = gr_id g \<and> snd m \<in> set ?removed)}"
      unfolding m(2) by (auto simp: set_add_members rename_group_def)
    have out: "(gr_id g, i) \<notin> set (db_members d)" using i(2,3) unfolding ms(2) by simp
    have same: "(h, i) \<in> set (db_members ?d) \<longleftrightarrow> (h, i) \<in> set (db_members d)" if "h \<noteq> gr_id g" for h
      unfolding ms(2) using that by simp
    have "set (groupNamesOf ((?d1 g)\<lparr>db_members := db_members ?d\<rparr>) i) = set (groupNamesOf d i)"
      by (rule names_unaffected [OF only _ out i(3) same]) simp_all
    then show "set (groupNamesOf ?d i) = set (groupNamesOf d i)" by (subst ms(1))
  qed (simp_all add: m(2) rename_group_def)
qed (use wf inv in simp)

lemma DeleteGroup_keeps:
  assumes wf: "scim_wf d" and inv: "in_step rolesFor d" and run: "DeleteGroup scimID rolesFor d = (res, d')"
  shows "scim_wf d' \<and> in_step rolesFor d'"
proof (cases "d' = d")
  case False
  let ?d1 = "\<lambda>g. d\<lparr>db_groups := delete_where (\<lambda>h. gr_id h = gr_id g) (db_groups d), db_members := delete_where (\<lambda>m. fst m = gr_id g) (db_members d)\<rparr>"
  obtain g :: group_row where commit: "commit_roles rolesFor (memberIDs d (gr_id g)) (?d1 g) (\<lambda>_. Inr True) d = (res, d')"
    using run False by (auto simp: DeleteGroup_def Let_def split: option.splits)
  have gwf: "groups_wf d" using wf by (simp add: scim_wf_def)
  have g1: "groups_wf (?d1 g)"
    using gwf distinct_delete_where [of id "db_members d"] unfolding groups_wf_def by (auto simp: distinct_delete_where)
  show ?thesis
  proof (rule commit_keeps [OF commit wf g1 _ _ _ inv])
    fix i
    assume "i \<notin> set (memberIDs d (gr_id g))"
    then show "set (groupNamesOf (?d1 g) i) = set (groupNamesOf d i)" by (auto simp: set_groupNamesOf set_memberIDs)
  qed simp_all
qed (use wf inv in simp)

end

section \<open>The user operations\<close>

lemma in_step_cong:
  "db_bindings d' = db_bindings d \<Longrightarrow> db_groups d' = db_groups d \<Longrightarrow> db_members d' = db_members d \<Longrightarrow>
   in_step rolesFor d' = in_step rolesFor d"
  by (simp add: in_step_def directory_roles_def implied_roles_def groupNamesOf_def roles_of_def)

text \<open>Rewriting one row's provisioning columns, when no other row holds its names.\<close>

lemma rewrite_row_wf:
  assumes wf: "scim_wf d" and p: "p \<in> set (db_principals d)" and only: "\<And>q. q \<in> set (db_principals d) \<Longrightarrow> P q \<longleftrightarrow> q = p"
    and f: "\<And>q. pw_id (f q) = pw_id q \<and> pw_subject (f q) = pw_subject q \<and> pw_kind (f q) = pw_kind q
      \<and> pw_key_hash (f q) = pw_key_hash q \<and> pw_external_id (f q) = pw_external_id q"
    and names: "unique_col pw_scim_id (update_where P f (db_principals d))" "unique_col pw_user_name (update_where P f (db_principals d))"
  shows "scim_wf (d\<lparr>db_principals := update_where P f (db_principals d)\<rparr>)"
proof -
  let ?ps = "update_where P f (db_principals d)"
  have ids: "map pw_id ?ps = principal_ids d" and subs: "map pw_subject ?ps = map pw_subject (db_principals d)"
    using f by (simp_all add: table_simps)
  have "principals_wf ?ps"
    using wf f unfolding scim_wf_def db_wf_def principals_wf_def
    by (auto simp: ids subs table_simps list_all_iff set_update_where row_check_def)
  then show ?thesis using wf names by (simp add: scim_wf_def db_wf_def names_wf_def groups_wf_def ids)
qed

lemma one_row:
  assumes "unique_col pw_scim_id ps" "p \<in> set ps" "pw_scim_id p = Some s" "q \<in> set ps"
  shows "pw_scim_id q = Some s \<longleftrightarrow> q = p"
  using unique_colD [OF assms(1,4,2), of s] assms(3) by auto

lemma rename_unique:
  assumes wf: "principals_wf ps" and names: "unique_col col ps" and p: "p \<in> set ps"
    and only: "\<And>q. q \<in> set ps \<Longrightarrow> P q \<longleftrightarrow> q = p" and fresh: "\<And>q. q \<in> set ps \<Longrightarrow> q \<noteq> p \<Longrightarrow> col q \<noteq> Some v"
    and f: "\<And>q. col (f q) = Some v"
  shows "unique_col col (update_where P f ps)"
proof (rule unique_col_update_one [where k = pw_id and i = "pw_id p" and v = v])
  show "distinct (map pw_id ps)" using wf by (simp add: principals_wf_def)
qed (use names only fresh f in auto)

lemma CreateUser_cases:
  assumes "CreateUser new_id scimID clock now w d = (res, d')"
  obtains (refused) e where "d' = d" "res = Inl e"
  | (adopted) p where "p \<in> set (db_principals d)" "answers_to w p" "pw_scim_id p = None" "pw_kind p = PrincipalKindUser"
      "\<And>q. q \<in> set (db_principals d) \<Longrightarrow> pw_id q \<noteq> pw_id p \<Longrightarrow> pw_user_name q \<noteq> Some (sw_UserName w) \<and> pw_scim_id q \<noteq> Some scimID"
      "d' = d\<lparr>db_principals := update_where (\<lambda>q. pw_id q = pw_id p) (adopted scimID clock now w) (db_principals d)\<rparr>" "res = FindUser d' scimID"
  | (created) "\<And>q. q \<in> set (db_principals d) \<Longrightarrow> \<not> answers_to w q \<and> pw_user_name q \<noteq> Some (sw_UserName w) \<and> pw_scim_id q \<noteq> Some scimID"
      "new_id \<notin> set (principal_ids d)" "res = FindUser d' scimID"
      "d' = d\<lparr>db_principals := db_principals d @ [adopted scimID clock now w (new_row new_id now (sw_Subject w) PrincipalKindUser (sw_DisplayName w))]\<rparr>"
proof (cases "\<exists>e. d' = d \<and> res = Inl e")
  case False
  show ?thesis
  proof (cases "find (answers_to w) (db_principals d)")
    case None
    have none: "\<not> answers_to w q" if "q \<in> set (db_principals d)" for q
      using None that by (auto simp: find_None_iff)
    show ?thesis
      by (rule created) (use assms False none in \<open>auto simp: CreateUser_def Let_def None scim_names_taken_def list_ex_iff split: option.splits if_splits\<close>)
  next
    case (Some p)
    show ?thesis
      by (rule adopted [of p]) (use assms False find_SomeD [OF Some] in
        \<open>auto simp: CreateUser_def Let_def Some scim_names_taken_def list_ex_iff split: option.splits if_splits\<close>)
  qed
qed (use refused in blast)

lemma CreateUser_keeps:
  assumes wf: "scim_wf d" and run: "CreateUser new_id scimID clock now w d = (res, d')"
  shows "scim_wf d' \<and> (in_step rolesFor d \<longrightarrow> in_step rolesFor d')"
  using run
proof (cases rule: CreateUser_cases)
  case (adopted p)
  let ?P = "\<lambda>q. pw_id q = pw_id p"
  have pwf: "principals_wf (db_principals d)" "names_wf (db_principals d)" using wf by (simp_all add: scim_wf_def db_wf_def)
  have only: "?P q \<longleftrightarrow> q = p" if "q \<in> set (db_principals d)" for q
    using wf_same_id [OF pwf(1) adopted(1) that] by auto
  have "unique_col pw_scim_id (update_where ?P (Scim_Store.adopted scimID clock now w) (db_principals d))"
    by (rule rename_unique [OF pwf(1) _ adopted(1) only, where v = scimID])
      (use pwf(2) adopted(5) only in \<open>auto simp: names_wf_def adopted_def\<close>)
  moreover have "unique_col pw_user_name (update_where ?P (Scim_Store.adopted scimID clock now w) (db_principals d))"
    by (rule rename_unique [OF pwf(1) _ adopted(1) only, where v = "sw_UserName w"])
      (use pwf(2) adopted(5) only in \<open>auto simp: names_wf_def adopted_def\<close>)
  ultimately have "scim_wf d'" unfolding adopted(6)
    by (intro rewrite_row_wf [OF wf adopted(1) only]) (auto simp: adopted_def)
  then show ?thesis using in_step_cong [of d' d] adopted(6) by simp
next
  case created
  let ?row = "Scim_Store.adopted scimID clock now w (new_row new_id now (sw_Subject w) PrincipalKindUser (sw_DisplayName w))"
  have fields: "pw_id ?row = new_id" "pw_subject ?row = sw_Subject w" "pw_external_id ?row = None" "pw_key_hash ?row = None"
    "pw_scim_id ?row = Some scimID" "pw_user_name ?row = Some (sw_UserName w)" "row_check ?row"
    by (simp_all add: adopted_def new_row_def row_check_def PrincipalKindUser_def PrincipalKindAPIKey_def)
  have "bindings_wf (principal_ids d @ [new_id]) (db_bindings d)" using wf by (auto simp: scim_wf_def db_wf_def intro: bindings_wf_mono)
  then have "db_wf (d\<lparr>db_principals := db_principals d @ [?row], db_bindings := db_bindings d\<rparr>)"
  proof (intro new_principal_wf)
    show "pw_subject ?row \<notin> pw_subject ` set (db_principals d)" using created(1) fields(2) unfolding answers_to_def by fastforce
  qed (use wf fields created(2) in \<open>auto simp: scim_wf_def\<close>)
  moreover have "names_wf (db_principals d @ [?row])"
  proof -
    have "Some scimID \<notin> pw_scim_id ` set (db_principals d)" "Some (sw_UserName w) \<notin> pw_user_name ` set (db_principals d)"
      using created(1) by (metis imageE)+
    then show ?thesis using wf by (simp add: scim_wf_def names_wf_def unique_col_append fields)
  qed
  moreover have "groups_wf d'" using wf created(4) by (auto simp: scim_wf_def groups_wf_def)
  ultimately have "scim_wf d'" using created(4) by (simp add: scim_wf_def)
  then show ?thesis using in_step_cong [of d' d] created(4) by simp
qed (use wf in simp)

lemma ReplaceUser_keeps:
  assumes wf: "scim_wf d" and run: "ReplaceUser clock now scimID w d = (res, d')"
  shows "scim_wf d' \<and> (in_step rolesFor d \<longrightarrow> in_step rolesFor d')"
proof (cases "d' = d")
  case False
  let ?P = "\<lambda>q. pw_scim_id q = Some scimID"
  have d': "d' = d\<lparr>db_principals := update_where ?P (replaced clock now w) (db_principals d)\<rparr>"
    and hit: "\<exists>p \<in> set (db_principals d). ?P p"
    and free: "\<And>q. q \<in> set (db_principals d) \<Longrightarrow> \<not> ?P q \<Longrightarrow> pw_user_name q \<noteq> Some (sw_UserName w)"
    using run False by (auto simp: ReplaceUser_def Let_def scim_names_taken_def list_ex_iff split: option.splits if_splits)
  obtain p where p: "p \<in> set (db_principals d)" "?P p" using hit by blast
  have pwf: "principals_wf (db_principals d)" "names_wf (db_principals d)" using wf by (simp_all add: scim_wf_def db_wf_def)
  have only: "?P q \<longleftrightarrow> q = p" if "q \<in> set (db_principals d)" for q
    using one_row [of "db_principals d" p scimID q] pwf(2) p that by (simp add: names_wf_def)
  have "unique_col pw_user_name (update_where ?P (replaced clock now w) (db_principals d))"
    by (rule rename_unique [OF pwf(1) _ p(1) only, where v = "sw_UserName w"])
      (use pwf(2) free only in \<open>auto simp: names_wf_def replaced_def\<close>)
  moreover have "unique_col pw_scim_id (update_where ?P (replaced clock now w) (db_principals d))"
    using pwf(2) by (simp add: names_wf_def table_simps replaced_def)
  ultimately have "scim_wf d'" unfolding d'
    by (intro rewrite_row_wf [OF wf p(1) only]) (auto simp: replaced_def)
  then show ?thesis using in_step_cong [of d' d] d' by simp
qed (use wf in simp)

lemma SetActive_keeps:
  assumes wf: "scim_wf d" and run: "SetActive clock now scimID active d = (res, d')"
  shows "scim_wf d' \<and> (in_step rolesFor d \<longrightarrow> in_step rolesFor d')"
proof (cases "d' = d")
  case False
  let ?P = "\<lambda>q. pw_scim_id q = Some scimID"
  let ?f = "\<lambda>q. q\<lparr>pw_disabled_at := disabledAt clock active, pw_updated_at := now\<rparr>"
  let ?d1 = "d\<lparr>db_principals := update_where ?P ?f (db_principals d)\<rparr>"
  obtain p where p: "find ?P (db_principals d) = Some p"
    and d': "d' = (if active then ?d1 else ?d1\<lparr>db_sessions := delete_where (\<lambda>s. sr_principal_id s = pw_id p) (db_sessions d)\<rparr>)"
    using run False by (auto simp: SetActive_def Let_def split: option.splits if_splits)
  have pm: "p \<in> set (db_principals d)" "?P p" using find_SomeD [OF p] by auto
  have pwf: "names_wf (db_principals d)" using wf by (simp add: scim_wf_def)
  have only: "?P q \<longleftrightarrow> q = p" if "q \<in> set (db_principals d)" for q
    using one_row [of "db_principals d" p scimID q] pwf pm that by (simp add: names_wf_def)
  have "scim_wf ?d1"
    by (rule rewrite_row_wf [OF wf pm(1) only]) (use pwf in \<open>auto simp: names_wf_def table_simps\<close>)
  moreover from this have "scim_wf (?d1\<lparr>db_sessions := delete_where (\<lambda>s. sr_principal_id s = pw_id p) (db_sessions d)\<rparr>)"
    by (simp add: scim_wf_def db_wf_def groups_wf_def sessions_wf_delete)
  ultimately have "scim_wf d'" unfolding d' by (cases active) simp_all
  then show ?thesis using in_step_cong [of d' d] d' by simp
qed (use wf in simp)

end
