(* ===== verification/Scim_API.thy ===== *)
theory Scim_API
  imports Scim_Laws
begin

text \<open>
  The provisioning protocol: \<^verbatim>\<open>internal/api/scim.go\<close> and \<^verbatim>\<open>internal/api/scimgroups.go\<close>. A handler is
  given the decoded body of its request or the decoder's message, and answers with a status and a
  body. It makes one or more calls to the store, each of which may find the database down.
\<close>

section \<open>Texts\<close>

text \<open>\<^verbatim>\<open>strings.EqualFold\<close> and \<^verbatim>\<open>strings.ToLower\<close> against an ASCII text. Outside ASCII only the long s and the
  Kelvin sign fold to ASCII letters, and only the dotted capital I and the Kelvin sign have ASCII
  lower case.\<close>

function map_runes :: "(string \<times> char) list \<Rightarrow> string \<Rightarrow> string" where
  "map_runes tbl [] = []"
| "map_runes tbl (c # cs) =
     (case find (\<lambda>e. has_prefix (c # cs) (fst e)) tbl of
        Some e \<Rightarrow> snd e # map_runes tbl (drop (length (fst e) - 1) cs)
      | None \<Rightarrow> ascii_lower c # map_runes tbl cs)"
  by pat_completeness auto
termination
  by (relation "measure (length \<circ> snd)") auto

definition fold_case :: "string \<Rightarrow> string" where
  "fold_case s = map_runes [(bytes [197, 191], CHR ''s''), (bytes [226, 132, 170], CHR ''k'')] s"

definition lower_case :: "string \<Rightarrow> string" where
  "lower_case s = map_runes [(bytes [196, 176], CHR ''i''), (bytes [226, 132, 170], CHR ''k'')] s"

definition folds_to :: "string \<Rightarrow> string \<Rightarrow> bool" where
  "folds_to s t \<longleftrightarrow> fold_case s = fold_case t"

text \<open>\<^verbatim>\<open>strings.Cut\<close>.\<close>

fun cut :: "string \<Rightarrow> string \<Rightarrow> (string \<times> string) option" where
  "cut sep [] = None"
| "cut sep (c # cs) =
     (if has_prefix (c # cs) sep then Some ([], drop (length sep) (c # cs))
      else map_option (\<lambda>(a, b). (c # a, b)) (cut sep cs))"

definition quote :: char where "quote = CHR 0x22"

definition cutEquality :: "string \<Rightarrow> (string \<times> string) option" where
  "cutEquality raw = (case cut '' eq '' raw of
      None \<Rightarrow> None
    | Some (attr, rest) \<Rightarrow>
        let value = trim_space rest in
        if length value < 2 \<or> \<not> has_prefix value [quote] \<or> \<not> has_suffix value [quote] then None
        else Some (trim_space attr, take (length value - 2) (drop 1 value)))"

definition no_user_filter :: scim_user_filter where
  "no_user_filter = \<lparr>sf_UserName = '''', sf_ExternalID = '''', sf_StartIndex = 0, sf_Count = 0\<rparr>"

definition equality_only :: string where
  "equality_only = ''only filters of the form 'attribute eq '' @ [quote] @ ''value'' @ [quote] @ ''' are supported''"

definition parseUserFilter :: "string \<Rightarrow> string + scim_user_filter" where
  "parseUserFilter text0 =
     (let raw = trim_space text0 in
      if raw = '''' then Inr no_user_filter
      else case cutEquality raw of
          None \<Rightarrow> Inl equality_only
        | Some (attr, value) \<Rightarrow>
            if lower_case attr = ''username'' then Inr (no_user_filter\<lparr>sf_UserName := value\<rparr>)
            else if lower_case attr = ''externalid'' then Inr (no_user_filter\<lparr>sf_ExternalID := value\<rparr>)
            else Inl ''filtering is supported on userName and externalId only'')"

definition parseGroupFilter :: "string \<Rightarrow> string + scim_group_filter" where
  "parseGroupFilter text0 =
     (let raw = trim_space text0; none = \<lparr>gf_DisplayName = '''', gf_StartIndex = 0, gf_Count = 0\<rparr> in
      if raw = '''' then Inr none
      else case cutEquality raw of
          None \<Rightarrow> Inl equality_only
        | Some (attr, value) \<Rightarrow>
            if folds_to attr ''displayName'' then Inr (none\<lparr>gf_DisplayName := value\<rparr>)
            else Inl ''filtering is supported on displayName only'')"

definition defaultPageSize :: int where "defaultPageSize = 100"
definition maxPageSize :: int where "maxPageSize = 500"

definition pageOf :: "string \<Rightarrow> string \<Rightarrow> int \<times> int" where
  "pageOf startIndex cnt =
     (case atoi startIndex of Some v \<Rightarrow> if 1 < v then v else 1 | None \<Rightarrow> 1,
      min maxPageSize (case atoi cnt of Some v \<Rightarrow> if 0 \<le> v then v else defaultPageSize | None \<Rightarrow> defaultPageSize))"

section \<open>Resources and replies\<close>

record scim_name =
  nm_Formatted :: string
  nm_GivenName :: string
  nm_FamilyName :: string

record scim_email =
  em_Value :: string
  em_Primary :: bool
  em_Type :: string

record scim_meta =
  mt_ResourceType :: string
  mt_Created :: string
  mt_LastModified :: string
  mt_Location :: string

definition schemaUser :: string where "schemaUser = ''urn:ietf:params:scim:schemas:core:2.0:User''"
definition schemaGroup :: string where "schemaGroup = ''urn:ietf:params:scim:schemas:core:2.0:Group''"

text \<open>The handlers never fill the \<^verbatim>\<open>name\<close> of a user.\<close>

record user_resource =
  ur_Schemas :: "string list"
  ur_ID :: string
  ur_ExternalID :: string
  ur_UserName :: string
  ur_DisplayName :: string
  ur_Emails :: "scim_email list"
  ur_Active :: bool
  ur_Meta :: scim_meta

record member_resource =
  mr_Value :: string
  mr_Display :: string
  mr_Ref :: string

record group_resource =
  gr_Schemas :: "string list"
  gr_ID :: string
  gr_ExternalID :: string
  gr_DisplayName :: string
  gr_Members :: "member_resource list"
  gr_Meta :: scim_meta

datatype scim_body =
    ScimError string string
  | UserBody user_resource
  | UserList nat int nat "user_resource list"
  | GroupBody group_resource
  | GroupList nat int nat "group_resource list"
  | NoContent
  | Panic

type_synonym scim_reply = "nat \<times> scim_body"

definition resource :: "(instant \<Rightarrow> string) \<Rightarrow> scim_user \<Rightarrow> user_resource" where
  "resource fmt u =
     (let email = (if has_prefix (su_Subject u) ''user:'' then drop 5 (su_Subject u) else su_Subject u) in
      \<lparr>ur_Schemas = [schemaUser], ur_ID = su_SCIMID u, ur_ExternalID = su_ExternalID u, ur_UserName = su_UserName u, ur_DisplayName = su_DisplayName u,
       ur_Emails = (if email \<noteq> '''' \<and> email \<noteq> su_Subject u
                    then [\<lparr>em_Value = email, em_Primary = True, em_Type = ''work''\<rparr>] else []),
       ur_Active = su_Active u,
       ur_Meta = \<lparr>mt_ResourceType = ''User'', mt_Created = fmt (su_CreatedAt u), mt_LastModified = fmt (su_UpdatedAt u),
                  mt_Location = ''/scim/v2/Users/'' @ su_SCIMID u\<rparr>\<rparr>)"

definition groupResource :: "(instant \<Rightarrow> string) \<Rightarrow> scim_group \<Rightarrow> group_resource" where
  "groupResource fmt g =
     \<lparr>gr_Schemas = [schemaGroup], gr_ID = sg_SCIMID g, gr_ExternalID = sg_ExternalID g, gr_DisplayName = sg_DisplayName g,
      gr_Members = map (\<lambda>m. \<lparr>mr_Value = gm_SCIMID m, mr_Display = gm_Display m, mr_Ref = ''/scim/v2/Users/'' @ gm_SCIMID m\<rparr>)
        (sg_Members g),
      gr_Meta = \<lparr>mt_ResourceType = ''Group'', mt_Created = fmt (sg_CreatedAt g), mt_LastModified = fmt (sg_UpdatedAt g),
                 mt_Location = ''/scim/v2/Groups/'' @ sg_SCIMID g\<rparr>\<rparr>"

record scim_user_request =
  rq_UserName :: string
  rq_ExternalID :: string
  rq_DisplayName :: string
  rq_Name :: "scim_name option"
  rq_Emails :: "scim_email list"
  rq_Active :: "bool option"

definition primaryEmailOrUserName :: "scim_user_request \<Rightarrow> string" where
  "primaryEmailOrUserName r =
     (case find (\<lambda>e. em_Primary e \<and> em_Value e \<noteq> '''') (rq_Emails r) of
        Some e \<Rightarrow> em_Value e
      | None \<Rightarrow>
          (case find (\<lambda>e. em_Value e \<noteq> '''') (rq_Emails r) of
             Some e \<Rightarrow> em_Value e
           | None \<Rightarrow> rq_UserName r))"

definition displayName :: "scim_user_request \<Rightarrow> string" where
  "displayName r =
     (if rq_DisplayName r \<noteq> '''' then rq_DisplayName r
      else case rq_Name r of
          None \<Rightarrow> ''''
        | Some n \<Rightarrow> if nm_Formatted n \<noteq> '''' then nm_Formatted n
                    else trim_space (nm_GivenName n @ '' '' @ nm_FamilyName n))"

definition user_write :: "scim_user_request \<Rightarrow> scim_user_write" where
  "user_write r = \<lparr>sw_UserName = rq_UserName r, sw_ExternalID = rq_ExternalID r,
     sw_Subject = ''user:'' @ primaryEmailOrUserName r, sw_DisplayName = displayName r,
     sw_Active = (case rq_Active r of None \<Rightarrow> True | Some b \<Rightarrow> b)\<rparr>"

record scim_group_request =
  gq_DisplayName :: string
  gq_ExternalID :: string
  gq_Members :: "json list"

definition memberValue :: "json \<Rightarrow> string" where
  "memberValue j = (case j of
      JStr s \<Rightarrow> trim_space s
    | JObj kvs \<Rightarrow> (case json_field kvs ''value'' of Some (JStr s) \<Rightarrow> trim_space s | _ \<Rightarrow> '''')
    | _ \<Rightarrow> '''')"

definition memberValues :: "json list \<Rightarrow> string list" where
  "memberValues raw = filter (\<lambda>v. v \<noteq> '''') (map memberValue raw)"

definition group_write :: "scim_group_request \<Rightarrow> scim_group_write" where
  "group_write r = \<lparr>gw_DisplayName = trim_space (gq_DisplayName r), gw_ExternalID = gq_ExternalID r,
     gw_Members = memberValues (gq_Members r)\<rparr>"

definition memberFilterPath :: "string \<Rightarrow> string option" where
  "memberFilterPath path =
     (if \<not> has_prefix (lower_case path) ''members['' \<or> \<not> has_suffix path '']'' then None
      else map_option snd (cutEquality (butlast (drop 1 (dropWhile (\<lambda>c. c \<noteq> CHR ''['') path)))))"

text \<open>An operation of a patch; its value is missing or a document.\<close>

record patch_op =
  po_Op :: string
  po_Path :: string
  po_Value :: "json option"

definition parse_bool :: "string \<Rightarrow> bool option" where
  "parse_bool s =
     (if s = ''1'' \<or> s = ''t'' \<or> s = ''true'' then Some True
      else if s = ''0'' \<or> s = ''f'' \<or> s = ''false'' then Some False else None)"

fun active_member :: "(string \<times> json) list \<Rightarrow> bool option" where
  "active_member [] = None"
| "active_member ((k, v) # rest) =
     (if \<not> folds_to k ''active'' then active_member rest
      else case v of
          JBool b \<Rightarrow> Some b
        | JStr s \<Rightarrow> parse_bool (lower_case s)
        | _ \<Rightarrow> active_member rest)"

text \<open>A map has one value per key, visited in an order the runtime chooses.\<close>

definition activeFromPatch :: "((string \<times> json) list \<Rightarrow> (string \<times> json) list) \<Rightarrow> string \<Rightarrow> json option \<Rightarrow> bool option" where
  "activeFromPatch order path value =
     (if folds_to (trim_space path) ''active''
      then (case value of
              Some (JBool b) \<Rightarrow> Some b
            | Some JNull \<Rightarrow> Some False
            | Some (JStr s) \<Rightarrow> parse_bool (lower_case s)
            | _ \<Rightarrow> None)
      else if path \<noteq> '''' then None
      else case value of
          Some (JObj kvs) \<Rightarrow> active_member (order (map (\<lambda>k. (k, the (json_field kvs k))) (remdups (map fst kvs))))
        | _ \<Rightarrow> None)"

section \<open>Users\<close>

record scim_env =
  sv_up :: "nat \<Rightarrow> bool"
  sv_new_id :: uuid
  sv_scim_id :: string
  sv_clock :: instant
  sv_now :: instant
  sv_format :: "instant \<Rightarrow> string"
  sv_order :: "(string \<times> json) list \<Rightarrow> (string \<times> json) list"
  sv_rolesFor :: roles_for

text \<open>The database as the \<open>k\<close>-th call of a request finds it.\<close>

definition at_call :: "scim_env \<Rightarrow> nat \<Rightarrow> db \<Rightarrow> db" where
  "at_call env k d = d\<lparr>db_up := sv_up env k\<rparr>"

definition scim_fail :: "string \<Rightarrow> scim_reply" where
  "scim_fail doing = (500, ScimError '''' (''could not '' @ doing))"

definition notFound :: "string \<Rightarrow> scim_reply" where
  "notFound scimID = (404, ScimError '''' (''no user with id '' @ scimID))"

definition groupNotFound :: "string \<Rightarrow> scim_reply" where
  "groupNotFound scimID = (404, ScimError '''' (''no group with id '' @ scimID))"

definition scim_conflict :: "string \<Rightarrow> scim_store_error \<Rightarrow> scim_reply" where
  "scim_conflict doing e = (case e of
      ErrUserNameTaken n \<Rightarrow> (409, ScimError ''uniqueness'' (''userName already belongs to another principal: '' @ n))
    | ErrNotProvisionable s \<Rightarrow> (409, ScimError ''uniqueness'' (''an existing principal of another kind holds this name: '' @ s))
    | ErrGroupNameTaken n \<Rightarrow> (409, ScimError ''uniqueness'' (''displayName already belongs to another group: '' @ n))
    | ScimDB _ \<Rightarrow> scim_fail doing)"

definition user_reply :: "scim_env \<Rightarrow> nat \<Rightarrow> string \<Rightarrow> string \<Rightarrow> scim_store_error + scim_user option \<Rightarrow> scim_reply" where
  "user_reply env status doing scimID r = (case r of
      Inl e \<Rightarrow> scim_conflict doing e
    | Inr None \<Rightarrow> notFound scimID
    | Inr (Some u) \<Rightarrow> (status, UserBody (resource (sv_format env) u)))"

definition handle_CreateUser :: "scim_env \<Rightarrow> string + scim_user_request \<Rightarrow> db \<Rightarrow> scim_reply \<times> db" where
  "handle_CreateUser env body d =
     (case body of
        Inl msg \<Rightarrow> ((400, ScimError ''invalidSyntax'' (''could not read the resource: '' @ msg)), d)
      | Inr req \<Rightarrow>
          if trim_space (rq_UserName req) = '''' then ((400, ScimError ''invalidValue'' ''userName is required''), d)
          else case CreateUser (sv_new_id env) (sv_scim_id env) (sv_clock env) (sv_now env) (user_write req) (at_call env 0 d) of
              (Inl e, d') \<Rightarrow> (scim_conflict ''create the user'' e, d')
            | (Inr None, d') \<Rightarrow> ((500, Panic), d')
            | (Inr (Some u), d') \<Rightarrow> ((201, UserBody (resource (sv_format env) u)), d'))"

definition handle_GetUser :: "scim_env \<Rightarrow> string \<Rightarrow> db \<Rightarrow> scim_reply" where
  "handle_GetUser env scimID d = user_reply env 200 ''read the user'' scimID (FindUser (at_call env 0 d) scimID)"

definition handle_ListUsers :: "scim_env \<Rightarrow> string \<Rightarrow> string \<Rightarrow> string \<Rightarrow> db \<Rightarrow> scim_reply" where
  "handle_ListUsers env raw startIndex cnt d =
     (case parseUserFilter raw of
        Inl msg \<Rightarrow> (400, ScimError ''invalidFilter'' msg)
      | Inr f \<Rightarrow>
          let (start, n) = pageOf startIndex cnt in
          (case ListUsers (f\<lparr>sf_StartIndex := start, sf_Count := n\<rparr>) (at_call env 0 d) of
             Inl _ \<Rightarrow> scim_fail ''list users''
           | Inr (users, total_n) \<Rightarrow> (200, UserList total_n start (length users) (map (resource (sv_format env)) users))))"

definition isAdmin :: "scim_env \<Rightarrow> nat \<Rightarrow> scim_user \<Rightarrow> db \<Rightarrow> bool" where
  "isAdmin env k u d = (case HasAdminRole (at_call env k d) (su_ID u) of Inl _ \<Rightarrow> True | Inr b \<Rightarrow> b)"

text \<open>The guard before a deactivation: the answer that refuses it, if any.\<close>

definition deactivate :: "scim_env \<Rightarrow> nat \<Rightarrow> string \<Rightarrow> db \<Rightarrow> scim_reply option" where
  "deactivate env k scimID d =
     (case SCIM_CountOtherEnabledAdmins (at_call env k d) scimID of
        Inl _ \<Rightarrow> Some (scim_fail ''check the remaining administrators'')
      | Inr others \<Rightarrow>
          if others > 0 then None
          else case FindUser (at_call env (k + 1) d) scimID of
              Inl _ \<Rightarrow> Some (scim_fail ''check the remaining administrators'')
            | Inr None \<Rightarrow> None
            | Inr (Some u) \<Rightarrow>
                if \<not> isAdmin env (k + 2) u d then None
                else Some (403, ScimError ''mutability''
                  ''refusing to deactivate the last enabled administrator; grant admin elsewhere first''))"

definition handle_ReplaceUser :: "scim_env \<Rightarrow> string \<Rightarrow> string + scim_user_request \<Rightarrow> db \<Rightarrow> scim_reply \<times> db" where
  "handle_ReplaceUser env scimID body d =
     (case body of
        Inl msg \<Rightarrow> ((400, ScimError ''invalidSyntax'' (''could not read the resource: '' @ msg)), d)
      | Inr req \<Rightarrow>
          (case (if rq_Active req = Some False then deactivate env 0 scimID d else None) of
             Some reply \<Rightarrow> (reply, d)
           | None \<Rightarrow>
               (case ReplaceUser (sv_clock env) (sv_now env) scimID (user_write req) (at_call env 3 d) of
                  (r, d') \<Rightarrow> (user_reply env 200 ''replace the user'' scimID r, d'))))"

fun patch_user :: "scim_env \<Rightarrow> string \<Rightarrow> nat \<Rightarrow> patch_op list \<Rightarrow> scim_user \<Rightarrow> db \<Rightarrow> scim_reply \<times> db" where
  "patch_user env scimID k [] u d = ((200, UserBody (resource (sv_format env) u)), d)"
| "patch_user env scimID k (p # ps) u d =
     (if folds_to (po_Op p) ''remove'' then patch_user env scimID k ps u d
      else case activeFromPatch (sv_order env) (po_Path p) (po_Value p) of
          None \<Rightarrow> patch_user env scimID k ps u d
        | Some active \<Rightarrow>
            (case (if active then None else deactivate env k scimID d) of
               Some reply \<Rightarrow> (reply, d)
             | None \<Rightarrow>
                 (case SetActive (sv_clock env) (sv_now env) scimID active (at_call env (k + 3) d) of
                    (Inl e, d') \<Rightarrow> (scim_fail ''update the user'', d')
                  | (Inr None, d') \<Rightarrow> (notFound scimID, d')
                  | (Inr (Some u'), d') \<Rightarrow> patch_user env scimID (k + 4) ps u' d')))"

definition handle_PatchUser :: "scim_env \<Rightarrow> string \<Rightarrow> string + patch_op list \<Rightarrow> db \<Rightarrow> scim_reply \<times> db" where
  "handle_PatchUser env scimID body d =
     (case body of
        Inl msg \<Rightarrow> ((400, ScimError ''invalidSyntax'' (''could not read the patch: '' @ msg)), d)
      | Inr ps \<Rightarrow>
          (case FindUser (at_call env 0 d) scimID of
             Inl e \<Rightarrow> (scim_fail ''read the user'', d)
           | Inr None \<Rightarrow> (notFound scimID, d)
           | Inr (Some u) \<Rightarrow> patch_user env scimID 1 ps u d))"

definition handle_DeleteUser :: "scim_env \<Rightarrow> string \<Rightarrow> db \<Rightarrow> scim_reply \<times> db" where
  "handle_DeleteUser env scimID d =
     (case deactivate env 0 scimID d of
        Some reply \<Rightarrow> (reply, d)
      | None \<Rightarrow>
          (case SetActive (sv_clock env) (sv_now env) scimID False (at_call env 3 d) of
             (Inl e, d') \<Rightarrow> (scim_fail ''delete the user'', d')
           | (Inr None, d') \<Rightarrow> (notFound scimID, d')
           | (Inr (Some _), d') \<Rightarrow> ((204, NoContent), d')))"

section \<open>Groups\<close>

definition group_reply :: "scim_env \<Rightarrow> nat \<Rightarrow> string \<Rightarrow> string \<Rightarrow> scim_store_error + scim_group option \<Rightarrow> scim_reply" where
  "group_reply env status doing scimID r = (case r of
      Inl e \<Rightarrow> scim_conflict doing e
    | Inr None \<Rightarrow> groupNotFound scimID
    | Inr (Some g) \<Rightarrow> (status, GroupBody (groupResource (sv_format env) g)))"

definition handle_CreateGroup :: "scim_env \<Rightarrow> string + scim_group_request \<Rightarrow> db \<Rightarrow> scim_reply \<times> db" where
  "handle_CreateGroup env body d =
     (case body of
        Inl msg \<Rightarrow> ((400, ScimError ''invalidSyntax'' (''could not read the group: '' @ msg)), d)
      | Inr req \<Rightarrow>
          if gq_DisplayName req = '''' then ((400, ScimError ''invalidValue'' ''displayName is required''), d)
          else case CreateGroup (sv_new_id env) (sv_scim_id env) (sv_now env) (group_write req) (sv_rolesFor env) (at_call env 0 d) of
              (Inl e, d') \<Rightarrow> (scim_conflict ''create the group'' e, d')
            | (Inr None, d') \<Rightarrow> ((500, Panic), d')
            | (Inr (Some g), d') \<Rightarrow> ((201, GroupBody (groupResource (sv_format env) g)), d'))"

definition handle_GetGroup :: "scim_env \<Rightarrow> string \<Rightarrow> db \<Rightarrow> scim_reply" where
  "handle_GetGroup env scimID d = group_reply env 200 ''read the group'' scimID (FindGroup (at_call env 0 d) scimID)"

definition handle_ListGroups :: "scim_env \<Rightarrow> string \<Rightarrow> string \<Rightarrow> string \<Rightarrow> db \<Rightarrow> scim_reply" where
  "handle_ListGroups env raw startIndex cnt d =
     (case parseGroupFilter raw of
        Inl msg \<Rightarrow> (400, ScimError ''invalidFilter'' msg)
      | Inr f \<Rightarrow>
          let (start, n) = pageOf startIndex cnt in
          (case ListGroups (f\<lparr>gf_StartIndex := start, gf_Count := n\<rparr>) (at_call env 0 d) of
             Inl _ \<Rightarrow> scim_fail ''list groups''
           | Inr (groups, total_n) \<Rightarrow> (200, GroupList total_n start (length groups) (map (groupResource (sv_format env)) groups))))"

definition handle_ReplaceGroup :: "scim_env \<Rightarrow> string \<Rightarrow> string + scim_group_request \<Rightarrow> db \<Rightarrow> scim_reply \<times> db" where
  "handle_ReplaceGroup env scimID body d =
     (case body of
        Inl msg \<Rightarrow> ((400, ScimError ''invalidSyntax'' (''could not read the group: '' @ msg)), d)
      | Inr req \<Rightarrow>
          (case ReplaceGroup (sv_now env) scimID (group_write req) (sv_rolesFor env) (at_call env 0 d) of
             (r, d') \<Rightarrow> (group_reply env 200 ''replace the group'' scimID r, d')))"

text \<open>The changes a patch asks for, in order: members to add, members to remove, and the new name.\<close>

fun group_changes ::
  "scim_env \<Rightarrow> string \<Rightarrow> nat \<Rightarrow> patch_op list \<Rightarrow> string list \<Rightarrow> string list \<Rightarrow> string \<Rightarrow> db
     \<Rightarrow> scim_reply + nat \<times> string list \<times> string list \<times> string" where
  "group_changes env scimID k [] add remove name d = Inr (k, add, remove, name)"
| "group_changes env scimID k (p # ps) add remove name d =
     (let path = trim_space (po_Path p) in
      case memberFilterPath path of
        Some inner \<Rightarrow>
          if folds_to (po_Op p) ''remove'' then group_changes env scimID k ps add (remove @ [inner]) name d
          else group_changes env scimID k ps (add @ [inner]) remove name d
      | None \<Rightarrow>
          if folds_to path ''displayname'' then
            (case po_Value p of
               Some (JStr s) \<Rightarrow> group_changes env scimID k ps add remove (trim_space s) d
             | Some JNull \<Rightarrow> group_changes env scimID k ps add remove '''' d
             | _ \<Rightarrow> group_changes env scimID k ps add remove name d)
          else if \<not> folds_to path ''members'' then group_changes env scimID k ps add remove name d
          else case (case po_Value p of Some (JArr js) \<Rightarrow> Some js | Some JNull \<Rightarrow> Some [] | _ \<Rightarrow> None) of
              None \<Rightarrow> group_changes env scimID k ps add remove name d
            | Some raw \<Rightarrow>
                if folds_to (po_Op p) ''remove'' then group_changes env scimID k ps add (remove @ memberValues raw) name d
                else if folds_to (po_Op p) ''replace'' then
                  (case FindGroup (at_call env k d) scimID of
                     Inl e \<Rightarrow> Inl (scim_fail ''read the group'')
                   | Inr None \<Rightarrow> Inl (groupNotFound scimID)
                   | Inr (Some g) \<Rightarrow>
                       group_changes env scimID (Suc k) ps (add @ memberValues raw)
                         (remove @ map gm_SCIMID (sg_Members g)) name d)
                else group_changes env scimID k ps (add @ memberValues raw) remove name d)"

definition handle_PatchGroup :: "scim_env \<Rightarrow> string \<Rightarrow> string + patch_op list \<Rightarrow> db \<Rightarrow> scim_reply \<times> db" where
  "handle_PatchGroup env scimID body d =
     (case body of
        Inl msg \<Rightarrow> ((400, ScimError ''invalidSyntax'' (''could not read the patch: '' @ msg)), d)
      | Inr ps \<Rightarrow>
          (case group_changes env scimID 0 ps [] [] '''' d of
             Inl reply \<Rightarrow> (reply, d)
           | Inr (k, add, remove, name) \<Rightarrow>
               (case PatchGroupMembers (sv_now env) scimID add remove name (sv_rolesFor env) (at_call env k d) of
                  (r, d') \<Rightarrow> (group_reply env 200 ''update the group'' scimID r, d'))))"

definition handle_DeleteGroup :: "scim_env \<Rightarrow> string \<Rightarrow> db \<Rightarrow> scim_reply \<times> db" where
  "handle_DeleteGroup env scimID d =
     (case DeleteGroup scimID (sv_rolesFor env) (at_call env 0 d) of
        (Inl e, d') \<Rightarrow> (scim_fail ''delete the group'', d')
      | (Inr found, d') \<Rightarrow> (if found then (204, NoContent) else groupNotFound scimID, d'))"

section \<open>Roles follow groups\<close>

lemma scim_wf_up [simp]: "scim_wf (d\<lparr>db_up := b\<rparr>) = scim_wf d"
  by (simp add: scim_wf_def db_wf_def groups_wf_def)

lemma in_step_up [simp]: "in_step rolesFor (d\<lparr>db_up := b\<rparr>) = in_step rolesFor d"
  by (rule in_step_cong) simp_all

lemma at_call_keeps [simp]:
  "scim_wf (at_call env k d) = scim_wf d" "in_step rolesFor (at_call env k d) = in_step rolesFor d"
  by (simp_all add: at_call_def)

text \<open>Every request of the protocol that may change the tables, whatever it is answered.\<close>

inductive scim_step :: "(string, string) alist \<Rightarrow> db \<Rightarrow> db \<Rightarrow> bool" for m where
  create_user: "scim_step m d (snd (handle_CreateUser env body d))"
| replace_user: "scim_step m d (snd (handle_ReplaceUser env i body d))"
| patch_user: "scim_step m d (snd (handle_PatchUser env i patch d))"
| delete_user: "scim_step m d (snd (handle_DeleteUser env i d))"
| create_group: "sv_rolesFor env = RolesForGroups m \<Longrightarrow> scim_step m d (snd (handle_CreateGroup env gbody d))"
| replace_group: "sv_rolesFor env = RolesForGroups m \<Longrightarrow> scim_step m d (snd (handle_ReplaceGroup env i gbody d))"
| patch_group: "sv_rolesFor env = RolesForGroups m \<Longrightarrow> scim_step m d (snd (handle_PatchGroup env i patch d))"
| delete_group: "sv_rolesFor env = RolesForGroups m \<Longrightarrow> scim_step m d (snd (handle_DeleteGroup env i d))"

definition provisioned :: "(string, string) alist \<Rightarrow> db \<Rightarrow> bool" where
  "provisioned m d \<longleftrightarrow> scim_wf d \<and> in_step (RolesForGroups m) d"

lemma provisioned_at_call [simp]: "provisioned m (at_call env k d) = provisioned m d"
  by (simp add: provisioned_def)

lemma user_ops_provisioned:
  assumes "provisioned m d"
  shows "provisioned m (snd (CreateUser j s c n w d))" "provisioned m (snd (ReplaceUser c n s w d))" "provisioned m (snd (SetActive c n s b d))"
proof -
  have wf: "scim_wf d" and inv: "in_step (RolesForGroups m) d" using assms by (simp_all add: provisioned_def)
  obtain r1 d1 where c: "CreateUser j s c n w d = (r1, d1)" by fastforce
  obtain r2 d2 where r: "ReplaceUser c n s w d = (r2, d2)" by fastforce
  obtain r3 d3 where a: "SetActive c n s b d = (r3, d3)" by fastforce
  show "provisioned m (snd (CreateUser j s c n w d))" using CreateUser_keeps [OF wf c] inv c by (simp add: provisioned_def)
  show "provisioned m (snd (ReplaceUser c n s w d))" using ReplaceUser_keeps [OF wf r] inv r by (simp add: provisioned_def)
  show "provisioned m (snd (SetActive c n s b d))" using SetActive_keeps [OF wf a] inv a by (simp add: provisioned_def)
qed

lemma patch_user_provisioned:
  "provisioned m d \<Longrightarrow> provisioned m (snd (patch_user env i k ps u d))"
proof (induction ps arbitrary: k u d)
  case (Cons p ps)
  have set_active: "provisioned m d'" if "SetActive (sv_clock env) (sv_now env) i b (at_call env (k + 3) d) = (r, d')" for b r d'
    using user_ops_provisioned(3) [of m "at_call env (k + 3) d" "sv_clock env" "sv_now env" i b] Cons.prems that by simp
  show ?case
    using Cons set_active by (fastforce split: option.splits prod.splits sum.splits)
qed simp

lemma group_ops_provisioned:
  assumes "provisioned m d"
  shows "provisioned m (snd (CreateGroup j s n w (RolesForGroups m) d))" "provisioned m (snd (ReplaceGroup n s w (RolesForGroups m) d))"
    "provisioned m (snd (PatchGroupMembers n s add remove name (RolesForGroups m) d))" "provisioned m (snd (DeleteGroup s (RolesForGroups m) d))"
proof -
  have wf: "scim_wf d" and inv: "in_step (RolesForGroups m) d" using assms by (simp_all add: provisioned_def)
  note laws = configured.CreateGroup_keeps configured.ReplaceGroup_keeps configured.PatchGroupMembers_keeps configured.DeleteGroup_keeps
  show "provisioned m (snd (CreateGroup j s n w (RolesForGroups m) d))" "provisioned m (snd (ReplaceGroup n s w (RolesForGroups m) d))"
    "provisioned m (snd (PatchGroupMembers n s add remove name (RolesForGroups m) d))" "provisioned m (snd (DeleteGroup s (RolesForGroups m) d))"
    unfolding provisioned_def by (rule laws [OF wf inv surjective_pairing])+
qed

lemma scim_step_provisioned:
  assumes "scim_step m d d'" and inv: "provisioned m d"
  shows "provisioned m d'"
  using assms(1)
proof cases
  case (create_user env body)
  then show ?thesis
    using inv user_ops_provisioned(1) [of m "at_call env 0 d"]
    by (auto simp: handle_CreateUser_def split: sum.splits if_splits prod.splits option.splits) (metis provisioned_at_call snd_conv)+
next
  case (replace_user env i body)
  then show ?thesis
    using inv user_ops_provisioned(2) [of m "at_call env 3 d"]
    by (auto simp: handle_ReplaceUser_def split: sum.splits prod.splits option.splits) (metis provisioned_at_call snd_conv)+
next
  case (patch_user env i patch)
  then show ?thesis
    using inv patch_user_provisioned [OF inv] by (auto simp: handle_PatchUser_def split: sum.splits option.splits)
next
  case (delete_user env i)
  then show ?thesis
    using inv user_ops_provisioned(3) [of m "at_call env 3 d"]
    by (auto simp: handle_DeleteUser_def split: sum.splits prod.splits option.splits) (metis provisioned_at_call snd_conv)+
next
  case (create_group env g)
  then show ?thesis
    using inv group_ops_provisioned(1) [of m "at_call env 0 d"]
    by (auto simp: handle_CreateGroup_def split: sum.splits if_splits prod.splits option.splits) (metis provisioned_at_call snd_conv)+
next
  case (replace_group env i g)
  then show ?thesis
    using inv group_ops_provisioned(2) [of m "at_call env 0 d"]
    by (auto simp: handle_ReplaceGroup_def split: sum.splits prod.splits) (metis provisioned_at_call snd_conv)+
next
  case (patch_group env i patch)
  then show ?thesis
    using inv group_ops_provisioned(3) [of m "at_call env k d" for k]
    by (auto simp: handle_PatchGroup_def split: sum.splits prod.splits) (metis provisioned_at_call snd_conv)+
next
  case (delete_group env i)
  then show ?thesis
    using inv group_ops_provisioned(4) [of m "at_call env 0 d"]
    by (auto simp: handle_DeleteGroup_def split: sum.splits prod.splits)
qed

text \<open>
  C18. Roles follow groups. From tables in step with the configured role map, whatever requests a
  directory sends, in whatever order, and whatever they are answered, every person's roles from the
  directory are among those the groups they are now in imply, and they hold every role their groups
  imply; the tables stay well-formed.
\<close>

theorem directory_roles_follow_groups:
  assumes "(scim_step m)\<^sup>*\<^sup>* d d'" "scim_wf d" "in_step (RolesForGroups m) d"
  shows "scim_wf d' \<and> (\<forall>i. directory_roles d' i \<subseteq> set (RolesForGroups m (groupNamesOf d' i))
    \<and> set (RolesForGroups m (groupNamesOf d' i)) \<subseteq> set (roles_of d' i))"
proof -
  have "provisioned m d" using assms(2,3) by (simp add: provisioned_def)
  with assms(1) have "provisioned m d'" by (induction rule: rtranclp_induct) (auto intro: scim_step_provisioned)
  then show ?thesis by (simp add: provisioned_def in_step_def implied_roles_def)
qed

subsection \<open>A small directory\<close>

definition demo_scim_env :: scim_env where
  "demo_scim_env = \<lparr>sv_up = (\<lambda>_. True), sv_new_id = 20, sv_scim_id = ''s20'', sv_clock = 50, sv_now = 50, sv_format = (\<lambda>_. ''t''),
     sv_order = id, sv_rolesFor = RolesForGroups [(''ops'', ''admin''), (''devs'', ''contributor'')]\<rparr>"

definition person :: "uuid \<Rightarrow> string \<Rightarrow> principal_row" where
  "person i name = (new_row i 1 (''user:'' @ name) PrincipalKindUser name)\<lparr>pw_scim_id := Some (''s'' @ name), pw_user_name := Some name\<rparr>"

definition demo_directory :: db where
  "demo_directory = \<lparr>db_up = True, db_principals = [person 1 ''a'', person 2 ''b''],
     db_bindings = [binding 1 GrantSourceSCIM None ''contributor'', binding 2 GrantSourceSCIM None ''contributor''],
     db_sessions = [\<lparr>sr_id = 9, sr_token_hash = ''h'', sr_principal_id = 1, sr_created_at = 1, sr_expires_at = 100,
       sr_last_seen_at = None, sr_user_agent = '''', sr_id_token = ''''\<rparr>],
     db_saml_requests = [],
     db_groups = [\<lparr>gr_id = 7, gr_scim_id = ''g7'', gr_external_id = None, gr_display_name = ''devs'', gr_created_at = 1, gr_updated_at = 1\<rparr>],
     db_members = [(7, 1), (7, 2)]\<rparr>"

lemma demo_directory_wf: "scim_wf demo_directory"
  by (simp add: scim_wf_def db_wf_def principals_wf_def names_wf_def groups_wf_def bindings_wf_def sessions_wf_def binding_key_def
      demo_directory_def person_def new_row_def row_check_def PrincipalKindUser_def PrincipalKindAPIKey_def role_check_def binding_def)

lemma demo_directory_in_step: "in_step (sv_rolesFor demo_scim_env) demo_directory"
proof -
  have names: "groupNamesOf demo_directory i = (if i = 1 \<or> i = 2 then [''devs''] else [])" for i
    by (auto simp: groupNamesOf_def demo_directory_def)
  have "RolesForGroups [(''ops'', ''admin''), (''devs'', ''contributor'')] [''devs''] = [''contributor'']"
    "RolesForGroups [(''ops'', ''admin''), (''devs'', ''contributor'')] [] = []" by code_simp+
  moreover have "db_bindings demo_directory = [binding 1 GrantSourceSCIM None ''contributor'', binding 2 GrantSourceSCIM None ''contributor'']"
    by (simp add: demo_directory_def)
  ultimately show ?thesis
    by (auto simp: in_step_def implied_roles_def names demo_scim_env_def directory_roles_def roles_of_def)
qed

theorem directory_roles_follow_groups_witness:
  "directory_roles (snd (handle_DeleteGroup demo_scim_env ''g7'' demo_directory)) 1 = {}
   \<and> fst (handle_DeleteGroup demo_scim_env ''g7'' demo_directory) = (204, NoContent)"
proof -
  let ?d = "snd (handle_DeleteGroup demo_scim_env ''g7'' demo_directory)"
  have step: "(scim_step [(''ops'', ''admin''), (''devs'', ''contributor'')])\<^sup>*\<^sup>* demo_directory ?d"
    by (rule r_into_rtranclp, rule scim_step.delete_group) (simp add: demo_scim_env_def)
  have "RolesForGroups [(''ops'', ''admin''), (''devs'', ''contributor'')] (groupNamesOf ?d 1) = []" by code_simp
  moreover have "fst (handle_DeleteGroup demo_scim_env ''g7'' demo_directory) = (204, NoContent)" by code_simp
  moreover have "in_step (RolesForGroups [(''ops'', ''admin''), (''devs'', ''contributor'')]) demo_directory"
    using demo_directory_in_step by (simp add: demo_scim_env_def)
  from directory_roles_follow_groups [OF step demo_directory_wf this]
  have "directory_roles ?d 1 \<subseteq> set (RolesForGroups [(''ops'', ''admin''), (''devs'', ''contributor'')] (groupNamesOf ?d 1))" by blast
  ultimately show ?thesis by (metis set_empty2 subset_empty)
qed

section \<open>Deprovisioning\<close>

lemma SetActive_effect:
  assumes "SetActive clock now scimID active d = (Inr (Some u), d')" and wf: "scim_wf d"
  obtains p where "p \<in> set (db_principals d)" "pw_scim_id p = Some scimID"
    "db_principals d' = map (\<lambda>q. if pw_id q = pw_id p then q\<lparr>pw_disabled_at := disabledAt clock active, pw_updated_at := now\<rparr> else q) (db_principals d)"
    "db_sessions d' = (if active then db_sessions d else filter (\<lambda>s. sr_principal_id s \<noteq> pw_id p) (db_sessions d))"
    "db_bindings d' = db_bindings d"
proof -
  obtain p where p: "find (\<lambda>q. pw_scim_id q = Some scimID) (db_principals d) = Some p"
    and d': "d' = (let d1 = d\<lparr>db_principals := update_where (\<lambda>q. pw_scim_id q = Some scimID)
                      (\<lambda>q. q\<lparr>pw_disabled_at := disabledAt clock active, pw_updated_at := now\<rparr>) (db_principals d)\<rparr>
      in if active then d1 else d1\<lparr>db_sessions := delete_where (\<lambda>s. sr_principal_id s = pw_id p) (db_sessions d1)\<rparr>)"
    using assms(1) by (auto simp: SetActive_def Let_def split: option.splits)
  have pm: "p \<in> set (db_principals d)" "pw_scim_id p = Some scimID" using find_SomeD [OF p] by auto
  have pwf: "principals_wf (db_principals d)" "names_wf (db_principals d)" using wf by (simp_all add: scim_wf_def db_wf_def)
  have "pw_scim_id q = Some scimID \<longleftrightarrow> pw_id q = pw_id p" if "q \<in> set (db_principals d)" for q
    using one_row [of "db_principals d" p scimID q] pwf pm wf_same_id [OF pwf(1) pm(1) that] that by (auto simp: names_wf_def)
  then have upd: "update_where (\<lambda>q. pw_scim_id q = Some scimID) f (db_principals d) = map (\<lambda>q. if pw_id q = pw_id p then f q else q) (db_principals d)" for f
    unfolding update_where_def by (intro map_cong) auto
  have rows: "db_principals d' = map (\<lambda>q. if pw_id q = pw_id p then q\<lparr>pw_disabled_at := disabledAt clock active, pw_updated_at := now\<rparr> else q) (db_principals d)"
    unfolding d' Let_def upd by (cases active) simp_all
  have sessions: "db_sessions d' = (if active then db_sessions d else filter (\<lambda>s. sr_principal_id s \<noteq> pw_id p) (db_sessions d))"
    unfolding d' Let_def by (cases active) (simp_all add: delete_where_def)
  have "db_bindings d' = db_bindings d" unfolding d' Let_def by (cases active) simp_all
  then show thesis by (rule that [OF pm rows sessions])
qed

lemma stmt_error_cong: "db_up d' = db_up d \<Longrightarrow> stmt_error d' args = stmt_error d args"
  by (simp add: stmt_error_def)

lemma SetActive_result:
  assumes "SetActive clock now s b d = (r, d')"
  shows "d' = d \<and> (r = Inr None \<or> (\<exists>e. r = Inl e)) \<or> (\<exists>u. r = Inr (Some u))"
proof (cases "stmt_error d [s]")
  case None
  let ?P = "\<lambda>q. pw_scim_id q = Some s"
  let ?f = "\<lambda>q. q\<lparr>pw_disabled_at := disabledAt clock b, pw_updated_at := now\<rparr>"
  show ?thesis
  proof (cases "find ?P (db_principals d)")
    case (Some p)
    have found: "find ?P (update_where ?P ?f (db_principals d)) = map_option (\<lambda>r. if ?P r then ?f r else r) (find ?P (db_principals d))"
      by (rule find_update_where) simp
    let ?d1 = "d\<lparr>db_principals := update_where ?P ?f (db_principals d)\<rparr>"
    let ?d2 = "if b then ?d1 else ?d1\<lparr>db_sessions := delete_where (\<lambda>s. sr_principal_id s = pw_id p) (db_sessions d)\<rparr>"
    have "stmt_error ?d2 [s] = None" using None stmt_error_cong [of ?d2 d "[s]"] by simp
    moreover have "db_principals ?d2 = update_where ?P ?f (db_principals d)" by simp
    ultimately have "\<exists>u. FindUser ?d2 s = Inr (Some u)" using found Some unfolding FindUser_def by simp
    moreover have "r = FindUser ?d2 s" using assms None Some by (auto simp: SetActive_def Let_def split: if_splits)
    ultimately show ?thesis by simp
  qed (use assms None in \<open>simp add: SetActive_def\<close>)
qed (use assms in \<open>auto simp: SetActive_def\<close>)

text \<open>What the guard before a deactivation promises: if it lets the request go on, some other enabled
  administrator remains, or the person is none.\<close>

lemma other_enabled_admins:
  assumes "SCIM_CountOtherEnabledAdmins d scimID = Inr n"
  shows "0 < n \<longleftrightarrow> (\<exists>p \<in> set (db_principals d). pw_scim_id p \<noteq> Some scimID \<and> pw_id p \<in> {i. \<exists>b \<in> set (db_bindings d). rb_principal b = i
      \<and> rb_scope b = ScopeStoreWide \<and> rb_role b = ''admin''} \<and> pw_disabled_at p = None)"
proof -
  have n: "n = length (filter (\<lambda>(p, b). rb_principal b = pw_id p \<and> rb_scope b = ScopeStoreWide \<and> rb_role b = ''admin''
          \<and> pw_disabled_at p = None \<and> pw_scim_id p \<noteq> Some scimID) (List.product (db_principals d) (db_bindings d)))"
    using assms by (auto simp: SCIM_CountOtherEnabledAdmins_def split: option.splits)
  show ?thesis unfolding n length_greater_0_conv filter_empty_conv by force
qed

lemma admin_binding: "RoleAdmin \<in> set (roles_of d i) \<longleftrightarrow> (\<exists>b \<in> set (db_bindings d). rb_principal b = i \<and> rb_scope b = ScopeStoreWide \<and> rb_role b = ''admin'')"
  by (force simp: roles_of_def RoleAdmin_def)

lemma deactivate_None:
  assumes wf: "scim_wf d" and ok: "deactivate env k scimID d = None" and some: "admin_ids d \<noteq> {}"
  shows "\<exists>p \<in> set (db_principals d). pw_scim_id p \<noteq> Some scimID \<and> pw_id p \<in> admin_ids d"
proof (rule ccontr)
  assume none: "\<not> (\<exists>p \<in> set (db_principals d). pw_scim_id p \<noteq> Some scimID \<and> pw_id p \<in> admin_ids d)"
  obtain n where n: "SCIM_CountOtherEnabledAdmins (at_call env k d) scimID = Inr n"
    using ok by (auto simp: deactivate_def split: sum.splits)
  have "n = 0"
  proof (rule ccontr)
    assume "n \<noteq> 0"
    then obtain p where p: "p \<in> set (db_principals d)" "pw_scim_id p \<noteq> Some scimID" "pw_disabled_at p = None"
      "\<exists>b \<in> set (db_bindings d). rb_principal b = pw_id p \<and> rb_scope b = ScopeStoreWide \<and> rb_role b = ''admin''"
      using other_enabled_admins [OF n] by (auto simp: at_call_def)
    then have "pw_id p \<in> admin_ids d" using admin_idsI [OF p(1) refl p(3)] admin_binding by blast
    then show False using none p by blast
  qed
  obtain i p where p: "p \<in> set (db_principals d)" "pw_id p = i" "pw_disabled_at p = None" "RoleAdmin \<in> set (roles_of d i)"
    using some by (auto simp: admin_ids_def)
  then have "pw_id p \<in> admin_ids d" by (auto intro: admin_idsI)
  then have s: "pw_scim_id p = Some scimID" using none p(1) by blast
  have "pw_scim_id q = Some scimID \<longleftrightarrow> q = p" if "q \<in> set (db_principals d)" for q
    using one_row [of "db_principals d" p scimID q] wf p(1) s that by (simp add: scim_wf_def names_wf_def)
  then have found: "find (\<lambda>q. pw_scim_id q = Some scimID) (db_principals d) = Some p"
    using p(1) s by (intro find_unique) auto
  have "su_ID (scanSCIMUser p) = i" using p(2) by (simp add: scanSCIMUser_def)
  moreover have "list_ex (\<lambda>b. rb_principal b = i \<and> rb_scope b = ScopeStoreWide \<and> rb_role b = ''admin'') (db_bindings d)"
    using p(4) admin_binding by (simp add: list_ex_iff)
  ultimately have "isAdmin env (k + 2) (scanSCIMUser p) d"
    by (simp add: isAdmin_def HasAdminRole_def at_call_def split: option.splits)
  then show False
    using ok n \<open>n = 0\<close> found by (auto simp: deactivate_def FindUser_def at_call_def split: option.splits)
qed

lemma admins_after:
  assumes "db_bindings d' = db_bindings d" "p \<in> set (db_principals d')" "pw_id p \<in> admin_ids d" "pw_disabled_at p = None"
  shows "admin_ids d' \<noteq> {}"
proof -
  have "RoleAdmin \<in> set (roles_of d' (pw_id p))" using assms(1,3) by (auto simp: admin_ids_def roles_of_def)
  then show ?thesis using admin_idsI [OF assms(2) refl assms(4)] by blast
qed

lemma rows_keep_admin:
  assumes rows: "db_principals d' = map (\<lambda>q. if pw_scim_id q = Some s then f q else q) (db_principals d)" and same: "db_bindings d' = db_bindings d"
    and f: "\<And>q. pw_id (f q) = pw_id q" and kept: "admin_ids d \<noteq> {}"
    and ok: "(\<forall>q. pw_disabled_at (f q) = None) \<or> (\<exists>p \<in> set (db_principals d). pw_scim_id p \<noteq> Some s \<and> pw_id p \<in> admin_ids d)"
    and wf: "scim_wf d"
  shows "admin_ids d' \<noteq> {}"
proof -
  have enabled: "pw_disabled_at q = None" if "q \<in> set (db_principals d)" "pw_id q \<in> admin_ids d" for q
    using that wf wf_same_id [of "db_principals d" q] by (auto simp: admin_ids_def scim_wf_def db_wf_def)
  from ok show ?thesis
  proof
    assume on: "\<forall>q. pw_disabled_at (f q) = None"
    obtain p where p: "p \<in> set (db_principals d)" "pw_id p \<in> admin_ids d" using kept by (auto simp: admin_ids_def)
    have "(if pw_scim_id p = Some s then f p else p) \<in> set (db_principals d')" unfolding rows using p(1) by auto
    then show ?thesis by (rule admins_after [OF same]) (use p enabled on f in auto)
  next
    assume "\<exists>p \<in> set (db_principals d). pw_scim_id p \<noteq> Some s \<and> pw_id p \<in> admin_ids d"
    then obtain p where p: "p \<in> set (db_principals d)" "pw_scim_id p \<noteq> Some s" "pw_id p \<in> admin_ids d" by blast
    have "p \<in> set (db_principals d')" unfolding rows using p(1,2) by force
    then show ?thesis by (rule admins_after [OF same]) (use p enabled in auto)
  qed
qed

lemma SetActive_admins:
  assumes run: "SetActive clock now s b d = (r, d')" and wf: "scim_wf d" and kept: "admin_ids d \<noteq> {}"
    and ok: "b \<or> (\<exists>p \<in> set (db_principals d). pw_scim_id p \<noteq> Some s \<and> pw_id p \<in> admin_ids d)"
  shows "admin_ids d' \<noteq> {}"
  using SetActive_result [OF run]
proof
  assume "\<exists>u. r = Inr (Some u)"
  let ?P = "\<lambda>q. pw_scim_id q = Some s"
  let ?f = "\<lambda>q. q\<lparr>pw_disabled_at := disabledAt clock b, pw_updated_at := now\<rparr>"
  have "db_principals d' = update_where ?P ?f (db_principals d) \<and> db_bindings d' = db_bindings d"
    using run \<open>\<exists>u. r = Inr (Some u)\<close> by (auto simp: SetActive_def Let_def split: option.splits if_splits)
  then show ?thesis
    by (intro rows_keep_admin [OF _ _ _ kept _ wf, where f = ?f and s = s]) (use ok in \<open>auto simp: update_where_def disabledAt_def\<close>)
qed (use kept in auto)

lemma ReplaceUser_admins:
  assumes run: "ReplaceUser clock now s w d = (r, d')" and wf: "scim_wf d" and kept: "admin_ids d \<noteq> {}"
    and ok: "sw_Active w \<or> (\<exists>p \<in> set (db_principals d). pw_scim_id p \<noteq> Some s \<and> pw_id p \<in> admin_ids d)"
  shows "admin_ids d' \<noteq> {}"
proof (cases "d' = d")
  case False
  have "db_principals d' = update_where (\<lambda>q. pw_scim_id q = Some s) (replaced clock now w) (db_principals d) \<and> db_bindings d' = db_bindings d"
    using run False by (auto simp: ReplaceUser_def Let_def split: option.splits if_splits)
  then show ?thesis
    by (intro rows_keep_admin [OF _ _ _ kept _ wf, where f = "replaced clock now w" and s = s])
      (use ok in \<open>auto simp: update_where_def disabledAt_def replaced_def\<close>)
qed (use kept in simp)

lemma admin_ids_at_call [simp]: "admin_ids (at_call env k d) = admin_ids d"
  by (simp add: admin_ids_def at_call_def roles_of_def)

lemma db_principals_at_call [simp]: "db_principals (at_call env k d) = db_principals d"
  by (simp add: at_call_def)

lemma patch_user_admins:
  "scim_wf d \<Longrightarrow> admin_ids d \<noteq> {} \<Longrightarrow> admin_ids (snd (patch_user env i k ps u d)) \<noteq> {}"
proof (induction ps arbitrary: k u d)
  case (Cons p ps)
  show ?case
  proof (cases "folds_to (po_Op p) ''remove'' \<or> activeFromPatch (sv_order env) (po_Path p) (po_Value p) = None")
    case True
    then show ?thesis using Cons.IH [OF Cons.prems] by auto
  next
    case False
    then obtain active where a: "activeFromPatch (sv_order env) (po_Path p) (po_Value p) = Some active" by blast
    show ?thesis
    proof (cases "if active then None else deactivate env k i d")
      case (Some reply)
      then show ?thesis using False a Cons.prems(2) by simp
    next
      case None
      obtain r d' where run: "SetActive (sv_clock env) (sv_now env) i active (at_call env (k + 3) d) = (r, d')" by fastforce
      have ok: "active \<or> (\<exists>p \<in> set (db_principals d). pw_scim_id p \<noteq> Some i \<and> pw_id p \<in> admin_ids d)"
        using None deactivate_None [OF Cons.prems(1) _ Cons.prems(2)] by (auto split: if_splits)
      have wf: "scim_wf (at_call env (k + 3) d)" using Cons.prems(1) by simp
      have admins: "admin_ids d' \<noteq> {}" by (rule SetActive_admins [OF run wf]) (use Cons.prems(2) ok in simp_all)
      have wf': "scim_wf d'" using SetActive_keeps [OF wf run] by blast
      show ?thesis using False a None run admins Cons.IH [OF wf' admins] by (auto split: sum.splits option.splits)
    qed
  qed
qed simp

text \<open>The requests about people who are already provisioned.\<close>

inductive user_step :: "db \<Rightarrow> db \<Rightarrow> bool" where
  replace: "user_step d (snd (handle_ReplaceUser env i body d))"
| patch: "user_step d (snd (handle_PatchUser env i patch_body d))"
| delete: "user_step d (snd (handle_DeleteUser env i d))"

lemma user_step_admins:
  assumes "user_step d d'" and wf: "scim_wf d" and kept: "admin_ids d \<noteq> {}"
  shows "admin_ids d' \<noteq> {}"
  using assms(1)
proof cases
  case (replace env i body)
  show ?thesis
  proof (cases body)
    case (Inr req)
    show ?thesis
    proof (cases "if rq_Active req = Some False then deactivate env 0 i d else None")
      case None
      obtain r d1 where run: "ReplaceUser (sv_clock env) (sv_now env) i (user_write req) (at_call env 3 d) = (r, d1)" by fastforce
      have "sw_Active (user_write req) \<or> (\<exists>p \<in> set (db_principals d). pw_scim_id p \<noteq> Some i \<and> pw_id p \<in> admin_ids d)"
        using None deactivate_None [OF wf _ kept] by (auto simp: user_write_def split: if_splits option.splits)
      then have "admin_ids d1 \<noteq> {}" by (intro ReplaceUser_admins [OF run]) (use wf kept in simp_all)
      then show ?thesis using replace Inr None run by (simp add: handle_ReplaceUser_def)
    qed (use replace Inr kept in \<open>simp add: handle_ReplaceUser_def\<close>)
  qed (use replace kept in \<open>simp add: handle_ReplaceUser_def\<close>)
next
  case (patch env i body)
  then show ?thesis
    using kept patch_user_admins [OF wf kept] by (auto simp: handle_PatchUser_def split: sum.splits option.splits)
next
  case (delete env i)
  show ?thesis
  proof (cases "deactivate env 0 i d")
    case None
    obtain r d1 where run: "SetActive (sv_clock env) (sv_now env) i False (at_call env 3 d) = (r, d1)" by fastforce
    have "admin_ids d1 \<noteq> {}"
      by (rule SetActive_admins [OF run]) (use wf kept deactivate_None [OF wf None kept] in simp_all)
    then show ?thesis using delete None run by (auto simp: handle_DeleteUser_def split: sum.splits option.splits)
  qed (use delete kept in \<open>simp add: handle_DeleteUser_def\<close>)
qed

lemma user_step_wf:
  assumes "user_step d d'" "scim_wf d"
  shows "scim_wf d'"
proof -
  have patch: "scim_wf (snd (Scim_API.patch_user env i k ps u d))" if "scim_wf d" for env i k ps u d
    using that
  proof (induction ps arbitrary: k u d)
    case (Cons p ps)
    have "scim_wf d1" if "SetActive (sv_clock env) (sv_now env) i b (at_call env (k + 3) d) = (r, d1)" for b r d1
      using SetActive_keeps [OF _ that] Cons.prems by simp
    then show ?case using Cons by (fastforce split: option.splits prod.splits sum.splits)
  qed simp
  show ?thesis
    using assms(1)
  proof cases
    case (replace env i body)
    have "scim_wf d1" if "ReplaceUser (sv_clock env) (sv_now env) i w (at_call env 3 d) = (r, d1)" for w r d1
      using ReplaceUser_keeps [OF _ that] assms(2) by simp
    then show ?thesis using replace assms(2) by (auto simp: handle_ReplaceUser_def split: sum.splits option.splits prod.splits)
  next
    case (patch env i body)
    then show ?thesis using assms(2) \<open>\<And>u ps k i env d. scim_wf d \<Longrightarrow> scim_wf (snd (Scim_API.patch_user env i k ps u d))\<close>
      by (auto simp: handle_PatchUser_def split: sum.splits option.splits)
  next
    case (delete env i)
    have "scim_wf d1" if "SetActive (sv_clock env) (sv_now env) i b (at_call env 3 d) = (r, d1)" for b r d1
      using SetActive_keeps [OF _ that] assms(2) by simp
    then show ?thesis using delete assms(2) by (auto simp: handle_DeleteUser_def split: sum.splits option.splits prod.splits)
  qed
qed

text \<open>
  C19. A directory cannot lock the store. From well-formed tables with an enabled administrator, no
  sequence of replacements, patches and deletions of people, whatever they are answered and
  whichever calls to the database fail, ends without one.
\<close>

theorem directory_keeps_an_admin:
  assumes "user_step\<^sup>*\<^sup>* d d'" "scim_wf d" "admin_ids d \<noteq> {}"
  shows "scim_wf d' \<and> admin_ids d' \<noteq> {}"
proof -
  from assms(1) show ?thesis
    by (induction rule: rtranclp_induct) (use assms(2,3) user_step_wf user_step_admins in blast)+
qed

text \<open>The directory with one local administrator.\<close>

definition demo_staff :: db where
  "demo_staff = demo_directory\<lparr>db_bindings := binding 1 GrantSourceLocal None RoleAdmin # db_bindings demo_directory\<rparr>"

lemma demo_staff_wf: "scim_wf demo_staff"
  by (simp add: scim_wf_def db_wf_def principals_wf_def names_wf_def groups_wf_def bindings_wf_def sessions_wf_def binding_key_def
      demo_staff_def demo_directory_def person_def new_row_def row_check_def PrincipalKindUser_def PrincipalKindAPIKey_def
      role_check_def binding_def RoleAdmin_def GrantSourceLocal_def GrantSourceSCIM_def)

lemma demo_staff_admin: "admin_ids demo_staff \<noteq> {}"
proof -
  have "1 \<in> admin_ids demo_staff"
    by (rule admin_idsI [of "person 1 ''a''"])
      (simp_all add: demo_staff_def demo_directory_def person_def new_row_def roles_of_def binding_def)
  then show ?thesis by blast
qed

lemma deactivate_status: "deactivate env k scimID d = Some r \<Longrightarrow> fst r = 500 \<or> fst r = 403"
  by (auto simp: deactivate_def scim_fail_def split: sum.splits if_splits option.splits)

theorem directory_keeps_an_admin_witness:
  "fst (handle_DeleteUser demo_scim_env ''sb'' demo_staff) = (204, NoContent)
   \<and> admin_ids (snd (handle_DeleteUser demo_scim_env ''sb'' demo_staff)) \<noteq> {}
   \<and> fst (fst (handle_DeleteUser demo_scim_env ''sa'' (snd (handle_DeleteUser demo_scim_env ''sb'' demo_staff)))) = 403"
proof -
  have "user_step\<^sup>*\<^sup>* demo_staff (snd (handle_DeleteUser demo_scim_env ''sb'' demo_staff))"
    by (rule r_into_rtranclp, rule user_step.delete)
  from directory_keeps_an_admin [OF this demo_staff_wf demo_staff_admin]
  have "admin_ids (snd (handle_DeleteUser demo_scim_env ''sb'' demo_staff)) \<noteq> {}" by blast
  moreover have "fst (handle_DeleteUser demo_scim_env ''sb'' demo_staff) = (204, NoContent)" by code_simp
  moreover have "fst (fst (handle_DeleteUser demo_scim_env ''sa'' (snd (handle_DeleteUser demo_scim_env ''sb'' demo_staff)))) = 403" by code_simp
  ultimately show ?thesis by blast
qed

text \<open>
  C20. Deprovisioning shuts a person out. When a deletion is answered 204, the person the identifier
  names can no longer authenticate: their row is disabled, none of their sessions is left, and the
  rows, sessions and roles of everybody else are as they were.
\<close>

theorem deprovisioning_shuts_out:
  assumes "handle_DeleteUser env scimID d = ((204, NoContent), d')" and "scim_wf d"
  shows "\<exists>p \<in> set (db_principals d). pw_scim_id p = Some scimID
    \<and> (\<forall>q \<in> set (db_principals d'). pw_id q = pw_id p \<longrightarrow> pw_disabled_at q = Some (sv_clock env))
    \<and> filter (\<lambda>q. pw_id q \<noteq> pw_id p) (db_principals d') = filter (\<lambda>q. pw_id q \<noteq> pw_id p) (db_principals d)
    \<and> db_sessions d' = filter (\<lambda>s. sr_principal_id s \<noteq> pw_id p) (db_sessions d)
    \<and> db_bindings d' = db_bindings d"
proof -
  obtain u where run: "SetActive (sv_clock env) (sv_now env) scimID False (at_call env 3 d) = (Inr (Some u), d')"
    using assms(1) deactivate_status [of env 0 scimID d]
    by (auto simp: handle_DeleteUser_def scim_fail_def notFound_def split: option.splits prod.splits sum.splits)
  have wf: "scim_wf (at_call env 3 d)" using assms(2) by simp
  have others: "filter (\<lambda>q. pw_id q \<noteq> i) (map (\<lambda>q. if pw_id q = i then f q else q) rows) = filter (\<lambda>q. pw_id q \<noteq> i) rows"
    if "\<And>q. pw_id (f q) = pw_id q" for i rows and f :: "principal_row \<Rightarrow> principal_row"
    using that by (induction rows) auto
  show ?thesis
    by (rule SetActive_effect [OF run wf]) (auto simp: at_call_def disabledAt_def others)
qed

theorem deprovisioning_shuts_out_witness:
  "\<exists>p \<in> set (db_principals demo_directory). pw_scim_id p = Some ''sa''
    \<and> db_sessions (snd (handle_DeleteUser demo_scim_env ''sa'' demo_directory)) = filter (\<lambda>s. sr_principal_id s \<noteq> pw_id p) (db_sessions demo_directory)"
proof -
  have reply: "fst (handle_DeleteUser demo_scim_env ''sa'' demo_directory) = (204, NoContent)" by code_simp
  obtain d' where d': "handle_DeleteUser demo_scim_env ''sa'' demo_directory = ((204, NoContent), d')"
    using reply by (cases "handle_DeleteUser demo_scim_env ''sa'' demo_directory") simp
  from deprovisioning_shuts_out [OF this demo_directory_wf]
  show ?thesis unfolding d' snd_conv by blast
qed

section \<open>Where the protocol surprises\<close>

text \<open>Replacing the members of a group by those it has removes them all: they are added, and then taken out.\<close>

lemma replacing_members_removes_them:
  "db_members (snd (handle_PatchGroup demo_scim_env ''g7''
      (Inr [\<lparr>po_Op = ''replace'', po_Path = ''members'',
             po_Value = Some (JArr [JObj [(''value'', JStr ''sa'')], JObj [(''value'', JStr ''sb'')]])\<rparr>]) demo_directory)) = []"
  by code_simp

text \<open>Deactivating by replacement leaves the person's sessions in the table.\<close>

lemma replacement_keeps_sessions:
  "map sr_principal_id (db_sessions (snd (handle_ReplaceUser demo_scim_env ''sa''
      (Inr \<lparr>rq_UserName = ''a'', rq_ExternalID = '''', rq_DisplayName = ''a'', rq_Name = None, rq_Emails = [], rq_Active = Some False\<rparr>)
      demo_directory))) = [1]"
  by code_simp

text \<open>A patch that sets \<^verbatim>\<open>active\<close> to null deactivates.\<close>

lemma null_deactivates: "activeFromPatch ord ''active'' (Some JNull) = Some False"
  by code_simp

text \<open>Creating a person as inactive under the name of the only administrator, who was never
  provisioned, disables them.\<close>

definition demo_founder :: db where
  "demo_founder = demo_staff\<lparr>db_principals := [(person 1 ''a'')\<lparr>pw_scim_id := None, pw_user_name := None\<rparr>, person 2 ''b'']\<rparr>"

lemma adoption_disables_the_last_admin:
  "map (\<lambda>p. pw_disabled_at p = None) (db_principals (snd (handle_CreateUser demo_scim_env
      (Inr \<lparr>rq_UserName = ''a'', rq_ExternalID = '''', rq_DisplayName = ''a'', rq_Name = None, rq_Emails = [], rq_Active = Some False\<rparr>)
      demo_founder))) = [False, True]"
  by code_simp

end
