(* ===== verification/Scim_Discovery.thy ===== *)
theory Scim_Discovery
  imports Scim_API
begin

text \<open>
  What a provisioner reads before it provisions anything: \<^verbatim>\<open>internal/api/scimdiscovery.go\<close>. The three
  documents are JSON values, with the members of an object in the order they are written; the lemmas compare
  what they advertise with what the handlers of \<^verbatim>\<open>Scim_API\<close> do.
\<close>

definition schemaListResponse :: string where "schemaListResponse = ''urn:ietf:params:scim:api:messages:2.0:ListResponse''"
definition schemaServiceProviderConfig :: string where
  "schemaServiceProviderConfig = ''urn:ietf:params:scim:schemas:core:2.0:ServiceProviderConfig''"
definition schemaResourceType :: string where "schemaResourceType = ''urn:ietf:params:scim:schemas:core:2.0:ResourceType''"
definition schemaSchema :: string where "schemaSchema = ''urn:ietf:params:scim:schemas:core:2.0:Schema''"

definition json_int :: "int \<Rightarrow> json" where
  "json_int n = JNum (of_int n)"

definition supported :: "bool \<Rightarrow> json" where
  "supported b = JObj [(''supported'', JBool b)]"

definition meta_of :: "string \<Rightarrow> string \<Rightarrow> json" where
  "meta_of typ location = JObj [(''resourceType'', JStr typ), (''location'', JStr location)]"

definition listResponse :: "json list \<Rightarrow> json" where
  "listResponse resources = JObj [
     (''schemas'', JArr [JStr schemaListResponse]),
     (''totalResults'', json_int (int (length resources))),
     (''startIndex'', json_int 1),
     (''itemsPerPage'', json_int (int (length resources))),
     (''Resources'', JArr resources)]"

definition attribute :: "string \<Rightarrow> string \<Rightarrow> bool \<Rightarrow> string \<Rightarrow> string \<Rightarrow> json" where
  "attribute name typ required mutability description = JObj ([
     (''name'', JStr name),
     (''type'', JStr typ),
     (''multiValued'', JBool False),
     (''required'', JBool required),
     (''caseExact'', JBool False),
     (''mutability'', JStr mutability),
     (''returned'', JStr ''default''),
     (''uniqueness'', JStr (if name = ''userName'' then ''server'' else ''none''))]
     @ (if description = '''' then [] else [(''description'', JStr description)]))"

definition complexAttribute :: "string \<Rightarrow> string \<Rightarrow> json list \<Rightarrow> json" where
  "complexAttribute name description subs = JObj [
     (''name'', JStr name),
     (''type'', JStr ''complex''),
     (''multiValued'', JBool (name = ''emails'' \<or> name = ''members'')),
     (''required'', JBool False),
     (''mutability'', JStr ''readWrite''),
     (''returned'', JStr ''default''),
     (''description'', JStr description),
     (''subAttributes'', JArr subs)]"

definition ServiceProviderConfig :: "nat \<times> json" where
  "ServiceProviderConfig = (200, JObj [
     (''schemas'', JArr [JStr schemaServiceProviderConfig]),
     (''patch'', supported True),
     (''bulk'', JObj [(''supported'', JBool False), (''maxOperations'', json_int 0), (''maxPayloadSize'', json_int 0)]),
     (''filter'', JObj [(''supported'', JBool True), (''maxResults'', json_int maxPageSize)]),
     (''changePassword'', supported False),
     (''sort'', supported False),
     (''etag'', supported False),
     (''authenticationSchemes'', JArr [JObj [
        (''type'', JStr ''oauthbearertoken''),
        (''name'', JStr ''OAuth Bearer Token''),
        (''description'', JStr ''An evidence store API key held by the provisioning client''),
        (''primary'', JBool True)]]),
     (''meta'', meta_of ''ServiceProviderConfig'' ''/scim/v2/ServiceProviderConfig'')])"

definition ResourceTypes :: "nat \<times> json" where
  "ResourceTypes = (200, listResponse [
     JObj [
       (''schemas'', JArr [JStr schemaResourceType]),
       (''id'', JStr ''User''),
       (''name'', JStr ''User''),
       (''endpoint'', JStr ''/Users''),
       (''description'', JStr ''A person who may sign in and file evidence''),
       (''schema'', JStr schemaUser),
       (''meta'', meta_of ''ResourceType'' ''/scim/v2/ResourceTypes/User'')],
     JObj [
       (''schemas'', JArr [JStr schemaResourceType]),
       (''id'', JStr ''Group''),
       (''name'', JStr ''Group''),
       (''endpoint'', JStr ''/Groups''),
       (''description'', JStr ''A directory group, whose name decides what its members may do here''),
       (''schema'', JStr schemaGroup),
       (''meta'', meta_of ''ResourceType'' ''/scim/v2/ResourceTypes/Group'')]])"

definition user_attributes :: "json list" where
  "user_attributes = [
     attribute ''userName'' ''string'' True ''readWrite'' ''The login name, unique across the store'',
     attribute ''externalId'' ''string'' False ''readWrite'' ''The provisioner's own identifier, echoed back and never matched on here'',
     attribute ''displayName'' ''string'' False ''readWrite'' ''The name shown beside their evidence'',
     attribute ''active'' ''boolean'' False ''readWrite'' ''False disables the account and ends every session it has open'',
     complexAttribute ''name'' ''The parts a display name is composed from when one is not sent'' [
       attribute ''givenName'' ''string'' False ''readWrite'' '''',
       attribute ''familyName'' ''string'' False ''readWrite'' '''',
       attribute ''formatted'' ''string'' False ''readWrite'' ''''],
     complexAttribute ''emails'' ''The address their evidence is filed under'' [
       attribute ''value'' ''string'' False ''readWrite'' '''',
       attribute ''primary'' ''boolean'' False ''readWrite'' '''',
       attribute ''type'' ''string'' False ''readWrite'' '''']]"

definition group_attributes :: "json list" where
  "group_attributes = [
     attribute ''displayName'' ''string'' True ''readWrite'' ''Looked up in the store's group-to-role map; an unmapped group grants nothing'',
     attribute ''externalId'' ''string'' False ''readWrite'' ''The provisioner's own identifier for the group'',
     complexAttribute ''members'' ''The people in the group'' [
       attribute ''value'' ''string'' False ''readWrite'' '''',
       attribute ''display'' ''string'' False ''readOnly'' '''']]"

definition Schemas :: "nat \<times> json" where
  "Schemas = (200, listResponse [
     JObj [
       (''schemas'', JArr [JStr schemaSchema]),
       (''id'', JStr schemaUser),
       (''name'', JStr ''User''),
       (''description'', JStr ''A person who may sign in and file evidence''),
       (''attributes'', JArr user_attributes),
       (''meta'', meta_of ''Schema'' (''/scim/v2/Schemas/'' @ schemaUser))],
     JObj [
       (''schemas'', JArr [JStr schemaSchema]),
       (''id'', JStr schemaGroup),
       (''name'', JStr ''Group''),
       (''description'', JStr ''A directory group, whose name decides what its members may do here''),
       (''attributes'', JArr group_attributes),
       (''meta'', meta_of ''Schema'' (''/scim/v2/Schemas/'' @ schemaGroup))]])"

section \<open>What is advertised is what is done\<close>

text \<open>The value a path of member names leads to in a document.\<close>

fun json_at :: "string list \<Rightarrow> json \<Rightarrow> json option" where
  "json_at [] j = Some j"
| "json_at (k # ks) (JObj ms) = (case map_of ms k of None \<Rightarrow> None | Some j \<Rightarrow> json_at ks j)"
| "json_at (k # ks) j = None"

lemma pageOf_bounds: "pageOf a b = (start, n) \<Longrightarrow> 1 \<le> start \<and> 0 \<le> n \<and> n \<le> maxPageSize"
  by (auto simp: pageOf_def Let_def maxPageSize_def defaultPageSize_def split: if_splits option.splits sum.splits)

lemma scim_page_length: "length (scim_page start n xs) \<le> nat n"
  by (simp add: scim_page_def)

text \<open>A listing answers no more resources than \<^verbatim>\<open>maxResults\<close>, whatever count is asked for.\<close>

lemma listing_within_maxResults:
  assumes "handle_ListUsers env raw startIndex cnt d = (200, UserList total_n start n users)"
  shows "json_at [''filter'', ''maxResults''] (snd ServiceProviderConfig) = Some (json_int maxPageSize)
    \<and> int (length users) \<le> maxPageSize \<and> n = length users"
proof
  obtain f p where f: "parseUserFilter raw = Inr f" and p: "pageOf startIndex cnt = p"
    using assms by (auto simp: handle_ListUsers_def split: sum.splits)
  obtain us where us: "ListUsers (f\<lparr>sf_StartIndex := fst p, sf_Count := snd p\<rparr>) (at_call env 0 d) = Inr us"
    using assms f p by (auto simp: handle_ListUsers_def scim_fail_def split: sum.splits prod.splits)
  have "users = map (resource (sv_format env)) (fst us)" "n = length (fst us)"
    using assms f p us by (auto simp: handle_ListUsers_def split: prod.splits)
  moreover have "length (fst us) \<le> nat (snd p)"
    using us by (auto simp: ListUsers_def Let_def scim_page_def split: option.splits if_splits)
  moreover have "0 \<le> snd p" "snd p \<le> maxPageSize" using pageOf_bounds [of startIndex cnt "fst p" "snd p"] p by simp_all
  ultimately show "int (length users) \<le> maxPageSize \<and> n = length users" by simp
qed code_simp

end
