(* ===== verification/Spec2Isabelle.thy ===== *)
theory Spec2Isabelle
  imports Server Analytics Campaign_Lifecycle Scim_Discovery
begin

text \<open>
  Verification of the evidence store, a Go service that keeps the results of tests and reviews of
  software as immutable records, answers queries over them, and decides by policy when they may go.
  The sources are under \<^verbatim>\<open>src/\<close>; a file named below is under \<^verbatim>\<open>src/internal/\<close> unless said otherwise.

  \<^bold>\<open>The program.\<close> A request passes the middlewares of \<^verbatim>\<open>server/server.go\<close>: authentication by static
  key, stored key or browser session (\<^verbatim>\<open>auth/\<close>), the CSRF check, the rate limit (\<^verbatim>\<open>ratelimit/\<close>) and
  the permissions of its route. A handler of \<^verbatim>\<open>api/\<close> then validates it (\<^verbatim>\<open>validate/\<close>) and works on the
  tables through a store (\<^verbatim>\<open>store/\<close>): principals, sessions and role bindings, evidence, inheritance
  declarations and references to attachments (\<^verbatim>\<open>blob/\<close>). Analytics are computed from the evidence
  table (\<^verbatim>\<open>analytics/\<close>). Background workers delete expired sessions (\<^verbatim>\<open>expiry/\<close>) and, by policy,
  evidence and attachments nobody refers to (\<^verbatim>\<open>retention/\<close>).

  \<^bold>\<open>The theories\<close>, in the order in which they build on each other.
  \<^item> \<open>Prelude\<close>, \<open>Model\<close>: Go's strings, UUIDs, instants and 64-bit durations; the records of \<^verbatim>\<open>model/\<close>.
  \<^item> \<open>Auth\<close>: \<^verbatim>\<open>auth/\<close>: permissions, roles, principals, source binding, keys, authenticators, the
    chain and the middlewares.
  \<^item> \<open>Identity_Store\<close>, \<open>Identity_Laws\<close>: the identity tables and the SQL of \<^verbatim>\<open>store/principal.go\<close>,
    \<^verbatim>\<open>session.go\<close> and \<^verbatim>\<open>samlrequest.go\<close>, and what they promise.
  \<^item> \<open>Expiry\<close>: \<^verbatim>\<open>expiry/sweeper.go\<close>. \<open>Principal_API\<close>: \<^verbatim>\<open>api/principals.go\<close> and the bootstrap.
  \<^item> \<open>RateLimit\<close>: \<^verbatim>\<open>ratelimit/\<close>. \<open>Server\<close>: the wiring of \<^verbatim>\<open>server/server.go\<close>.
  \<^item> \<open>Blob\<close>: addresses of and references to attachments. \<open>Evidence_Store\<close>, \<open>Evidence_Query\<close>:
    \<^verbatim>\<open>store/evidence.go\<close>, \<^verbatim>\<open>filter.go\<close>, \<^verbatim>\<open>pagination.go\<close> and \<^verbatim>\<open>blobref.go\<close>.
  \<^item> \<open>Retention\<close>: \<^verbatim>\<open>retention/\<close>. \<open>Evidence_API\<close>: \<^verbatim>\<open>api/evidence.go\<close>, \<^verbatim>\<open>inheritance.go\<close>, \<^verbatim>\<open>filter.go\<close>.
  \<^item> \<open>Metrics\<close>, \<open>Cofailure\<close>: \<^verbatim>\<open>analytics/metrics.go\<close>, \<^verbatim>\<open>stats.go\<close> and \<^verbatim>\<open>cluster.go\<close>.

  \<^bold>\<open>How the code is modelled.\<close> A Go struct is a record and an error value the left of a sum. A table
  is the list of its rows and a statement a function on it; the constraints of the migrations are
  the errors it can return. Where failures matter, \<open>fails n\<close> says whether the \<open>n\<close>th statement fails,
  so that a theorem covers every point at which a connection can break; a transaction keeps its
  changes only if it commits. The clock, random bytes and generated identifiers are arguments. So is
  code outside the repository (the hash, the token bucket, the database's regular expressions and
  collation, UUID and date parsing); where a theorem needs something of it, that is a hypothesis.
  Loops that might not end are partial functions, and that they end is proved (\<open>ScanAll\<close>,
  \<open>uf_find\<close>, \<open>greedy\<close>); no fuel is used.

  \<^bold>\<open>What is shown\<close>, the claims being numbered in the theories. Filing: a batch is stored as a whole
  or not at all, resending it stores nothing, a record carries the source its caller may write, and
  each record of a batch is answered under its own index. Reading: the SQL of a filter means what
  the filter says, and following cursors visits every match once. Retention: a pass ends, deletes
  what the policy says and nothing pinned or inherited, and never an attachment still referred to.
  Access: no request reaches a handler without the permissions of its route, a viewer changes
  nothing, revocation takes effect at once, and the last administrator stays. Analytics: clusters
  are the connected components of similarity, and the greedy cover ends and covers every run.

  \<^bold>\<open>Interfaces\<close> are locales, interpreted on the model: the token-bearing credentials of revocation,
  the deleters of the sweeper, the consumers of a scan, the comparisons of a sort.

  \<^bold>\<open>Not modelled.\<close> JSON, YAML and XML decoding (a body is what decoding it gave), HTTP and SQL
  transport, the SAML and OpenID Connect protocols, goroutine scheduling below the level of
  statements, metrics and logging, the demo data of \<^verbatim>\<open>src/scripts\<close> and the embedded web pages.
\<close>

end
